(* ===== verification/Prelude.thy ===== *)
theory Prelude
  imports Main "HOL-Library.Multiset"
begin

text \<open>
  Shared vocabulary of the development: JavaScript collections with their insertion order,
  the \<open>RionBridgeError\<close> values the main process throws, small facts on lists, and the
  interfaces (locales) that several components implement:
  \<^item> \<open>keyed_store\<close>: a \<open>Map\<close> with lookup, insertion and deletion;
  \<^item> \<open>bounded_log\<close>: a journal that keeps the last \<open>capacity\<close> records;
  \<^item> \<open>guarded_machine\<close>: operations that keep an invariant, run one after another.
\<close>

section \<open>Errors as values\<close>

text \<open>
  A thrown \<open>RionBridgeError\<close> is its stable \<open>code\<close>; the English \<open>message\<close> carries no
  decision and is left out. \<open>PlainError\<close> is a thrown \<open>Error\<close> without a code.
\<close>

datatype js_error = BridgeError string | PlainError

type_synonym 'a outcome = "js_error + 'a"

fun is_ok :: "'a outcome \<Rightarrow> bool" where
  "is_ok (Inr _) = True"
| "is_ok (Inl _) = False"

text \<open>Sequencing: an error ends the computation.\<close>

fun and_then :: "'a outcome \<Rightarrow> ('a \<Rightarrow> 'b outcome) \<Rightarrow> 'b outcome" where
  "and_then (Inl e) f = Inl e"
| "and_then (Inr x) f = f x"

lemma and_then_Inr [simp]: "and_then r f = Inr y \<longleftrightarrow> (\<exists>x. r = Inr x \<and> f x = Inr y)"
  by (cases r) auto

text \<open>
  The code \<open>normalizeRionBridgeError\<close> (\<open>src/src/electron/ipc/errors.ts\<close>) gives an error: its own
  when it is not blank, else the fallback.  Errors are taken to carry a message.
\<close>

definition js_space :: "char \<Rightarrow> bool" where
  "js_space c \<longleftrightarrow> (let n = (of_char c :: nat) in (9 \<le> n \<and> n \<le> 13) \<or> n = 32 \<or> n = 160)"

definition js_trim :: "string \<Rightarrow> string" where
  "js_trim s = rev (dropWhile js_space (rev (dropWhile js_space s)))"

definition normalizeRionBridgeError :: "string \<Rightarrow> js_error \<Rightarrow> string" where
  "normalizeRionBridgeError fallback e =
     (case e of
        BridgeError c \<Rightarrow> if js_trim c = [] then fallback else c
      | PlainError \<Rightarrow> fallback)"

text \<open>Values of unknown type at a trust boundary: a string, or something else.\<close>

datatype js_value = JsString string | JsOther

section \<open>Strings\<close>

text \<open>
  Strings are lists of 8-bit characters; every character is one UTF-16 code unit, so
  \<open>length\<close> is JavaScript's \<open>length\<close> on them; \<open>js_trim\<close> strips the white space of
  \<open>String.prototype.trim\<close> in that range.
\<close>

definition js_lower_char :: "char \<Rightarrow> char" where
  "js_lower_char c =
     (let n = (of_char c :: nat)
      in if (65 \<le> n \<and> n \<le> 90) \<or> (192 \<le> n \<and> n \<le> 222 \<and> n \<noteq> 215) then char_of (n + 32) else c)"

definition js_lower :: "string \<Rightarrow> string" where
  "js_lower s = map js_lower_char s"

definition starts_with :: "string \<Rightarrow> string \<Rightarrow> bool" where
  "starts_with p s \<longleftrightarrow> take (length p) s = p"

lemma starts_with_append [simp]: "starts_with p (p @ s)"
  by (simp add: starts_with_def)

lemma js_lower_Nil [simp]: "js_lower s = [] \<longleftrightarrow> s = []"
  by (simp add: js_lower_def)

text \<open>Template literals write a natural number in decimal.\<close>

definition digit_string :: "nat \<Rightarrow> string" where
  "digit_string n = [char_of (48 + n)]"

fun nat_string :: "nat \<Rightarrow> string" where
  "nat_string n = (if n < 10 then digit_string n else nat_string (n div 10) @ digit_string (n mod 10))"

declare nat_string.simps [simp del]

section \<open>Integers\<close>

text \<open>\<open>Number.isSafeInteger\<close> on the integers a double holds exactly.\<close>

definition MAX_SAFE_INTEGER :: int where "MAX_SAFE_INTEGER = 9007199254740991"

definition isSafeInteger :: "int \<Rightarrow> bool" where
  "isSafeInteger n \<longleftrightarrow> \<bar>n\<bar> \<le> MAX_SAFE_INTEGER"

section \<open>The interface of a keyed store\<close>

locale keyed_store =
  fixes lookup :: "'m \<Rightarrow> 'k \<Rightarrow> 'v option"
    and insert_at :: "'k \<Rightarrow> 'v \<Rightarrow> 'm \<Rightarrow> 'm"
    and remove_at :: "'k \<Rightarrow> 'm \<Rightarrow> 'm"
    and count :: "'m \<Rightarrow> nat"
    and wf :: "'m \<Rightarrow> bool"
  assumes lookup_insert: "lookup (insert_at k v m) = (lookup m)(k \<mapsto> v)"
    and lookup_remove: "lookup (remove_at k m) = (lookup m)(k := None)"
    and wf_insert: "wf m \<Longrightarrow> wf (insert_at k v m)"
    and wf_remove: "wf m \<Longrightarrow> wf (remove_at k m)"
    and finite_keys: "finite (dom (lookup m))"
    and count_keys: "wf m \<Longrightarrow> count m = card (dom (lookup m))"
begin

lemma count_insert_new:
  "wf m \<Longrightarrow> lookup m k = None \<Longrightarrow> count (insert_at k v m) = Suc (count m)"
  by (simp add: count_keys wf_insert lookup_insert finite_keys domIff)

lemma count_insert_old:
  "wf m \<Longrightarrow> lookup m k = Some w \<Longrightarrow> count (insert_at k v m) = count m"
  by (simp add: count_keys wf_insert lookup_insert finite_keys domI insert_absorb)

lemma count_insert_le: "wf m \<Longrightarrow> count (insert_at k v m) \<le> Suc (count m)"
  by (cases "lookup m k") (simp_all add: count_insert_new count_insert_old)

lemma count_remove_present:
  assumes "wf m" and "lookup m k = Some v"
  shows "Suc (count (remove_at k m)) = count m"
proof -
  have "k \<in> dom (lookup m)" using assms(2) by auto
  then have "Suc (card (dom (lookup m) - {k})) = card (dom (lookup m))"
    by (metis card_Suc_Diff1 finite_keys)
  then show ?thesis using assms(1) by (simp add: count_keys wf_remove lookup_remove)
qed

lemma count_remove_le: "wf m \<Longrightarrow> count (remove_at k m) \<le> count m"
  by (simp add: count_keys wf_remove lookup_remove card_Diff1_le)

end

section \<open>JavaScript maps\<close>

text \<open>
  A \<open>Map\<close> iterates in insertion order: \<open>set\<close> on a present key keeps its position, on a new
  key appends; \<open>delete\<close> closes the gap.
\<close>

type_synonym ('k, 'v) js_map = "('k \<times> 'v) list"

definition jm_get :: "('k, 'v) js_map \<Rightarrow> 'k \<Rightarrow> 'v option" where
  "jm_get m k = map_of m k"

fun jm_set :: "'k \<Rightarrow> 'v \<Rightarrow> ('k, 'v) js_map \<Rightarrow> ('k, 'v) js_map" where
  "jm_set k v [] = [(k, v)]"
| "jm_set k v (e # m) = (if fst e = k then (k, v) # m else e # jm_set k v m)"

definition jm_delete :: "'k \<Rightarrow> ('k, 'v) js_map \<Rightarrow> ('k, 'v) js_map" where
  "jm_delete k m = filter (\<lambda>e. fst e \<noteq> k) m"

definition jm_has :: "('k, 'v) js_map \<Rightarrow> 'k \<Rightarrow> bool" where
  "jm_has m k \<longleftrightarrow> jm_get m k \<noteq> None"

definition jm_wf :: "('k, 'v) js_map \<Rightarrow> bool" where
  "jm_wf m \<longleftrightarrow> distinct (map fst m)"

lemma jm_get_Nil [simp]: "jm_get [] k = None"
  by (simp add: jm_get_def)

lemma jm_wf_Nil [simp]: "jm_wf []"
  by (simp add: jm_wf_def)

lemma jm_get_set [simp]: "jm_get (jm_set k v m) = (jm_get m)(k \<mapsto> v)"
  by (rule ext, induction m) (auto simp: jm_get_def)

lemma jm_get_delete [simp]: "jm_get (jm_delete k m) = (jm_get m)(k := None)"
  by (rule ext, induction m) (auto simp: jm_get_def jm_delete_def)

lemma jm_set_keys: "set (map fst (jm_set k v m)) = insert k (set (map fst m))"
  by (induction m) auto

lemma jm_wf_set [simp]: "jm_wf m \<Longrightarrow> jm_wf (jm_set k v m)"
proof (induction m)
  case Nil
  then show ?case by (simp add: jm_wf_def)
next
  case (Cons e m)
  then show ?case using jm_set_keys [of k v m] by (auto simp: jm_wf_def)
qed

lemma jm_wf_delete [simp]: "jm_wf m \<Longrightarrow> jm_wf (jm_delete k m)"
  by (simp add: jm_wf_def jm_delete_def distinct_map_filter)

lemma jm_get_map_of: "jm_get m = map_of m"
  by (rule ext) (simp add: jm_get_def)

lemma jm_get_dom: "dom (jm_get m) = set (map fst m)"
  by (simp add: jm_get_map_of dom_map_of_conv_image_fst)

lemma jm_get_in_values: "jm_get m k = Some v \<Longrightarrow> v \<in> snd ` set m"
  by (force simp: jm_get_def dest: map_of_SomeD)

text \<open>Sums over the entries of a map.\<close>

lemma jm_delete_absent: "k \<notin> fst ` set m \<Longrightarrow> jm_delete k m = m"
  by (auto simp: jm_delete_def filter_id_conv)

lemma jm_delete_Cons: "jm_delete k (e # m) = (if fst e = k then jm_delete k m else e # jm_delete k m)"
  by (simp add: jm_delete_def)

lemma jm_sum_delete:
  fixes g :: "'k \<times> 'v \<Rightarrow> 'a :: comm_monoid_add"
  shows "jm_wf m \<Longrightarrow> (\<Sum>e\<leftarrow>m. g e) =
     (\<Sum>e\<leftarrow>jm_delete k m. g e) + (case jm_get m k of None \<Rightarrow> 0 | Some v \<Rightarrow> g (k, v))"
proof (induction m)
  case (Cons e m)
  then show ?case
    using jm_delete_absent [of k m]
    by (cases e) (auto simp: jm_wf_def jm_delete_Cons jm_get_def ac_simps)
qed (simp add: jm_delete_def)

lemma jm_sum_set:
  fixes g :: "'k \<times> 'v \<Rightarrow> 'a :: comm_monoid_add"
  shows "jm_wf m \<Longrightarrow> (\<Sum>e\<leftarrow>jm_set k v m. g e) = (\<Sum>e\<leftarrow>jm_delete k m. g e) + g (k, v)"
proof (induction m)
  case (Cons e m)
  then show ?case
    using jm_delete_absent [of k m] by (cases e) (auto simp: jm_wf_def jm_delete_Cons ac_simps)
qed (simp add: jm_delete_def)

interpretation jm: keyed_store jm_get jm_set jm_delete length jm_wf
proof unfold_locales
  fix m :: "('a, 'b) js_map"
  show "finite (dom (jm_get m))" by (simp add: jm_get_dom)
  show "length m = card (dom (jm_get m))" if "jm_wf m"
    using that distinct_card [of "map fst m"] by (simp add: jm_wf_def jm_get_dom)
qed simp_all

section \<open>Queues by role\<close>

text \<open>
  The coordinators chain the jobs of a role behind one promise (\<open>#tails\<close>): a role runs its jobs one
  after another, in the order they came.
\<close>

definition next_of_role :: "string \<Rightarrow> (string \<times> 'j) list \<Rightarrow> 'j option" where
  "next_of_role q js = map_option snd (find (\<lambda>e. fst e = q) js)"

fun drop_of_role :: "string \<Rightarrow> (string \<times> 'j) list \<Rightarrow> (string \<times> 'j) list" where
  "drop_of_role q [] = []"
| "drop_of_role q (e # js) = (if fst e = q then js else e # drop_of_role q js)"

lemma find_mem: "find P xs = Some x \<Longrightarrow> x \<in> set xs \<and> P x"
  by (induction xs) (auto split: if_splits)

lemma next_of_role_mem: "next_of_role q js = Some j \<Longrightarrow> (q, j) \<in> set js"
  using find_mem [of "\<lambda>e. fst e = q" js] by (auto simp: next_of_role_def)

lemma drop_of_role_subset: "set (drop_of_role q js) \<subseteq> set js"
  by (induction js) auto

lemma drop_of_role_length: "next_of_role q js = Some j \<Longrightarrow> length js = Suc (length (drop_of_role q js))"
  by (induction js) (auto simp: next_of_role_def)

lemma drop_of_role_mset: "next_of_role q js = Some j \<Longrightarrow> mset js = add_mset (q, j) (mset (drop_of_role q js))"
  by (induction js) (auto simp: next_of_role_def split: if_splits)

section \<open>JavaScript sets\<close>

text \<open>A \<open>Set\<close> as the list of its elements in insertion order.\<close>

definition js_add :: "'a \<Rightarrow> 'a list \<Rightarrow> 'a list" where
  "js_add x xs = (if x \<in> set xs then xs else xs @ [x])"

definition js_set_of :: "'a list \<Rightarrow> 'a list" where
  "js_set_of xs = fold js_add xs []"

lemma set_js_add [simp]: "set (js_add x xs) = insert x (set xs)"
  by (auto simp: js_add_def)

lemma distinct_js_add [simp]: "distinct xs \<Longrightarrow> distinct (js_add x xs)"
  by (auto simp: js_add_def)

lemma set_fold_js_add: "set (fold js_add xs ys) = set xs \<union> set ys"
  by (induction xs arbitrary: ys) auto

lemma distinct_fold_js_add: "distinct ys \<Longrightarrow> distinct (fold js_add xs ys)"
  by (induction xs arbitrary: ys) auto

lemma set_js_set_of [simp]: "set (js_set_of xs) = set xs"
  by (simp add: js_set_of_def set_fold_js_add)

lemma distinct_js_set_of [simp]: "distinct (js_set_of xs)"
  by (simp add: js_set_of_def distinct_fold_js_add)

lemma fold_js_add_distinct:
  "distinct (ys @ xs) \<Longrightarrow> fold js_add xs ys = ys @ xs"
  by (induction xs arbitrary: ys) (auto simp: js_add_def)

lemma js_set_of_distinct: "distinct xs \<Longrightarrow> js_set_of xs = xs"
  using fold_js_add_distinct [of "[]" xs] by (simp add: js_set_of_def)

section \<open>Machines with an invariant\<close>

text \<open>Operations run one after another; an invariant each of them keeps holds after every run.\<close>

locale guarded_machine =
  fixes step :: "'op \<Rightarrow> 's \<Rightarrow> 's"
    and inv :: "'s \<Rightarrow> bool"
  assumes step_inv: "inv s \<Longrightarrow> inv (step x s)"
begin

lemma run_inv: "inv s \<Longrightarrow> inv (fold step xs s)"
  by (induction xs arbitrary: s) (simp_all add: step_inv)

lemma run_reaches:
  assumes "inv s" and "\<And>t. inv t \<Longrightarrow> P t"
  shows "P (fold step xs s)"
  using assms run_inv by blast

lemma run_stable:
  assumes "inv s" and "P s" and "\<And>x t. inv t \<Longrightarrow> P t \<Longrightarrow> P (step x t)"
  shows "P (fold step xs s)"
proof -
  have "inv (fold step xs s) \<and> P (fold step xs s)"
    using assms(1,2)
  proof (induction xs arbitrary: s)
    case (Cons x xs)
    then show ?case using step_inv assms(3) by simp
  qed simp
  then show ?thesis ..
qed

end

section \<open>Bounded journals\<close>

text \<open>
  A journal that may annotate what it holds (\<open>touch\<close>), appends a record and discards from the
  front what exceeds its capacity; \<open>dropped\<close> counts the discarded.
\<close>

locale bounded_log =
  fixes push :: "'r \<Rightarrow> 'j \<Rightarrow> 'j"
    and entries :: "'j \<Rightarrow> 'e list"
    and dropped :: "'j \<Rightarrow> nat"
    and touch :: "'r \<Rightarrow> 'e list \<Rightarrow> 'e list"
    and entry_of :: "'r \<Rightarrow> 'j \<Rightarrow> 'e"
    and capacity :: nat
    and ok :: "'j \<Rightarrow> bool"
  assumes entries_push: "ok j \<Longrightarrow>
      entries (push r j) =
        (let es = touch r (entries j) @ [entry_of r j] in drop (length es - capacity) es)"
    and dropped_push: "ok j \<Longrightarrow>
      dropped (push r j) = dropped j + (Suc (length (entries j)) - capacity)"
    and length_touch: "length (touch r es) = length es"
    and ok_push: "ok j \<Longrightarrow> ok (push r j)"
    and ok_bound: "ok j \<Longrightarrow> length (entries j) \<le> capacity"
    and positive: "0 < capacity"

sublocale bounded_log \<subseteq> log: guarded_machine push ok
  by unfold_locales (rule ok_push)

context bounded_log begin

lemma run_bound: "ok j \<Longrightarrow> length (entries (fold push rs j)) \<le> capacity"
  by (rule ok_bound [OF log.run_inv])

lemma newest_retained:
  "ok j \<Longrightarrow> entries (push r j) \<noteq> [] \<and> last (entries (push r j)) = entry_of r j"
  using ok_bound [of j] positive by (simp add: entries_push Let_def length_touch)

lemma push_conserves:
  "ok j \<Longrightarrow>
     length (entries (push r j)) + dropped (push r j) = Suc (length (entries j) + dropped j)"
  using ok_bound [of j] by (simp add: entries_push dropped_push Let_def length_touch)

lemma run_conserves:
  "ok j \<Longrightarrow>
     length (entries (fold push rs j)) + dropped (fold push rs j)
       = length rs + length (entries j) + dropped j"
proof (induction rs arbitrary: j)
  case (Cons r rs)
  then show ?case using push_conserves [of j r] ok_push [of j r] by simp
qed simp

end

text \<open>Keeping the last \<open>n\<close> elements.\<close>

definition keep_last :: "nat \<Rightarrow> 'a list \<Rightarrow> 'a list" where
  "keep_last n xs = drop (length xs - n) xs"

lemma length_keep_last [simp]: "length (keep_last n xs) = min n (length xs)"
  by (simp add: keep_last_def)

lemma keep_last_all [simp]: "length xs \<le> n \<Longrightarrow> keep_last n xs = xs"
  by (simp add: keep_last_def)

lemma keep_last_append [simp]: "keep_last n (keep_last n xs @ ys) = keep_last n (xs @ ys)"
proof (cases "length xs \<le> n")
  case False
  then have "keep_last n (keep_last n xs @ ys) = drop (length ys) (drop (length xs - n) xs @ ys)"
    by (simp add: keep_last_def)
  also have "\<dots> = drop (length ys + (length xs - n)) (xs @ ys)"
    using False by (simp add: add.commute)
  finally show ?thesis using False by (simp add: keep_last_def add.commute)
qed simp

text \<open>Changing the last element that satisfies a predicate.\<close>

fun update_first :: "('a \<Rightarrow> bool) \<Rightarrow> ('a \<Rightarrow> 'a) \<Rightarrow> 'a list \<Rightarrow> 'a list" where
  "update_first P f [] = []"
| "update_first P f (x # xs) = (if P x then f x # xs else x # update_first P f xs)"

definition update_last :: "('a \<Rightarrow> bool) \<Rightarrow> ('a \<Rightarrow> 'a) \<Rightarrow> 'a list \<Rightarrow> 'a list" where
  "update_last P f xs = rev (update_first P f (rev xs))"

lemma length_update_first [simp]: "length (update_first P f xs) = length xs"
  by (induction xs) auto

lemma length_update_last [simp]: "length (update_last P f xs) = length xs"
  by (simp add: update_last_def)

lemma update_first_split:
  "P x \<Longrightarrow> \<forall>y \<in> set ys. \<not> P y \<Longrightarrow> update_first P f (ys @ x # zs) = ys @ f x # zs"
  by (induction ys) auto

lemma update_last_split:
  "P x \<Longrightarrow> \<forall>y \<in> set zs. \<not> P y \<Longrightarrow> update_last P f (ys @ x # zs) = ys @ f x # zs"
  using update_first_split [of P x "rev zs" f "rev ys"] by (simp add: update_last_def)

lemma update_last_none: "\<forall>y \<in> set xs. \<not> P y \<Longrightarrow> update_last P f xs = xs"
proof -
  have "\<forall>y \<in> set ys. \<not> P y \<Longrightarrow> update_first P f ys = ys" for ys by (induction ys) auto
  from this [of "rev xs"] show "\<forall>y \<in> set xs. \<not> P y \<Longrightarrow> update_last P f xs = xs"
    by (simp add: update_last_def)
qed

end
