(* ===== verification/Session_Ownership.thy ===== *)
theory Session_Ownership
  imports Prelude
begin

text \<open>
  The process-local ownership fence of Chromium sessions
  (\<open>src/src/electron/main/chromiumSessionOwnershipLedger.ts\<close>) and the wire-path check it
  uses (\<open>chromiumSessionPath.ts\<close>).  Electron's native \<open>Session\<close> objects and the frozen lease
  objects are compared by reference in the code; here both carry a number for their identity.
  Node's \<open>path\<close> module is the parameter \<open>path_api\<close>.
\<close>

section \<open>Paths\<close>

datatype platform = Darwin | Win32

record path_api =
  is_absolute :: "platform \<Rightarrow> string \<Rightarrow> bool"
  normalize_path :: "platform \<Rightarrow> string \<Rightarrow> string"

definition ascii_letter :: "char \<Rightarrow> bool" where
  "ascii_letter c \<longleftrightarrow>
     (let n = (of_char c :: nat) in (65 \<le> n \<and> n \<le> 90) \<or> (97 \<le> n \<and> n \<le> 122))"

abbreviation backslash :: char where "backslash \<equiv> CHR 0x5C"

text \<open>The pattern \<open>[a-z]:\\\<close>, case-insensitive.\<close>

fun drive_prefix :: "string \<Rightarrow> bool" where
  "drive_prefix (d # c # b # _) \<longleftrightarrow> ascii_letter d \<and> c = CHR '':'' \<and> b = backslash"
| "drive_prefix _ \<longleftrightarrow> False"

text \<open>The pattern \<open>\\\\[^\\]+\\[^\\]+(?:\\|$)\<close>: after the greedy second name only a backslash
  or the end can follow.\<close>

fun unc_prefix :: "string \<Rightarrow> bool" where
  "unc_prefix (b1 # b2 # rest) \<longleftrightarrow>
     b1 = backslash \<and> b2 = backslash \<and> takeWhile (\<lambda>c. c \<noteq> backslash) rest \<noteq> [] \<and>
     (case dropWhile (\<lambda>c. c \<noteq> backslash) rest of
        [] \<Rightarrow> False
      | _ # share \<Rightarrow> takeWhile (\<lambda>c. c \<noteq> backslash) share \<noteq> [])"
| "unc_prefix _ \<longleftrightarrow> False"

definition canonicalChromiumPath :: "path_api \<Rightarrow> js_value \<Rightarrow> platform \<Rightarrow> string option" where
  "canonicalChromiumPath api value platform =
     (case value of
        JsOther \<Rightarrow> None
      | JsString s \<Rightarrow>
          if s = [] \<or> CHR 0x00 \<in> set s then None
          else if platform = Win32 \<and>
              (starts_with [backslash, backslash, CHR ''?'', backslash] s \<or>
               starts_with [backslash, backslash, CHR ''.'', backslash] s) then None
          else if platform = Win32 \<and> \<not> (drive_prefix s \<or> unc_prefix s) then None
          else if is_absolute api platform s \<and> normalize_path api platform s = s
            then Some s else None)"

definition chromiumPathKey :: "string \<Rightarrow> platform \<Rightarrow> string" where
  "chromiumPathKey path platform = (if platform = Win32 then js_lower path else path)"

definition chromiumPathSegmentEquals :: "string \<Rightarrow> string \<Rightarrow> platform \<Rightarrow> bool" where
  "chromiumPathSegmentEquals actual expected platform \<longleftrightarrow>
     chromiumPathKey actual platform = chromiumPathKey expected platform"

lemma canonical_same: "canonicalChromiumPath api v p = Some c \<Longrightarrow> v = JsString c \<and> c \<noteq> []"
  by (auto simp: canonicalChromiumPath_def split: js_value.splits if_splits)

section \<open>The ledger\<close>

datatype native_session = NativeSession nat | NotAnObject

record lease =
  lease_ref :: nat  \<comment> \<open>identity of the frozen object\<close>
  lease_owner :: string
  lease_path :: string
  lease_session :: nat

record active_claim =
  claim_lease :: lease
  claim_key :: string

record ledger =
  active_by_owner :: "(string, active_claim) js_map"
  active_owner_by_native :: "nat \<rightharpoonup> string"
  bound_owner_by_path :: "string \<rightharpoonup> string"
  bound_path_by_native :: "nat \<rightharpoonup> string"
  next_ref :: nat  \<comment> \<open>allocator of lease identities\<close>

definition empty_ledger :: ledger where
  "empty_ledger = \<lparr>active_by_owner = [], active_owner_by_native = Map.empty,
     bound_owner_by_path = Map.empty, bound_path_by_native = Map.empty, next_ref = 0\<rparr>"

definition MAX_SESSION_OWNERS :: nat where "MAX_SESSION_OWNERS = 1024"

definition control_char :: "char \<Rightarrow> bool" where
  "control_char c \<longleftrightarrow> (let n = (of_char c :: nat) in n \<le> 31 \<or> n = 127)"

definition validateOwnerId :: "js_value \<Rightarrow> string outcome" where
  "validateOwnerId v =
     (case v of
        JsOther \<Rightarrow> Inl (BridgeError ''ELECTRON_CHROMIUM_SESSION_OWNER_INVALID'')
      | JsString s \<Rightarrow>
          if length s = 0 \<or> length s > 300 \<or> s \<noteq> js_trim s \<or> list_ex control_char s
          then Inl (BridgeError ''ELECTRON_CHROMIUM_SESSION_OWNER_INVALID'')
          else Inr s)"

definition validatePath :: "path_api \<Rightarrow> js_value \<Rightarrow> platform \<Rightarrow> string outcome" where
  "validatePath api v platform =
     (case canonicalChromiumPath api v platform of
        None \<Rightarrow> Inl (BridgeError ''ELECTRON_CHROMIUM_SESSION_OWNERSHIP_PATH_INVALID'')
      | Some c \<Rightarrow> Inr c)"

text \<open>JavaScript reads an empty string as false in \<open>bound && bound !== x\<close>.\<close>

definition conflicts :: "string option \<Rightarrow> string \<Rightarrow> bool" where
  "conflicts found mine \<longleftrightarrow> (case found of None \<Rightarrow> False | Some s \<Rightarrow> s \<noteq> [] \<and> s \<noteq> mine)"

definition activeCount :: "ledger \<Rightarrow> nat" where
  "activeCount l = length (active_by_owner l)"

text \<open>The state change of a successful \<open>claim\<close>.\<close>

definition commit_claim :: "string \<Rightarrow> string \<Rightarrow> string \<Rightarrow> nat \<Rightarrow> ledger \<Rightarrow> ledger \<times> lease" where
  "commit_claim owner path key session l =
     (let le = \<lparr>lease_ref = next_ref l, lease_owner = owner, lease_path = path,
                lease_session = session\<rparr>
      in (l\<lparr>bound_owner_by_path := (bound_owner_by_path l)(key \<mapsto> owner),
           bound_path_by_native := (bound_path_by_native l)(session \<mapsto> key),
           active_owner_by_native := (active_owner_by_native l)(session \<mapsto> owner),
           active_by_owner :=
             jm_set owner \<lparr>claim_lease = le, claim_key = key\<rparr> (active_by_owner l),
           next_ref := Suc (next_ref l)\<rparr>, le))"

definition claim_new ::
  "string \<Rightarrow> string \<Rightarrow> string \<Rightarrow> nat \<Rightarrow> ledger \<Rightarrow> ledger \<times> lease outcome" where
  "claim_new owner path key session l =
     (if activeCount l \<ge> MAX_SESSION_OWNERS
        then (l, Inl (BridgeError ''ELECTRON_CHROMIUM_SESSION_OWNERSHIP_CAPACITY''))
      else if conflicts (bound_owner_by_path l key) owner
        then (l, Inl (BridgeError ''ELECTRON_CHROMIUM_SESSION_PATH_OWNER_CONFLICT''))
      else if conflicts (bound_path_by_native l session) key
        then (l, Inl (BridgeError ''ELECTRON_CHROMIUM_SESSION_NATIVE_ALIAS''))
      else if conflicts (active_owner_by_native l session) owner
        then (l, Inl (BridgeError ''ELECTRON_CHROMIUM_SESSION_NATIVE_OWNER_CONFLICT''))
      else (let (l', le) = commit_claim owner path key session l in (l', Inr le)))"

definition claim ::
  "path_api \<Rightarrow> platform \<Rightarrow> js_value \<Rightarrow> js_value \<Rightarrow> native_session \<Rightarrow> ledger
     \<Rightarrow> ledger \<times> lease outcome" where
  "claim api platform ownerId path session l =
     (case validateOwnerId ownerId of
        Inl e \<Rightarrow> (l, Inl e)
      | Inr owner \<Rightarrow>
     (case validatePath api path platform of
        Inl e \<Rightarrow> (l, Inl e)
      | Inr canonicalPath \<Rightarrow>
     (case session of
        NotAnObject \<Rightarrow> (l, Inl (BridgeError ''ELECTRON_CHROMIUM_SESSION_NATIVE_INVALID''))
      | NativeSession n \<Rightarrow>
          let key = chromiumPathKey canonicalPath platform in
          (case jm_get (active_by_owner l) owner of
             Some c \<Rightarrow>
               if claim_key c = key \<and> lease_session (claim_lease c) = n
               then (l, Inr (claim_lease c))
               else (l, Inl (BridgeError ''ELECTRON_CHROMIUM_SESSION_OWNER_CONFLICT''))
           | None \<Rightarrow> claim_new owner canonicalPath key n l))))"

text \<open>\<open>release\<close>: \<open>False\<close> when the owner has no active claim, an error when the lease is not
  the current one.\<close>

definition release ::
  "path_api \<Rightarrow> platform \<Rightarrow> lease \<Rightarrow> ledger \<Rightarrow> ledger \<times> bool outcome" where
  "release api platform le l =
     (case validateOwnerId (JsString (lease_owner le)) of
        Inl e \<Rightarrow> (l, Inl e)
      | Inr owner \<Rightarrow>
     (case validatePath api (JsString (lease_path le)) platform of
        Inl e \<Rightarrow> (l, Inl e)
      | Inr canonicalPath \<Rightarrow>
     (case jm_get (active_by_owner l) owner of
        None \<Rightarrow> (l, Inr False)
      | Some c \<Rightarrow>
          if lease_ref (claim_lease c) \<noteq> lease_ref le \<or>
             lease_session (claim_lease c) \<noteq> lease_session le \<or>
             claim_key c \<noteq> chromiumPathKey canonicalPath platform \<or>
             active_owner_by_native l (lease_session le) \<noteq> Some owner
          then (l, Inl (BridgeError ''ELECTRON_CHROMIUM_SESSION_OWNERSHIP_LEASE_STALE''))
          else (l\<lparr>active_by_owner := jm_delete owner (active_by_owner l),
                  active_owner_by_native :=
                    (active_owner_by_native l)(lease_session le := None)\<rparr>, Inr True))))"

datatype ledger_op = Claim js_value js_value native_session | Release lease

fun ledger_step :: "path_api \<Rightarrow> platform \<Rightarrow> ledger_op \<Rightarrow> ledger \<Rightarrow> ledger" where
  "ledger_step api pl (Claim ow pa se) l = fst (claim api pl ow pa se l)"
| "ledger_step api pl (Release le) l = fst (release api pl le l)"

section \<open>Invariant\<close>

text \<open>Every active claim is bound consistently in all four maps, and the native index holds
  nothing but active claims.\<close>

definition claim_bound :: "platform \<Rightarrow> ledger \<Rightarrow> string \<Rightarrow> active_claim \<Rightarrow> bool" where
  "claim_bound pl l owner c \<longleftrightarrow>
     owner \<noteq> [] \<and> claim_key c \<noteq> [] \<and>
     lease_owner (claim_lease c) = owner \<and> lease_ref (claim_lease c) < next_ref l \<and>
     claim_key c = chromiumPathKey (lease_path (claim_lease c)) pl \<and>
     active_owner_by_native l (lease_session (claim_lease c)) = Some owner \<and>
     bound_owner_by_path l (claim_key c) = Some owner \<and>
     bound_path_by_native l (lease_session (claim_lease c)) = Some (claim_key c)"

definition ledger_inv :: "platform \<Rightarrow> ledger \<Rightarrow> bool" where
  "ledger_inv pl l \<longleftrightarrow>
     jm_wf (active_by_owner l) \<and> activeCount l \<le> MAX_SESSION_OWNERS \<and>
     (\<forall>o' c. jm_get (active_by_owner l) o' = Some c \<longrightarrow> claim_bound pl l o' c) \<and>
     (\<forall>n o'. active_owner_by_native l n = Some o' \<longrightarrow>
        (\<exists>c. jm_get (active_by_owner l) o' = Some c \<and> lease_session (claim_lease c) = n)) \<and>
     (\<forall>k o'. bound_owner_by_path l k = Some o' \<longrightarrow> o' \<noteq> []) \<and>
     (\<forall>n k. bound_path_by_native l n = Some k \<longrightarrow> k \<noteq> [])"

lemma ledger_invD:
  assumes "ledger_inv pl l"
  shows "jm_wf (active_by_owner l)" "activeCount l \<le> MAX_SESSION_OWNERS"
    "jm_get (active_by_owner l) ow = Some c \<Longrightarrow> claim_bound pl l ow c"
    "active_owner_by_native l n = Some ow \<Longrightarrow>
       \<exists>c. jm_get (active_by_owner l) ow = Some c \<and> lease_session (claim_lease c) = n"
    "bound_owner_by_path l k = Some ow \<Longrightarrow> ow \<noteq> []"
    "bound_path_by_native l n = Some k \<Longrightarrow> k \<noteq> []"
  using assms by (simp_all add: ledger_inv_def)

lemma ledger_inv_empty: "ledger_inv pl empty_ledger"
  by (simp add: ledger_inv_def empty_ledger_def activeCount_def)

lemma validateOwnerId_ok: "validateOwnerId v = Inr s \<Longrightarrow> v = JsString s \<and> s \<noteq> []"
  by (auto simp: validateOwnerId_def split: js_value.splits if_splits)

lemma validatePath_ok: "validatePath api v pl = Inr s \<Longrightarrow> v = JsString s \<and> s \<noteq> []"
  by (auto simp: validatePath_def split: option.splits dest: canonical_same)

lemma chromiumPathKey_ne: "s \<noteq> [] \<Longrightarrow> chromiumPathKey s pl \<noteq> []"
  by (simp add: chromiumPathKey_def)

lemma not_conflicts: "\<not> conflicts f x \<Longrightarrow> f = Some y \<Longrightarrow> y \<noteq> [] \<Longrightarrow> y = x"
  by (auto simp: conflicts_def)

lemma commit_claim_inv:
  assumes inv: "ledger_inv pl l" and ne: "owner \<noteq> []" "path \<noteq> []"
    and key: "key = chromiumPathKey path pl"
    and fresh: "jm_get (active_by_owner l) owner = None"
    and room: "activeCount l < MAX_SESSION_OWNERS"
    and c1: "\<not> conflicts (bound_owner_by_path l key) owner"
    and c2: "\<not> conflicts (bound_path_by_native l n) key"
    and c3: "\<not> conflicts (active_owner_by_native l n) owner"
  shows "ledger_inv pl (fst (commit_claim owner path key n l))"
proof -
  let ?l = "fst (commit_claim owner path key n l)"
  have idle: "active_owner_by_native l n = None"
  proof (rule ccontr)
    assume "active_owner_by_native l n \<noteq> None"
    then obtain x where x: "active_owner_by_native l n = Some x" by auto
    then obtain c where c: "jm_get (active_by_owner l) x = Some c"
      using ledger_invD(4)[OF inv] by blast
    then have "x \<noteq> []" using ledger_invD(3)[OF inv] by (auto simp: claim_bound_def)
    then have "x = owner" using c3 x not_conflicts by blast
    with c fresh show False by simp
  qed
  have other: "claim_bound pl ?l x c"
    if "x \<noteq> owner" "jm_get (active_by_owner l) x = Some c" for x c
  proof -
    have b: "claim_bound pl l x c" using ledger_invD(3)[OF inv] that(2) by blast
    then have "lease_session (claim_lease c) \<noteq> n" using idle by (auto simp: claim_bound_def)
    moreover have "claim_key c \<noteq> key"
      using b c1 that(1) not_conflicts by (fastforce simp: claim_bound_def)
    ultimately show ?thesis using b
      by (auto simp: claim_bound_def commit_claim_def Let_def)
  qed
  have room': "length (active_by_owner ?l) \<le> MAX_SESSION_OWNERS"
    using room jm.count_insert_new [OF ledger_invD(1)[OF inv] fresh]
    by (simp add: commit_claim_def Let_def activeCount_def)
  have native: "\<exists>c. jm_get (active_by_owner ?l) y = Some c \<and> lease_session (claim_lease c) = m"
    if "active_owner_by_native ?l m = Some y" for m y
  proof (cases "m = n")
    case True
    then show ?thesis using that by (auto simp: commit_claim_def Let_def)
  next
    case False
    then have "active_owner_by_native l m = Some y"
      using that by (simp add: commit_claim_def Let_def)
    then obtain c where c: "jm_get (active_by_owner l) y = Some c" "lease_session (claim_lease c) = m"
      using ledger_invD(4)[OF inv] by blast
    with fresh have "y \<noteq> owner" by auto
    with c show ?thesis by (simp add: commit_claim_def Let_def)
  qed
  show ?thesis
    unfolding ledger_inv_def
  proof (intro conjI allI impI)
    show "jm_wf (active_by_owner ?l)"
      using ledger_invD(1)[OF inv] by (simp add: commit_claim_def Let_def)
    show "activeCount ?l \<le> MAX_SESSION_OWNERS" using room' by (simp add: activeCount_def)
    fix x c assume a: "jm_get (active_by_owner ?l) x = Some c"
    show "claim_bound pl ?l x c"
    proof (cases "x = owner")
      case True
      then show ?thesis using a ne key
        by (auto simp: commit_claim_def Let_def claim_bound_def chromiumPathKey_ne)
    next
      case False
      then show ?thesis using a other by (simp add: commit_claim_def Let_def)
    qed
  next
    fix m y assume "active_owner_by_native ?l m = Some y"
    then show "\<exists>c. jm_get (active_by_owner ?l) y = Some c \<and> lease_session (claim_lease c) = m"
      by (rule native)
  next
    fix k y assume "bound_owner_by_path ?l k = Some y"
    then show "y \<noteq> []"
      using ledger_invD(5)[OF inv] ne by (auto simp: commit_claim_def Let_def split: if_splits)
  next
    fix m k assume "bound_path_by_native ?l m = Some k"
    then show "k \<noteq> []"
      using ledger_invD(6)[OF inv] ne key
      by (auto simp: commit_claim_def Let_def chromiumPathKey_ne split: if_splits)
  qed
qed

lemma claim_inv:
  assumes "ledger_inv pl l"
  shows "ledger_inv pl (fst (claim api pl ow pa se l))"
proof -
  have "ledger_inv pl (fst (claim_new owner p (chromiumPathKey p pl) n l))"
    if "owner \<noteq> []" "p \<noteq> []" "jm_get (active_by_owner l) owner = None" for owner p n
    using commit_claim_inv [OF assms that(1,2) refl that(3)] assms
    by (simp add: claim_new_def split_def Let_def)
  then show ?thesis
    using assms
    by (auto simp: claim_def Let_def split: sum.splits native_session.splits option.splits
        dest: validateOwnerId_ok validatePath_ok)
qed

lemma release_current_inv:
  assumes inv: "ledger_inv pl l" and c: "jm_get (active_by_owner l) owner = Some c"
    and s: "lease_session (claim_lease c) = n"
  shows "ledger_inv pl (l\<lparr>active_by_owner := jm_delete owner (active_by_owner l),
           active_owner_by_native := (active_owner_by_native l)(n := None)\<rparr>)"
proof -
  have own: "active_owner_by_native l n = Some owner"
    using ledger_invD(3)[OF inv c] s by (simp add: claim_bound_def)
  let ?l = "l\<lparr>active_by_owner := jm_delete owner (active_by_owner l),
    active_owner_by_native := (active_owner_by_native l)(n := None)\<rparr>"
  have kept: "claim_bound pl ?l x d"
    if "x \<noteq> owner" "jm_get (active_by_owner l) x = Some d" for x d
    using ledger_invD(3)[OF inv that(2)] own that(1) by (auto simp: claim_bound_def)
  have size: "length (jm_delete owner (active_by_owner l)) \<le> MAX_SESSION_OWNERS"
    using ledger_invD(2)[OF inv] jm.count_remove_le [OF ledger_invD(1)[OF inv], of owner]
    by (simp add: activeCount_def)
  have native: "x \<noteq> owner \<and>
      (\<exists>d. jm_get (active_by_owner l) x = Some d \<and> lease_session (claim_lease d) = m)"
    if "m \<noteq> n" "active_owner_by_native l m = Some x" for m x
    using ledger_invD(4)[OF inv that(2)] c s that(1) by auto
  show ?thesis
    unfolding ledger_inv_def
    using ledger_invD(1,5,6)[OF inv] size native kept
    by (auto simp: activeCount_def split: if_splits)
qed

lemma release_inv:
  assumes "ledger_inv pl l"
  shows "ledger_inv pl (fst (release api pl le l))"
  using assms release_current_inv [OF assms]
  by (auto simp: release_def split: sum.splits option.splits)

lemma ledger_step_inv: "ledger_inv pl l \<Longrightarrow> ledger_inv pl (ledger_step api pl x l)"
  by (cases x) (simp_all add: claim_inv release_inv)

interpretation ledger: guarded_machine "ledger_step api pl" "ledger_inv pl" for api pl
  by unfold_locales (rule ledger_step_inv)

section \<open>Properties\<close>

lemma ledger_run_inv: "ledger_inv pl (fold (ledger_step api pl) ops empty_ledger)"
  by (rule ledger.run_inv) (rule ledger_inv_empty)

text \<open>C11: Ownership is exclusive. After any run of claims and releases, two different owners never
  hold the same session directory, compared as the platform compares paths, nor the same native
  session; every owner holds at most one lease, which is its own; and there are at most 1024
  owners.\<close>

theorem ownership_exclusive:
  assumes "l = fold (ledger_step api pl) ops empty_ledger"
    and "jm_get (active_by_owner l) a = Some c" and "jm_get (active_by_owner l) b = Some d"
    and "a \<noteq> b"
  shows "chromiumPathKey (lease_path (claim_lease c)) pl \<noteq> chromiumPathKey (lease_path (claim_lease d)) pl
    \<and> lease_session (claim_lease c) \<noteq> lease_session (claim_lease d)
    \<and> lease_owner (claim_lease c) = a \<and> lease_owner (claim_lease d) = b
    \<and> activeCount l \<le> MAX_SESSION_OWNERS"
proof -
  have inv: "ledger_inv pl l" unfolding assms(1) by (rule ledger_run_inv)
  show ?thesis
    using ledger_invD(3)[OF inv assms(2)] ledger_invD(3)[OF inv assms(3)] ledger_invD(2)[OF inv] assms(4)
    by (auto simp: claim_bound_def)
qed

text \<open>A claim that fails or is repeated changes no binding, a new one only binds what was free.\<close>

lemma claim_new_bindings:
  assumes "ledger_inv pl l"
  shows "bound_owner_by_path l \<subseteq>\<^sub>m bound_owner_by_path (fst (claim_new owner p key n l))"
    and "bound_path_by_native l \<subseteq>\<^sub>m bound_path_by_native (fst (claim_new owner p key n l))"
  using not_conflicts ledger_invD(5,6)[OF assms]
  by (auto simp: claim_new_def commit_claim_def Let_def map_le_def dom_def split_def)

lemma ledger_step_bindings:
  assumes "ledger_inv pl l"
  shows "bound_owner_by_path l \<subseteq>\<^sub>m bound_owner_by_path (ledger_step api pl x l)"
    and "bound_path_by_native l \<subseteq>\<^sub>m bound_path_by_native (ledger_step api pl x l)"
  using claim_new_bindings [OF assms]
  by (cases x; auto simp: claim_def release_def Let_def split: sum.splits native_session.splits option.splits)+

text \<open>Bindings are permanent. Whatever is claimed and released afterwards, a path once bound to an
  owner stays bound to it, and a native session once bound to a path stays bound to that path, for
  the rest of the process.\<close>

lemma bindings_permanent:
  "bound_owner_by_path (fold (ledger_step api pl) ops empty_ledger)
     \<subseteq>\<^sub>m bound_owner_by_path (fold (ledger_step api pl) (ops @ later) empty_ledger)
   \<and> bound_path_by_native (fold (ledger_step api pl) ops empty_ledger)
     \<subseteq>\<^sub>m bound_path_by_native (fold (ledger_step api pl) (ops @ later) empty_ledger)"
proof -
  define l where "l = fold (ledger_step api pl) ops empty_ledger"
  have "bound_owner_by_path l \<subseteq>\<^sub>m bound_owner_by_path (fold (ledger_step api pl) later l)
      \<and> bound_path_by_native l \<subseteq>\<^sub>m bound_path_by_native (fold (ledger_step api pl) later l)"
    by (rule ledger.run_stable [where P = "\<lambda>t. bound_owner_by_path l \<subseteq>\<^sub>m bound_owner_by_path t
          \<and> bound_path_by_native l \<subseteq>\<^sub>m bound_path_by_native t"])
      (auto simp: l_def ledger_run_inv intro: map_le_trans ledger_step_bindings)
  then show ?thesis by (simp add: l_def)
qed

lemma claim_success:
  assumes "claim api pl ow pa se l = (l', Inr le)"
  shows "\<exists>owner path n. ow = JsString owner \<and> pa = JsString path \<and> se = NativeSession n
    \<and> validateOwnerId ow = Inr owner \<and> validatePath api pa pl = Inr path
    \<and> lease_session le = n
    \<and> (l' = l \<and> (\<exists>c. jm_get (active_by_owner l) owner = Some c \<and> claim_lease c = le
            \<and> claim_key c = chromiumPathKey path pl)
       \<or> jm_get (active_by_owner l) owner = None \<and> (l', le) = commit_claim owner path (chromiumPathKey path pl) n l)"
  using assms
  by (auto simp: claim_def claim_new_def Let_def split_def split: sum.splits native_session.splits option.splits
      if_splits dest!: validateOwnerId_ok validatePath_ok) (auto simp: commit_claim_def Let_def)

lemma claim_holds:
  assumes inv: "ledger_inv pl l" and ok: "claim api pl ow pa se l = (l', Inr le)"
  shows "\<exists>owner path n c. ow = JsString owner \<and> pa = JsString path \<and> se = NativeSession n
    \<and> validateOwnerId ow = Inr owner \<and> validatePath api pa pl = Inr path
    \<and> jm_get (active_by_owner l') owner = Some c \<and> claim_lease c = le
    \<and> claim_key c = chromiumPathKey path pl \<and> lease_session le = n \<and> lease_owner le = owner"
proof -
  obtain owner path n where s: "ow = JsString owner" "pa = JsString path" "se = NativeSession n"
    "validateOwnerId ow = Inr owner" "validatePath api pa pl = Inr path" "lease_session le = n"
    and or: "l' = l \<and> (\<exists>c. jm_get (active_by_owner l) owner = Some c \<and> claim_lease c = le
            \<and> claim_key c = chromiumPathKey path pl)
       \<or> jm_get (active_by_owner l) owner = None \<and> (l', le) = commit_claim owner path (chromiumPathKey path pl) n l"
    using claim_success [OF ok] by blast
  from or have "\<exists>c. jm_get (active_by_owner l') owner = Some c \<and> claim_lease c = le
      \<and> claim_key c = chromiumPathKey path pl \<and> lease_owner le = owner"
  proof
    assume "l' = l \<and> (\<exists>c. jm_get (active_by_owner l) owner = Some c \<and> claim_lease c = le
            \<and> claim_key c = chromiumPathKey path pl)"
    then show ?thesis using ledger_invD(3)[OF inv] by (auto simp: claim_bound_def)
  next
    assume "jm_get (active_by_owner l) owner = None
      \<and> (l', le) = commit_claim owner path (chromiumPathKey path pl) n l"
    then show ?thesis by (auto simp: commit_claim_def Let_def)
  qed
  then show ?thesis using s by blast
qed

text \<open>The life cycle of a lease. In every reachable ledger, a successful claim can be repeated and
  gives the same lease without a change; its lease can be released, after which the owner is free
  and a second release reports that there was nothing to release; and a lease that is not the
  current one of its owner is refused without a change.\<close>

lemma claim_release_life_cycle:
  assumes "l = fold (ledger_step api pl) ops empty_ledger"
    and "claim api pl ow pa se l = (l', Inr le)" and "lease_path le = path" and "pa = JsString path"
    and "lease_ref other \<noteq> lease_ref le" and "lease_owner other = lease_owner le" and "lease_path other = path"
  shows "claim api pl ow pa se l' = (l', Inr le)
    \<and> (\<exists>l''. release api pl le l' = (l'', Inr True)
         \<and> jm_get (active_by_owner l'') (lease_owner le) = None
         \<and> active_owner_by_native l'' (lease_session le) = None
         \<and> release api pl le l'' = (l'', Inr False))
    \<and> release api pl other l' = (l', Inl (BridgeError ''ELECTRON_CHROMIUM_SESSION_OWNERSHIP_LEASE_STALE''))"
proof -
  have inv: "ledger_inv pl l" unfolding assms(1) by (rule ledger_run_inv)
  obtain owner p n c where h: "ow = JsString owner" "pa = JsString p" "se = NativeSession n"
    "validateOwnerId ow = Inr owner" "validatePath api pa pl = Inr p"
    "jm_get (active_by_owner l') owner = Some c" "claim_lease c = le"
    "claim_key c = chromiumPathKey p pl" "lease_session le = n" "lease_owner le = owner"
    using claim_holds [OF inv assms(2)] by blast
  have inv': "ledger_inv pl l'" using claim_inv [OF inv, of api ow pa se] assms(2) by simp
  have own: "active_owner_by_native l' n = Some owner"
    using ledger_invD(3)[OF inv' h(6)] h(7,9) by (simp add: claim_bound_def)
  have p: "p = path" using h(2) assms(4) by simp
  have free: "jm_get (jm_delete owner (active_by_owner l')) owner = None"
    using ledger_invD(1)[OF inv'] by simp
  show ?thesis
    using h own p free assms(3,5-7)
    by (simp add: claim_def release_def Let_def)
qed

section \<open>A concrete run\<close>

definition demo_paths :: path_api where
  "demo_paths = \<lparr>is_absolute = \<lambda>_ s. starts_with ''/'' s, normalize_path = \<lambda>_ s. s\<rparr>"

definition demo_claims :: "ledger_op list" where
  "demo_claims = [Claim (JsString ''a'') (JsString ''/x'') (NativeSession 1),
     Claim (JsString ''b'') (JsString ''/y'') (NativeSession 2), Claim (JsString ''c'') (JsString ''/x'') (NativeSession 3)]"

definition demo_ledger :: ledger where
  "demo_ledger = fold (ledger_step demo_paths Darwin) demo_claims empty_ledger"

definition demo_lease :: lease where
  "demo_lease = \<lparr>lease_ref = 0, lease_owner = ''a'', lease_path = ''/x'', lease_session = 1\<rparr>"

theorem ownership_exclusive_witness:
  "\<exists>c d. jm_get (active_by_owner demo_ledger) ''a'' = Some c \<and> jm_get (active_by_owner demo_ledger) ''b'' = Some d
     \<and> lease_session (claim_lease c) \<noteq> lease_session (claim_lease d)"
proof -
  have "jm_get (active_by_owner demo_ledger) ''a'' \<noteq> None" "jm_get (active_by_owner demo_ledger) ''b'' \<noteq> None"
    by code_simp+
  then show ?thesis
    using ownership_exclusive [OF demo_ledger_def, of "''a''" _ "''b''"] by auto
qed

abbreviation demo_claim :: "ledger \<Rightarrow> ledger \<times> lease outcome" where
  "demo_claim \<equiv> claim demo_paths Darwin (JsString ''a'') (JsString ''/x'') (NativeSession 1)"

end
