(* ===== verification/Key_Sequence.thy ===== *)
theory Key_Sequence
  imports Prelude Session_Ownership
begin

text \<open>
  The key effects Core plans and the modifier codes of a trusted key action
  (\<open>src/src/electron/main/chromiumTrustedInputKeySequence.ts\<close>), with the wire records of
  \<open>src/src/shared/generated\<close> they are made of.
\<close>

section \<open>Wire records\<close>

datatype key_phase = RawKeyDown | KeyUp

record key_effect =
  phase :: key_phase
  code :: string
  activeCodesBefore :: "string list"
  activeCodes :: "string list"
  autoRepeat :: bool
  suppressShortcut :: bool

datatype key_modifier = Primary | Ctrl | Alt | Shift | Meta
datatype action_phase = Tap | Hold | ReleaseKey
datatype modifier_ownership = Synthetic | PhysicalPassThrough

record key_action =
  action_phase :: action_phase
  key_name :: string
  action_code :: "string option"
  modifiers :: "key_modifier list"
  exactModifierCodes :: "string list option"
  modifierOwnership :: modifier_ownership
  ownerId :: string
  suppressOverlayShortcut :: bool

record click_action =
  click_anchor :: "string option"
  click_unit :: string
  click_x :: int
  click_y :: int
  click_button :: string

datatype browser_action =
  Focus | KeyAction key_action | ReassertHeldKeys | NeutralizeInput | Click click_action

section \<open>Modifier codes\<close>

definition CHROMIUM_MODIFIER_CODES :: "string list" where
  "CHROMIUM_MODIFIER_CODES = [''ControlLeft'', ''ControlRight'', ''AltLeft'', ''AltRight'',
     ''ShiftLeft'', ''ShiftRight'', ''MetaLeft'', ''MetaRight'']"

definition isChromiumModifierCode :: "string \<Rightarrow> bool" where
  "isChromiumModifierCode c \<longleftrightarrow> c \<in> set CHROMIUM_MODIFIER_CODES"

fun modifier_code :: "platform \<Rightarrow> key_modifier \<Rightarrow> string" where
  "modifier_code platform Primary = (if platform = Darwin then ''MetaLeft'' else ''ControlLeft'')"
| "modifier_code platform Ctrl = ''ControlLeft''"
| "modifier_code platform Alt = ''AltLeft''"
| "modifier_code platform Shift = ''ShiftLeft''"
| "modifier_code platform Meta = ''MetaLeft''"

definition resolveChromiumModifierCodes :: "key_action \<Rightarrow> platform \<Rightarrow> string list outcome" where
  "resolveChromiumModifierCodes action platform =
     (let codes = (case exactModifierCodes action of
                     Some exact \<Rightarrow> exact
                   | None \<Rightarrow> map (modifier_code platform) (modifiers action))
      in if length codes > 8 \<or> list_ex (\<lambda>c. \<not> isChromiumModifierCode c) codes \<or>
            length (js_set_of codes) \<noteq> length codes
         then Inl (BridgeError ''ELECTRON_CHROMIUM_INPUT_INVALID'')
         else Inr codes)"

definition activeChromiumModifierCodes :: "key_effect \<Rightarrow> string list \<Rightarrow> string list" where
  "activeChromiumModifierCodes effect physicalModifierCodes =
     js_set_of (filter isChromiumModifierCode (activeCodes effect) @ physicalModifierCodes)"

section \<open>The inverse of an effect\<close>

fun js_join :: "string \<Rightarrow> string list \<Rightarrow> string" where
  "js_join sep [] = []"
| "js_join sep [x] = x"
| "js_join sep (x # y # xs) = x @ sep @ js_join sep (y # xs)"

abbreviation newline :: string where "newline \<equiv> [CHR 0x0A]"

definition inverseChromiumKeyEffect :: "key_effect \<Rightarrow> key_effect option" where
  "inverseChromiumKeyEffect effect =
     (if phase effect = KeyUp then None
      else if autoRepeat effect \<and>
              js_join newline (activeCodesBefore effect) = js_join newline (activeCodes effect)
        then None
      else Some \<lparr>phase = KeyUp, code = code effect, activeCodesBefore = activeCodes effect,
             activeCodes = activeCodesBefore effect, autoRepeat = False,
             suppressShortcut = suppressShortcut effect\<rparr>)"

section \<open>Facts\<close>

lemma length_js_set_of_le: "length (js_set_of xs) \<le> length xs"
proof -
  have "length (js_set_of xs) = card (set xs)"
    using distinct_card [OF distinct_js_set_of, of xs] by simp
  then show ?thesis by (simp add: card_length)
qed

lemma js_set_of_same_length: "length (js_set_of xs) = length xs \<longleftrightarrow> distinct xs"
proof -
  have "length (js_set_of xs) = card (set xs)"
    using distinct_card [OF distinct_js_set_of, of xs] by simp
  then show ?thesis by (metis card_distinct distinct_card)
qed

text \<open>The codes \<open>resolveChromiumModifierCodes\<close> accepts, exactly.\<close>

lemma resolve_modifier_codes_iff:
  "resolveChromiumModifierCodes action platform = Inr codes \<longleftrightarrow>
     codes = (case exactModifierCodes action of
                Some exact \<Rightarrow> exact
              | None \<Rightarrow> map (modifier_code platform) (modifiers action)) \<and>
     distinct codes \<and> length codes \<le> 8 \<and> set codes \<subseteq> set CHROMIUM_MODIFIER_CODES"
  by (auto simp: resolveChromiumModifierCodes_def Let_def js_set_of_same_length list_ex_iff
      isChromiumModifierCode_def)

lemma inverse_phase: "inverseChromiumKeyEffect e = Some i \<Longrightarrow> phase i = KeyUp \<and> code i = code e"
  by (auto simp: inverseChromiumKeyEffect_def split: if_splits)

lemma inverse_not_repeat:
  "phase e = RawKeyDown \<Longrightarrow> \<not> autoRepeat e \<Longrightarrow> inverseChromiumKeyEffect e \<noteq> None"
  by (simp add: inverseChromiumKeyEffect_def)

end
