(* ===== verification/Sequence_Executor.thy ===== *)
theory Sequence_Executor
  imports Key_Sequence
begin

text \<open>
  The executor of a trusted key sequence
  (\<open>src/src/electron/main/chromiumTrustedInputSequenceExecutor.ts\<close>) with its recovery
  (\<open>chromiumTrustedInputSequenceRecovery.ts\<close>): prepare the transition in Core, dispatch every
  effect, and on the first effect that does not apply compensate what may have been pressed, roll
  the Core transition back and report whether the input is known to be neutral.

  The ports the executor is given (\<open>dispatch\<close>, the embedded input Core, the clock) act on a world
  of any type \<open>'w\<close>; a rejected promise is an \<open>Inl\<close>.
\<close>

section \<open>Requests, receipts and ports\<close>

datatype intent = Normal | Cleanup
datatype receipt_status = Applied | Failed | Indeterminate | Superseded

record native_request =
  req_requestId :: string
  req_parentRequestId :: "string option"
  req_roleId :: string
  req_inputEpoch :: int
  req_intent :: intent
  req_scheduledAtMs :: int
  req_deadlineMs :: int
  req_surfaceGeneration :: int
  req_neutralBefore :: bool
  req_neutralAfter :: bool
  req_action :: browser_action
  req_keyEffect :: "key_effect option"
  req_physicalModifierCodes :: "string list"
  req_pointerReleaseOnly :: bool

record native_receipt =
  rec_requestId :: string
  rec_roleId :: string
  rec_inputEpoch :: int
  rec_surfaceGeneration :: int
  rec_status :: receipt_status
  rec_completedAtMs :: int
  rec_errorCode :: "string option"
  rec_confirmedNeutrality :: bool

record action_request =
  requestId :: string
  roleId :: string
  inputEpoch :: int
  request_intent :: intent
  scheduledAtMs :: int
  deadlineMs :: int
  action :: browser_action

record transition =
  transitionId :: "string option"
  effects :: "key_effect list"
  hasHeldKeys :: bool

record prepare_input =
  prep_roleId :: string
  prep_phase :: action_phase
  prep_code :: string
  prep_modifierCodes :: "string list"
  prep_ownerId :: string

record sequence_failure_record =
  fail_cause :: string
  fail_transitionId :: "string option"
  fail_confirmedEffects :: "key_effect list"
  fail_failedEffect :: "key_effect option"
  fail_compensationError :: "string option"
  fail_rollbackError :: "string option"

record 'w ports =
  dispatch :: "native_request \<Rightarrow> 'w \<Rightarrow> 'w \<times> native_receipt outcome"
  nowMs :: "'w \<Rightarrow> int"
  core_prepare :: "prepare_input \<Rightarrow> 'w \<Rightarrow> 'w \<times> transition outcome"
  core_reassert :: "string \<Rightarrow> 'w \<Rightarrow> 'w \<times> transition outcome"
  core_complete :: "string \<Rightarrow> bool \<Rightarrow> 'w \<Rightarrow> 'w \<times> unit outcome"
  record_failure :: "sequence_failure_record \<Rightarrow> bool \<Rightarrow> 'w \<Rightarrow> 'w"

text \<open>\<open>normalizeRionBridgeError\<close>, on the code: an error without a usable code gets the default.\<close>

definition normalize_code :: "js_error \<Rightarrow> string" where
  "normalize_code = normalizeRionBridgeError ''ELECTRON_BRIDGE_FAILED''"

text \<open>The failures the executor throws.\<close>

record sequence_failure =
  sf_code :: string
  sf_quarantine :: bool
  sf_actionIndeterminate :: bool
  sf_possiblyAppliedEdges :: "(key_phase \<times> string) list"
  sf_confirmedInputNeutrality :: bool
  sf_confirmedReleaseCodes :: "string list"

record execution =
  ex_hasHeldKeys :: bool
  ex_activeCodes :: "string list"
  ex_confirmedEffects :: "key_effect list"
  ex_receipt :: native_receipt

datatype exec_result = Completed execution | Thrown sequence_failure | Rethrown js_error

definition ChromiumTrustedInputSequenceFailure ::
  "string \<Rightarrow> bool \<Rightarrow> bool \<Rightarrow> key_effect list \<Rightarrow> bool \<Rightarrow> string list \<Rightarrow> sequence_failure" where
  "ChromiumTrustedInputSequenceFailure c quarantine indeterminate edges neutral releases =
     \<lparr>sf_code = c, sf_quarantine = quarantine, sf_actionIndeterminate = indeterminate,
      sf_possiblyAppliedEdges = map (\<lambda>e. (phase e, code e)) edges,
      sf_confirmedInputNeutrality = neutral, sf_confirmedReleaseCodes = releases\<rparr>"

text \<open>The adapters set \<open>errorCode\<close> on every receipt that is not applied; where it is missing
  \<open>receipt.errorCode!\<close> is \<open>null\<close>, here the empty code.\<close>

definition sequenceFailure ::
  "native_receipt \<Rightarrow> bool \<Rightarrow> bool \<Rightarrow> key_effect list \<Rightarrow> string list \<Rightarrow> sequence_failure" where
  "sequenceFailure receipt confirmedInputNeutrality forceQuarantine edges releases =
     (let actionIndeterminate = (rec_status receipt = Indeterminate);
          quarantine = forceQuarantine \<or> \<not> confirmedInputNeutrality;
          c = (if rec_status receipt = Superseded then ''BROWSER_ACTION_STALE''
               else if actionIndeterminate \<or> quarantine then ''SYSTEM_TRUSTED_INPUT_INDETERMINATE''
               else (case rec_errorCode receipt of Some x \<Rightarrow> x | None \<Rightarrow> []))
      in ChromiumTrustedInputSequenceFailure c quarantine actionIndeterminate edges
           confirmedInputNeutrality releases)"

definition receiptFailure :: "native_receipt \<Rightarrow> string" where
  "receiptFailure receipt =
     (case rec_errorCode receipt of
        Some c \<Rightarrow> c | None \<Rightarrow> ''SYSTEM_TRUSTED_INPUT_INDETERMINATE'')"

definition nativeRequest ::
  "action_request \<Rightarrow> int \<Rightarrow> key_effect \<Rightarrow> string list \<Rightarrow> intent \<Rightarrow> native_request" where
  "nativeRequest request surfaceGeneration effect physical i =
     \<lparr>req_requestId = requestId request, req_parentRequestId = None, req_roleId = roleId request,
      req_inputEpoch = inputEpoch request, req_intent = i,
      req_scheduledAtMs = scheduledAtMs request, req_deadlineMs = deadlineMs request,
      req_surfaceGeneration = surfaceGeneration,
      req_neutralBefore = (length (activeCodesBefore effect) = 0),
      req_neutralAfter = (length (activeCodes effect) = 0),
      req_action = action request, req_keyEffect = Some effect,
      req_physicalModifierCodes = physical, req_pointerReleaseOnly = False\<rparr>"

section \<open>Compensation\<close>

text \<open>The first loop of \<open>compensateEdges\<close>: the active codes after the edges and, in insertion
  order, the presses among them that are still down.\<close>

fun track_edges ::
  "key_effect list \<Rightarrow> string list \<times> (string, key_effect) js_map
     \<Rightarrow> string list \<times> (string, key_effect) js_map" where
  "track_edges [] st = st"
| "track_edges (effect # es) (active, remaining) =
     track_edges es
       (if phase effect = KeyUp then removeAll (code effect) active else js_add (code effect) active,
        if phase effect = KeyUp then jm_delete (code effect) remaining
        else if code effect \<notin> set (activeCodesBefore effect)
          then jm_set (code effect) effect remaining
        else remaining)"

record seq_context =
  cx_request :: action_request
  cx_surfaceGeneration :: int
  cx_physical :: "string list"

text \<open>The second loop: release the remaining presses, newest first.\<close>

fun release_edges ::
  "'w ports \<Rightarrow> seq_context \<Rightarrow> key_effect list \<Rightarrow> string list \<Rightarrow> string list \<Rightarrow> 'w
     \<Rightarrow> 'w \<times> string list \<times> string option" where
  "release_edges P cx [] active releases w = (w, releases, None)"
| "release_edges P cx (applied # rest) active releases w =
     (if nowMs P w \<ge> deadlineMs (cx_request cx)
      then (w, releases, Some ''SYSTEM_TRUSTED_INPUT_CLEANUP_REQUIRES_RECOVERY'')
      else
        let active' = removeAll (code applied) active in
        (case inverseChromiumKeyEffect
                (applied\<lparr>activeCodes := active, activeCodesBefore := active'\<rparr>) of
           None \<Rightarrow> release_edges P cx rest active' releases w
         | Some undo \<Rightarrow>
             (case dispatch P (nativeRequest (cx_request cx) (cx_surfaceGeneration cx) undo
                     (cx_physical cx) Cleanup) w of
                (w', Inl cause) \<Rightarrow> (w', releases, Some (normalize_code cause))
              | (w', Inr receipt) \<Rightarrow>
                  if rec_status receipt \<noteq> Applied
                  then (w', releases, Some (receiptFailure receipt))
                  else release_edges P cx rest active' (js_add (code undo) releases) w')))"

definition compensateEdges ::
  "'w ports \<Rightarrow> seq_context \<Rightarrow> key_effect list \<Rightarrow> string list \<Rightarrow> 'w
     \<Rightarrow> 'w \<times> string list \<times> string option" where
  "compensateEdges P cx edges releases w =
     (let start = (case edges of [] \<Rightarrow> [] | e # _ \<Rightarrow> js_set_of (activeCodesBefore e));
          (active, remaining) = track_edges edges (start, [])
      in release_edges P cx (rev (map snd remaining)) active releases w)"

text \<open>The rollback of \<open>recoverChromiumKeySequence\<close>, only with a transition identity.\<close>

definition rollback :: "'w ports \<Rightarrow> string option \<Rightarrow> 'w \<Rightarrow> 'w \<times> string option" where
  "rollback P tid w =
     (case tid of
        None \<Rightarrow> (w, None)
      | Some t \<Rightarrow>
          if t = [] then (w, None)
          else (let (w', r) = core_complete P t False w
                in (w', case r of Inl e \<Rightarrow> Some (normalize_code e) | Inr _ \<Rightarrow> None)))"

text \<open>\<open>recoverChromiumKeySequence\<close>: compensation, then rollback; neither failure hides the other.\<close>

definition recoverChromiumKeySequence ::
  "'w ports \<Rightarrow> seq_context \<Rightarrow> string \<Rightarrow> string option \<Rightarrow> key_effect list \<Rightarrow> key_effect option
     \<Rightarrow> key_effect list \<Rightarrow> string list \<Rightarrow> 'w \<Rightarrow> 'w \<times> string list \<times> sequence_failure_record" where
  "recoverChromiumKeySequence P cx cause tid confirmed failed edges releases w =
     (let (w1, releases', compensationError) = compensateEdges P cx edges releases w;
          (w2, rollbackError) = rollback P tid w1
      in (w2, releases',
          \<lparr>fail_cause = cause, fail_transitionId = tid, fail_confirmedEffects = confirmed,
           fail_failedEffect = failed, fail_compensationError = compensationError,
           fail_rollbackError = rollbackError\<rparr>))"

section \<open>The executor\<close>

definition compensationSucceeded :: "sequence_failure_record \<Rightarrow> bool" where
  "compensationSucceeded f \<longleftrightarrow> fail_compensationError f = None"

definition rollbackSucceeded :: "sequence_failure_record \<Rightarrow> bool" where
  "rollbackSucceeded f \<longleftrightarrow> fail_rollbackError f = None"

text \<open>The local function \<open>recover\<close> of the executor.\<close>

definition recover ::
  "'w ports \<Rightarrow> seq_context \<Rightarrow> transition \<Rightarrow> bool \<Rightarrow> string \<Rightarrow> key_effect list
     \<Rightarrow> key_effect list \<Rightarrow> key_effect option \<Rightarrow> string list \<Rightarrow> 'w
     \<Rightarrow> 'w \<times> string list \<times> sequence_failure_record" where
  "recover P cx tr neutralBefore cause applied edges failed releases w =
     (let (w1, releases', f) =
            recoverChromiumKeySequence P cx cause (transitionId tr) applied failed edges releases w
      in (record_failure P f
            (neutralBefore \<and> failed \<noteq> None \<and> action (cx_request cx) \<noteq> ReassertHeldKeys \<and>
             compensationSucceeded f \<and> rollbackSucceeded f) w1,
          releases', f))"

text \<open>One dispatch of the effect loop that threw.\<close>

definition dispatch_threw ::
  "'w ports \<Rightarrow> seq_context \<Rightarrow> transition \<Rightarrow> bool \<Rightarrow> key_effect list \<Rightarrow> string list \<Rightarrow> key_effect
     \<Rightarrow> js_error \<Rightarrow> 'w \<Rightarrow> 'w \<times> exec_result" where
  "dispatch_threw P cx tr neutralBefore applied releases effect cause w =
     (let possiblyApplied = (if phase effect = RawKeyDown then [effect] else []);
          releases1 = (if phase effect = RawKeyDown then removeAll (code effect) releases else releases);
          (w1, releases2, f) = recover P cx tr neutralBefore (normalize_code cause) applied
             (applied @ possiblyApplied) (Some effect) releases1 w;
          neutral = (compensationSucceeded f \<and> rollbackSucceeded f \<and> neutralBefore)
      in (w1, Thrown (ChromiumTrustedInputSequenceFailure ''SYSTEM_TRUSTED_INPUT_INDETERMINATE''
            (\<not> neutral) True (applied @ possiblyApplied) neutral releases2)))"

text \<open>One dispatch of the effect loop whose receipt is not \<open>applied\<close>.\<close>

definition dispatch_refused ::
  "'w ports \<Rightarrow> seq_context \<Rightarrow> transition \<Rightarrow> bool \<Rightarrow> key_effect list \<Rightarrow> string list \<Rightarrow> key_effect
     \<Rightarrow> native_receipt \<Rightarrow> 'w \<Rightarrow> 'w \<times> exec_result" where
  "dispatch_refused P cx tr neutralBefore applied releases effect receipt w =
     (let possiblyApplied = (if rec_status receipt = Indeterminate \<and> phase effect = RawKeyDown
                             then [effect] else []);
          releases1 = (if possiblyApplied \<noteq> [] then removeAll (code effect) releases else releases);
          (w1, releases2, f) = recover P cx tr neutralBefore (receiptFailure receipt) applied
             (applied @ possiblyApplied) (Some effect) releases1 w
      in (w1, Thrown (sequenceFailure receipt
            (compensationSucceeded f \<and> rollbackSucceeded f \<and> neutralBefore)
            (action (cx_request cx) = ReassertHeldKeys) (applied @ possiblyApplied) releases2)))"

text \<open>The effect loop: \<open>Inr\<close> when every effect applied, with the effects and release codes.\<close>

fun run_effects ::
  "'w ports \<Rightarrow> seq_context \<Rightarrow> transition \<Rightarrow> bool \<Rightarrow> key_effect list \<Rightarrow> key_effect list
     \<Rightarrow> string list \<Rightarrow> 'w \<Rightarrow> 'w \<times> (exec_result + key_effect list \<times> string list)" where
  "run_effects P cx tr neutralBefore [] applied releases w = (w, Inr (applied, releases))"
| "run_effects P cx tr neutralBefore (effect # rest) applied releases w =
     (case dispatch P (nativeRequest (cx_request cx) (cx_surfaceGeneration cx) effect
             (cx_physical cx) (request_intent (cx_request cx))) w of
        (w', Inl cause) \<Rightarrow>
          (let (w1, r) = dispatch_threw P cx tr neutralBefore applied releases effect cause w'
           in (w1, Inl r))
      | (w', Inr receipt) \<Rightarrow>
          if rec_status receipt \<noteq> Applied
          then (let (w1, r) = dispatch_refused P cx tr neutralBefore applied releases effect receipt w'
                in (w1, Inl r))
          else run_effects P cx tr neutralBefore rest (applied @ [effect])
                 (if phase effect = KeyUp then js_add (code effect) releases
                  else removeAll (code effect) releases) w')"

text \<open>After the loop: confirm the transition to Core, then the applied receipt.\<close>

definition finish_sequence ::
  "'w ports \<Rightarrow> seq_context \<Rightarrow> transition \<Rightarrow> bool \<Rightarrow> key_effect list \<Rightarrow> string list \<Rightarrow> 'w
     \<Rightarrow> 'w \<times> exec_result" where
  "finish_sequence P cx tr neutralBefore applied releases w =
     (let done = (\<lambda>w. (w, Completed
            \<lparr>ex_hasHeldKeys = hasHeldKeys tr,
             ex_activeCodes = (if effects tr = [] then [] else activeCodes (last (effects tr))),
             ex_confirmedEffects = applied,
             ex_receipt =
               \<lparr>rec_requestId = requestId (cx_request cx), rec_roleId = roleId (cx_request cx),
                rec_inputEpoch = inputEpoch (cx_request cx),
                rec_surfaceGeneration = cx_surfaceGeneration cx, rec_status = Applied,
                rec_completedAtMs = nowMs P w, rec_errorCode = None,
                rec_confirmedNeutrality = (\<not> hasHeldKeys tr)\<rparr>\<rparr>))
      in (case transitionId tr of
            None \<Rightarrow> done w
          | Some t \<Rightarrow>
              if t = [] then done w
              else (case core_complete P t True w of
                      (w', Inr _) \<Rightarrow> done w'
                    | (w', Inl cause) \<Rightarrow>
                        (let (w1, releases', f) = recover P cx tr neutralBefore
                               (normalize_code cause) applied applied None releases w'
                         in (w1, Thrown (ChromiumTrustedInputSequenceFailure
                               ''SYSTEM_TRUSTED_INPUT_INDETERMINATE'' True False applied False
                               releases'))))))"

text \<open>The part of \<open>executeChromiumTrustedKeySequence\<close> before the transition is known.\<close>

definition prepare_transition ::
  "'w ports \<Rightarrow> action_request \<Rightarrow> platform \<Rightarrow> 'w \<Rightarrow> 'w \<times> (exec_result + transition \<times> string list)" where
  "prepare_transition P request platform w =
     (case action request of
        ReassertHeldKeys \<Rightarrow>
          (case core_reassert P (roleId request) w of
             (w', Inl e) \<Rightarrow> (w', Inl (Rethrown e))
           | (w', Inr tr) \<Rightarrow> (w', Inr (tr, [])))
      | KeyAction a \<Rightarrow>
          (case action_code a of
             None \<Rightarrow> (w, Inl (Thrown (ChromiumTrustedInputSequenceFailure
                           ''SYSTEM_TRUSTED_INPUT_CODE_REQUIRED'' False False [] False [])))
           | Some c \<Rightarrow>
               if c = [] then (w, Inl (Thrown (ChromiumTrustedInputSequenceFailure
                           ''SYSTEM_TRUSTED_INPUT_CODE_REQUIRED'' False False [] False [])))
               else (case resolveChromiumModifierCodes a platform of
                  Inl e \<Rightarrow> (w, Inl (Rethrown e))
                | Inr codes \<Rightarrow>
                    (case core_prepare P
                        \<lparr>prep_roleId = roleId request, prep_phase = action_phase a, prep_code = c,
                         prep_modifierCodes =
                           (if modifierOwnership a = Synthetic then codes else []),
                         prep_ownerId = ownerId a\<rparr> w of
                       (w', Inl e) \<Rightarrow> (w', Inl (Rethrown e))
                     | (w', Inr tr) \<Rightarrow>
                         if transitionId tr = None \<or> transitionId tr = Some []
                         then (w', Inl (Thrown (ChromiumTrustedInputSequenceFailure
                                 ''SYSTEM_TRUSTED_INPUT_CORE_TRANSITION_INVALID''
                                 False False [] False [])))
                         else (w', Inr (tr, if modifierOwnership a = PhysicalPassThrough
                                            then codes else [])))))
      | _ \<Rightarrow> (w, Inl (Rethrown PlainError)))"

definition neutral_before :: "transition \<Rightarrow> bool" where
  "neutral_before tr \<longleftrightarrow>
     (case effects tr of [] \<Rightarrow> False | e # _ \<Rightarrow> length (activeCodesBefore e) = 0)"

definition executeChromiumTrustedKeySequence ::
  "'w ports \<Rightarrow> action_request \<Rightarrow> int \<Rightarrow> platform \<Rightarrow> 'w \<Rightarrow> 'w \<times> exec_result" where
  "executeChromiumTrustedKeySequence P request surfaceGeneration platform w =
     (case prepare_transition P request platform w of
        (w', Inl r) \<Rightarrow> (w', r)
      | (w', Inr (tr, physical)) \<Rightarrow>
          (let cx = \<lparr>cx_request = request, cx_surfaceGeneration = surfaceGeneration,
                     cx_physical = physical\<rparr>;
               neutralBefore = neutral_before tr
           in (case run_effects P cx tr neutralBefore (effects tr) [] [] w' of
                 (w1, Inl r) \<Rightarrow> (w1, r)
               | (w1, Inr (applied, releases)) \<Rightarrow>
                   finish_sequence P cx tr neutralBefore applied releases w1)))"


section \<open>The keys physically held\<close>

text \<open>What an applied edge does to the set of keys the page sees as held.\<close>

definition apply_edge :: "key_effect \<Rightarrow> string set \<Rightarrow> string set" where
  "apply_edge e h = (if phase e = KeyUp then h - {code e} else insert (code e) h)"

text \<open>The contract of the native port, for an observer \<open>held\<close> of the world: an applied receipt
  means the edge took effect, a failed or superseded one that it did not, and after an
  indeterminate receipt or a rejection either may be true.  Core calls and the diagnostics journal
  press nothing.  The observer looks at one role \<open>q\<close>.\<close>

definition outcome_allows ::
  "native_receipt outcome \<Rightarrow> key_effect \<Rightarrow> string set \<Rightarrow> string set \<Rightarrow> bool" where
  "outcome_allows out e h h' \<longleftrightarrow>
     (case out of
        Inl _ \<Rightarrow> h' = h \<or> h' = apply_edge e h
      | Inr rc \<Rightarrow>
          (case rec_status rc of
             Applied \<Rightarrow> h' = apply_edge e h
           | Failed \<Rightarrow> h' = h
           | Superseded \<Rightarrow> h' = h
           | Indeterminate \<Rightarrow> h' = h \<or> h' = apply_edge e h))"

definition tracks_held :: "'w ports \<Rightarrow> string \<Rightarrow> ('w \<Rightarrow> string set) \<Rightarrow> bool" where
  "tracks_held P q held \<longleftrightarrow>
     (\<forall>r w w' out e. req_roleId r = q \<longrightarrow> req_keyEffect r = Some e \<longrightarrow> dispatch P r w = (w', out) \<longrightarrow>
        outcome_allows out e (held w) (held w')) \<and>
     (\<forall>i w. held (fst (core_prepare P i w)) = held w) \<and>
     (\<forall>w. held (fst (core_reassert P q w)) = held w) \<and>
     (\<forall>t b w. held (fst (core_complete P t b w)) = held w) \<and>
     (\<forall>f b w. held (record_failure P f b w) = held w)"

text \<open>A transition Core plans: each effect starts from the codes the previous one left, presses
  or releases its own code, and only repeats a code that is already down.\<close>

fun effect_chain :: "string set \<Rightarrow> key_effect list \<Rightarrow> bool" where
  "effect_chain h [] \<longleftrightarrow> True"
| "effect_chain h (e # es) \<longleftrightarrow>
     set (activeCodesBefore e) = h \<and> set (activeCodes e) = apply_edge e h \<and>
     (autoRepeat e \<longrightarrow> code e \<in> h) \<and> effect_chain (apply_edge e h) es"

lemma effect_chain_append:
  "effect_chain h (xs @ ys) \<longleftrightarrow> effect_chain h xs \<and> effect_chain (fold apply_edge xs h) ys"
  by (induction xs arbitrary: h) auto

lemma tracks_heldD:
  assumes "tracks_held P q held"
  shows "req_roleId r = q \<Longrightarrow> req_keyEffect r = Some e \<Longrightarrow> dispatch P r w = (w', out) \<Longrightarrow>
      outcome_allows out e (held w) (held w')"
    and "held (fst (core_complete P t b w)) = held w"
    and "held (record_failure P f b w) = held w"
    and "held (fst (core_prepare P i w)) = held w"
    and "held (fst (core_reassert P q w)) = held w"
  using assms unfolding tracks_held_def by blast+

lemma nativeRequest_simps [simp]:
  "req_keyEffect (nativeRequest rq g e ph i) = Some e"
  "req_roleId (nativeRequest rq g e ph i) = roleId rq"
  by (simp_all add: nativeRequest_def)

lemma tracks_dispatch:
  "tracks_held P (roleId rq) held \<Longrightarrow> dispatch P (nativeRequest rq g e ph i) w = (w', out) \<Longrightarrow>
     outcome_allows out e (held w) (held w')"
  by (rule tracks_heldD(1)) simp_all

lemma tracks_complete:
  assumes "tracks_held P q held" "core_complete P t b w = (w', r)"
  shows "held w' = held w"
  using tracks_heldD(2)[OF assms(1), of t b w] assms(2) by simp

lemmas tracks_record = tracks_heldD(3)

subsection \<open>Compensation releases everything the edges pressed\<close>

definition pressed_only :: "string list \<Rightarrow> (string, key_effect) js_map \<Rightarrow> bool" where
  "pressed_only active remaining \<longleftrightarrow>
     set active = fst ` set remaining \<and>
     (\<forall>(k, e) \<in> set remaining. code e = k \<and> phase e = RawKeyDown \<and> \<not> autoRepeat e)"

lemma jm_set_entries: "x \<in> set (jm_set k v m) \<Longrightarrow> x = (k, v) \<or> x \<in> set m"
  by (induction m) (auto split: if_splits)

lemma pressed_only_press:
  assumes "pressed_only active remaining" "phase e = RawKeyDown" "\<not> autoRepeat e"
  shows "pressed_only (js_add (code e) active) (jm_set (code e) e remaining)"
proof -
  have "fst ` set (jm_set (code e) e remaining) = insert (code e) (fst ` set remaining)"
    using jm_set_keys [of "code e" e remaining] by simp
  then show ?thesis
    using assms jm_set_entries [of _ "code e" e remaining] by (fastforce simp: pressed_only_def)
qed

lemma pressed_only_release:
  "pressed_only active remaining \<Longrightarrow> pressed_only (removeAll c active) (jm_delete c remaining)"
  by (auto simp: pressed_only_def jm_delete_def)

lemma track_edges_pressed:
  assumes "track_edges es (active, remaining) = (active', remaining')"
    and "effect_chain (set active) es" and "pressed_only active remaining"
  shows "pressed_only active' remaining' \<and> set active' = fold apply_edge es (set active)"
  using assms
proof (induction es arbitrary: active remaining)
  case Nil
  then show ?case by simp
next
  case (Cons e es)
  show ?case
  proof (cases "phase e")
    case KeyUp
    then have "set (removeAll (code e) active) = apply_edge e (set active)"
      by (simp add: apply_edge_def)
    with Cons KeyUp show ?thesis
      using pressed_only_release [of active remaining "code e"] by simp
  next
    case RawKeyDown
    then have s: "set (js_add (code e) active) = apply_edge e (set active)"
      by (simp add: apply_edge_def)
    show ?thesis
    proof (cases "code e \<in> set active")
      case True
      then have "js_add (code e) active = active" by (simp add: js_add_def)
      with Cons RawKeyDown True s show ?thesis by simp
    next
      case False
      with Cons.prems(2) have "\<not> autoRepeat e" by auto
      then have "pressed_only (js_add (code e) active) (jm_set (code e) e remaining)"
        using Cons.prems(3) RawKeyDown by (simp add: pressed_only_press)
      with Cons RawKeyDown False s show ?thesis by simp
    qed
  qed
qed

lemma release_edges_held:
  assumes "release_edges P cx rs active releases w = (w', releases', None)"
    and "tracks_held P (roleId (cx_request cx)) held" and "\<forall>e \<in> set rs. phase e = RawKeyDown \<and> \<not> autoRepeat e"
  shows "held w' = held w - code ` set rs"
  using assms(1,3)
proof (induction rs arbitrary: active releases w)
  case Nil
  then show ?case by simp
next
  case (Cons e rs)
  let ?e = "e\<lparr>activeCodes := active, activeCodesBefore := removeAll (code e) active\<rparr>"
  obtain u where u: "inverseChromiumKeyEffect ?e = Some u"
    using Cons.prems(2) inverse_not_repeat [of ?e] by auto
  then have uc: "phase u = KeyUp" "code u = code e" using inverse_phase by fastforce+
  obtain w1 out where d: "dispatch P (nativeRequest (cx_request cx) (cx_surfaceGeneration cx) u
      (cx_physical cx) Cleanup) w = (w1, out)" by fastforce
  from Cons.prems(1) u d obtain rc where rc: "out = Inr rc" "rec_status rc = Applied"
    "release_edges P cx rs (removeAll (code e) active) (js_add (code e) releases) w1
       = (w', releases', None)"
    using uc by (auto simp: Let_def split: if_splits sum.splits)
  have "held w1 = held w - {code e}"
    using tracks_dispatch [OF assms(2) d] rc(1,2) uc by (simp add: outcome_allows_def apply_edge_def)
  then show ?case using Cons.IH [OF rc(3)] Cons.prems(2) by auto
qed

lemma compensateEdges_held:
  assumes "compensateEdges P cx edges releases w = (w', releases', None)"
    and "tracks_held P (roleId (cx_request cx)) held" and "effect_chain {} edges"
  shows "held w' = held w - fold apply_edge edges {}"
proof -
  obtain active remaining where t: "track_edges edges ([], []) = (active, remaining)"
    by fastforce
  have start: "(case edges of [] \<Rightarrow> [] | e # _ \<Rightarrow> js_set_of (activeCodesBefore e)) = []"
    using assms(3) by (cases edges) (auto simp: js_set_of_def)
  have p: "pressed_only active remaining" "set active = fold apply_edge edges {}"
    using track_edges_pressed [OF t] assms(3) by (auto simp: pressed_only_def)
  have r: "release_edges P cx (rev (map snd remaining)) active releases w = (w', releases', None)"
    using assms(1) t start by (simp add: compensateEdges_def)
  have "\<forall>x \<in> set remaining. code (snd x) = fst x" and "set active = fst ` set remaining"
    using p(1) by (auto simp: pressed_only_def)
  then have "code ` set (rev (map snd remaining)) = set active"
    by (simp add: image_image)
  moreover have "held w' = held w - code ` set (rev (map snd remaining))"
    by (rule release_edges_held [OF r assms(2)]) (use p(1) in \<open>auto simp: pressed_only_def\<close>)
  ultimately show ?thesis using p(2) by (simp only:)
qed

text \<open>Keys held before the edges stay out of the way: applying edges to more keys adds no others.\<close>

lemma fold_edges_more: "fold apply_edge es (A \<union> X) \<subseteq> fold apply_edge es A \<union> X"
proof (induction es arbitrary: A X)
  case (Cons e es)
  show ?case
  proof (cases "phase e")
    case KeyUp
    then have "apply_edge e (A \<union> X) = apply_edge e A \<union> (X - {code e})"
      by (auto simp: apply_edge_def)
    then show ?thesis using Cons.IH [of "apply_edge e A" "X - {code e}"] by auto
  next
    case RawKeyDown
    then have "apply_edge e (A \<union> X) = apply_edge e A \<union> X" by (auto simp: apply_edge_def)
    then show ?thesis using Cons.IH [of "apply_edge e A" X] by simp
  qed
qed simp

lemma fold_edges_from: "fold apply_edge es H \<subseteq> fold apply_edge es {} \<union> H"
  using fold_edges_more [of es "{}" H] by simp

lemma rollback_held:
  assumes "tracks_held P q held"
  shows "held (fst (rollback P tid w)) = held w"
  by (cases tid)
    (simp_all add: rollback_def split_def Let_def tracks_heldD(2) [of P q held, OF assms])

lemma recover_neutral:
  assumes "recover P cx tr nb cause applied edges failed releases w = (w', releases', f)"
    and "tracks_held P (roleId (cx_request cx)) held" and "effect_chain {} edges"
    and "held w \<subseteq> fold apply_edge edges {} \<union> H" and "compensationSucceeded f"
  shows "held w' \<subseteq> H"
proof -
  obtain w1 r1 c where c: "compensateEdges P cx edges releases w = (w1, r1, c)"
    by (metis prod_cases3)
  have "c = None" "held w' = held w1"
    using assms(1,5) c rollback_held [OF assms(2)] tracks_record [OF assms(2)]
    by (auto simp: recover_def recoverChromiumKeySequence_def compensationSucceeded_def Let_def
        split_def)
  then show ?thesis using compensateEdges_held [OF _ assms(2,3)] c assms(4) by auto
qed

subsection \<open>The effect loop\<close>

text \<open>What a throw of the loop rests on: a recovery of the edges that may have been applied.\<close>

lemma dispatch_threw_recovers:
  assumes "dispatch_threw P cx tr nb applied releases e cause w = (w1, Thrown f)"
  shows "\<exists>rel rel' fr cs. recover P cx tr nb cs applied
      (applied @ (if phase e = RawKeyDown then [e] else [])) (Some e) rel w = (w1, rel', fr) \<and>
    (sf_confirmedInputNeutrality f \<longleftrightarrow> compensationSucceeded fr \<and> rollbackSucceeded fr \<and> nb)"
  using assms
  by (auto simp: dispatch_threw_def Let_def split_def ChromiumTrustedInputSequenceFailure_def
      intro!: exI prod_eqI)

lemma dispatch_refused_recovers:
  assumes "dispatch_refused P cx tr nb applied releases e rc w = (w1, Thrown f)"
  shows "\<exists>rel rel' fr cs. recover P cx tr nb cs applied
      (applied @ (if rec_status rc = Indeterminate \<and> phase e = RawKeyDown then [e] else []))
      (Some e) rel w = (w1, rel', fr) \<and>
    (sf_confirmedInputNeutrality f \<longleftrightarrow> compensationSucceeded fr \<and> rollbackSucceeded fr \<and> nb)"
  using assms
  by (auto simp: dispatch_refused_def Let_def split_def sequenceFailure_def
      ChromiumTrustedInputSequenceFailure_def intro!: exI prod_eqI)

lemma dispatch_threw_neutral:
  assumes "dispatch_threw P cx tr nb applied releases e cause w' = (w1, Thrown f)"
    and "sf_confirmedInputNeutrality f" and "tracks_held P (roleId (cx_request cx)) held"
    and "effect_chain {} (applied @ [e])"
    and "held w' = fold apply_edge applied H \<or> held w' = fold apply_edge (applied @ [e]) H"
  shows "held w1 \<subseteq> H"
proof -
  let ?edges = "applied @ (if phase e = RawKeyDown then [e] else [])"
  have "effect_chain {} ?edges" using assms(4) by (simp add: effect_chain_append)
  moreover have "held w' \<subseteq> fold apply_edge ?edges H"
    using assms(5) by (cases "phase e") (auto simp: apply_edge_def)
  then have "held w' \<subseteq> fold apply_edge ?edges {} \<union> H" using fold_edges_from by blast
  ultimately show ?thesis
    using dispatch_threw_recovers [OF assms(1)] assms(2) recover_neutral [OF _ assms(3)] by blast
qed

lemma dispatch_refused_neutral:
  assumes "dispatch_refused P cx tr nb applied releases e rc w' = (w1, Thrown f)"
    and "sf_confirmedInputNeutrality f" and "tracks_held P (roleId (cx_request cx)) held"
    and "effect_chain {} (applied @ [e])" and "rec_status rc \<noteq> Applied"
    and "outcome_allows (Inr rc) e (fold apply_edge applied H) (held w')"
  shows "held w1 \<subseteq> H"
proof -
  let ?edges = "applied @ (if rec_status rc = Indeterminate \<and> phase e = RawKeyDown then [e] else [])"
  have "effect_chain {} ?edges" using assms(4) by (simp add: effect_chain_append)
  moreover have "held w' \<subseteq> fold apply_edge ?edges H"
    using assms(5,6) by (cases "phase e"; cases "rec_status rc")
      (auto simp: outcome_allows_def apply_edge_def)
  then have "held w' \<subseteq> fold apply_edge ?edges {} \<union> H" using fold_edges_from by blast
  ultimately show ?thesis
    using dispatch_refused_recovers [OF assms(1)] assms(2) recover_neutral [OF _ assms(3)] by blast
qed

lemma run_effects_neutral:
  assumes "run_effects P cx tr nb es applied releases w = (w', Inl (Thrown f))"
    and "sf_confirmedInputNeutrality f" and "tracks_held P (roleId (cx_request cx)) held"
    and "effect_chain {} (applied @ es)" and "held w = fold apply_edge applied H"
  shows "held w' \<subseteq> H"
  using assms(1,4,5)
proof (induction es arbitrary: applied releases w)
  case Nil
  then show ?case by simp
next
  case (Cons e es)
  have ch: "effect_chain {} (applied @ [e])" using Cons.prems(2) by (simp add: effect_chain_append)
  obtain w1 out where d: "dispatch P (nativeRequest (cx_request cx) (cx_surfaceGeneration cx) e
      (cx_physical cx) (request_intent (cx_request cx))) w = (w1, out)" by fastforce
  note t = tracks_dispatch [OF assms(3) d]
  show ?case
  proof (cases out)
    case (Inl cause)
    then show ?thesis
      using dispatch_threw_neutral [OF _ assms(2,3) ch] Cons.prems d t
      by (auto simp: outcome_allows_def split: prod.splits)
  next
    case (Inr rc)
    show ?thesis
    proof (cases "rec_status rc = Applied")
      case True
      then have "held w1 = fold apply_edge (applied @ [e]) H"
        using t Inr Cons.prems(3) by (simp add: outcome_allows_def)
      then show ?thesis using Cons.IH [of "applied @ [e]" _ w1] Cons.prems d Inr True by simp
    next
      case False
      then show ?thesis
        using dispatch_refused_neutral [OF _ assms(2,3) ch False] Cons.prems d t Inr
        by (auto split: prod.splits)
    qed
  qed
qed


lemma run_effects_needs_neutral_start:
  assumes "run_effects P cx tr nb es applied releases w = (w', Inl (Thrown f))"
    and "sf_confirmedInputNeutrality f"
  shows "nb"
  using assms(1)
proof (induction es arbitrary: applied releases w)
  case (Cons e es)
  show ?case
    using Cons.prems Cons.IH dispatch_threw_recovers dispatch_refused_recovers assms(2)
    by (fastforce split: prod.splits sum.splits if_splits)
qed simp

lemma run_effects_thrown:
  assumes "run_effects P cx tr nb es applied releases w = (w', Inl r)"
  shows "\<exists>f. r = Thrown f"
  using assms
proof (induction es arbitrary: applied releases w)
  case (Cons e es)
  then show ?case
    by (auto simp: dispatch_threw_def dispatch_refused_def Let_def
        split: prod.splits sum.splits if_splits)
qed simp

lemma run_effects_applied_held:
  assumes "run_effects P cx tr nb es applied releases w = (w', Inr (applied', releases'))"
    and "tracks_held P (roleId (cx_request cx)) held"
  shows "applied' = applied @ es \<and> held w' = fold apply_edge es (held w)"
  using assms(1)
proof (induction es arbitrary: applied releases w)
  case Nil
  then show ?case by simp
next
  case (Cons e es)
  obtain w1 out where d: "dispatch P (nativeRequest (cx_request cx) (cx_surfaceGeneration cx) e
      (cx_physical cx) (request_intent (cx_request cx))) w = (w1, out)" by fastforce
  from Cons.prems d obtain rc where rc: "out = Inr rc" "rec_status rc = Applied"
    by (auto split: sum.splits if_splits prod.splits)
  then have "held w1 = apply_edge e (held w)"
    using tracks_dispatch [OF assms(2) d] by (simp add: outcome_allows_def)
  then show ?case using Cons.IH [of "applied @ [e]" _ w1] Cons.prems d rc by simp
qed

section \<open>The protocol with the ports\<close>

text \<open>Ports that write down the calls made through them, in order.\<close>

datatype port_event =
    DispatchEvent native_request "native_receipt outcome"
  | CompleteEvent string bool "unit outcome"
  | FailureEvent sequence_failure_record bool

definition logged :: "'w ports \<Rightarrow> ('w \<times> port_event list) ports" where
  "logged P =
     \<lparr>dispatch = (\<lambda>r (w, l). let (w', out) = dispatch P r w
                           in ((w', l @ [DispatchEvent r out]), out)),
      nowMs = (\<lambda>(w, l). nowMs P w),
      core_prepare = (\<lambda>i (w, l). let (w', out) = core_prepare P i w in ((w', l), out)),
      core_reassert = (\<lambda>i (w, l). let (w', out) = core_reassert P i w in ((w', l), out)),
      core_complete = (\<lambda>t b (w, l). let (w', out) = core_complete P t b w
                           in ((w', l @ [CompleteEvent t b out]), out)),
      record_failure = (\<lambda>f b (w, l). (record_failure P f b w, l @ [FailureEvent f b]))\<rparr>"

definition dispatched :: "seq_context \<Rightarrow> key_effect \<Rightarrow> native_receipt outcome \<Rightarrow> port_event" where
  "dispatched cx e out = DispatchEvent (nativeRequest (cx_request cx) (cx_surfaceGeneration cx) e
     (cx_physical cx) (request_intent (cx_request cx))) out"

fun was_applied :: "native_receipt outcome \<Rightarrow> bool" where
  "was_applied (Inl _) \<longleftrightarrow> False"
| "was_applied (Inr rc) \<longleftrightarrow> rec_status rc = Applied"

definition applied_events :: "seq_context \<Rightarrow> key_effect list \<Rightarrow> port_event list \<Rightarrow> bool" where
  "applied_events cx es l \<longleftrightarrow>
     list_all2 (\<lambda>e ev. \<exists>out. ev = dispatched cx e out \<and> was_applied out) es l"

fun cleanup_release :: "port_event \<Rightarrow> bool" where
  "cleanup_release (DispatchEvent r _) \<longleftrightarrow>
     req_intent r = Cleanup \<and> (\<exists>e. req_keyEffect r = Some e \<and> phase e = KeyUp)"
| "cleanup_release _ \<longleftrightarrow> False"

text \<open>A recovery: cleanup releases only, then the rollback where there is a transition to roll
  back, then one failure record.\<close>

definition rollback_events :: "string option \<Rightarrow> port_event list \<Rightarrow> bool" where
  "rollback_events tid l \<longleftrightarrow>
     (case tid of
        None \<Rightarrow> l = []
      | Some t \<Rightarrow> if t = [] then l = [] else \<exists>out. l = [CompleteEvent t False out])"

definition recovery_events :: "string option \<Rightarrow> port_event list \<Rightarrow> bool" where
  "recovery_events tid l \<longleftrightarrow>
     (\<exists>releases rb f neutral. l = releases @ rb @ [FailureEvent f neutral] \<and>
        list_all cleanup_release releases \<and> rollback_events tid rb)"

definition commit_events :: "string option \<Rightarrow> unit outcome \<Rightarrow> port_event list" where
  "commit_events tid out =
     (case tid of None \<Rightarrow> [] | Some t \<Rightarrow> if t = [] then [] else [CompleteEvent t True out])"

text \<open>The loop stopped at an effect that did not apply, after those before it did.\<close>

definition stopped_events ::
  "seq_context \<Rightarrow> string option \<Rightarrow> key_effect list \<Rightarrow> port_event list \<Rightarrow> bool" where
  "stopped_events cx tid es l \<longleftrightarrow>
     (\<exists>before e after evs out rest. es = before @ e # after \<and> applied_events cx before evs \<and>
        \<not> was_applied out \<and> l = evs @ dispatched cx e out # rest \<and> recovery_events tid rest)"

definition sequence_events ::
  "seq_context \<Rightarrow> transition \<Rightarrow> port_event list \<Rightarrow> exec_result \<Rightarrow> bool" where
  "sequence_events cx tr l r \<longleftrightarrow>
     (case r of
        Completed x \<Rightarrow> ex_confirmedEffects x = effects tr \<and>
          (\<exists>evs. applied_events cx (effects tr) evs \<and>
             l = evs @ commit_events (transitionId tr) (Inr ()))
      | Thrown f \<Rightarrow> stopped_events cx (transitionId tr) (effects tr) l \<or>
          (\<exists>evs cause rest. applied_events cx (effects tr) evs \<and>
             commit_events (transitionId tr) (Inl cause) \<noteq> [] \<and>
             l = evs @ commit_events (transitionId tr) (Inl cause) @ rest \<and>
             recovery_events (transitionId tr) rest)
      | Rethrown e \<Rightarrow> False)"

lemma applied_events_Nil [simp]: "applied_events cx [] []"
  by (simp add: applied_events_def)

lemma applied_events_Cons:
  "was_applied out \<Longrightarrow> applied_events cx es evs \<Longrightarrow>
     applied_events cx (e # es) (dispatched cx e out # evs)"
  by (auto simp: applied_events_def)

lemma stopped_events_here:
  "\<not> was_applied out \<Longrightarrow> recovery_events tid rest \<Longrightarrow>
     stopped_events cx tid (e # es) (dispatched cx e out # rest)"
  unfolding stopped_events_def
  by (rule exI [of _ "[]"], rule exI [of _ e], rule exI [of _ es], rule exI [of _ "[]"],
      rule exI [of _ out], rule exI [of _ rest]) simp

lemma stopped_events_later:
  assumes "was_applied out" and "stopped_events cx tid es l"
  shows "stopped_events cx tid (e # es) (dispatched cx e out # l)"
proof -
  obtain before e' after evs o' rest where h: "es = before @ e' # after" "applied_events cx before evs"
      "\<not> was_applied o'" "l = evs @ dispatched cx e' o' # rest" "recovery_events tid rest"
    using assms(2) by (auto simp: stopped_events_def)
  show ?thesis
    unfolding stopped_events_def
    by (rule exI [of _ "e # before"], rule exI [of _ e'], rule exI [of _ after],
        rule exI [of _ "dispatched cx e out # evs"], rule exI [of _ o'], rule exI [of _ rest])
      (simp add: h applied_events_Cons assms(1))
qed

lemma logged_simps [simp]:
  "dispatch (logged P) r (w, l) = ((fst (dispatch P r w), l @ [DispatchEvent r (snd (dispatch P r w))]),
     snd (dispatch P r w))"
  "core_complete (logged P) t b (w, l) = ((fst (core_complete P t b w),
     l @ [CompleteEvent t b (snd (core_complete P t b w))]), snd (core_complete P t b w))"
  "record_failure (logged P) f b (w, l) = (record_failure P f b w, l @ [FailureEvent f b])"
  by (simp_all add: logged_def split_def Let_def)

lemma release_edges_log:
  assumes "release_edges (logged P) cx rs active rel (w, l) = ((w', l'), rel', c)"
  shows "\<exists>evs. l' = l @ evs \<and> list_all cleanup_release evs"
  using assms
proof (induction rs arbitrary: active rel w l)
  case Nil
  then show ?case by simp
next
  case (Cons e rs)
  let ?e = "e\<lparr>activeCodes := active, activeCodesBefore := removeAll (code e) active\<rparr>"
  show ?case
  proof (cases "nowMs (logged P) (w, l) \<ge> deadlineMs (cx_request cx)")
    case True
    then show ?thesis using Cons.prems by simp
  next
    case False
    show ?thesis
    proof (cases "inverseChromiumKeyEffect ?e")
      case None
      then show ?thesis using Cons False by (simp add: Let_def)
    next
      case (Some u)
      let ?r = "nativeRequest (cx_request cx) (cx_surfaceGeneration cx) u (cx_physical cx) Cleanup"
      let ?ev = "DispatchEvent ?r (snd (dispatch P ?r w))"
      have cl: "cleanup_release ?ev"
        using inverse_phase [OF Some] by (simp add: nativeRequest_def)
      have "(\<exists>c'. c = Some c' \<and> l' = l @ [?ev]) \<or>
          release_edges (logged P) cx rs (removeAll (code e) active) (js_add (code u) rel)
            (fst (dispatch P ?r w), l @ [?ev]) = ((w', l'), rel', c)"
        using Cons.prems False Some
        by (auto simp: Let_def split: sum.splits if_splits)
      then show ?thesis using Cons.IH cl by fastforce
    qed
  qed
qed

lemma rollback_log:
  "\<exists>rb. snd (fst (rollback (logged P) tid (w, l))) = l @ rb \<and> rollback_events tid rb"
  by (auto simp: rollback_def rollback_events_def Let_def split_def split: option.splits)

lemma recover_log:
  assumes "recover (logged P) cx tr nb cause applied edges failed rel (w, l) = ((w', l'), rel', f)"
  shows "\<exists>evs. l' = l @ evs \<and> recovery_events (transitionId tr) evs"
proof -
  obtain w1 l1 r1 c where c: "compensateEdges (logged P) cx edges rel (w, l) = ((w1, l1), r1, c)"
    by (metis prod.exhaust)
  then obtain evs where evs: "l1 = l @ evs" "list_all cleanup_release evs"
    using release_edges_log by (fastforce simp: compensateEdges_def Let_def split_def)
  obtain rb where rb: "snd (fst (rollback (logged P) (transitionId tr) (w1, l1))) = l1 @ rb"
    "rollback_events (transitionId tr) rb"
    using rollback_log [of P "transitionId tr" w1 l1] by (elim exE conjE)
  obtain w2 where w2: "fst (rollback (logged P) (transitionId tr) (w1, l1)) = (w2, l1 @ rb)"
    using rb(1) by (metis prod.collapse)
  have "\<exists>n. l' = l1 @ rb @ [FailureEvent f n]"
    using assms c w2
    by (auto simp: recover_def recoverChromiumKeySequence_def Let_def split_def)
  then show ?thesis using evs rb(2) unfolding recovery_events_def by fastforce
qed

lemma dispatch_threw_log:
  assumes "dispatch_threw (logged P) cx tr nb applied rel e cause (w, l) = ((w', l'), r)"
  shows "(\<exists>f. r = Thrown f) \<and> (\<exists>evs. l' = l @ evs \<and> recovery_events (transitionId tr) evs)"
  using assms recover_log
  by (fastforce simp: dispatch_threw_def Let_def split: prod.splits)

lemma dispatch_refused_log:
  assumes "dispatch_refused (logged P) cx tr nb applied rel e rc (w, l) = ((w', l'), r)"
  shows "(\<exists>f. r = Thrown f) \<and> (\<exists>evs. l' = l @ evs \<and> recovery_events (transitionId tr) evs)"
  using assms recover_log
  by (fastforce simp: dispatch_refused_def Let_def split: prod.splits)

lemma run_effects_log:
  assumes "run_effects (logged P) cx tr nb es applied rel (w, l) = ((w', l'), R)"
  shows "\<exists>evs. l' = l @ evs \<and>
    (case R of
       Inr (ap, rel') \<Rightarrow> ap = applied @ es \<and> applied_events cx es evs
     | Inl r \<Rightarrow> (\<exists>f. r = Thrown f) \<and> stopped_events cx (transitionId tr) es evs)"
  using assms
proof (induction es arbitrary: applied rel w l)
  case Nil
  then show ?case by auto
next
  case (Cons e es)
  let ?rq = "nativeRequest (cx_request cx) (cx_surfaceGeneration cx) e (cx_physical cx)
    (request_intent (cx_request cx))"
  obtain w1 out where d: "dispatch P ?rq w = (w1, out)" by fastforce
  have ev: "DispatchEvent ?rq out = dispatched cx e out" by (simp add: dispatched_def)
  show ?case
  proof (cases "was_applied out")
    case True
    then obtain rc where rc: "out = Inr rc" "rec_status rc = Applied"
      by (cases out) auto
    have "run_effects (logged P) cx tr nb es (applied @ [e])
        (if phase e = KeyUp then js_add (code e) rel else removeAll (code e) rel)
        (w1, l @ [dispatched cx e out]) = ((w', l'), R)"
      using Cons.prems d rc ev by simp
    from Cons.IH [OF this] obtain evs where "l' = l @ dispatched cx e out # evs"
      "case R of Inr (ap, rel') \<Rightarrow> ap = (applied @ [e]) @ es \<and> applied_events cx es evs
       | Inl r \<Rightarrow> (\<exists>f. r = Thrown f) \<and> stopped_events cx (transitionId tr) es evs"
      by auto
    then show ?thesis
      by (intro exI [of _ "dispatched cx e out # evs"])
        (auto simp: applied_events_Cons True stopped_events_later split: sum.splits)
  next
    case False
    have "\<exists>f evs. R = Inl (Thrown f) \<and> l' = (l @ [dispatched cx e out]) @ evs \<and>
        recovery_events (transitionId tr) evs"
    proof (cases out)
      case (Inl cause)
      then show ?thesis using Cons.prems d ev dispatch_threw_log by (fastforce split: prod.splits)
    next
      case (Inr rc)
      then show ?thesis
        using Cons.prems d ev False dispatch_refused_log by (fastforce split: prod.splits)
    qed
    then obtain f evs where h: "R = Inl (Thrown f)" "l' = l @ dispatched cx e out # evs"
      "recovery_events (transitionId tr) evs" by auto
    then show ?thesis
      by (intro exI [of _ "dispatched cx e out # evs"]) (simp add: stopped_events_here False)
  qed
qed


section \<open>Properties\<close>

text \<open>What Core guarantees about a transition: its first effect starts from the codes held now.\<close>

definition coherent_plan :: "string set \<Rightarrow> transition \<Rightarrow> bool" where
  "coherent_plan h tr \<longleftrightarrow>
     (case effects tr of [] \<Rightarrow> True | e # _ \<Rightarrow> set (activeCodesBefore e) = h) \<and>
     effect_chain h (effects tr)"

lemma finish_sequence_cases:
  assumes "finish_sequence P cx tr nb applied releases w = (w', r)"
  shows "(\<exists>x. r = Completed x \<and> ex_confirmedEffects x = applied \<and>
            ex_activeCodes x = (if effects tr = [] then [] else activeCodes (last (effects tr))) \<and>
            (w' = w \<or> (\<exists>t out. core_complete P t True w = (w', out)))) \<or>
         (\<exists>f. r = Thrown f \<and> \<not> sf_confirmedInputNeutrality f)"
  using assms
  by (cases "transitionId tr")
    (auto simp: finish_sequence_def Let_def ChromiumTrustedInputSequenceFailure_def
      split: if_splits sum.splits prod.splits)

lemma effect_chain_last:
  "effect_chain h es \<Longrightarrow> es \<noteq> [] \<Longrightarrow> set (activeCodes (last es)) = fold apply_edge es h"
  by (induction es arbitrary: h) auto

text \<open>
  C4. Neutrality is never claimed falsely: when the executor throws a failure that confirms input
  neutrality, no key is held, whichever effects failed, were superseded, or ended with an unknown
  outcome, and whatever the native port did within its contract.
\<close>

theorem neutrality_confirmed_sound:
  assumes "tracks_held P (roleId request) held"
    and "prepare_transition P request platform w = (w0, Inr (tr, physical))"
    and "coherent_plan (held w0) tr"
    and "executeChromiumTrustedKeySequence P request surfaceGeneration platform w = (w', Thrown f)"
    and "sf_confirmedInputNeutrality f"
  shows "held w' = {}"
proof -
  let ?cx = "\<lparr>cx_request = request, cx_surfaceGeneration = surfaceGeneration, cx_physical = physical\<rparr>"
  let ?nb = "neutral_before tr"
  have tracks: "tracks_held P (roleId (cx_request ?cx)) held" using assms(1) by simp
  obtain w1 R where run: "run_effects P ?cx tr ?nb (effects tr) [] [] w0 = (w1, R)" by fastforce
  show ?thesis
  proof (cases R)
    case (Inl r)
    then have r: "r = Thrown f" "w1 = w'"
      using assms(2,4) run by (auto simp: executeChromiumTrustedKeySequence_def Let_def)
    then have nb: ?nb
      using run_effects_needs_neutral_start [OF run [unfolded Inl r]] assms(5) by blast
    then have "held w0 = {}"
      using assms(3) by (auto simp: coherent_plan_def neutral_before_def split: list.splits)
    then show ?thesis
      using run_effects_neutral [OF _ assms(5) tracks, of tr ?nb "effects tr" "[]" "[]" w0 w' "{}"]
        run Inl r assms(3) by (simp add: coherent_plan_def)
  next
    case (Inr q)
    then show ?thesis
      using assms(2,4,5) run finish_sequence_cases [of P ?cx tr ?nb "fst q" "snd q" w1 w' "Thrown f"]
      by (auto simp: executeChromiumTrustedKeySequence_def Let_def split_def)
  qed
qed

text \<open>
  C7. A completed sequence holds exactly the codes it reports: after every effect applied, the keys
  held are the active codes of the last planned effect (those held before, for an empty plan), and
  the confirmed effects are the plan.
\<close>

theorem completed_holds_active_codes:
  assumes "tracks_held P (roleId request) held"
    and "prepare_transition P request platform w = (w0, Inr (tr, physical))"
    and "coherent_plan (held w0) tr"
    and "executeChromiumTrustedKeySequence P request surfaceGeneration platform w = (w', Completed x)"
  shows "ex_confirmedEffects x = effects tr \<and>
    held w' = (if effects tr = [] then held w0 else set (ex_activeCodes x))"
proof -
  let ?cx = "\<lparr>cx_request = request, cx_surfaceGeneration = surfaceGeneration, cx_physical = physical\<rparr>"
  let ?nb = "neutral_before tr"
  have tracks: "tracks_held P (roleId (cx_request ?cx)) held" using assms(1) by simp
  obtain w1 R where run: "run_effects P ?cx tr ?nb (effects tr) [] [] w0 = (w1, R)" by fastforce
  have "\<exists>q. R = Inr q"
  proof (rule ccontr)
    assume "\<not> (\<exists>q. R = Inr q)"
    then obtain r where R: "R = Inl r" by (cases R) auto
    then have r: "r = Completed x"
      using assms(2,4) run by (auto simp: executeChromiumTrustedKeySequence_def Let_def)
    then show False using run_effects_thrown [OF run [unfolded R]] by blast
  qed
  then obtain ap rel where R: "R = Inr (ap, rel)" by auto
  then have fin: "finish_sequence P ?cx tr ?nb ap rel w1 = (w', Completed x)"
    using assms(2,4) run by (simp add: executeChromiumTrustedKeySequence_def Let_def)
  have ap: "ap = effects tr" "held w1 = fold apply_edge (effects tr) (held w0)"
    using run_effects_applied_held [OF _ tracks] run R by force+
  have "held w' = held w1"
    using finish_sequence_cases [OF fin] tracks_complete [OF assms(1)] by blast
  then show ?thesis
    using finish_sequence_cases [OF fin] ap assms(3) effect_chain_last [of "held w0" "effects tr"]
    by (auto simp: coherent_plan_def)
qed


lemma recover_thrown_log:
  "\<exists>evs. snd (fst (recover (logged P) cx tr nb cause applied edges failed rel (w, l))) = l @ evs \<and>
     recovery_events (transitionId tr) evs"
  using recover_log by (metis prod.collapse)

lemma finish_sequence_log:
  assumes "finish_sequence (logged P) cx tr nb applied rel (w, l) = ((w', l'), r)"
  shows "(\<exists>x. r = Completed x \<and> ex_confirmedEffects x = applied \<and>
            l' = l @ commit_events (transitionId tr) (Inr ())) \<or>
         (\<exists>f cause rest. r = Thrown f \<and> commit_events (transitionId tr) (Inl cause) \<noteq> [] \<and>
            l' = l @ commit_events (transitionId tr) (Inl cause) @ rest \<and>
            recovery_events (transitionId tr) rest)"
proof (cases "transitionId tr = None \<or> transitionId tr = Some []")
  case True
  then show ?thesis
    using assms by (auto simp: finish_sequence_def commit_events_def Let_def)
next
  case False
  then obtain t where t: "transitionId tr = Some t" "t \<noteq> []" by auto
  show ?thesis
  proof (cases "snd (core_complete P t True w)")
    case (Inr u)
    then show ?thesis
      using assms t by (auto simp: finish_sequence_def commit_events_def Let_def)
  next
    case (Inl cause)
    let ?w = "fst (core_complete P t True w)"
    obtain evs where "snd (fst (recover (logged P) cx tr nb (normalize_code cause) applied applied
        None rel (?w, l @ [CompleteEvent t True (Inl cause)]))) =
          (l @ [CompleteEvent t True (Inl cause)]) @ evs"
      "recovery_events (transitionId tr) evs"
      using recover_thrown_log [of P cx tr nb "normalize_code cause" applied applied None rel ?w] 
      by blast
    then show ?thesis
      using assms t Inl by (auto simp: finish_sequence_def commit_events_def Let_def split_def)
  qed
qed

text \<open>
  C6. The calls of a sequence follow one protocol, for every native port, Core and clock: the
  planned effects are dispatched in order; Core is told the transition succeeded only after every
  one of them applied, and at most once; as soon as one does not apply no further effect is
  dispatched, only key-up cleanup requests, then the rollback where there is a transition identity,
  then one failure record, and the executor throws.
\<close>

theorem sequence_protocol:
  assumes "prepare_transition (logged P) request platform (w, []) = ((w0, []), Inr (tr, physical))"
    and "executeChromiumTrustedKeySequence (logged P) request surfaceGeneration platform (w, [])
      = ((w', l), r)"
  shows "sequence_events \<lparr>cx_request = request, cx_surfaceGeneration = surfaceGeneration,
    cx_physical = physical\<rparr> tr l r"
proof -
  let ?cx = "\<lparr>cx_request = request, cx_surfaceGeneration = surfaceGeneration, cx_physical = physical\<rparr>"
  obtain w1 l1 R where run:
    "run_effects (logged P) ?cx tr (neutral_before tr) (effects tr) [] [] (w0, []) = ((w1, l1), R)"
    by (metis prod.exhaust)
  note log = run_effects_log [OF run]
  show ?thesis
  proof (cases R)
    case (Inl q)
    then have "q = r" "l1 = l"
      using assms run by (auto simp: executeChromiumTrustedKeySequence_def Let_def)
    then show ?thesis using log Inl by (auto simp: sequence_events_def)
  next
    case (Inr q)
    obtain ap rel where q: "q = (ap, rel)" by fastforce
    have "finish_sequence (logged P) ?cx tr (neutral_before tr) ap rel (w1, l1) = ((w', l), r)"
      using assms run Inr q by (simp add: executeChromiumTrustedKeySequence_def Let_def)
    from finish_sequence_log [OF this] show ?thesis
      using log Inr q by (auto simp: sequence_events_def) blast
  qed
qed

section \<open>A scripted keyboard\<close>

text \<open>A world for concrete runs: the held codes, and the status of every coming dispatch.\<close>

record scripted =
  sc_held :: "string list"
  sc_script :: "receipt_status list"
  sc_plan :: transition

definition scripted_receipt :: "native_request \<Rightarrow> receipt_status \<Rightarrow> native_receipt" where
  "scripted_receipt r st =
     \<lparr>rec_requestId = req_requestId r, rec_roleId = req_roleId r, rec_inputEpoch = req_inputEpoch r,
      rec_surfaceGeneration = req_surfaceGeneration r, rec_status = st, rec_completedAtMs = 5,
      rec_errorCode = (if st = Applied then None else Some ''NATIVE''),
      rec_confirmedNeutrality = False\<rparr>"

definition scripted_dispatch :: "native_request \<Rightarrow> scripted \<Rightarrow> scripted \<times> native_receipt outcome" where
  "scripted_dispatch r w =
     (case (sc_script w, req_keyEffect r) of
        (st # sts, Some e) \<Rightarrow>
          (w\<lparr>sc_script := sts,
             sc_held := (if st = Applied \<or> st = Indeterminate
                         then if phase e = KeyUp then removeAll (code e) (sc_held w)
                              else js_add (code e) (sc_held w)
                         else sc_held w)\<rparr>, Inr (scripted_receipt r st))
      | _ \<Rightarrow> (w, Inl PlainError))"

definition scripted_ports :: "scripted ports" where
  "scripted_ports =
     \<lparr>dispatch = scripted_dispatch, nowMs = (\<lambda>_. 5),
      core_prepare = (\<lambda>i w. (w, Inr (sc_plan w))), core_reassert = (\<lambda>i w. (w, Inr (sc_plan w))),
      core_complete = (\<lambda>t b w. (w, Inr ())), record_failure = (\<lambda>f b w. w)\<rparr>"

lemma scripted_tracks: "tracks_held scripted_ports q (\<lambda>w. set (sc_held w))"
  by (auto simp: tracks_held_def scripted_ports_def scripted_dispatch_def scripted_receipt_def
      outcome_allows_def apply_edge_def split: list.splits receipt_status.splits)

definition demo_key :: key_action where
  "demo_key = \<lparr>action_phase = Hold, key_name = ''a'', action_code = Some ''KeyA'',
     modifiers = [Shift], exactModifierCodes = None, modifierOwnership = Synthetic,
     ownerId = ''m'', suppressOverlayShortcut = False\<rparr>"

definition demo_request :: action_request where
  "demo_request = \<lparr>requestId = ''r'', roleId = ''x'', inputEpoch = 1, request_intent = Normal,
     scheduledAtMs = 1, deadlineMs = 100, action = KeyAction demo_key\<rparr>"

definition press :: "string \<Rightarrow> string list \<Rightarrow> key_effect" where
  "press c before = \<lparr>phase = RawKeyDown, code = c, activeCodesBefore = before,
     activeCodes = before @ [c], autoRepeat = False, suppressShortcut = False\<rparr>"

definition demo_plan :: transition where
  "demo_plan = \<lparr>transitionId = Some ''t'',
     effects = [press ''ShiftLeft'' [], press ''KeyA'' [''ShiftLeft'']], hasHeldKeys = True\<rparr>"

definition demo_world :: "receipt_status list \<Rightarrow> scripted" where
  "demo_world script = \<lparr>sc_held = [], sc_script = script, sc_plan = demo_plan\<rparr>"

lemma demo_prepare:
  "prepare_transition scripted_ports demo_request Darwin (demo_world script) =
     (demo_world script, Inr (demo_plan, []))"
  by (simp add: prepare_transition_def scripted_ports_def demo_request_def demo_key_def
      demo_world_def demo_plan_def resolveChromiumModifierCodes_def js_set_of_def js_add_def
      isChromiumModifierCode_def CHROMIUM_MODIFIER_CODES_def)

lemma demo_coherent: "coherent_plan {} demo_plan"
  by (simp add: coherent_plan_def demo_plan_def press_def apply_edge_def insert_commute)

text \<open>Shift applies, the key press ends indeterminate, and both are released.\<close>

definition demo_failure :: sequence_failure where
  "demo_failure = \<lparr>sf_code = ''SYSTEM_TRUSTED_INPUT_INDETERMINATE'', sf_quarantine = False,
     sf_actionIndeterminate = True,
     sf_possiblyAppliedEdges = [(RawKeyDown, ''ShiftLeft''), (RawKeyDown, ''KeyA'')],
     sf_confirmedInputNeutrality = True, sf_confirmedReleaseCodes = [''KeyA'', ''ShiftLeft'']\<rparr>"

lemma demo_interrupted:
  "executeChromiumTrustedKeySequence scripted_ports demo_request 3 Darwin
     (demo_world [Applied, Indeterminate, Applied, Applied])
   = (demo_world [], Thrown demo_failure)"
  by code_simp

theorem neutrality_confirmed_sound_witness:
  "sf_confirmedInputNeutrality demo_failure \<and> set (sc_held (demo_world [])) = {}"
proof -
  have n: "sf_confirmedInputNeutrality demo_failure" by (simp add: demo_failure_def)
  have c: "coherent_plan (set (sc_held (demo_world [Applied, Indeterminate, Applied, Applied]))) demo_plan"
    using demo_coherent by (simp add: demo_world_def)
  show ?thesis
    using neutrality_confirmed_sound [OF scripted_tracks demo_prepare c demo_interrupted n] n by simp
qed

definition demo_done :: scripted where
  "demo_done = \<lparr>sc_held = [''ShiftLeft'', ''KeyA''], sc_script = [], sc_plan = demo_plan\<rparr>"

definition demo_execution :: execution where
  "demo_execution = \<lparr>ex_hasHeldKeys = True, ex_activeCodes = [''ShiftLeft'', ''KeyA''],
     ex_confirmedEffects = effects demo_plan,
     ex_receipt = \<lparr>rec_requestId = ''r'', rec_roleId = ''x'', rec_inputEpoch = 1,
       rec_surfaceGeneration = 3, rec_status = Applied, rec_completedAtMs = 5,
       rec_errorCode = None, rec_confirmedNeutrality = False\<rparr>\<rparr>"

lemma demo_completed:
  "executeChromiumTrustedKeySequence scripted_ports demo_request 3 Darwin
     (demo_world [Applied, Applied]) = (demo_done, Completed demo_execution)"
  by code_simp

theorem completed_holds_active_codes_witness:
  "ex_confirmedEffects demo_execution = effects demo_plan \<and>
   set (sc_held demo_done) = {''ShiftLeft'', ''KeyA''}"
proof -
  have c: "coherent_plan (set (sc_held (demo_world [Applied, Applied]))) demo_plan"
    using demo_coherent by (simp add: demo_world_def)
  show ?thesis
    using completed_holds_active_codes [OF scripted_tracks demo_prepare c demo_completed]
    by (simp add: demo_plan_def demo_execution_def)
qed

theorem sequence_protocol_witness:
  "sequence_events \<lparr>cx_request = demo_request, cx_surfaceGeneration = 3, cx_physical = []\<rparr> demo_plan
     (snd (fst (executeChromiumTrustedKeySequence (logged scripted_ports) demo_request 3 Darwin
        (demo_world [Applied, Failed, Applied], []))))
     (snd (executeChromiumTrustedKeySequence (logged scripted_ports) demo_request 3 Darwin
        (demo_world [Applied, Failed, Applied], [])))"
proof -
  have p: "prepare_transition (logged scripted_ports) demo_request Darwin
      (demo_world [Applied, Failed, Applied], []) =
      ((demo_world [Applied, Failed, Applied], []), Inr (demo_plan, []))"
    by code_simp
  show ?thesis
    by (rule sequence_protocol [OF p, where w' =
      "fst (fst (executeChromiumTrustedKeySequence (logged scripted_ports) demo_request 3 Darwin
        (demo_world [Applied, Failed, Applied], [])))"]) simp
qed

end
