(* ===== verification/Operation_Journal.thy ===== *)
theory Operation_Journal
  imports Prelude
begin

text \<open>
  The bounded journal of runtime operations
  (\<open>src/src/electron/main/runtimeOperationJournal.ts\<close>): identity evidence of Core effects, at most
  512 entries.  An effect's action is its JSON object.  The clock is the argument \<open>now\<close>; the
  optional sink is observational (its exceptions are swallowed) and left out.
\<close>

section \<open>Wire values\<close>

datatype json =
    JNull | JBool bool | JNum int | JStr string
  | JArr "json list" | JObj "(string \<times> json) list"

definition field :: "string \<Rightarrow> (string \<times> json) list \<Rightarrow> json option" where
  "field k o' = map_of o' k"

datatype completion_policy = EventBound | DeadlineBound

record core_effect =
  effectId :: string
  operationId :: string
  parentOperationId :: "string option"
  target_kind :: string
  target_handleId :: string
  action_type :: string
  action_fields :: "(string \<times> json) list"  \<comment> \<open>all fields of the action but \<open>type\<close>\<close>
  completionPolicy :: completion_policy
  effect_deadlineMs :: "int option"

section \<open>Identity fences\<close>

datatype fence = FStr string | FNum int


definition fence_keys :: "string list" where
  "fence_keys = [''eventId'', ''windowId'', ''logicalWindowId'', ''nativeGeneration'',
     ''launchGeneration'', ''adapterSequence'', ''tabId'', ''roleId'', ''surfaceId'', ''slotId'',
     ''generation'', ''windowGeneration'', ''topologyRevision'', ''attemptGeneration'',
     ''activationAttemptId'', ''revision'', ''lifecycleEpoch'']"

text \<open>One field under \<open>capture\<close>.\<close>

definition capture_field ::
  "string \<Rightarrow> string \<times> json \<Rightarrow> (string, fence) js_map \<Rightarrow> (string, fence) js_map" where
  "capture_field prefix e result =
     (let (key, v) = e;
          r1 = (if key \<in> set fence_keys
                then (case v of JStr s \<Rightarrow> jm_set (prefix @ key) (FStr s) result
                      | JNum n \<Rightarrow> jm_set (prefix @ key) (FNum n) result
                      | _ \<Rightarrow> result)
                else result)
      in if key = ''presentation'' \<and>
            v \<in> {JStr ''normal'', JStr ''maximized'', JStr ''fullscreen''}
         then (case v of JStr s \<Rightarrow> jm_set (prefix @ key) (FStr s) r1 | _ \<Rightarrow> r1)
         else r1)"

text \<open>\<open>Object.entries\<close> throws on null and undefined; on arrays and primitives its keys are indices,
  which \<open>capture\<close> ignores.\<close>

definition capture ::
  "string \<Rightarrow> json option \<Rightarrow> (string, fence) js_map \<Rightarrow> (string, fence) js_map outcome" where
  "capture prefix v result =
     (case v of
        None \<Rightarrow> Inl PlainError
      | Some JNull \<Rightarrow> Inl PlainError
      | Some (JObj es) \<Rightarrow> Inr (fold (capture_field prefix) es result)
      | Some _ \<Rightarrow> Inr result)"

fun capture_windows ::
  "string \<Rightarrow> bool \<Rightarrow> nat \<Rightarrow> json list \<Rightarrow> (string, fence) js_map \<Rightarrow> (string, fence) js_map outcome" where
  "capture_windows prefix identity i [] result = Inr result"
| "capture_windows prefix identity i (v # vs) result =
     (case capture (prefix @ nat_string i @ ''.'') (Some v) result of
        Inl e \<Rightarrow> Inl e
      | Inr r1 \<Rightarrow>
          (case (if identity
                 then capture (prefix @ nat_string i @ ''.identity.'')
                        (case v of JObj es \<Rightarrow> field ''identity'' es | _ \<Rightarrow> None) r1
                 else Inr r1) of
             Inl e \<Rightarrow> Inl e
           | Inr r2 \<Rightarrow> capture_windows prefix identity (Suc i) vs r2))"

definition effectIdentityFences ::
  "string \<Rightarrow> (string \<times> json) list \<Rightarrow> (string, fence) js_map outcome" where
  "effectIdentityFences ty fs =
     (let r0 = fold (capture_field []) fs [];
          r1 = (case field ''tab'' fs of
                  Some (JObj tab) \<Rightarrow>
                    (case capture [] (Some (JObj tab)) r0 of
                       Inl e \<Rightarrow> Inl e
                     | Inr r \<Rightarrow> capture ''target.'' (field ''target'' tab) r)
                | Some (JArr _) \<Rightarrow> Inl PlainError  \<comment> \<open>an array has no \<open>target\<close>\<close>
                | _ \<Rightarrow> Inr r0);
          r2 = (case r1 of Inl e \<Rightarrow> Inl e
                | Inr r \<Rightarrow>
                    (case field ''windows'' fs of
                       Some (JArr ws) \<Rightarrow> capture_windows ''windows.'' False 0 ws r
                     | _ \<Rightarrow> Inr r))
      in (case r2 of Inl e \<Rightarrow> Inl e
          | Inr r \<Rightarrow>
              if ty = ''embeddedApplyAppKitProjection''
              then (case field ''projection'' fs of
                      Some (JObj pr) \<Rightarrow>
                        (case field ''windows'' pr of
                           Some (JArr ws) \<Rightarrow> capture_windows ''windows.'' True 0 ws r
                         | _ \<Rightarrow> Inl PlainError)
                    | _ \<Rightarrow> Inl PlainError)
              else Inr r))"

section \<open>The journal\<close>

record observation =
  ob_operationId :: string
  ob_effectId :: "string option"
  ob_action :: string
  ob_targetKind :: string
  ob_targetId :: string
  ob_parentOperationId :: "string option"
  ob_stage :: string
  ob_errorCode :: "string option"
  ob_fences :: "(string, fence) js_map option"

record journal_entry =
  je_observation :: observation
  je_capturedAt :: string
  je_sequence :: nat

record operation_journal =
  observations :: "journal_entry list"
  sequence :: nat

definition CAPACITY :: nat where "CAPACITY = 512"

definition empty_journal :: operation_journal where
  "empty_journal = \<lparr>observations = [], sequence = 0\<rparr>"

definition recordRuntimeTransition ::
  "string \<Rightarrow> observation \<Rightarrow> operation_journal \<Rightarrow> operation_journal" where
  "recordRuntimeTransition now ob j =
     (let entry = \<lparr>je_observation = ob, je_capturedAt = now, je_sequence = Suc (sequence j)\<rparr>;
          obs = observations j @ [entry]
      in \<lparr>observations = (if length obs > CAPACITY then tl obs else obs),
          sequence = Suc (sequence j)\<rparr>)"

definition observeRuntimeEffect ::
  "string \<Rightarrow> core_effect \<Rightarrow> string \<Rightarrow> string option \<Rightarrow> operation_journal \<Rightarrow> operation_journal outcome" where
  "observeRuntimeEffect now effect stage errorCode j =
     (case effectIdentityFences (action_type effect) (action_fields effect) of
        Inl e \<Rightarrow> Inl e
      | Inr fences \<Rightarrow> Inr (recordRuntimeTransition now
          \<lparr>ob_operationId = operationId effect, ob_effectId = Some (effectId effect),
           ob_action = action_type effect, ob_targetKind = target_kind effect,
           ob_targetId = target_handleId effect, ob_parentOperationId = parentOperationId effect,
           ob_stage = stage,
           ob_errorCode = (if errorCode = Some [] then None else errorCode),
           ob_fences = Some fences\<rparr> j))"

record journal_evidence =
  ev_capacity :: nat
  ev_droppedCount :: nat
  ev_entries :: "journal_entry list"

definition runtimeOperationEvidence :: "operation_journal \<Rightarrow> journal_evidence" where
  "runtimeOperationEvidence j =
     \<lparr>ev_capacity = CAPACITY, ev_droppedCount = sequence j - CAPACITY, ev_entries = observations j\<rparr>"

section \<open>Bounds\<close>

text \<open>The journal as a bounded log: a record is an observation with its time; what is dropped is
  what the sequence counts beyond the entries.\<close>

definition journal_push :: "string \<times> observation \<Rightarrow> operation_journal \<Rightarrow> operation_journal" where
  "journal_push r = recordRuntimeTransition (fst r) (snd r)"

definition journal_dropped :: "operation_journal \<Rightarrow> nat" where
  "journal_dropped j = sequence j - length (observations j)"

definition journal_inv :: "operation_journal \<Rightarrow> bool" where
  "journal_inv j \<longleftrightarrow>
     length (observations j) = min CAPACITY (sequence j) \<and>
     map je_sequence (observations j) = [Suc (sequence j - length (observations j))..<Suc (sequence j)]"

lemma journal_inv_empty: "journal_inv empty_journal"
  by (simp add: journal_inv_def empty_journal_def)

lemma upt_drop_first: "a < b \<Longrightarrow> tl [a..<b] = [Suc a..<b]"
  by (simp add: upt_conv_Cons)

lemma record_inv:
  assumes "journal_inv j"
  shows "journal_inv (recordRuntimeTransition now ob j)"
proof -
  let ?n = "length (observations j)"
  have n: "?n = min CAPACITY (sequence j)" and
    m: "map je_sequence (observations j) = [Suc (sequence j - ?n)..<Suc (sequence j)]"
    using assms by (simp_all add: journal_inv_def)
  have "[Suc (sequence j - ?n)..<Suc (sequence j)] @ [Suc (sequence j)]
      = [Suc (sequence j - ?n)..<Suc (Suc (sequence j))]"
    by simp
  moreover have "CAPACITY \<le> sequence j \<Longrightarrow> Suc (sequence j - CAPACITY) = sequence j - 511"
    by (auto simp: CAPACITY_def)
  ultimately show ?thesis
    using n m unfolding journal_inv_def recordRuntimeTransition_def Let_def
    by (auto simp: map_tl upt_drop_first CAPACITY_def split: if_splits)
qed

interpretation journal: bounded_log journal_push observations journal_dropped "\<lambda>_ es. es"
  "\<lambda>r j. \<lparr>je_observation = snd r, je_capturedAt = fst r, je_sequence = Suc (sequence j)\<rparr>"
  CAPACITY journal_inv
proof unfold_locales
  fix j r
  assume inv: "journal_inv j"
  show "journal_inv (journal_push r j)" using inv by (simp add: journal_push_def record_inv)
  show "length (observations j) \<le> CAPACITY" using inv by (simp add: journal_inv_def)
  show "observations (journal_push r j) =
      (let es = observations j @ [\<lparr>je_observation = snd r, je_capturedAt = fst r,
             je_sequence = Suc (sequence j)\<rparr>] in drop (length es - CAPACITY) es)"
  proof (cases "length (observations j) < CAPACITY")
    case True
    then show ?thesis by (simp add: journal_push_def recordRuntimeTransition_def Let_def)
  next
    case False
    then have l: "length (observations j) = CAPACITY" using inv by (simp add: journal_inv_def)
    then have "observations j \<noteq> []" by (auto simp: CAPACITY_def)
    then show ?thesis using l
      by (simp add: journal_push_def recordRuntimeTransition_def Let_def drop_Suc CAPACITY_def)
  qed
  show "journal_dropped (journal_push r j) =
      journal_dropped j + (Suc (length (observations j)) - CAPACITY)"
    using inv by (auto simp: journal_inv_def journal_push_def recordRuntimeTransition_def Let_def
        journal_dropped_def CAPACITY_def)
qed (simp_all add: CAPACITY_def)

text \<open>
  The journal after any run of transitions holds the most recent ones, at most 512, in order
  and without gaps: their sequence numbers are the last consecutive ones ending at the number of
  transitions recorded, and the reported dropped count is exactly what is missing.
\<close>

lemma journal_recent_consecutive:
  "let j = fold journal_push rs empty_journal in
     map je_sequence (ev_entries (runtimeOperationEvidence j))
       = [Suc (ev_droppedCount (runtimeOperationEvidence j))..<Suc (length rs)] \<and>
     length (ev_entries (runtimeOperationEvidence j)) = min CAPACITY (length rs)"
proof -
  let ?j = "fold journal_push rs empty_journal"
  have inv: "journal_inv ?j" by (rule journal.log.run_inv [OF journal_inv_empty])
  have "sequence (fold journal_push rs j) = sequence j + length rs" for j
    by (induction rs arbitrary: j)
      (simp_all add: journal_push_def recordRuntimeTransition_def Let_def)
  then have "sequence ?j = length rs" by (simp add: empty_journal_def)
  moreover have "length rs - min CAPACITY (length rs) = length rs - CAPACITY" by simp
  ultimately show ?thesis
    using inv by (simp add: Let_def runtimeOperationEvidence_def journal_inv_def)
qed

end
