(* ===== verification/Terminal_Journal.thy ===== *)
theory Terminal_Journal
  imports Sequence_Executor
begin

text \<open>
  The process-memory journal of trusted-input terminals
  (\<open>src/src/electron/main/chromiumTrustedInputTerminalJournal.ts\<close>): the last 128 terminals, which a
  cleanup annotates, and the last 32 incidents (terminals that did not apply).  Records are
  immutable values here, so the defensive copies of the code are the identity; a listener is a
  number and a call of it an element of the notification list.
\<close>

section \<open>The evidence record\<close>

datatype certainty = NotInvoked | PossiblySubmitted | Confirmed
datatype cleanup_outcome = NotAttempted | Neutral | CleanupIndeterminate
datatype recovery_outcome = NotRequired | NeutralizationRequired | CleanupNeutral | RestartRequired
datatype interleave = NoInterleave | Unrelated | SameIdentity | ModifierChange | InterleaveIndeterminate
datatype application_path =
  PathNone | PathCdp | PathPhysicalAdoption | PathOwnershipRelease | PathCanvas
datatype trace_source = FromCore | FromElectron | FromPreload | FromNative | FromCdp
datatype input_classification = Automatic | Physical | InputIndeterminate

record trace_step =
  ts_sequence :: nat
  ts_source :: trace_source
  ts_stage :: string
  ts_outcomeCode :: "string option"

record physical_diagnostics =
  pd_inputSequenceBefore :: string
  pd_inputSequenceAfter :: string
  pd_keyDownSequenceBefore :: string
  pd_keyDownSequenceAfter :: string
  pd_keyUpSequenceBefore :: string
  pd_keyUpSequenceAfter :: string
  pd_lastDomEventType :: "string option"
  pd_lastDomEventCode :: "string option"
  pd_lastClassification :: "input_classification option"

record terminal_record =
  te_capturedAt :: string
  te_requestId :: string
  te_parentRequestId :: "string option"
  te_roleId :: string
  te_inputEpoch :: int
  te_surfaceGeneration :: int
  te_intent :: intent
  te_actionType :: string
  te_keyCode :: "string option"
  te_keyPhase :: "key_phase option"
  te_modifierOwnership :: "modifier_ownership option"
  te_deliveryOwnerId :: "string option"
  te_gameDeliveryConfirmed :: "bool option"
  te_documentObservationWatermark :: "int option"
  te_documentInstanceId :: "string option"
  te_sequenceFailure :: "sequence_failure_record option"
  te_applicationPath :: application_path
  te_expectedDomEventCount :: nat
  te_observedDomEventCount :: nat
  te_modifierProjectionCodes :: "string list"
  te_cdpModifierMask :: "int option"
  te_lastObservedDomModifierMask :: "int option"
  te_cdpSubmissionCertainty :: certainty
  te_physicalInterleave :: interleave
  te_physical :: "physical_diagnostics option"
  te_terminalCode :: string
  te_failureStage :: "string option"
  te_cdpTerminalReason :: "string option"
  te_nativeProofChanges :: "string list"
  te_traceSteps :: "trace_step list"
  te_traceTruncated :: bool
  te_droppedTraceStepCount :: nat
  te_cleanupOutcome :: cleanup_outcome
  te_recoveryOutcome :: recovery_outcome

section \<open>The journal\<close>

record terminal_journal =
  terminals :: "terminal_record list"
  incidents :: "terminal_record list"
  tj_listeners :: "nat list"
  droppedTerminalCount :: nat
  droppedIncidentCount :: nat
  tj_notified :: "(nat \<times> terminal_record) list"  \<comment> \<open>listener calls made so far\<close>

definition MAX_RECENT_TERMINALS :: nat where "MAX_RECENT_TERMINALS = 128"
definition MAX_RECENT_INCIDENTS :: nat where "MAX_RECENT_INCIDENTS = 32"

definition empty_terminals :: terminal_journal where
  "empty_terminals = \<lparr>terminals = [], incidents = [], tj_listeners = [], droppedTerminalCount = 0,
     droppedIncidentCount = 0, tj_notified = []\<rparr>"

text \<open>The earlier normal terminal a cleanup record belongs to.\<close>

definition cleanup_target :: "terminal_record \<Rightarrow> terminal_record \<Rightarrow> bool" where
  "cleanup_target rec candidate \<longleftrightarrow>
     te_intent candidate = Normal \<and> te_requestId candidate = te_requestId rec \<and>
     te_roleId candidate = te_roleId rec \<and> te_inputEpoch candidate = te_inputEpoch rec \<and>
     te_surfaceGeneration candidate = te_surfaceGeneration rec"

definition annotate_cleanup :: "terminal_record \<Rightarrow> terminal_record list \<Rightarrow> terminal_record list" where
  "annotate_cleanup rec ts =
     (if te_intent rec = Cleanup
      then update_last (cleanup_target rec)
             (\<lambda>t. t\<lparr>te_cleanupOutcome := te_cleanupOutcome rec,
                    te_recoveryOutcome := te_recoveryOutcome rec\<rparr>) ts
      else ts)"

definition is_incident :: "terminal_record \<Rightarrow> bool" where
  "is_incident rec \<longleftrightarrow> te_terminalCode rec \<noteq> ''APPLIED''"

definition recordTrustedInputTerminal :: "terminal_record \<Rightarrow> terminal_journal \<Rightarrow> terminal_journal" where
  "recordTrustedInputTerminal rec j =
     (let ts = annotate_cleanup rec (terminals j) @ [rec];
          removed = length ts - MAX_RECENT_TERMINALS;
          js = incidents j @ [rec];
          removedIncidents = length js - MAX_RECENT_INCIDENTS
      in j\<lparr>terminals := drop removed ts,
           droppedTerminalCount := droppedTerminalCount j + removed,
           incidents := (if is_incident rec then drop removedIncidents js else incidents j),
           droppedIncidentCount :=
             (if is_incident rec then droppedIncidentCount j + removedIncidents
              else droppedIncidentCount j),
           tj_notified := tj_notified j @ map (\<lambda>l. (l, rec)) (tj_listeners j)\<rparr>)"

definition subscribeTrustedInputTerminals :: "nat \<Rightarrow> terminal_journal \<Rightarrow> terminal_journal" where
  "subscribeTrustedInputTerminals l j = j\<lparr>tj_listeners := js_add l (tj_listeners j)\<rparr>"

definition unsubscribeTrustedInputTerminals :: "nat \<Rightarrow> terminal_journal \<Rightarrow> terminal_journal" where
  "unsubscribeTrustedInputTerminals l j = j\<lparr>tj_listeners := removeAll l (tj_listeners j)\<rparr>"

definition recentTrustedInputTerminals :: "terminal_journal \<Rightarrow> terminal_record list" where
  "recentTrustedInputTerminals j = terminals j"

record trusted_input_diagnostics =
  td_terminalCapacity :: nat
  td_retainedTerminalCount :: nat
  td_droppedTerminalCount :: nat
  td_incidentCapacity :: nat
  td_retainedIncidentCount :: nat
  td_droppedIncidentCount :: nat
  td_oldestCapturedAt :: "string option"
  td_newestCapturedAt :: "string option"
  td_recentIncidents :: "terminal_record list"

definition trustedInputDiagnostics :: "terminal_journal \<Rightarrow> trusted_input_diagnostics" where
  "trustedInputDiagnostics j =
     \<lparr>td_terminalCapacity = MAX_RECENT_TERMINALS, td_retainedTerminalCount = length (terminals j),
      td_droppedTerminalCount = droppedTerminalCount j,
      td_incidentCapacity = MAX_RECENT_INCIDENTS, td_retainedIncidentCount = length (incidents j),
      td_droppedIncidentCount = droppedIncidentCount j,
      td_oldestCapturedAt =
        (case terminals j of [] \<Rightarrow> None | t # _ \<Rightarrow> Some (te_capturedAt t)),
      td_newestCapturedAt =
        (if terminals j = [] then None else Some (te_capturedAt (last (terminals j)))),
      td_recentIncidents = incidents j\<rparr>"

definition resetTrustedInputTerminalJournalForTest :: "terminal_journal \<Rightarrow> terminal_journal" where
  "resetTrustedInputTerminalJournalForTest j =
     j\<lparr>terminals := [], incidents := [], droppedTerminalCount := 0, droppedIncidentCount := 0\<rparr>"

fun action_type_name :: "browser_action \<Rightarrow> string" where
  "action_type_name Focus = ''focus''"
| "action_type_name (KeyAction _) = ''key''"
| "action_type_name ReassertHeldKeys = ''reassertHeldKeys''"
| "action_type_name NeutralizeInput = ''neutralizeInput''"
| "action_type_name (Click _) = ''click''"

text \<open>The defaults of a sequence failure without edge evidence.\<close>

definition blank_terminal :: "action_request \<Rightarrow> int \<Rightarrow> terminal_record" where
  "blank_terminal request surfaceGeneration =
     \<lparr>te_capturedAt = [], te_requestId = requestId request, te_parentRequestId = None,
      te_roleId = roleId request, te_inputEpoch = inputEpoch request,
      te_surfaceGeneration = surfaceGeneration, te_intent = request_intent request,
      te_actionType = action_type_name (action request), te_keyCode = None, te_keyPhase = None,
      te_modifierOwnership = None, te_deliveryOwnerId = None, te_gameDeliveryConfirmed = None,
      te_documentObservationWatermark = None, te_documentInstanceId = None,
      te_sequenceFailure = None, te_applicationPath = PathNone, te_expectedDomEventCount = 0,
      te_observedDomEventCount = 0, te_modifierProjectionCodes = [], te_cdpModifierMask = None,
      te_lastObservedDomModifierMask = None, te_cdpSubmissionCertainty = NotInvoked,
      te_physicalInterleave = NoInterleave, te_physical = None, te_terminalCode = [],
      te_failureStage = None, te_cdpTerminalReason = None, te_nativeProofChanges = [],
      te_traceSteps = [], te_traceTruncated = False, te_droppedTraceStepCount = 0,
      te_cleanupOutcome = NotAttempted, te_recoveryOutcome = NotRequired\<rparr>"

definition edge_of :: "action_request \<Rightarrow> int \<Rightarrow> terminal_journal \<Rightarrow> terminal_record option" where
  "edge_of request surfaceGeneration j =
     find (\<lambda>c. te_requestId c = requestId request \<and> te_roleId c = roleId request \<and>
               te_inputEpoch c = inputEpoch request \<and> te_surfaceGeneration c = surfaceGeneration)
       (rev (terminals j))"

definition sequence_failure_terminal ::
  "string \<Rightarrow> action_request \<Rightarrow> int \<Rightarrow> sequence_failure_record \<Rightarrow> bool \<Rightarrow> terminal_journal
     \<Rightarrow> terminal_record" where
  "sequence_failure_terminal now request surfaceGeneration failure neutral j =
     (case edge_of request surfaceGeneration j of
        Some e \<Rightarrow> e | None \<Rightarrow> blank_terminal request surfaceGeneration)
     \<lparr>te_intent := request_intent request, te_actionType := action_type_name (action request),
      te_capturedAt := now, te_sequenceFailure := Some failure,
      te_terminalCode := ''SYSTEM_TRUSTED_INPUT_SEQUENCE_FAILED'',
      te_failureStage := Some ''sequence-recovery'',
      te_cleanupOutcome := (if neutral then Neutral else CleanupIndeterminate),
      te_recoveryOutcome := (if neutral then CleanupNeutral else RestartRequired)\<rparr>"

definition recordTrustedInputSequenceFailure ::
  "string \<Rightarrow> action_request \<Rightarrow> int \<Rightarrow> sequence_failure_record \<Rightarrow> bool \<Rightarrow> terminal_journal
     \<Rightarrow> terminal_journal" where
  "recordTrustedInputSequenceFailure now request surfaceGeneration failure neutral j =
     recordTrustedInputTerminal
       (sequence_failure_terminal now request surfaceGeneration failure neutral j) j"

section \<open>Bounds and retention\<close>

definition terminals_ok :: "terminal_journal \<Rightarrow> bool" where
  "terminals_ok j \<longleftrightarrow>
     length (terminals j) \<le> MAX_RECENT_TERMINALS \<and> length (incidents j) \<le> MAX_RECENT_INCIDENTS"

lemma length_annotate_cleanup [simp]: "length (annotate_cleanup r ts) = length ts"
  by (simp add: annotate_cleanup_def)

interpretation terminals: bounded_log recordTrustedInputTerminal terminals droppedTerminalCount
  annotate_cleanup "\<lambda>r _. r" MAX_RECENT_TERMINALS terminals_ok
proof unfold_locales
  fix j r
  assume "terminals_ok j"
  then show "terminals_ok (recordTrustedInputTerminal r j)"
    by (auto simp: terminals_ok_def recordTrustedInputTerminal_def Let_def MAX_RECENT_TERMINALS_def
        MAX_RECENT_INCIDENTS_def)
qed (simp_all add: recordTrustedInputTerminal_def Let_def terminals_ok_def MAX_RECENT_TERMINALS_def)

lemma terminals_ok_empty: "terminals_ok empty_terminals"
  by (simp add: terminals_ok_def empty_terminals_def)

lemma incidents_push:
  "incidents (recordTrustedInputTerminal r j) =
     (if is_incident r then keep_last MAX_RECENT_INCIDENTS (incidents j @ [r]) else incidents j)"
  by (simp add: recordTrustedInputTerminal_def Let_def keep_last_def)

lemma incidents_run:
  assumes "incidents j = keep_last MAX_RECENT_INCIDENTS old"
  shows "incidents (fold recordTrustedInputTerminal rs j)
    = keep_last MAX_RECENT_INCIDENTS (old @ filter is_incident rs)"
  using assms
proof (induction rs arbitrary: j old)
  case (Cons r rs)
  show ?case
  proof (cases "is_incident r")
    case True
    then have "incidents (recordTrustedInputTerminal r j)
        = keep_last MAX_RECENT_INCIDENTS (old @ [r])"
      using Cons.prems by (simp add: incidents_push)
    from Cons.IH [OF this] True show ?thesis by simp
  next
    case False
    then have "incidents (recordTrustedInputTerminal r j) = keep_last MAX_RECENT_INCIDENTS old"
      using Cons.prems by (simp add: incidents_push)
    from Cons.IH [OF this] False show ?thesis by simp
  qed
qed simp

lemma dropped_incidents_run:
  "length (incidents j) \<le> MAX_RECENT_INCIDENTS \<Longrightarrow>
     length (incidents (fold recordTrustedInputTerminal rs j)) +
     droppedIncidentCount (fold recordTrustedInputTerminal rs j) =
     length (incidents j) + droppedIncidentCount j + length (filter is_incident rs)"
proof (induction rs arbitrary: j)
  case (Cons r rs)
  have "length (incidents (recordTrustedInputTerminal r j)) \<le> MAX_RECENT_INCIDENTS"
    using Cons.prems by (simp add: incidents_push)
  moreover have "length (incidents (recordTrustedInputTerminal r j)) +
      droppedIncidentCount (recordTrustedInputTerminal r j) =
      length (incidents j) + droppedIncidentCount j + (if is_incident r then 1 else 0)"
    using Cons.prems by (auto simp: recordTrustedInputTerminal_def Let_def MAX_RECENT_INCIDENTS_def)
  ultimately show ?case using Cons.IH by simp
qed simp

text \<open>
  No failure evidence is lost silently: after any run of recorded terminals the incidents are
  exactly the last 32 that did not apply, as they were recorded (no later cleanup alters them), and
  for terminals and incidents alike what is retained and what is counted as dropped add up to what
  was recorded.
\<close>

lemma incidents_are_recent_failures:
  "let j = fold recordTrustedInputTerminal rs empty_terminals;
       d = trustedInputDiagnostics j in
     td_recentIncidents d = keep_last MAX_RECENT_INCIDENTS (filter is_incident rs) \<and>
     td_retainedIncidentCount d + td_droppedIncidentCount d = length (filter is_incident rs) \<and>
     td_retainedTerminalCount d + td_droppedTerminalCount d = length rs \<and>
     td_retainedTerminalCount d \<le> td_terminalCapacity d"
proof -
  have "incidents empty_terminals = keep_last MAX_RECENT_INCIDENTS []"
    by (simp add: empty_terminals_def)
  from incidents_run [OF this, of rs] dropped_incidents_run [of empty_terminals rs]
    terminals.run_conserves [OF terminals_ok_empty, of rs]
    terminals.run_bound [OF terminals_ok_empty, of rs]
  show ?thesis by (simp add: Let_def trustedInputDiagnostics_def empty_terminals_def)
qed

text \<open>
  A cleanup terminal annotates the most recent matching normal terminal and nothing else: with
  room in the journal, the record before and after it are unchanged, its own outcome fields take the
  cleanup's outcomes, and every other field stays; without a match the terminals are only extended.
\<close>

lemma cleanup_annotates_latest:
  assumes "terminals j = before @ t # after" "te_intent r = Cleanup" "cleanup_target r t"
    and "\<forall>u \<in> set after. \<not> cleanup_target r u" "length (terminals j) < MAX_RECENT_TERMINALS"
  shows "terminals (recordTrustedInputTerminal r j) =
    before @ t\<lparr>te_cleanupOutcome := te_cleanupOutcome r, te_recoveryOutcome := te_recoveryOutcome r\<rparr>
      # after @ [r]"
proof -
  have "annotate_cleanup r (terminals j) = before @
      t\<lparr>te_cleanupOutcome := te_cleanupOutcome r, te_recoveryOutcome := te_recoveryOutcome r\<rparr> # after"
    unfolding assms(1) annotate_cleanup_def using assms(2-4) by (simp add: update_last_split)
  then show ?thesis using assms(1,5)
    by (simp add: recordTrustedInputTerminal_def Let_def)
qed

end
