(* ===== verification/Pending_Lane.thy ===== *)
theory Pending_Lane
  imports Terminal_Journal
begin

text \<open>
  The lane that owns the pending trusted inputs of the adapters
  (\<open>src/src/electron/main/chromiumTrustedInputPendingLane.ts\<close>): one pending per role and per
  request, its bounded trace, and its single terminal with the receipt and the evidence record.

  A pending is a mutable object shared by the two maps, the adapters and the timers, so the lane
  keeps a store: a pending is a number, \<open>ln_pending\<close> its current contents.  The two ports whose
  exceptions the code swallows (\<open>cancelDeadline\<close>, \<open>sendCancel\<close>) and the resolution of the
  completion are entries of the output list.
\<close>

section \<open>Pendings\<close>

record expected_event =
  ee_type :: string  \<comment> \<open>one of the seven DOM event names\<close>
  ee_code :: "string option"
  ee_button :: "int option"
  ee_clientX :: "int option"
  ee_clientY :: "int option"
  ee_altKey :: bool
  ee_ctrlKey :: bool
  ee_metaKey :: bool
  ee_shiftKey :: bool
  ee_repeat :: bool

record frame_identity =
  fr_roleId :: string
  fr_generation :: int
  fr_frame :: nat  \<comment> \<open>identity of the frame object\<close>
  fr_frameToken :: string
  fr_documentInstanceId :: string

text \<open>Optional arrays and counters that the code reads with \<open>?? []\<close> and \<open>?? 0\<close> are plain lists
  and numbers.\<close>

record pending =
  pn_request :: native_request
  pn_frame :: frame_identity
  pn_inputSequence :: string
  pn_timer :: nat
  pn_nativeInvoked :: bool
  pn_cdpInvoked :: bool
  pn_applicationPath :: application_path
  pn_nativeComplete :: bool
  pn_gameDeliveryRequired :: bool
  pn_gameDeliveryConfirmed :: bool
  pn_documentObservationWatermark :: "int option"
  pn_nextDomIndex :: nat
  pn_expectedEvents :: "expected_event list"
  pn_modifierProjectionCodes :: "string list"
  pn_cdpModifierMask :: "int option"
  pn_lastObservedDomModifierMask :: "int option"
  pn_physicalInterleave :: interleave
  pn_physical :: "physical_diagnostics option"
  pn_traceSteps :: "trace_step list"
  pn_droppedTraceStepCount :: nat
  pn_failureStage :: "string option"
  pn_cdpTerminalReason :: "string option"
  pn_nativeProofChanges :: "string list"
  pn_terminal :: bool

definition sameTrustedInputFrame :: "frame_identity \<Rightarrow> frame_identity \<Rightarrow> bool" where
  "sameTrustedInputFrame a b \<longleftrightarrow>
     fr_roleId a = fr_roleId b \<and> fr_generation a = fr_generation b \<and> fr_frame a = fr_frame b \<and>
     fr_frameToken a = fr_frameToken b \<and> fr_documentInstanceId a = fr_documentInstanceId b"

lemma sameTrustedInputFrame_iff: "sameTrustedInputFrame a b \<longleftrightarrow> a = b"
  by (auto simp: sameTrustedInputFrame_def)

text \<open>A spread of the form \<open>...(x ? {x} : {})\<close>: absent when undefined, null or empty.\<close>

definition truthy :: "string option \<Rightarrow> string option" where
  "truthy v = (if v = Some [] then None else v)"

section \<open>The bounded trace\<close>

definition MAX_TRACE_STEPS :: nat where "MAX_TRACE_STEPS = 32"

definition trace_count :: "pending \<Rightarrow> nat" where
  "trace_count p = length (pn_traceSteps p) + pn_droppedTraceStepCount p"

definition same_trace :: "trace_step \<Rightarrow> trace_source \<Rightarrow> string \<Rightarrow> string option \<Rightarrow> bool" where
  "same_trace t source stage outcome \<longleftrightarrow>
     ts_source t = source \<and> ts_stage t = stage \<and> ts_outcomeCode t = outcome"

definition recordTrustedInputTrace ::
  "trace_source \<Rightarrow> string \<Rightarrow> string option \<Rightarrow> pending \<Rightarrow> pending" where
  "recordTrustedInputTrace source stage outcome p =
     (let steps = pn_traceSteps p;
          step = \<lparr>ts_sequence = trace_count p + 1, ts_source = source, ts_stage = stage,
                  ts_outcomeCode = truthy outcome\<rparr>
      in if steps \<noteq> [] \<and> same_trace (last steps) source stage outcome then p
         else if length steps \<ge> MAX_TRACE_STEPS
         then p\<lparr>pn_droppedTraceStepCount := pn_droppedTraceStepCount p + 1,
                pn_traceSteps :=
                  (if stage = ''terminal'' then steps[MAX_TRACE_STEPS - 1 := step] else steps)\<rparr>
         else p\<lparr>pn_traceSteps := steps @ [step]\<rparr>)"

section \<open>The lane\<close>

datatype lane_output =
  CancelDeadline nat
| SendCancel frame_identity string int string string bool
    \<comment> \<open>frame, role, generation, frame token, input sequence, committed\<close>
| Resolve nat native_receipt  \<comment> \<open>the pending whose completion is resolved\<close>

record lane =
  ln_pending :: "nat \<Rightarrow> pending"
  ln_roles :: "(string, nat) js_map"
  ln_requests :: "(string, nat) js_map"
  ln_journal :: terminal_journal
  ln_outputs :: "lane_output list"

definition new_lane :: "(nat \<Rightarrow> pending) \<Rightarrow> terminal_journal \<Rightarrow> lane" where
  "new_lane store j = \<lparr>ln_pending = store, ln_roles = [], ln_requests = [], ln_journal = j,
     ln_outputs = []\<rparr>"

abbreviation role_of :: "pending \<Rightarrow> string" where "role_of p \<equiv> req_roleId (pn_request p)"
abbreviation request_of :: "pending \<Rightarrow> string" where "request_of p \<equiv> req_requestId (pn_request p)"

definition busy :: "lane \<Rightarrow> string \<Rightarrow> string \<Rightarrow> bool" where
  "busy l r q \<longleftrightarrow> jm_has (ln_roles l) r \<or> jm_has (ln_requests l) q"

definition forRole :: "lane \<Rightarrow> string \<Rightarrow> nat option" where
  "forRole l r = jm_get (ln_roles l) r"

definition forRequest :: "lane \<Rightarrow> string \<Rightarrow> nat option" where
  "forRequest l q = jm_get (ln_requests l) q"

definition lane_values :: "lane \<Rightarrow> nat list" where
  "lane_values l = map snd (ln_roles l)"

definition set_pending :: "nat \<Rightarrow> pending \<Rightarrow> lane \<Rightarrow> lane" where
  "set_pending n p l = l\<lparr>ln_pending := (ln_pending l)(n := p)\<rparr>"

definition add :: "nat \<Rightarrow> lane \<Rightarrow> lane \<times> bool" where
  "add n l =
     (let p = ln_pending l n
      in if pn_terminal p \<or> busy l (role_of p) (request_of p) then (l, False)
         else ((set_pending n (recordTrustedInputTrace FromElectron ''lane-admitted'' None p) l)
                 \<lparr>ln_roles := jm_set (role_of p) n (ln_roles l),
                  ln_requests := jm_set (request_of p) n (ln_requests l)\<rparr>, True))"

text \<open>What \<open>finish\<close> derives from the pending for the evidence record.\<close>

definition pending_key_code :: "pending \<Rightarrow> string option" where
  "pending_key_code p =
     (case req_keyEffect (pn_request p) of
        Some e \<Rightarrow> Some (code e)
      | None \<Rightarrow> (case req_action (pn_request p) of KeyAction a \<Rightarrow> action_code a | _ \<Rightarrow> None))"

definition key_of :: "browser_action \<Rightarrow> key_action option" where
  "key_of a = (case a of KeyAction k \<Rightarrow> Some k | _ \<Rightarrow> None)"

definition submission_certainty :: "pending \<Rightarrow> receipt_status \<Rightarrow> certainty" where
  "submission_certainty p status =
     (if pn_cdpInvoked p then (if status = Applied then Confirmed else PossiblySubmitted)
      else NotInvoked)"

definition default_failure_stage :: "pending \<Rightarrow> string" where
  "default_failure_stage p =
     (if pn_cdpInvoked p then ''dom-receipt-correlation''
      else if pn_nativeInvoked p then ''native-submission'' else ''preload-arm'')"

definition cleanup_outcome_of :: "intent \<Rightarrow> receipt_status \<Rightarrow> bool \<Rightarrow> cleanup_outcome" where
  "cleanup_outcome_of i status neutral =
     (if i \<noteq> Cleanup then NotAttempted
      else if status = Applied \<and> neutral then Neutral else CleanupIndeterminate)"

definition recovery_outcome_of :: "intent \<Rightarrow> receipt_status \<Rightarrow> bool \<Rightarrow> recovery_outcome" where
  "recovery_outcome_of i status neutral =
     (if status = Applied \<and> neutral
      then (if i = Cleanup then CleanupNeutral else NotRequired)
      else if status = Indeterminate
      then (if i = Cleanup then RestartRequired else NeutralizationRequired)
      else NotRequired)"

definition recorded_physical :: "physical_diagnostics \<Rightarrow> physical_diagnostics" where
  "recorded_physical d =
     d\<lparr>pd_lastDomEventType := truthy (pd_lastDomEventType d),
       pd_lastDomEventCode := truthy (pd_lastDomEventCode d)\<rparr>"

definition terminal_of ::
  "string \<Rightarrow> pending \<Rightarrow> receipt_status \<Rightarrow> string option \<Rightarrow> bool \<Rightarrow> terminal_record" where
  "terminal_of captured p status errorCode neutral =
     (let r = pn_request p
      in \<lparr>te_capturedAt = captured, te_requestId = req_requestId r,
          te_parentRequestId = truthy (req_parentRequestId r), te_roleId = req_roleId r,
          te_inputEpoch = req_inputEpoch r, te_surfaceGeneration = req_surfaceGeneration r,
          te_intent = req_intent r, te_actionType = action_type_name (req_action r),
          te_keyCode = truthy (pending_key_code p),
          te_keyPhase = map_option phase (req_keyEffect r),
          te_modifierOwnership = map_option modifierOwnership (key_of (req_action r)),
          te_deliveryOwnerId = map_option ownerId (key_of (req_action r)),
          te_gameDeliveryConfirmed =
            (if pn_gameDeliveryRequired p then Some (pn_gameDeliveryConfirmed p) else None),
          te_documentObservationWatermark = pn_documentObservationWatermark p,
          te_documentInstanceId = Some (fr_documentInstanceId (pn_frame p)),
          te_sequenceFailure = None, te_applicationPath = pn_applicationPath p,
          te_expectedDomEventCount = length (pn_expectedEvents p),
          te_observedDomEventCount = pn_nextDomIndex p,
          te_modifierProjectionCodes = pn_modifierProjectionCodes p,
          te_cdpModifierMask = pn_cdpModifierMask p,
          te_lastObservedDomModifierMask = pn_lastObservedDomModifierMask p,
          te_cdpSubmissionCertainty = submission_certainty p status,
          te_physicalInterleave = pn_physicalInterleave p,
          te_physical = map_option recorded_physical (pn_physical p),
          te_terminalCode = (case errorCode of Some c \<Rightarrow> c | None \<Rightarrow> ''APPLIED''),
          te_failureStage =
            (if truthy errorCode = None then None
             else Some (case pn_failureStage p of Some s \<Rightarrow> s | None \<Rightarrow> default_failure_stage p)),
          te_cdpTerminalReason = truthy (pn_cdpTerminalReason p),
          te_nativeProofChanges = js_set_of (pn_nativeProofChanges p),
          te_traceSteps = pn_traceSteps p,
          te_traceTruncated = (pn_droppedTraceStepCount p > 0),
          te_droppedTraceStepCount = pn_droppedTraceStepCount p,
          te_cleanupOutcome = cleanup_outcome_of (req_intent r) status neutral,
          te_recoveryOutcome = recovery_outcome_of (req_intent r) status neutral\<rparr>)"

definition receipt_of ::
  "int \<Rightarrow> pending \<Rightarrow> receipt_status \<Rightarrow> string option \<Rightarrow> bool \<Rightarrow> native_receipt" where
  "receipt_of now p status errorCode neutral =
     (let r = pn_request p
      in \<lparr>rec_requestId = req_requestId r, rec_roleId = req_roleId r,
          rec_inputEpoch = req_inputEpoch r, rec_surfaceGeneration = req_surfaceGeneration r,
          rec_status = status, rec_completedAtMs = now, rec_errorCode = errorCode,
          rec_confirmedNeutrality = neutral\<rparr>)"

text \<open>\<open>delete_if_owned\<close>: a map entry is removed only while it is this very pending.\<close>

definition delete_if_owned :: "string \<Rightarrow> nat \<Rightarrow> (string, nat) js_map \<Rightarrow> (string, nat) js_map" where
  "delete_if_owned k n m = (if jm_get m k = Some n then jm_delete k m else m)"

text \<open>The two clocks of a call: the ISO time of the evidence and \<open>nowMs\<close> of the receipt.\<close>

type_synonym clock = "string \<times> int"

definition finish ::
  "clock \<Rightarrow> nat \<Rightarrow> receipt_status \<Rightarrow> string option \<Rightarrow> bool \<Rightarrow> lane \<Rightarrow> lane" where
  "finish now n status errorCode neutral l =
     (let p = ln_pending l n
      in if pn_terminal p then l
         else
           let p1 = (recordTrustedInputTrace FromElectron ''terminal''
                       (Some (case errorCode of Some c \<Rightarrow> c | None \<Rightarrow> ''APPLIED'')) p)
                      \<lparr>pn_terminal := True\<rparr>
           in l\<lparr>ln_pending := (ln_pending l)(n := p1),
                ln_roles := delete_if_owned (role_of p) n (ln_roles l),
                ln_requests := delete_if_owned (request_of p) n (ln_requests l),
                ln_journal :=
                  recordTrustedInputTerminal (terminal_of (fst now) p1 status errorCode neutral)
                    (ln_journal l),
                ln_outputs := ln_outputs l @
                  [CancelDeadline (pn_timer p),
                   SendCancel (pn_frame p) (role_of p) (req_surfaceGeneration (pn_request p))
                     (fr_frameToken (pn_frame p)) (pn_inputSequence p) (status = Applied),
                   Resolve n (receipt_of (snd now) p1 status errorCode neutral)]\<rparr>)"

definition maybeApply :: "clock \<Rightarrow> nat \<Rightarrow> lane \<Rightarrow> lane" where
  "maybeApply now n l =
     (let p = ln_pending l n
      in if pn_terminal p \<or> \<not> pn_nativeComplete p \<or>
            pn_nextDomIndex p \<noteq> length (pn_expectedEvents p) \<or>
            (pn_gameDeliveryRequired p \<and> \<not> pn_gameDeliveryConfirmed p)
         then l
         else finish now n Applied None (req_neutralAfter (pn_request p)) l)"

definition neutral_if_untouched :: "pending \<Rightarrow> bool" where
  "neutral_if_untouched p \<longleftrightarrow> \<not> pn_nativeInvoked p \<and> req_neutralBefore (pn_request p)"

definition mismatch :: "clock \<Rightarrow> nat \<Rightarrow> lane \<Rightarrow> lane" where
  "mismatch now n l =
     (let p = ln_pending l n
      in finish now n (if pn_nativeInvoked p then Indeterminate else Failed)
           (Some ''SYSTEM_TRUSTED_INPUT_DOM_RECEIPT_MISMATCH'') (neutral_if_untouched p) l)"

record lifecycle_event =
  le_roleId :: string
  le_generation :: int

definition surfaceChanged :: "clock \<Rightarrow> lifecycle_event \<Rightarrow> lane \<Rightarrow> lane" where
  "surfaceChanged now ev l =
     (case forRole l (le_roleId ev) of
        None \<Rightarrow> l
      | Some n \<Rightarrow>
          (let p = ln_pending l n
           in if req_surfaceGeneration (pn_request p) \<noteq> le_generation ev then l
              else finish now n (if pn_nativeInvoked p then Indeterminate else Superseded)
                     (Some (if pn_nativeInvoked p then ''SYSTEM_TRUSTED_INPUT_DOCUMENT_SUPERSEDED''
                            else ''BROWSER_ACTION_STALE''))
                     (neutral_if_untouched p) l))"

section \<open>The trace keeps its bound and its terminal\<close>

text \<open>A step of a trace run: source, stage and outcome of one \<open>recordTrustedInputTrace\<close>.\<close>

type_synonym trace_call = "trace_source \<times> string \<times> string option"

definition trace_with :: "trace_call \<Rightarrow> pending \<Rightarrow> pending" where
  "trace_with c p = recordTrustedInputTrace (fst c) (fst (snd c)) (snd (snd c)) p"

definition trace_ok :: "pending \<Rightarrow> bool" where
  "trace_ok p \<longleftrightarrow>
     length (pn_traceSteps p) \<le> MAX_TRACE_STEPS \<and>
     (pn_droppedTraceStepCount p > 0 \<longrightarrow> length (pn_traceSteps p) = MAX_TRACE_STEPS) \<and>
     sorted_wrt (<) (map ts_sequence (pn_traceSteps p)) \<and>
     (\<forall>t \<in> set (pn_traceSteps p). 1 \<le> ts_sequence t \<and> ts_sequence t \<le> trace_count p)"

lemma sorted_wrt_replace_last:
  assumes "sorted_wrt (<) xs" and "xs \<noteq> []" and "\<forall>x \<in> set xs. x < (y::nat)"
  shows "sorted_wrt (<) (xs[length xs - 1 := y])"
proof -
  obtain zs z where xs: "xs = zs @ [z]" using assms(2) by (cases xs rule: rev_cases) auto
  then show ?thesis using assms by (auto simp: sorted_wrt_append)
qed

lemma trace_ok_record:
  assumes "trace_ok p"
  shows "trace_ok (recordTrustedInputTrace source stage outcome p)"
proof -
  let ?s = "\<lparr>ts_sequence = trace_count p + 1, ts_source = source, ts_stage = stage,
             ts_outcomeCode = truthy outcome\<rparr>"
  have below: "\<forall>x \<in> set (map ts_sequence (pn_traceSteps p)). x < trace_count p + 1"
    using assms by (auto simp: trace_ok_def)
  have full: "trace_ok (p\<lparr>pn_droppedTraceStepCount := pn_droppedTraceStepCount p + 1,
      pn_traceSteps := (if stage = ''terminal'' then (pn_traceSteps p)[MAX_TRACE_STEPS - 1 := ?s]
                        else pn_traceSteps p)\<rparr>)"
    if "length (pn_traceSteps p) \<ge> MAX_TRACE_STEPS"
  proof -
    have len: "length (pn_traceSteps p) = MAX_TRACE_STEPS" using assms that by (simp add: trace_ok_def)
    have "sorted_wrt (<) ((map ts_sequence (pn_traceSteps p))[MAX_TRACE_STEPS - 1 := trace_count p + 1])"
      using sorted_wrt_replace_last [OF _ _ below] assms len
      by (simp add: trace_ok_def MAX_TRACE_STEPS_def) (metis list.size(3) zero_neq_numeral)
    then show ?thesis
      using assms len below
      by (auto simp: trace_ok_def trace_count_def map_update dest!: set_update_subset_insert [THEN subsetD])
  qed
  show ?thesis
  proof (cases "pn_traceSteps p \<noteq> [] \<and> same_trace (last (pn_traceSteps p)) source stage outcome")
    case True
    then show ?thesis using assms by (simp add: recordTrustedInputTrace_def)
  next
    case new: False
    show ?thesis
    proof (cases "length (pn_traceSteps p) \<ge> MAX_TRACE_STEPS")
      case True
      then show ?thesis
        unfolding recordTrustedInputTrace_def Let_def if_not_P [OF new] if_P [OF True]
        by (rule full)
    next
      case False
      then show ?thesis
        unfolding recordTrustedInputTrace_def Let_def if_not_P [OF new] if_not_P [OF False]
        using assms below by (auto simp: trace_ok_def trace_count_def sorted_wrt_append)
    qed
  qed
qed

interpretation trace: guarded_machine trace_with trace_ok
  by unfold_locales (simp add: trace_with_def trace_ok_record)

lemma record_terminal_last:
  assumes "trace_ok p" and "outcome \<noteq> Some []"
  shows "\<exists>t. pn_traceSteps (recordTrustedInputTrace source ''terminal'' outcome p) \<noteq> [] \<and>
     last (pn_traceSteps (recordTrustedInputTrace source ''terminal'' outcome p)) = t \<and>
     ts_source t = source \<and> ts_stage t = ''terminal'' \<and> ts_outcomeCode t = outcome"
proof -
  have len: "length (pn_traceSteps p) \<ge> MAX_TRACE_STEPS \<Longrightarrow> length (pn_traceSteps p) = MAX_TRACE_STEPS"
    using assms(1) by (simp add: trace_ok_def)
  have upd: "last ((pn_traceSteps p)[MAX_TRACE_STEPS - Suc 0 := s]) = s"
    if "length (pn_traceSteps p) = MAX_TRACE_STEPS" for s
    using that by (cases "pn_traceSteps p" rule: rev_cases) (simp_all add: MAX_TRACE_STEPS_def list_update_append)
  show ?thesis
    using assms(2) len upd
    by (auto simp: recordTrustedInputTrace_def Let_def same_trace_def truthy_def MAX_TRACE_STEPS_def)
qed

section \<open>Ownership of pendings\<close>

text \<open>The adapters change everything in a pending but its request and its terminal flag.\<close>

definition adapter_write :: "pending \<Rightarrow> pending \<Rightarrow> bool" where
  "adapter_write p p' \<longleftrightarrow> pn_request p' = pn_request p \<and> pn_terminal p' = pn_terminal p"

inductive lane_step :: "lane \<Rightarrow> lane \<Rightarrow> bool" where
  by_add: "lane_step l (fst (add n l))"
| by_finish: "lane_step l (finish now n status errorCode neutral l)"
| by_apply: "lane_step l (maybeApply now n l)"
| by_mismatch: "lane_step l (mismatch now n l)"
| by_surface: "lane_step l (surfaceChanged now ev l)"
| by_adapter: "adapter_write (ln_pending l n) p \<Longrightarrow> lane_step l (set_pending n p l)"

inductive_cases lane_stepE: "lane_step l l'"

inductive lane_reach :: "lane \<Rightarrow> lane \<Rightarrow> bool" where
  start: "lane_reach l l"
| further: "lane_reach l l1 \<Longrightarrow> lane_step l1 l2 \<Longrightarrow> lane_reach l l2"

fun resolved_in :: "lane_output list \<Rightarrow> nat list" where
  "resolved_in [] = []"
| "resolved_in (Resolve n _ # os) = n # resolved_in os"
| "resolved_in (_ # os) = resolved_in os"

abbreviation resolved :: "lane \<Rightarrow> nat list" where "resolved l \<equiv> resolved_in (ln_outputs l)"

lemma resolved_in_append [simp]: "resolved_in (a @ b) = resolved_in a @ resolved_in b"
  by (induction a rule: resolved_in.induct) auto

definition lane_inv :: "lane \<Rightarrow> bool" where
  "lane_inv l \<longleftrightarrow>
     (\<forall>r n. jm_get (ln_roles l) r = Some n \<longrightarrow> r = role_of (ln_pending l n)) \<and>
     (\<forall>q n. jm_get (ln_requests l) q = Some n \<longrightarrow> q = request_of (ln_pending l n)) \<and>
     (\<forall>n. jm_get (ln_roles l) (role_of (ln_pending l n)) = Some n \<longleftrightarrow>
          jm_get (ln_requests l) (request_of (ln_pending l n)) = Some n) \<and>
     (\<forall>n. jm_get (ln_roles l) (role_of (ln_pending l n)) = Some n \<longrightarrow>
          \<not> pn_terminal (ln_pending l n)) \<and>
     distinct (resolved l) \<and>
     (\<forall>n. n \<in> set (resolved l) \<longleftrightarrow> pn_terminal (ln_pending l n))"

lemma record_trace_identity [simp]:
  "pn_request (recordTrustedInputTrace a b c p) = pn_request p"
  "pn_terminal (recordTrustedInputTrace a b c p) = pn_terminal p"
  by (simp_all add: recordTrustedInputTrace_def Let_def)

lemma lane_inv_new: "\<forall>n. \<not> pn_terminal (store n) \<Longrightarrow> lane_inv (new_lane store j)"
  by (simp add: lane_inv_def new_lane_def)

lemma lane_inv_write:
  "lane_inv l \<Longrightarrow> adapter_write (ln_pending l n) p \<Longrightarrow> lane_inv (set_pending n p l)"
proof -
  assume inv: "lane_inv l" and w: "adapter_write (ln_pending l n) p"
  have same: "pn_request (ln_pending (set_pending n p l) m) = pn_request (ln_pending l m)"
    "pn_terminal (ln_pending (set_pending n p l) m) = pn_terminal (ln_pending l m)" for m
    using w by (simp_all add: set_pending_def adapter_write_def)
  have maps: "ln_roles (set_pending n p l) = ln_roles l"
    "ln_requests (set_pending n p l) = ln_requests l"
    "ln_outputs (set_pending n p l) = ln_outputs l"
    by (simp_all add: set_pending_def)
  show ?thesis using inv unfolding lane_inv_def same maps .
qed

lemma finish_terminal: "pn_terminal (ln_pending l n) \<Longrightarrow> finish now n status errorCode neutral l = l"
  by (simp add: finish_def)

lemma finish_fields:
  assumes "\<not> pn_terminal (ln_pending l n)"
  shows "ln_roles (finish now n status errorCode neutral l)
      = delete_if_owned (role_of (ln_pending l n)) n (ln_roles l)"
    and "ln_requests (finish now n status errorCode neutral l)
      = delete_if_owned (request_of (ln_pending l n)) n (ln_requests l)"
    and "resolved (finish now n status errorCode neutral l) = resolved l @ [n]"
    and "pn_request (ln_pending (finish now n status errorCode neutral l) m)
      = pn_request (ln_pending l m)"
    and "pn_terminal (ln_pending (finish now n status errorCode neutral l) m)
      \<longleftrightarrow> m = n \<or> pn_terminal (ln_pending l m)"
  using assms by (auto simp: finish_def Let_def)

lemma delete_if_owned_get:
  "jm_get (delete_if_owned k n m) k' = Some i \<longleftrightarrow> jm_get m k' = Some i \<and> (k' = k \<longrightarrow> i \<noteq> n)"
  by (auto simp: delete_if_owned_def split: if_splits)

lemma lane_invD:
  assumes "lane_inv l"
  shows "jm_get (ln_roles l) r = Some n \<Longrightarrow> r = role_of (ln_pending l n)"
    and "jm_get (ln_requests l) q = Some n \<Longrightarrow> q = request_of (ln_pending l n)"
    and "jm_get (ln_roles l) (role_of (ln_pending l n)) = Some n \<longleftrightarrow>
         jm_get (ln_requests l) (request_of (ln_pending l n)) = Some n"
    and "jm_get (ln_roles l) (role_of (ln_pending l n)) = Some n \<Longrightarrow> \<not> pn_terminal (ln_pending l n)"
    and "distinct (resolved l)"
    and "n \<in> set (resolved l) \<longleftrightarrow> pn_terminal (ln_pending l n)"
  using assms unfolding lane_inv_def by blast+

lemma lane_inv_finish:
  assumes inv: "lane_inv l"
  shows "lane_inv (finish now n status errorCode neutral l)"
proof (cases "pn_terminal (ln_pending l n)")
  case True
  then show ?thesis using inv by (simp add: finish_terminal)
next
  case False
  let ?l = "finish now n status errorCode neutral l"
  note D = lane_invD [OF inv]
  have roles: "jm_get (ln_roles ?l) r = Some i \<longleftrightarrow> jm_get (ln_roles l) r = Some i \<and> i \<noteq> n" for r i
    using D(1) [of r i] by (auto simp: finish_fields [OF False] delete_if_owned_get)
  have requests: "jm_get (ln_requests ?l) q = Some i \<longleftrightarrow> jm_get (ln_requests l) q = Some i \<and> i \<noteq> n"
    for q i
    using D(2) [of q i] by (auto simp: finish_fields [OF False] delete_if_owned_get)
  note same = finish_fields(4,5) [OF False]
  show ?thesis
    unfolding lane_inv_def roles requests same
  proof (intro conjI allI)
    show "distinct (resolved ?l)"
      using D(5) D(6) [of n] False by (simp add: finish_fields [OF False])
    show "m \<in> set (resolved ?l) \<longleftrightarrow> m = n \<or> pn_terminal (ln_pending l m)" for m
      using D(6) [of m] by (auto simp: finish_fields [OF False])
  qed (use D in blast)+
qed

lemma lane_inv_add:
  assumes inv: "lane_inv l"
  shows "lane_inv (fst (add n l))"
proof (cases "pn_terminal (ln_pending l n) \<or> busy l (role_of (ln_pending l n)) (request_of (ln_pending l n))")
  case True
  then show ?thesis using inv by (simp add: add_def)
next
  case False
  let ?p = "ln_pending l n" and ?l = "fst (add n l)"
  note D = lane_invD [OF inv]
  have free: "\<not> pn_terminal ?p" "jm_get (ln_roles l) (role_of ?p) = None"
    "jm_get (ln_requests l) (request_of ?p) = None"
    using False by (auto simp: busy_def jm_has_def)
  have out: "ln_outputs ?l = ln_outputs l"
    using False by (simp add: add_def Let_def set_pending_def)
  have same: "pn_request (ln_pending ?l m) = pn_request (ln_pending l m)"
    "pn_terminal (ln_pending ?l m) = pn_terminal (ln_pending l m)" for m
    using False by (simp_all add: add_def Let_def set_pending_def)
  have roles: "jm_get (ln_roles ?l) r = Some i \<longleftrightarrow>
      (if r = role_of ?p then i = n else jm_get (ln_roles l) r = Some i)" for r i
    using False by (auto simp: add_def Let_def set_pending_def)
  have requests: "jm_get (ln_requests ?l) q = Some i \<longleftrightarrow>
      (if q = request_of ?p then i = n else jm_get (ln_requests l) q = Some i)" for q i
    using False by (auto simp: add_def Let_def set_pending_def)
  have third: "(if role_of (ln_pending l m) = role_of ?p then m = n
        else jm_get (ln_roles l) (role_of (ln_pending l m)) = Some m) \<longleftrightarrow>
      (if request_of (ln_pending l m) = request_of ?p then m = n
        else jm_get (ln_requests l) (request_of (ln_pending l m)) = Some m)" for m
    using D(3) [of m] free(2,3) by auto
  show ?thesis
    unfolding lane_inv_def roles requests same out
  proof (intro conjI allI impI)
    show "r = role_of (ln_pending l m)"
      if "if r = role_of ?p then m = n else jm_get (ln_roles l) r = Some m" for r m
      using that D(1) [of r m] by (simp split: if_splits)
    show "q = request_of (ln_pending l m)"
      if "if q = request_of ?p then m = n else jm_get (ln_requests l) q = Some m" for q m
      using that D(2) [of q m] by (simp split: if_splits)
    show "\<not> pn_terminal (ln_pending l m)"
      if "if role_of (ln_pending l m) = role_of ?p then m = n
          else jm_get (ln_roles l) (role_of (ln_pending l m)) = Some m" for m
      using that D(4) [of m] free(1) by (simp split: if_splits)
  qed (rule third D(5) D(6))+
qed

lemma lane_step_inv:
  assumes "lane_step l l'" and "lane_inv l"
  shows "lane_inv l'"
  using assms
  by (cases rule: lane_stepE)
    (auto simp: maybeApply_def mismatch_def surfaceChanged_def Let_def lane_inv_add lane_inv_finish
      lane_inv_write split: option.splits)

lemma lane_reach_inv: "lane_reach l l' \<Longrightarrow> lane_inv l \<Longrightarrow> lane_inv l'"
  by (induction rule: lane_reach.induct) (auto intro: lane_step_inv)

text \<open>Every resolution leaves exactly one evidence record.\<close>

definition lane_counted :: "lane \<Rightarrow> bool" where
  "lane_counted l \<longleftrightarrow>
     terminals_ok (ln_journal l) \<and>
     length (terminals (ln_journal l)) + droppedTerminalCount (ln_journal l) = length (resolved l)"

lemma lane_counted_finish:
  assumes "lane_counted l"
  shows "lane_counted (finish now n status errorCode neutral l)"
proof (cases "pn_terminal (ln_pending l n)")
  case True
  then show ?thesis using assms by (simp add: finish_terminal)
next
  case False
  obtain r where j: "ln_journal (finish now n status errorCode neutral l)
      = recordTrustedInputTerminal r (ln_journal l)"
    using False by (simp add: finish_def Let_def)
  have ok: "terminals_ok (ln_journal l)" using assms by (simp add: lane_counted_def)
  show ?thesis
    using assms terminals.ok_push [OF ok, of r] terminals.push_conserves [OF ok, of r]
    by (simp add: lane_counted_def j finish_fields [OF False])
qed

lemma lane_counted_step: "lane_step l l' \<Longrightarrow> lane_counted l \<Longrightarrow> lane_counted l'"
  by (erule lane_stepE)
    (auto simp: maybeApply_def mismatch_def surfaceChanged_def Let_def lane_counted_finish
      split: option.splits, auto simp: lane_counted_def add_def Let_def set_pending_def)

lemma lane_reach_counted: "lane_reach l l' \<Longrightarrow> lane_counted l \<Longrightarrow> lane_counted l'"
  by (induction rule: lane_reach.induct) (auto intro: lane_counted_step)

lemma lane_counted_new: "lane_counted (new_lane store empty_terminals)"
  using terminals_ok_empty by (simp add: lane_counted_def new_lane_def empty_terminals_def)

section \<open>Terminals of the lane itself\<close>

lemma finish_outputs:
  "drop (length (ln_outputs l)) (ln_outputs (finish now n status errorCode neutral l)) =
     (if pn_terminal (ln_pending l n) then []
      else [CancelDeadline (pn_timer (ln_pending l n)),
            SendCancel (pn_frame (ln_pending l n)) (role_of (ln_pending l n))
              (req_surfaceGeneration (pn_request (ln_pending l n)))
              (fr_frameToken (pn_frame (ln_pending l n))) (pn_inputSequence (ln_pending l n))
              (status = Applied),
            Resolve n (receipt_of (snd now) (ln_pending l n) status errorCode neutral)])"
  by (simp add: finish_def Let_def receipt_of_def)

definition new_outputs :: "lane \<Rightarrow> lane \<Rightarrow> lane_output list" where
  "new_outputs l l' = drop (length (ln_outputs l)) (ln_outputs l')"

lemma new_outputs_simps [simp]:
  "new_outputs l l = []"
  "Resolve m r \<in> set (new_outputs l (finish now n status errorCode neutral l)) \<longleftrightarrow>
     \<not> pn_terminal (ln_pending l n) \<and> m = n \<and>
     r = receipt_of (snd now) (ln_pending l n) status errorCode neutral"
  by (simp_all add: new_outputs_def finish_outputs)

lemma receipt_of_fields [simp]:
  "rec_status (receipt_of now p status errorCode neutral) = status"
  "rec_confirmedNeutrality (receipt_of now p status errorCode neutral) = neutral"
  "rec_errorCode (receipt_of now p status errorCode neutral) = errorCode"
  by (simp_all add: receipt_of_def Let_def)

section \<open>Properties\<close>

text \<open>C31: In every run of the lane from the moment it is created - admissions, terminals, surface
  changes and whatever the adapters write into a pending in between - the completion of a pending is
  resolved at most once, and exactly when its terminal flag is set; each resolution left one
  evidence record; a pending found by role or by request is not resolved, is the one of that role
  and request, and is registered under both or under neither.\<close>

theorem pending_resolved_once:
  assumes "\<forall>n. \<not> pn_terminal (store n)"
    and "lane_reach (new_lane store empty_terminals) l"
  shows "distinct (resolved l)
    \<and> (\<forall>n. n \<in> set (resolved l) \<longleftrightarrow> pn_terminal (ln_pending l n))
    \<and> length (terminals (ln_journal l)) + droppedTerminalCount (ln_journal l) = length (resolved l)
    \<and> (\<forall>r n. forRole l r = Some n \<longrightarrow>
         n \<notin> set (resolved l) \<and> role_of (ln_pending l n) = r \<and>
         forRequest l (request_of (ln_pending l n)) = Some n)
    \<and> (\<forall>q n. forRequest l q = Some n \<longrightarrow>
         n \<notin> set (resolved l) \<and> request_of (ln_pending l n) = q \<and>
         forRole l (role_of (ln_pending l n)) = Some n)"
proof -
  have inv: "lane_inv l" using lane_reach_inv [OF assms(2) lane_inv_new [OF assms(1)]] .
  have cnt: "lane_counted l" using lane_reach_counted [OF assms(2) lane_counted_new] .
  note D = lane_invD [OF inv]
  have by_role: "n \<notin> set (resolved l) \<and> role_of (ln_pending l n) = r \<and>
      forRequest l (request_of (ln_pending l n)) = Some n" if "forRole l r = Some n" for r n
    using that D(1) [of r n] D(3,4,6) [of n] by (simp add: forRole_def forRequest_def)
  have by_request: "n \<notin> set (resolved l) \<and> request_of (ln_pending l n) = q \<and>
      forRole l (role_of (ln_pending l n)) = Some n" if "forRequest l q = Some n" for q n
    using that D(2) [of q n] D(3,4,6) [of n] by (simp add: forRole_def forRequest_def)
  show ?thesis
    using D(5,6) cnt by_role by_request by (simp add: lane_counted_def)
qed

text \<open>C32: The terminals the lane decides itself are sound.  It reports \<open>applied\<close> only for a pending
  whose native submission completed, whose expected DOM events were all observed and whose game
  delivery, where required, was confirmed, with the neutrality Core expects after the action.  Any
  other terminal of a pending whose native input was invoked is \<open>indeterminate\<close> and never claims
  neutrality; one that never reached the native side is \<open>failed\<close> or \<open>superseded\<close> and is neutral
  exactly when the input was expected to be neutral before.\<close>

theorem lane_terminals_sound:
  assumes "l' \<in> {maybeApply now n l, mismatch now n l, surfaceChanged now ev l}"
    and "Resolve m r \<in> set (new_outputs l l')"
  shows "\<not> pn_terminal (ln_pending l m)
    \<and> (if rec_status r = Applied
       then pn_nativeComplete (ln_pending l m)
          \<and> pn_nextDomIndex (ln_pending l m) = length (pn_expectedEvents (ln_pending l m))
          \<and> (pn_gameDeliveryRequired (ln_pending l m) \<longrightarrow> pn_gameDeliveryConfirmed (ln_pending l m))
          \<and> rec_errorCode r = None
          \<and> rec_confirmedNeutrality r = req_neutralAfter (pn_request (ln_pending l m))
       else if pn_nativeInvoked (ln_pending l m)
       then rec_status r = Indeterminate \<and> \<not> rec_confirmedNeutrality r
       else rec_status r \<in> {Failed, Superseded}
          \<and> rec_confirmedNeutrality r = req_neutralBefore (pn_request (ln_pending l m)))"
proof -
  consider "l' = maybeApply now n l" | "l' = mismatch now n l" | "l' = surfaceChanged now ev l"
    using assms(1) by auto
  then show ?thesis
    using assms(2)
    by cases (auto simp: maybeApply_def mismatch_def surfaceChanged_def neutral_if_untouched_def Let_def
        split: if_splits option.splits)
qed

text \<open>However many steps are recorded, a trace that starts empty holds at most 32 of them,
  drops only once it is full, and carries strictly increasing sequence numbers that count the
  dropped ones; and the terminal step that follows is never lost: it is the last of the trace.\<close>

lemma trace_bounded_keeps_terminal:
  fixes calls :: "trace_call list"
  assumes "pn_traceSteps p = []" and "pn_droppedTraceStepCount p = 0"
    and "q = recordTrustedInputTrace source ''terminal'' (Some (c # cs)) (fold trace_with calls p)"
  shows "length (pn_traceSteps q) \<le> MAX_TRACE_STEPS
    \<and> (pn_droppedTraceStepCount q > 0 \<longrightarrow> length (pn_traceSteps q) = MAX_TRACE_STEPS)
    \<and> sorted_wrt (<) (map ts_sequence (pn_traceSteps q))
    \<and> (\<forall>t \<in> set (pn_traceSteps q). 1 \<le> ts_sequence t \<and> ts_sequence t \<le> trace_count q)
    \<and> pn_traceSteps q \<noteq> []
    \<and> same_trace (last (pn_traceSteps q)) source ''terminal'' (Some (c # cs))"
proof -
  have start: "trace_ok p" using assms(1,2) by (simp add: trace_ok_def)
  have ok: "trace_ok (fold trace_with calls p)" using trace.run_inv [OF start] .
  show ?thesis
    using trace_ok_record [OF ok, of source "''terminal''" "Some (c # cs)"]
      record_terminal_last [OF ok, of "Some (c # cs)" source]
    unfolding assms(3) [symmetric] by (auto simp: trace_ok_def same_trace_def)
qed

section \<open>A pending at work\<close>

text \<open>A key press whose native submission was invoked, before its DOM receipts.\<close>

definition demo_pending :: pending where
  "demo_pending = \<lparr>pn_request = nativeRequest demo_request 3 (press ''KeyA'' []) [] Normal,
     pn_frame = \<lparr>fr_roleId = ''x'', fr_generation = 3, fr_frame = 0, fr_frameToken = ''f'',
                 fr_documentInstanceId = ''d''\<rparr>,
     pn_inputSequence = ''s'', pn_timer = 7, pn_nativeInvoked = True, pn_cdpInvoked = True,
     pn_applicationPath = PathCdp, pn_nativeComplete = True, pn_gameDeliveryRequired = False,
     pn_gameDeliveryConfirmed = False, pn_documentObservationWatermark = None, pn_nextDomIndex = 0,
     pn_expectedEvents = [], pn_modifierProjectionCodes = [], pn_cdpModifierMask = None,
     pn_lastObservedDomModifierMask = None, pn_physicalInterleave = NoInterleave,
     pn_physical = None, pn_traceSteps = [], pn_droppedTraceStepCount = 0, pn_failureStage = None,
     pn_cdpTerminalReason = None, pn_nativeProofChanges = [], pn_terminal = False\<rparr>"

definition demo_lane :: lane where
  "demo_lane = new_lane (\<lambda>_. demo_pending) empty_terminals"

definition demo_admitted :: lane where "demo_admitted = fst (add 0 demo_lane)"
definition demo_resolved :: lane where "demo_resolved = maybeApply (''t'', 9) 0 demo_admitted"

lemma demo_reached: "lane_reach demo_lane demo_resolved"
  unfolding demo_resolved_def demo_admitted_def
  by (rule further [OF further [OF start by_add] by_apply])

lemma demo_resolved_list: "resolved demo_resolved = [0]"
  by code_simp

theorem pending_resolved_once_witness:
  "distinct (resolved demo_resolved) \<and> resolved demo_resolved = [0]"
  using pending_resolved_once [of "\<lambda>_. demo_pending" demo_resolved] demo_reached demo_resolved_list
  by (simp add: demo_lane_def demo_pending_def)

definition demo_receipt :: native_receipt where
  "demo_receipt = receipt_of 9 demo_pending Indeterminate
     (Some ''SYSTEM_TRUSTED_INPUT_DOCUMENT_SUPERSEDED'') False"

lemma demo_superseded:
  "Resolve 0 demo_receipt \<in> set (new_outputs demo_admitted
     (surfaceChanged (''t'', 9) \<lparr>le_roleId = ''x'', le_generation = 3\<rparr> demo_admitted))"
  by code_simp

theorem lane_terminals_sound_witness:
  "rec_status demo_receipt = Indeterminate \<and> \<not> rec_confirmedNeutrality demo_receipt"
  using lane_terminals_sound [OF _ demo_superseded, of "(''t'', 9)" 0]
  by (simp add: demo_receipt_def demo_admitted_def demo_lane_def new_lane_def demo_pending_def add_def
      busy_def jm_has_def Let_def set_pending_def recordTrustedInputTrace_def)

end
