(* ===== verification/Physical_Evidence.thy ===== *)
theory Physical_Evidence
  imports Key_Sequence
begin

text \<open>
  Which trusted DOM events came from the hardware
  (\<open>src/src/electron/main/chromiumPhysicalKeyboardEvidence.ts\<close> and
  \<open>chromiumPhysicalInputEvidence.ts\<close>): the native owner counts physical edges and journals
  physical keys; a lane accounts for each of them at most once, so that only an observation
  without an unconsumed physical edge is taken for automatic input.

  A \<open>BigInt\<close> is an \<open>int\<close>.  Fields have the types the interfaces declare, so the \<open>typeof\<close>
  tests on them hold.
\<close>

section \<open>Sequence numbers on the wire\<close>

definition U64_MAX :: int where "U64_MAX = 18446744073709551615"

definition digit_value :: "char \<Rightarrow> int option" where
  "digit_value c =
     (let n = (of_char c :: int)
      in if 48 \<le> n \<and> n \<le> 57 then Some (n - 48)
         else if 97 \<le> n \<and> n \<le> 102 then Some (n - 87)
         else if 65 \<le> n \<and> n \<le> 70 then Some (n - 55)
         else None)"

text \<open>The value of a string of digits in a radix; \<open>None\<close> when another character occurs.\<close>

fun digits_value :: "int \<Rightarrow> int \<Rightarrow> string \<Rightarrow> int option" where
  "digits_value radix acc [] = Some acc"
| "digits_value radix acc (c # cs) =
     (case digit_value c of
        None \<Rightarrow> None
      | Some d \<Rightarrow> if d < radix then digits_value radix (acc * radix + d) cs else None)"

text \<open>\<open>/^(0|[1-9][0-9]*)$/\<close> with a value of at most \<open>U64_MAX\<close>.\<close>

definition parseSequence :: "string \<Rightarrow> int option" where
  "parseSequence s =
     (if s = [] \<or> (hd s = CHR ''0'' \<and> s \<noteq> ''0'') then None
      else (case digits_value 10 0 s of
              None \<Rightarrow> None
            | Some n \<Rightarrow> if n \<le> U64_MAX then Some n else None))"

text \<open>\<open>BigInt(s)\<close> on a string: surrounding white space, an optional sign before decimal digits, or
  a hexadecimal, octal or binary literal; the empty string is zero, anything else throws.\<close>

definition radix_of :: "string \<Rightarrow> int option" where
  "radix_of p =
     (if p \<in> {''0x'', ''0X''} then Some 16 else if p \<in> {''0o'', ''0O''} then Some 8
      else if p \<in> {''0b'', ''0B''} then Some 2 else None)"

definition digits_of :: "int \<Rightarrow> string \<Rightarrow> int outcome" where
  "digits_of radix ds =
     (if ds = [] then Inl PlainError
      else (case digits_value radix 0 ds of None \<Rightarrow> Inl PlainError | Some n \<Rightarrow> Inr n))"

definition toBigInt :: "string \<Rightarrow> int outcome" where
  "toBigInt s =
     (let t = js_trim s
      in if t = [] then Inr 0
         else (case radix_of (take 2 t) of
                 Some radix \<Rightarrow> digits_of radix (drop 2 t)
               | None \<Rightarrow>
                   if hd t = CHR ''-'' then (case digits_of 10 (tl t) of Inl e \<Rightarrow> Inl e | Inr n \<Rightarrow> Inr (- n))
                   else if hd t = CHR ''+'' then digits_of 10 (tl t)
                   else digits_of 10 t))"

section \<open>The keyboard journal\<close>

record key_evidence =
  ke_sequence :: string
  ke_code :: string
  ke_eventType :: string
  ke_repeat :: bool
  ke_consumed :: bool

record keyboard_evidence =
  kb_sequence :: string
  kb_events :: "key_evidence list"

record keyboard_lane =
  kl_watermark :: int
  kl_consumed :: "string list"

definition new_keyboard_lane :: "keyboard_evidence \<Rightarrow> keyboard_lane outcome" where
  "new_keyboard_lane ev =
     (case parseSequence (kb_sequence ev) of
        None \<Rightarrow> Inl PlainError
      | Some n \<Rightarrow> Inr \<lparr>kl_watermark = n, kl_consumed = []\<rparr>)"

text \<open>The validation loop of \<open>pending\<close>: consecutive sequences after \<open>previous\<close>.\<close>

fun events_valid :: "int \<Rightarrow> key_evidence list \<Rightarrow> bool" where
  "events_valid previous [] \<longleftrightarrow> True"
| "events_valid previous (e # es) \<longleftrightarrow>
     parseSequence (ke_sequence e) = Some (previous + 1) \<and> ke_code e \<noteq> [] \<and>
     length (ke_code e) \<le> 32 \<and> ke_eventType e \<in> {''keydown'', ''keyup''} \<and>
     events_valid (previous + 1) es"

definition sequence_of :: "key_evidence \<Rightarrow> int" where
  "sequence_of e = (case parseSequence (ke_sequence e) of Some n \<Rightarrow> n | None \<Rightarrow> 0)"

definition fresh :: "keyboard_lane \<Rightarrow> key_evidence \<Rightarrow> bool" where
  "fresh k e \<longleftrightarrow> sequence_of e > kl_watermark k \<and> ke_sequence e \<notin> set (kl_consumed k) \<and>
     \<not> ke_consumed e"

definition same_key :: "string \<Rightarrow> string \<Rightarrow> bool option \<Rightarrow> key_evidence \<Rightarrow> bool" where
  "same_key c ty rep e \<longleftrightarrow>
     ke_code e = c \<and> ke_eventType e = ty \<and> (case rep of None \<Rightarrow> True | Some b \<Rightarrow> ke_repeat e = b)"

text \<open>The guards of \<open>pending\<close>: the journal is well formed and did not lose an edge this lane has
  not accounted for.\<close>

definition journal_valid :: "keyboard_lane \<Rightarrow> keyboard_evidence \<Rightarrow> bool" where
  "journal_valid k ev \<longleftrightarrow>
     (case parseSequence (kb_sequence ev) of
        None \<Rightarrow> False
      | Some n \<Rightarrow>
          length (kb_events ev) \<le> 128 \<and> n \<ge> kl_watermark k \<and>
          (let previous = n - int (length (kb_events ev))
           in previous \<le> kl_watermark k \<and> events_valid previous (kb_events ev)))"

definition pending_keys ::
  "keyboard_lane \<Rightarrow> keyboard_evidence \<Rightarrow> string \<Rightarrow> string \<Rightarrow> bool option \<Rightarrow> key_evidence list option" where
  "pending_keys k ev c ty rep =
     (if \<not> journal_valid k ev then None
      else let fs = filter (fresh k) (kb_events ev)
           in if list_ex (\<lambda>e. ke_code e = ''Unidentified'') fs then None
              else Some (filter (same_key c ty rep) fs))"

definition consume :: "key_evidence \<Rightarrow> keyboard_lane \<Rightarrow> keyboard_lane" where
  "consume e k = k\<lparr>kl_consumed := js_add (ke_sequence e) (kl_consumed k)\<rparr>"

text \<open>The loop of \<open>advance\<close>; \<open>BigInt(event.sequence)\<close> may throw on a journal nobody validated.\<close>

fun advance_events :: "key_evidence list \<Rightarrow> keyboard_lane \<Rightarrow> keyboard_lane \<times> unit outcome" where
  "advance_events [] k = (k, Inr ())"
| "advance_events (e # es) k =
     (case toBigInt (ke_sequence e) of
        Inl err \<Rightarrow> (k, Inl err)
      | Inr next \<Rightarrow>
          if next \<le> kl_watermark k then advance_events es k
          else if next \<noteq> kl_watermark k + 1 \<or>
                  (\<not> ke_consumed e \<and> ke_sequence e \<notin> set (kl_consumed k))
          then (k, Inr ())
          else advance_events es
                 (k\<lparr>kl_watermark := next, kl_consumed := removeAll (ke_sequence e) (kl_consumed k)\<rparr>))"

definition advance :: "keyboard_evidence \<Rightarrow> keyboard_lane \<Rightarrow> keyboard_lane \<times> unit outcome" where
  "advance ev k = advance_events (kb_events ev) k"

section \<open>The evidence lane of one arm\<close>

record evidence_snapshot =
  sn_sequence :: string
  sn_keyboard :: "keyboard_evidence option"
  sn_keyDownSequence :: "string option"
  sn_keyUpSequence :: "string option"
  sn_targetReceivesPhysicalInput :: bool

record observed =
  ov_code :: "string option"
  ov_type :: string
  ov_repeat :: "bool option"

datatype category = CatKeyDown | CatKeyUp | CatOther | CatTotal

text \<open>The three phase cursors of the lane are null together: the constructor sets all or none.\<close>

record phase_cursors =
  ph_keyDown :: int
  ph_keyUp :: int
  ph_other :: int

record evidence_lane =
  el_accounted :: int
  el_keyboard :: "keyboard_lane option"
  el_phases :: "phase_cursors option"

text \<open>An optional sequence: absent, or parsed (\<open>None\<close> when malformed).\<close>

definition parse_optional :: "string option \<Rightarrow> int option" where
  "parse_optional v = (case v of None \<Rightarrow> None | Some s \<Rightarrow> parseSequence s)"

definition phase_provided :: "evidence_snapshot \<Rightarrow> bool" where
  "phase_provided s \<longleftrightarrow> sn_keyDownSequence s \<noteq> None \<or> sn_keyUpSequence s \<noteq> None"

definition initial_phases :: "evidence_snapshot \<Rightarrow> int \<Rightarrow> phase_cursors option outcome" where
  "initial_phases s n =
     (case (parse_optional (sn_keyDownSequence s), parse_optional (sn_keyUpSequence s)) of
        (Some kd, Some ku) \<Rightarrow>
          if kd + ku > n then Inl PlainError
          else Inr (Some \<lparr>ph_keyDown = kd, ph_keyUp = ku, ph_other = n - kd - ku\<rparr>)
      | _ \<Rightarrow> if phase_provided s then Inl PlainError else Inr None)"

definition initial_keyboard :: "keyboard_evidence option \<Rightarrow> keyboard_lane option outcome" where
  "initial_keyboard v =
     (case v of None \<Rightarrow> Inr None | Some ev \<Rightarrow> and_then (new_keyboard_lane ev) (\<lambda>k. Inr (Some k)))"

definition new_evidence_lane :: "evidence_snapshot \<Rightarrow> evidence_lane outcome" where
  "new_evidence_lane s =
     (case parseSequence (sn_sequence s) of
        None \<Rightarrow> Inl PlainError
      | Some n \<Rightarrow>
          and_then (initial_phases s n) (\<lambda>phases.
          and_then (initial_keyboard (sn_keyboard s)) (\<lambda>keyboard.
            Inr \<lparr>el_accounted = n, el_keyboard = keyboard, el_phases = phases\<rparr>)))"

definition exact_key :: "observed \<Rightarrow> bool" where
  "exact_key ov \<longleftrightarrow> ov_type ov \<in> {''keydown'', ''keyup''} \<and> ov_code ov \<noteq> None"

definition code_of :: "observed \<Rightarrow> string" where
  "code_of ov = (case ov_code ov of Some c \<Rightarrow> c | None \<Rightarrow> [])"

definition modifier_like :: "observed \<Rightarrow> bool" where
  "modifier_like ov \<longleftrightarrow>
     list_ex (\<lambda>p. starts_with p (code_of ov)) [''Control'', ''Alt'', ''Shift'', ''Meta'']"

text \<open>\<open>/^(Control|Alt|Shift|Meta)(Left|Right)$/\<close>\<close>

definition exact_modifier :: "string \<Rightarrow> bool" where
  "exact_modifier c \<longleftrightarrow>
     c \<in> set [a @ b. a \<leftarrow> [''Control'', ''Alt'', ''Shift'', ''Meta''], b \<leftarrow> [''Left'', ''Right'']]"

lemma exact_modifier_iff: "exact_modifier c \<longleftrightarrow> isChromiumModifierCode c"
  by (auto simp: exact_modifier_def isChromiumModifierCode_def CHROMIUM_MODIFIER_CODES_def)

definition category_of :: "evidence_lane \<Rightarrow> observed \<Rightarrow> category" where
  "category_of l ov =
     (if el_phases l = None then CatTotal
      else if ov_type ov = ''keydown'' \<and> \<not> modifier_like ov then CatKeyDown
      else if ov_type ov = ''keyup'' \<and> \<not> modifier_like ov then CatKeyUp
      else CatOther)"

text \<open>A parsed snapshot: the sequence and, when both are given, the phase sequences.\<close>

type_synonym parsed_snapshot = "int \<times> phase_cursors option"

definition parse_snapshot :: "evidence_lane \<Rightarrow> evidence_snapshot \<Rightarrow> parsed_snapshot option" where
  "parse_snapshot l s =
     (case parseSequence (sn_sequence s) of
        None \<Rightarrow> None
      | Some n \<Rightarrow>
          if n < el_accounted l then None
          else if \<not> phase_provided s then Some (n, None)
          else (case (parse_optional (sn_keyDownSequence s), parse_optional (sn_keyUpSequence s),
                      el_phases l) of
                  (Some kd, Some ku, Some ph) \<Rightarrow>
                    if kd + ku \<le> n \<and> kd \<ge> ph_keyDown ph \<and> ku \<ge> ph_keyUp ph \<and>
                       n - kd - ku \<ge> ph_other ph
                    then Some (n, Some \<lparr>ph_keyDown = kd, ph_keyUp = ku, ph_other = n - kd - ku\<rparr>)
                    else None
                | _ \<Rightarrow> None))"

definition pending_category ::
  "evidence_lane \<Rightarrow> parsed_snapshot \<Rightarrow> observed \<Rightarrow> category option" where
  "pending_category l parsed ov =
     (case (snd parsed, el_phases l) of
        (Some sp, Some ph) \<Rightarrow>
          (let down = ph_keyDown sp - ph_keyDown ph; up = ph_keyUp sp - ph_keyUp ph;
               other = ph_other sp - ph_other ph
           in case category_of l ov of
                CatTotal \<Rightarrow> Some CatTotal
              | CatKeyDown \<Rightarrow> if down > 0 then Some CatKeyDown else if up > 0 then None
                              else if other > 0 then Some CatOther else None
              | CatKeyUp \<Rightarrow> if up > 0 then Some CatKeyUp else if down > 0 then None
                            else if other > 0 then Some CatOther else None
              | CatOther \<Rightarrow> if other > 0 then Some CatOther else None)
      | _ \<Rightarrow> Some CatTotal)"

definition sharesCategory ::
  "evidence_lane \<Rightarrow> evidence_snapshot \<Rightarrow> observed \<Rightarrow> observed \<Rightarrow> bool" where
  "sharesCategory l s a b =
     (if el_keyboard l \<noteq> None \<and> sn_keyboard s \<noteq> None \<and> exact_key a \<and> exact_key b
      then ov_code a = ov_code b \<and> ov_type a = ov_type b \<and> ov_repeat a = ov_repeat b
      else (case parse_snapshot l s of
              None \<Rightarrow> False
            | Some p \<Rightarrow> pending_category l p a = pending_category l p b))"

text \<open>The sequence of a category still unaccounted for.\<close>

definition category_pending :: "evidence_lane \<Rightarrow> parsed_snapshot \<Rightarrow> category option \<Rightarrow> int" where
  "category_pending l parsed cat =
     (case cat of
        None \<Rightarrow> 0
      | Some CatTotal \<Rightarrow> fst parsed - el_accounted l
      | Some c \<Rightarrow>
          (case (snd parsed, el_phases l) of
             (Some sp, Some ph) \<Rightarrow>
               (case c of CatKeyDown \<Rightarrow> ph_keyDown sp - ph_keyDown ph
                | CatKeyUp \<Rightarrow> ph_keyUp sp - ph_keyUp ph
                | _ \<Rightarrow> ph_other sp - ph_other ph)
           | _ \<Rightarrow> 0))"

definition keys_pending ::
  "keyboard_lane \<Rightarrow> evidence_snapshot \<Rightarrow> observed \<Rightarrow> key_evidence list option" where
  "keys_pending k s ov =
     (case sn_keyboard s of
        None \<Rightarrow> None
      | Some ev \<Rightarrow> pending_keys k ev (code_of ov) (ov_type ov) (ov_repeat ov))"

definition pendingPhysicalCount :: "evidence_lane \<Rightarrow> evidence_snapshot \<Rightarrow> observed \<Rightarrow> int option" where
  "pendingPhysicalCount l s ov =
     (case parse_snapshot l s of
        None \<Rightarrow> None
      | Some p \<Rightarrow>
          if \<not> sn_targetReceivesPhysicalInput s then Some 0
          else (case (el_keyboard l, exact_key ov) of
                  (Some k, True) \<Rightarrow> map_option (\<lambda>es. int (length es)) (keys_pending k s ov)
                | _ \<Rightarrow> Some (category_pending l p (pending_category l p ov))))"

section \<open>Classification\<close>

datatype provenance = ByAutomation | ByHardware | Undecided

text \<open>\<open>this.#keyboard?.advance(snapshot.keyboard)\<close>, when both are there.\<close>

definition advance_keyboard :: "evidence_snapshot \<Rightarrow> evidence_lane \<Rightarrow> evidence_lane \<times> unit outcome" where
  "advance_keyboard s l =
     (case (el_keyboard l, sn_keyboard s) of
        (Some k, Some ev) \<Rightarrow>
          (let (k', r) = advance ev k in (l\<lparr>el_keyboard := Some k'\<rparr>, r))
      | _ \<Rightarrow> (l, Inr ()))"

fun bump :: "category \<Rightarrow> phase_cursors \<Rightarrow> phase_cursors" where
  "bump CatKeyDown ph = ph\<lparr>ph_keyDown := ph_keyDown ph + 1\<rparr>"
| "bump CatKeyUp ph = ph\<lparr>ph_keyUp := ph_keyUp ph + 1\<rparr>"
| "bump CatOther ph = ph\<lparr>ph_other := ph_other ph + 1\<rparr>"
| "bump CatTotal ph = ph"

text \<open>The cursor that keeps pace with an exact physical key.\<close>

definition exact_category :: "observed \<Rightarrow> category" where
  "exact_category ov =
     (if exact_modifier (code_of ov) then CatOther
      else if ov_type ov = ''keydown'' then CatKeyDown else CatKeyUp)"

definition account :: "category \<Rightarrow> evidence_lane \<Rightarrow> evidence_lane" where
  "account c l = l\<lparr>el_accounted := el_accounted l + 1, el_phases := map_option (bump c) (el_phases l)\<rparr>"

text \<open>A role that is hidden or in the background adopts the current cursors.\<close>

definition classify_hidden ::
  "evidence_lane \<Rightarrow> evidence_snapshot \<Rightarrow> parsed_snapshot \<Rightarrow> evidence_lane \<times> provenance outcome" where
  "classify_hidden l s p =
     (case and_then (initial_keyboard (sn_keyboard s)) (\<lambda>k. Inr (if k = None then el_keyboard l else k)) of
        Inl e \<Rightarrow> (l, Inl e)
      | Inr k \<Rightarrow>
          (l\<lparr>el_keyboard := k, el_accounted := fst p,
             el_phases := (case snd p of None \<Rightarrow> el_phases l | Some sp \<Rightarrow> Some sp)\<rparr>,
           Inr ByAutomation))"

text \<open>A physical key whose journal entry is consumed.\<close>

definition classify_key ::
  "evidence_lane \<Rightarrow> keyboard_lane \<Rightarrow> evidence_snapshot \<Rightarrow> observed \<Rightarrow> evidence_lane \<times> provenance outcome" where
  "classify_key l k s ov =
     (case (sn_keyboard s, keys_pending k s ov) of
        (Some ev, Some (e # _)) \<Rightarrow>
          (let (k', r) = advance ev (consume e k); l' = l\<lparr>el_keyboard := Some k'\<rparr>
           in case r of
                Inl err \<Rightarrow> (l', Inl err)
              | Inr _ \<Rightarrow> (account (exact_category ov) l', Inr ByHardware))
      | _ \<Rightarrow> (l, Inr Undecided))"

definition classify_edge ::
  "evidence_lane \<Rightarrow> evidence_snapshot \<Rightarrow> parsed_snapshot \<Rightarrow> observed \<Rightarrow> evidence_lane \<times> provenance outcome" where
  "classify_edge l s p ov =
     (case (el_keyboard l, exact_key ov) of
        (Some k, True) \<Rightarrow> classify_key l k s ov
      | _ \<Rightarrow>
          if snd p = None then (l\<lparr>el_accounted := el_accounted l + 1\<rparr>, Inr ByHardware)
          else (case pending_category l p ov of
                  None \<Rightarrow> (l, Inr Undecided)
                | Some CatTotal \<Rightarrow> (l, Inr Undecided)
                | Some c \<Rightarrow> (account c l, Inr ByHardware)))"

definition classify ::
  "evidence_lane \<Rightarrow> evidence_snapshot \<Rightarrow> observed option \<Rightarrow> evidence_lane \<times> provenance outcome" where
  "classify l s observation =
     (case parse_snapshot l s of
        None \<Rightarrow> (l, Inr Undecided)
      | Some p \<Rightarrow>
          if \<not> sn_targetReceivesPhysicalInput s then classify_hidden l s p
          else
            (case (case observation of
                     Some ov \<Rightarrow> pendingPhysicalCount l s ov
                   | None \<Rightarrow> Some (fst p - el_accounted l)) of
               None \<Rightarrow> (l, Inr Undecided)
             | Some n \<Rightarrow>
                 if n = 0 then (let (l', r) = advance_keyboard s l
                                in (l', case r of Inl e \<Rightarrow> Inl e | Inr _ \<Rightarrow> Inr ByAutomation))
                 else (case observation of
                         Some ov \<Rightarrow> classify_edge l s p ov
                       | None \<Rightarrow> (l\<lparr>el_accounted := el_accounted l + 1\<rparr>, Inr ByHardware))))"

section \<open>The keyboard journal accounts for each key once\<close>

text \<open>On a validated sequence \<open>BigInt\<close> reads the same number.\<close>

lemma digits_value_digits: "digits_value 10 a s = Some n \<Longrightarrow> c \<in> set s \<Longrightarrow> \<exists>d. digit_value c = Some d \<and> d < 10"
  by (induction s arbitrary: a) (auto split: option.splits if_splits)

lemma decimal_char:
  assumes "digit_value c = Some d" and "d < 10"
  shows "48 \<le> (of_char c :: int)" and "(of_char c :: int) \<le> 57"
  using assms by (auto simp: digit_value_def Let_def split: if_splits)

lemma decimal_not:
  assumes "digit_value c = Some d" and "d < 10"
  shows "\<not> js_space c" and "c \<noteq> CHR ''-''" and "c \<noteq> CHR ''+''" and "c \<notin> set ''xXoObB''"
proof -
  have n: "48 \<le> (of_char c :: nat) \<and> (of_char c :: nat) \<le> 57"
    using decimal_char [OF assms] by (metis of_nat_le_iff of_nat_numeral of_nat_of_char)
  show "\<not> js_space c" using n by (simp add: js_space_def Let_def)
  show "c \<noteq> CHR ''-''" "c \<noteq> CHR ''+''" "c \<notin> set ''xXoObB''" using n by auto
qed

lemma dropWhile_none: "\<forall>c \<in> set s. \<not> P c \<Longrightarrow> dropWhile P s = s"
  by (cases s) auto

lemma toBigInt_parsed:
  assumes "parseSequence s = Some n"
  shows "toBigInt s = Inr n"
proof -
  have v: "digits_value 10 0 s = Some n" and ne: "s \<noteq> []"
    using assms by (auto simp: parseSequence_def split: if_splits option.splits)
  note d = digits_value_digits [OF v]
  have space: "\<forall>c \<in> set s. \<not> js_space c" using d decimal_not(1) by blast
  then have trim: "js_trim s = s" by (simp add: js_trim_def dropWhile_none)
  have hd: "hd s \<noteq> CHR ''-''" "hd s \<noteq> CHR ''+''"
    using d [of "hd s"] decimal_not(2,3) ne by (metis hd_in_set)+
  have tail: "\<forall>c \<in> set (tl s). c \<notin> set ''xXoObB''"
    using d decimal_not(4) ne by (metis list.set_sel(2))
  have "radix_of (take 2 s) = None"
  proof (cases s)
    case (Cons a t)
    then show ?thesis using tail by (cases t) (auto simp: radix_of_def)
  qed (use ne in simp)
  then show ?thesis using trim ne hd v by (simp add: toBigInt_def digits_of_def)
qed

lemma events_valid_sequences:
  "events_valid p es \<Longrightarrow> map sequence_of es = map (\<lambda>i. p + 1 + int i) [0..<length es]"
proof (induction es arbitrary: p)
  case (Cons e es)
  then have "map sequence_of es = map (\<lambda>i. p + 1 + 1 + int i) [0..<length es]"
    using Cons.IH [of "p + 1"] by simp
  moreover have "sequence_of e = p + 1" using Cons.prems by (simp add: sequence_of_def)
  ultimately show ?case by (simp add: upt_rec [of 0] map_Suc_upt [symmetric] comp_def del: upt_Suc)
qed simp

lemma events_valid_distinct:
  assumes "events_valid p es"
  shows "distinct es" and "inj_on sequence_of (set es)"
proof -
  have d: "distinct (map sequence_of es)"
    unfolding events_valid_sequences [OF assms] by (simp add: distinct_map inj_on_def)
  then show "distinct es" "inj_on sequence_of (set es)" by (simp_all add: distinct_map)
qed

lemma sequence_of_string: "ke_sequence x = ke_sequence y \<Longrightarrow> sequence_of x = sequence_of y"
  by (simp add: sequence_of_def)

lemma advance_step_fresh:
  assumes inj: "inj_on sequence_of (set U)" and eU: "e \<in> set U" and xU: "x \<in> set U"
    and w: "sequence_of e = kl_watermark k + 1"
    and used: "ke_consumed e \<or> ke_sequence e \<in> set (kl_consumed k)"
  shows "fresh (k\<lparr>kl_watermark := sequence_of e,
      kl_consumed := removeAll (ke_sequence e) (kl_consumed k)\<rparr>) x \<longleftrightarrow> fresh k x"
proof (cases "x = e")
  case True
  then show ?thesis using used w by (auto simp: fresh_def)
next
  case False
  then have "sequence_of x \<noteq> sequence_of e" using inj eU xU by (auto dest: inj_onD)
  then show ?thesis using w sequence_of_string [of x e] by (auto simp: fresh_def)
qed

lemma advance_events_fresh:
  assumes "events_valid p es" and "set es \<subseteq> set U" and inj: "inj_on sequence_of (set U)"
    and "advance_events es k = (k', r)"
  shows "r = Inr () \<and> kl_watermark k \<le> kl_watermark k' \<and>
    kl_watermark k' \<le> max (kl_watermark k) (p + int (length es)) \<and>
    (\<forall>x \<in> set U. fresh k' x \<longleftrightarrow> fresh k x)"
  using assms(1,2,4)
proof (induction es arbitrary: p k)
  case (Cons e es)
  have par: "parseSequence (ke_sequence e) = Some (p + 1)" and val: "events_valid (p + 1) es"
    using Cons.prems(1) by simp_all
  have big: "toBigInt (ke_sequence e) = Inr (p + 1)" using toBigInt_parsed [OF par] .
  have sq: "sequence_of e = p + 1" using par by (simp add: sequence_of_def)
  have sub: "set es \<subseteq> set U" "e \<in> set U" using Cons.prems(2) by auto
  consider (old) "p + 1 \<le> kl_watermark k"
    | (stop) "\<not> p + 1 \<le> kl_watermark k"
        "p + 1 \<noteq> kl_watermark k + 1 \<or> (\<not> ke_consumed e \<and> ke_sequence e \<notin> set (kl_consumed k))"
    | (step) "p + 1 = kl_watermark k + 1" "ke_consumed e \<or> ke_sequence e \<in> set (kl_consumed k)"
    by blast
  then show ?case
  proof cases
    case old
    then have "advance_events es k = (k', r)" using Cons.prems(3) big by simp
    from Cons.IH [OF val sub(1) this] show ?thesis by auto
  next
    case stop
    then have "k' = k" "r = Inr ()" using Cons.prems(3) big by auto
    then show ?thesis by auto
  next
    case step
    let ?k = "k\<lparr>kl_watermark := sequence_of e,
      kl_consumed := removeAll (ke_sequence e) (kl_consumed k)\<rparr>"
    have run: "advance_events es ?k = (k', r)" using Cons.prems(3) big step sq by auto
    have fr: "\<forall>x \<in> set U. fresh ?k x \<longleftrightarrow> fresh k x"
      using advance_step_fresh [OF inj sub(2)] step sq by simp
    show ?thesis using Cons.IH [OF val sub(1) run] fr step(1) sq by auto
  qed
qed simp

lemma journal_valid_cases:
  assumes "journal_valid k ev"
  obtains n where "parseSequence (kb_sequence ev) = Some n" "kl_watermark k \<le> n"
    "n - int (length (kb_events ev)) \<le> kl_watermark k" "length (kb_events ev) \<le> 128"
    "events_valid (n - int (length (kb_events ev))) (kb_events ev)"
  using assms by (auto simp: journal_valid_def Let_def split: option.splits)

text \<open>Consuming a fresh key and advancing removes this key from what is pending, and nothing else.\<close>

lemma consume_advance:
  assumes jv: "journal_valid k ev" and e: "e \<in> set (kb_events ev)"
    and adv: "advance ev (consume e k) = (k', r)"
  shows "r = Inr ()" and "journal_valid k' ev"
    and "filter (fresh k') (kb_events ev) = filter (\<lambda>x. fresh k x \<and> x \<noteq> e) (kb_events ev)"
proof -
  obtain n where n: "parseSequence (kb_sequence ev) = Some n" "kl_watermark k \<le> n"
    "n - int (length (kb_events ev)) \<le> kl_watermark k" "length (kb_events ev) \<le> 128"
    "events_valid (n - int (length (kb_events ev))) (kb_events ev)"
    using journal_valid_cases [OF jv] .
  have inj: "inj_on sequence_of (set (kb_events ev))" using events_valid_distinct(2) [OF n(5)] .
  have run: "advance_events (kb_events ev) (consume e k) = (k', r)" using adv by (simp add: advance_def)
  note A = advance_events_fresh [OF n(5) subset_refl inj run]
  have w: "kl_watermark (consume e k) = kl_watermark k" by (simp add: consume_def)
  show "r = Inr ()" using A by blast
  show "journal_valid k' ev" using A n w by (auto simp: journal_valid_def Let_def)
  have "fresh k' x \<longleftrightarrow> fresh k x \<and> x \<noteq> e" if x: "x \<in> set (kb_events ev)" for x
  proof -
    have "fresh k' x \<longleftrightarrow> fresh (consume e k) x" using A x by blast
    also have "\<dots> \<longleftrightarrow> fresh k x \<and> ke_sequence x \<noteq> ke_sequence e"
      by (auto simp: fresh_def consume_def)
    also have "\<dots> \<longleftrightarrow> fresh k x \<and> x \<noteq> e"
      using inj e x sequence_of_string [of x e] by (auto dest: inj_onD)
    finally show ?thesis .
  qed
  then show "filter (fresh k') (kb_events ev) = filter (\<lambda>x. fresh k x \<and> x \<noteq> e) (kb_events ev)"
    by (intro filter_cong) auto
qed

section \<open>Accounting\<close>

lemma parse_snapshot_bound:
  assumes "parse_snapshot l s = Some p"
  shows "el_accounted l \<le> fst p"
    and "snd p = Some sp \<Longrightarrow> \<exists>ph. el_phases l = Some ph \<and> ph_keyDown ph \<le> ph_keyDown sp \<and>
           ph_keyUp ph \<le> ph_keyUp sp \<and> ph_other ph \<le> ph_other sp \<and>
           ph_keyDown sp + ph_keyUp sp + ph_other sp = fst p"
    and "snd p = None \<longleftrightarrow> \<not> phase_provided s"
  using assms by (auto simp: parse_snapshot_def split: option.splits if_splits)

lemma category_pending_nonneg:
  assumes "parse_snapshot l s = Some p"
  shows "0 \<le> category_pending l p c"
proof -
  have "0 \<le> fst p - el_accounted l" using parse_snapshot_bound(1) [OF assms] by simp
  then show ?thesis
    using parse_snapshot_bound(2) [OF assms]
    by (auto simp: category_pending_def split: option.splits category.splits)
qed

lemma pendingPhysicalCount_nonneg: "pendingPhysicalCount l s ov = Some n \<Longrightarrow> 0 \<le> n"
  using category_pending_nonneg
  by (auto simp: pendingPhysicalCount_def split: option.splits if_splits bool.splits)

text \<open>What the classification found pending: an observation's edges, or all of them.\<close>

definition pending_for :: "evidence_lane \<Rightarrow> evidence_snapshot \<Rightarrow> observed option \<Rightarrow> int option" where
  "pending_for l s observation =
     (case observation of
        Some ov \<Rightarrow> pendingPhysicalCount l s ov
      | None \<Rightarrow> map_option (\<lambda>p. fst p - el_accounted l) (parse_snapshot l s))"

lemma classify_visible:
  assumes "sn_targetReceivesPhysicalInput s"
  shows "classify l s observation =
    (case parse_snapshot l s of
       None \<Rightarrow> (l, Inr Undecided)
     | Some p \<Rightarrow>
         (case pending_for l s observation of
            None \<Rightarrow> (l, Inr Undecided)
          | Some n \<Rightarrow>
              if n = 0 then (let (l', r) = advance_keyboard s l
                             in (l', case r of Inl e \<Rightarrow> Inl e | Inr _ \<Rightarrow> Inr ByAutomation))
              else (case observation of
                      Some ov \<Rightarrow> classify_edge l s p ov
                    | None \<Rightarrow> (l\<lparr>el_accounted := el_accounted l + 1\<rparr>, Inr ByHardware))))"
  using assms by (auto simp: classify_def pending_for_def split: option.splits)

lemma advance_keyboard_frame:
  "advance_keyboard s l = (l', r) \<Longrightarrow> el_accounted l' = el_accounted l \<and> el_phases l' = el_phases l"
  by (auto simp: advance_keyboard_def split: option.splits prod.splits)

lemma classify_edge_result:
  assumes "classify_edge l s p ov = (l', Inr v)"
  shows "v \<noteq> ByAutomation"
    and "v = ByHardware \<Longrightarrow> el_accounted l' = el_accounted l + 1"
    and "v = Undecided \<Longrightarrow> l' = l"
  using assms
  by (auto simp: classify_edge_def classify_key_def account_def Let_def
      split: option.splits if_splits bool.splits category.splits list.splits prod.splits sum.splits)

text \<open>C28: A visible role attributes an observation to the hardware only when a native edge is left
  for it, and then accounts for exactly one; it takes it for automatic input only when none is
  left, and then no cursor moves; and where it cannot decide, nothing changes.\<close>

theorem classification_accounts:
  assumes "sn_targetReceivesPhysicalInput s"
    and "classify l s observation = (l', Inr v)"
  shows "case v of
      ByHardware \<Rightarrow> (\<exists>n. pending_for l s observation = Some n \<and> n > 0)
        \<and> el_accounted l' = el_accounted l + 1
    | ByAutomation \<Rightarrow> pending_for l s observation = Some 0
        \<and> el_accounted l' = el_accounted l \<and> el_phases l' = el_phases l
    | Undecided \<Rightarrow> l' = l"
proof -
  note C = assms(2) [unfolded classify_visible [OF assms(1)]]
  show ?thesis
  proof (cases "parse_snapshot l s")
    case None
    then show ?thesis using C by auto
  next
    case p: (Some p)
    show ?thesis
    proof (cases "pending_for l s observation")
      case None
      then show ?thesis using C p by auto
    next
      case n: (Some n)
      show ?thesis
      proof (cases "n = 0")
        case True
        then have "v = ByAutomation" and "fst (advance_keyboard s l) = l'"
          using C p n by (auto split: prod.splits sum.splits)
        then show ?thesis
          using n True advance_keyboard_frame [of s l l' "snd (advance_keyboard s l)"]
          by (simp add: prod_eq_iff)
      next
        case False
        have pos: "n > 0"
        proof (cases observation)
          case None
          then show ?thesis
            using False n p parse_snapshot_bound(1) [OF p] by (auto simp: pending_for_def)
        next
          case (Some ov)
          then show ?thesis
            using False n pendingPhysicalCount_nonneg [of l s ov n] by (simp add: pending_for_def)
        qed
        show ?thesis
        proof (cases observation)
          case None
          then show ?thesis using C p n False pos by auto
        next
          case (Some ov)
          then have "classify_edge l s p ov = (l', Inr v)" using C p n False by simp
          from classify_edge_result [OF this] n pos show ?thesis by (cases v) auto
        qed
      qed
    qed
  qed
qed

text \<open>C29: One journalled physical key explains one DOM event.  When an observed key is attributed
  to the hardware through the keyboard journal, what remains pending for any key afterwards is what
  was pending before without exactly that journal entry, in the same order.\<close>

theorem physical_key_used_once:
  assumes "el_keyboard l = Some k" and "sn_keyboard s = Some ev"
    and "classify_key l k s ov = (l', Inr ByHardware)"
  shows "\<exists>e k' rest. el_keyboard l' = Some k'
    \<and> pending_keys k ev (code_of ov) (ov_type ov) (ov_repeat ov) = Some (e # rest)
    \<and> pending_keys k' ev (code_of ov) (ov_type ov) (ov_repeat ov) = Some rest
    \<and> (\<forall>c ty rep es. pending_keys k ev c ty rep = Some es \<longrightarrow>
         pending_keys k' ev c ty rep = Some (filter (\<lambda>x. x \<noteq> e) es))"
proof -
  obtain e rest where p: "pending_keys k ev (code_of ov) (ov_type ov) (ov_repeat ov) = Some (e # rest)"
    using assms(2,3) by (auto simp: classify_key_def keys_pending_def split: option.splits list.splits)
  obtain k' r where adv: "advance ev (consume e k) = (k', r)" by fastforce
  have jv: "journal_valid k ev" using p by (auto simp: pending_keys_def split: if_splits)
  have mem: "filter (same_key (code_of ov) (ov_type ov) (ov_repeat ov))
      (filter (fresh k) (kb_events ev)) = e # rest"
    using p by (auto simp: pending_keys_def Let_def split: if_splits)
  have "e \<in> set (filter (same_key (code_of ov) (ov_type ov) (ov_repeat ov))
      (filter (fresh k) (kb_events ev)))"
    unfolding mem by simp
  then have e: "e \<in> set (kb_events ev)" by simp
  note A = consume_advance [OF jv e adv]
  have lk: "el_keyboard l' = Some k'"
    using assms(2,3) p adv A(1) by (auto simp: classify_key_def keys_pending_def account_def)
  have all: "pending_keys k' ev c ty rep = Some (filter (\<lambda>x. x \<noteq> e) es)"
    if "pending_keys k ev c ty rep = Some es" for c ty rep es
  proof -
    have "\<not> list_ex (\<lambda>x. ke_code x = ''Unidentified'') (filter (fresh k) (kb_events ev))"
      and es: "es = filter (same_key c ty rep) (filter (fresh k) (kb_events ev))"
      using that jv by (auto simp: pending_keys_def Let_def split: if_splits)
    then show ?thesis
      by (simp add: pending_keys_def A(2,3) list_ex_iff conj_ac Let_def)
  qed
  have "distinct (kb_events ev)"
    using journal_valid_cases [OF jv] events_valid_distinct(1) by blast
  then have "distinct (e # rest)" unfolding mem [symmetric] by simp
  then have "filter (\<lambda>x. x \<noteq> e) (e # rest) = rest" by (auto simp: filter_id_conv)
  then show ?thesis using lk p all all [OF p] by auto
qed

section \<open>A lane never attributes more than the hardware did\<close>

text \<open>A run of classifications with their results, in order.\<close>

fun classify_run ::
  "(evidence_snapshot \<times> observed) list \<Rightarrow> evidence_lane
     \<Rightarrow> evidence_lane \<times> provenance outcome list" where
  "classify_run [] l = (l, [])"
| "classify_run (i # is) l =
     (let (l1, v) = classify l (fst i) (Some (snd i)); (l2, vs) = classify_run is l1 in (l2, v # vs))"

text \<open>The cursors of a lane without keyboard journal add up, and all snapshots have phase cursors
  or none has.\<close>

definition cursors_ok :: "evidence_lane \<Rightarrow> bool" where
  "cursors_ok l \<longleftrightarrow> el_keyboard l = None \<and>
     (\<forall>ph. el_phases l = Some ph \<longrightarrow> ph_keyDown ph + ph_keyUp ph + ph_other ph = el_accounted l)"

lemma bump_sum:
  "c \<noteq> CatTotal \<Longrightarrow> ph_keyDown (bump c ph) + ph_keyUp (bump c ph) + ph_other (bump c ph)
     = ph_keyDown ph + ph_keyUp ph + ph_other ph + 1"
  by (cases c) auto

definition cursors_kept :: "evidence_lane \<Rightarrow> evidence_lane \<times> provenance outcome \<Rightarrow> bool" where
  "cursors_kept l res \<longleftrightarrow>
     cursors_ok (fst res) \<and> (el_phases (fst res) = None \<longleftrightarrow> el_phases l = None) \<and>
     el_accounted (fst res) = el_accounted l + (if snd res = Inr ByHardware then 1 else 0)"

lemma classify_edge_cursors:
  assumes ok: "cursors_ok l" and p: "parse_snapshot l s = Some p"
    and shape: "phase_provided s \<longleftrightarrow> el_phases l \<noteq> None"
  shows "cursors_kept l (classify_edge l s p ov)"
proof (cases "el_phases l")
  case None
  then show ?thesis
    using ok shape parse_snapshot_bound(3) [OF p]
    by (simp add: classify_edge_def cursors_ok_def cursors_kept_def)
next
  case (Some ph)
  then show ?thesis
    using ok shape parse_snapshot_bound(3) [OF p]
    by (auto simp: classify_edge_def cursors_ok_def cursors_kept_def account_def
        split: option.splits category.splits)
qed

lemma classify_cursors:
  assumes ok: "cursors_ok l" and vis: "sn_targetReceivesPhysicalInput s"
    and shape: "phase_provided s \<longleftrightarrow> el_phases l \<noteq> None"
  shows "cursors_kept l (classify l s (Some ov))"
proof -
  have adv: "advance_keyboard s l = (l, Inr ())"
    using ok by (simp add: cursors_ok_def advance_keyboard_def)
  have same: "cursors_kept l (l, Inr v)" if "v \<noteq> ByHardware" for v
    using ok that by (simp add: cursors_kept_def)
  show ?thesis
  proof (cases "parse_snapshot l s")
    case None
    then show ?thesis using same by (simp add: classify_visible [OF vis])
  next
    case p: (Some p)
    show ?thesis
    proof (cases "pending_for l s (Some ov)")
      case None
      then show ?thesis using same p by (simp add: classify_visible [OF vis])
    next
      case n: (Some n)
      show ?thesis
      proof (cases "n = 0")
        case True
        then show ?thesis using same p n adv by (simp add: classify_visible [OF vis])
      next
        case False
        then show ?thesis
          using classify_edge_cursors [OF ok p shape, of ov] p n
          by (simp add: classify_visible [OF vis])
      qed
    qed
  qed
qed

lemma classify_run_accounts:
  assumes "cursors_ok l"
    and "\<forall>i \<in> set is. sn_targetReceivesPhysicalInput (fst i) \<and>
           (phase_provided (fst i) \<longleftrightarrow> el_phases l \<noteq> None)"
    and "classify_run is l = (l', vs)"
  shows "cursors_ok l' \<and> (el_phases l' = None \<longleftrightarrow> el_phases l = None) \<and>
    el_accounted l' = el_accounted l + int (length (filter (\<lambda>r. r = Inr ByHardware) vs))"
  using assms
proof (induction "is" arbitrary: l l' vs)
  case (Cons i "is")
  obtain l1 v where one: "classify l (fst i) (Some (snd i)) = (l1, v)" by fastforce
  obtain l2 ws where rest: "classify_run is l1 = (l2, ws)" by fastforce
  have res: "l' = l2" "vs = v # ws" using Cons.prems(3) one rest by simp_all
  have step: "cursors_ok l1 \<and> (el_phases l1 = None \<longleftrightarrow> el_phases l = None) \<and>
      el_accounted l1 = el_accounted l + (if v = Inr ByHardware then 1 else 0)"
    using classify_cursors [OF Cons.prems(1), of "fst i" "snd i"] Cons.prems(2) one
    by (simp add: cursors_kept_def)
  have "cursors_ok l2 \<and> (el_phases l2 = None \<longleftrightarrow> el_phases l1 = None) \<and>
      el_accounted l2 = el_accounted l1 + int (length (filter (\<lambda>r. r = Inr ByHardware) ws))"
    using Cons.IH [OF _ _ rest] step Cons.prems(2) by auto
  then show ?case using step res by auto
qed simp

lemma new_lane_cursors:
  assumes "new_evidence_lane s = Inr l" and "sn_keyboard s = None"
  shows "cursors_ok l" and "parseSequence (sn_sequence s) = Some (el_accounted l)"
    and "phase_provided s \<longleftrightarrow> el_phases l \<noteq> None"
  using assms
  by (auto simp: new_evidence_lane_def initial_phases_def initial_keyboard_def cursors_ok_def
      phase_provided_def parse_optional_def split: option.splits if_splits)


section \<open>Physical keys at work\<close>

definition demo_key_event :: "string \<Rightarrow> string \<Rightarrow> key_evidence" where
  "demo_key_event n c = \<lparr>ke_sequence = n, ke_code = c, ke_eventType = ''keydown'', ke_repeat = False,
     ke_consumed = False\<rparr>"

definition demo_snapshot :: "string \<Rightarrow> keyboard_evidence option \<Rightarrow> evidence_snapshot" where
  "demo_snapshot n kb = \<lparr>sn_sequence = n, sn_keyboard = kb, sn_keyDownSequence = None,
     sn_keyUpSequence = None, sn_targetReceivesPhysicalInput = True\<rparr>"

definition demo_key_a :: observed where
  "demo_key_a = \<lparr>ov_code = Some ''KeyA'', ov_type = ''keydown'', ov_repeat = Some False\<rparr>"

definition demo_evidence_lane :: evidence_lane where
  "demo_evidence_lane = \<lparr>el_accounted = 4, el_keyboard = None, el_phases = None\<rparr>"

theorem classification_accounts_witness:
  "(\<exists>n. pending_for demo_evidence_lane (demo_snapshot ''5'' None) (Some demo_key_a) = Some n \<and> n > 0)"
proof -
  have "classify demo_evidence_lane (demo_snapshot ''5'' None) (Some demo_key_a)
      = (demo_evidence_lane\<lparr>el_accounted := 5\<rparr>, Inr ByHardware)"
    by code_simp
  from classification_accounts [OF _ this] show ?thesis by (simp add: demo_snapshot_def)
qed

definition demo_journal :: keyboard_evidence where
  "demo_journal = \<lparr>kb_sequence = ''6'', kb_events = [demo_key_event ''5'' ''KeyA'', demo_key_event ''6'' ''KeyB'']\<rparr>"

definition demo_keyboard :: keyboard_lane where
  "demo_keyboard = \<lparr>kl_watermark = 4, kl_consumed = []\<rparr>"

theorem physical_key_used_once_witness:
  "\<exists>e k'. pending_keys demo_keyboard demo_journal ''KeyA'' ''keydown'' (Some False) = Some [e]
     \<and> pending_keys k' demo_journal ''KeyA'' ''keydown'' (Some False) = Some []"
proof -
  let ?l = "demo_evidence_lane\<lparr>el_keyboard := Some demo_keyboard\<rparr>"
  let ?s = "demo_snapshot ''6'' (Some demo_journal)"
  have "snd (classify_key ?l demo_keyboard ?s demo_key_a) = Inr ByHardware" by code_simp
  then have run: "classify_key ?l demo_keyboard ?s demo_key_a
      = (fst (classify_key ?l demo_keyboard ?s demo_key_a), Inr ByHardware)"
    by (metis prod.collapse)
  have one: "pending_keys demo_keyboard demo_journal ''KeyA'' ''keydown'' (Some False)
      = Some [demo_key_event ''5'' ''KeyA'']"
    by code_simp
  show ?thesis
    using physical_key_used_once [OF _ _ run, of demo_journal] one
    by (auto simp: demo_snapshot_def demo_key_a_def code_of_def)
qed


end
