(* ===== verification/Receipt_Reconciliation.thy ===== *)
theory Receipt_Reconciliation
  imports Pending_Lane Physical_Evidence "HOL-Library.Multiset"
begin

text \<open>
  Matching the trusted DOM events the preload reports with the events an armed input expects
  (\<open>src/src/electron/main/chromiumTrustedInputReceiptReconciliation.ts\<close>,
  \<open>matchesTrustedInputExpectedEvent\<close> and \<open>chromiumDomModifierMask\<close> of
  \<open>chromiumTrustedInputDomReceipt.ts\<close>): events of the hardware are set aside by the evidence lane,
  the automatic ones must be exactly the expected ones in order.
\<close>

section \<open>DOM receipts\<close>

record dom_receipt = expected_event +
  dr_observationSequence :: int
  dr_isTrusted :: bool

definition matchesTrustedInputExpectedEvent :: "dom_receipt \<Rightarrow> expected_event \<Rightarrow> bool" where
  "matchesTrustedInputExpectedEvent r e \<longleftrightarrow>
     dr_isTrusted r \<and> ee_type r = ee_type e \<and> ee_code r = ee_code e \<and> ee_button r = ee_button e \<and>
     ee_clientX r = ee_clientX e \<and> ee_clientY r = ee_clientY e \<and> ee_altKey r = ee_altKey e \<and>
     ee_ctrlKey r = ee_ctrlKey e \<and> ee_metaKey r = ee_metaKey e \<and> ee_shiftKey r = ee_shiftKey e \<and>
     ee_repeat r = ee_repeat e"

lemma matches_iff:
  "matchesTrustedInputExpectedEvent r e \<longleftrightarrow> dr_isTrusted r \<and> expected_event.truncate r = e"
  by (cases e) (auto simp: matchesTrustedInputExpectedEvent_def expected_event.defs)

definition chromiumDomModifierMask :: "'a expected_event_scheme \<Rightarrow> nat" where
  "chromiumDomModifierMask e =
     (if ee_altKey e then 1 else 0) + (if ee_ctrlKey e then 2 else 0) +
     (if ee_metaKey e then 4 else 0) + (if ee_shiftKey e then 8 else 0)"

definition observed_of :: "dom_receipt \<Rightarrow> observed" where
  "observed_of r = \<lparr>ov_code = ee_code r, ov_type = ee_type r, ov_repeat = Some (ee_repeat r)\<rparr>"

section \<open>Reconciliation\<close>

datatype reconciliation_status = Advanced | Deferred | Mismatch | ReconIndeterminate

record decision =
  dc_receipt :: dom_receipt
  dc_physical :: bool
  dc_expectedEvent :: "expected_event option"

record reconciliation =
  rc_status :: reconciliation_status
  rc_nextExpectedIndex :: nat
  rc_remaining :: "dom_receipt list"
  rc_decisions :: "decision list"

text \<open>\<open>findIndex\<close> with the receipt found there.\<close>

fun find_index :: "('a \<Rightarrow> bool) \<Rightarrow> 'a list \<Rightarrow> nat option" where
  "find_index P [] = None"
| "find_index P (x # xs) = (if P x then Some 0 else map_option Suc (find_index P xs))"

lemma find_index_Some: "find_index P xs = Some i \<Longrightarrow> i < length xs \<and> P (xs ! i)"
  by (induction xs arbitrary: i) (auto split: if_splits)

definition splice_out :: "nat \<Rightarrow> 'a list \<Rightarrow> 'a list" where
  "splice_out i xs = take i xs @ drop (Suc i) xs"

lemma length_splice_out [simp]: "i < length xs \<Longrightarrow> length (splice_out i xs) = length xs - 1"
  by (simp add: splice_out_def)

lemma mset_splice_out: "i < length xs \<Longrightarrow> add_mset (xs ! i) (mset (splice_out i xs)) = mset xs"
  by (metis (no_types) splice_out_def id_take_nth_drop mset_append mset.simps(2) union_mset_add_mset_right)

text \<open>The state of the two loops.\<close>

record recon_state =
  rs_lane :: evidence_lane
  rs_index :: nat
  rs_queue :: "dom_receipt list"
  rs_decisions :: "decision list"

definition finished :: "reconciliation_status \<Rightarrow> recon_state \<Rightarrow> reconciliation" where
  "finished st s = \<lparr>rc_status = st, rc_nextExpectedIndex = rs_index s, rc_remaining = rs_queue s,
     rc_decisions = rs_decisions s\<rparr>"

definition decide :: "dom_receipt \<Rightarrow> bool \<Rightarrow> expected_event option \<Rightarrow> recon_state \<Rightarrow> recon_state" where
  "decide r physical e s =
     s\<lparr>rs_decisions := rs_decisions s @ [\<lparr>dc_receipt = r, dc_physical = physical, dc_expectedEvent = e\<rparr>]\<rparr>"

text \<open>One turn of the first loop: the loop goes on with a new state, or the function returns, or an
  exception of the evidence lane passes through.\<close>

datatype turn = Continue recon_state | Return reconciliation_status recon_state | Raise js_error recon_state

text \<open>Classify a receipt that must be physical, with the queue already without it.\<close>

definition take_physical ::
  "evidence_snapshot \<Rightarrow> dom_receipt \<Rightarrow> dom_receipt list \<Rightarrow> dom_receipt list \<Rightarrow> expected_event
     \<Rightarrow> recon_state \<Rightarrow> turn" where
  "take_physical sn r held rest e s =
     (case classify (rs_lane s) sn (Some (observed_of r)) of
        (l, Inl err) \<Rightarrow> Raise err (s\<lparr>rs_lane := l, rs_queue := held\<rparr>)
      | (l, Inr Undecided) \<Rightarrow> Return ReconIndeterminate (s\<lparr>rs_lane := l, rs_queue := held\<rparr>)
      | (l, Inr ByAutomation) \<Rightarrow> Return Mismatch (s\<lparr>rs_lane := l, rs_queue := held\<rparr>)
      | (l, Inr ByHardware) \<Rightarrow>
          Continue (decide r True (Some e) (s\<lparr>rs_lane := l, rs_queue := rest\<rparr>)))"

definition physical_candidate ::
  "evidence_snapshot \<Rightarrow> expected_event \<Rightarrow> recon_state \<Rightarrow> nat option" where
  "physical_candidate sn e s =
     find_index (\<lambda>r. \<not> matchesTrustedInputExpectedEvent r e \<and>
        (case pendingPhysicalCount (rs_lane s) sn (observed_of r) of None \<Rightarrow> False | Some n \<Rightarrow> n > 0))
       (rs_queue s)"

text \<open>The head of the queue matches the expected event.\<close>

definition match_head ::
  "evidence_snapshot \<Rightarrow> expected_event \<Rightarrow> dom_receipt \<Rightarrow> dom_receipt list \<Rightarrow> recon_state \<Rightarrow> turn" where
  "match_head sn e r rest s =
     (case pendingPhysicalCount (rs_lane s) sn (observed_of r) of
        None \<Rightarrow> Return ReconIndeterminate s
      | Some n \<Rightarrow>
          if n > 0
          then (if int (length (filter (\<lambda>c. sharesCategory (rs_lane s) sn (observed_of c) (observed_of r))
                    (rs_queue s))) \<le> n
                then Return Deferred s
                else take_physical sn r (rs_queue s) rest e s)
          else (case classify (rs_lane s) sn (Some (observed_of r)) of
                  (l, Inl err) \<Rightarrow> Raise err (s\<lparr>rs_lane := l\<rparr>)
                | (l, Inr Undecided) \<Rightarrow> Return ReconIndeterminate (s\<lparr>rs_lane := l\<rparr>)
                | (l, Inr ByHardware) \<Rightarrow> Return Mismatch (s\<lparr>rs_lane := l\<rparr>)
                | (l, Inr ByAutomation) \<Rightarrow>
                    Continue (decide r False (Some e)
                      (s\<lparr>rs_lane := l, rs_queue := rest, rs_index := Suc (rs_index s)\<rparr>))))"

definition expected_turn :: "evidence_snapshot \<Rightarrow> expected_event \<Rightarrow> recon_state \<Rightarrow> turn" where
  "expected_turn sn e s =
     (case physical_candidate sn e s of
        Some i \<Rightarrow>
          (let r = rs_queue s ! i; rest = splice_out i (rs_queue s)
           in take_physical sn r rest rest e s)
      | None \<Rightarrow>
          (case rs_queue s of
             [] \<Rightarrow> Return Mismatch s
           | r # rest \<Rightarrow>
               if \<not> matchesTrustedInputExpectedEvent r e then Return Mismatch s
               else match_head sn e r rest s))"

lemma take_physical_length:
  "take_physical sn r held rest e s = Continue s' \<Longrightarrow> rs_queue s' = rest"
  by (auto simp: take_physical_def decide_def split: prod.splits sum.splits provenance.splits)

lemma expected_turn_shrinks:
  assumes "expected_turn sn e s = Continue s'" and "rs_queue s \<noteq> []"
  shows "length (rs_queue s') < length (rs_queue s)"
proof (cases "physical_candidate sn e s")
  case (Some i)
  then have "i < length (rs_queue s)" unfolding physical_candidate_def by (rule find_index_Some [THEN conjunct1])
  then show ?thesis
    using assms(1) Some take_physical_length by (fastforce simp: expected_turn_def Let_def)
next
  case None
  then show ?thesis
    using assms take_physical_length
    by (cases "rs_queue s")
      (auto simp: expected_turn_def match_head_def decide_def split: if_splits option.splits prod.splits
        sum.splits provenance.splits)
qed

function expected_loop :: "evidence_snapshot \<Rightarrow> expected_event list \<Rightarrow> recon_state \<Rightarrow> turn" where
  "expected_loop sn expected s =
     (if rs_queue s = [] \<or> rs_index s \<ge> length expected then Continue s
      else (case expected_turn sn (expected ! rs_index s) s of
              Continue s' \<Rightarrow> expected_loop sn expected s'
            | t \<Rightarrow> t))"
  by pat_completeness auto
termination
  by (relation "measure (\<lambda>(_, _, s). length (rs_queue s))") (auto intro: expected_turn_shrinks)

declare expected_loop.simps [simp del]

text \<open>The second loop: what is left when every expected event was seen must be physical.\<close>

definition trailing_turn :: "evidence_snapshot \<Rightarrow> dom_receipt \<Rightarrow> dom_receipt list \<Rightarrow> recon_state \<Rightarrow> turn" where
  "trailing_turn sn r rest s =
     (case pendingPhysicalCount (rs_lane s) sn (observed_of r) of
        None \<Rightarrow> Return ReconIndeterminate s
      | Some n \<Rightarrow>
          if n > 0
          then (case classify (rs_lane s) sn (Some (observed_of r)) of
                  (l, Inl err) \<Rightarrow> Raise err (s\<lparr>rs_lane := l\<rparr>)
                | (l, Inr v) \<Rightarrow>
                    if v \<noteq> ByHardware then Return ReconIndeterminate (s\<lparr>rs_lane := l\<rparr>)
                    else Continue (decide r True None (s\<lparr>rs_lane := l, rs_queue := rest\<rparr>)))
          else Return Mismatch s)"

lemma trailing_turn_shrinks:
  "trailing_turn sn r rest s = Continue s' \<Longrightarrow> rs_queue s' = rest"
  by (auto simp: trailing_turn_def decide_def split: option.splits if_splits prod.splits sum.splits)

function trailing_loop :: "evidence_snapshot \<Rightarrow> recon_state \<Rightarrow> turn" where
  "trailing_loop sn s =
     (case rs_queue s of
        [] \<Rightarrow> Continue s
      | r # rest \<Rightarrow>
          (case trailing_turn sn r rest s of Continue s' \<Rightarrow> trailing_loop sn s' | t \<Rightarrow> t))"
  by pat_completeness auto
termination
  by (relation "measure (\<lambda>(_, s). length (rs_queue s))") (auto dest: trailing_turn_shrinks)

declare trailing_loop.simps [simp del]

definition reconcileChromiumTrustedInputReceipts ::
  "evidence_lane \<Rightarrow> evidence_snapshot \<Rightarrow> expected_event list \<Rightarrow> nat \<Rightarrow> dom_receipt list
     \<Rightarrow> evidence_lane \<times> reconciliation outcome" where
  "reconcileChromiumTrustedInputReceipts l sn expected nextExpectedIndex observations =
     (let s0 = \<lparr>rs_lane = l, rs_index = nextExpectedIndex, rs_queue = observations, rs_decisions = []\<rparr>
      in (case (case expected_loop sn expected s0 of Continue s \<Rightarrow> trailing_loop sn s | t \<Rightarrow> t) of
            Raise e s \<Rightarrow> (rs_lane s, Inl e)
          | Return st s \<Rightarrow> (rs_lane s, Inr (finished st s))
          | Continue s \<Rightarrow>
              (rs_lane s, Inr (finished (if rs_decisions s \<noteq> [] then Advanced else Deferred) s))))"

section \<open>What a reconciliation guarantees\<close>

abbreviation automatic :: "decision list \<Rightarrow> dom_receipt list" where
  "automatic ds \<equiv> map dc_receipt (filter (\<lambda>d. \<not> dc_physical d) ds)"

text \<open>The automatic decisions are the expected events from the first index on, in order.\<close>

definition in_order :: "expected_event list \<Rightarrow> nat \<Rightarrow> nat \<Rightarrow> decision list \<Rightarrow> bool" where
  "in_order expected first next ds \<longleftrightarrow>
     first \<le> next \<and> next \<le> length expected \<and>
     list_all2 matchesTrustedInputExpectedEvent (automatic ds) (take (next - first) (drop first expected))"

definition recon_inv :: "expected_event list \<Rightarrow> nat \<Rightarrow> dom_receipt list \<Rightarrow> recon_state \<Rightarrow> bool" where
  "recon_inv expected first observations s \<longleftrightarrow>
     mset (map dc_receipt (rs_decisions s)) + mset (rs_queue s) = mset observations \<and>
     in_order expected first (rs_index s) (rs_decisions s)"

text \<open>The same with a receipt possibly lost: a candidate that turned out not to be physical.\<close>

definition recon_stop :: "expected_event list \<Rightarrow> nat \<Rightarrow> dom_receipt list \<Rightarrow> reconciliation_status \<Rightarrow> recon_state \<Rightarrow> bool" where
  "recon_stop expected first observations st s \<longleftrightarrow>
     mset (map dc_receipt (rs_decisions s)) + mset (rs_queue s) \<subseteq># mset observations \<and>
     in_order expected first (rs_index s) (rs_decisions s) \<and>
     (st = Deferred \<longrightarrow> recon_inv expected first observations s) \<and> st \<noteq> Advanced"

definition turn_ok :: "expected_event list \<Rightarrow> nat \<Rightarrow> dom_receipt list \<Rightarrow> turn \<Rightarrow> bool" where
  "turn_ok expected first observations t \<longleftrightarrow>
     (case t of Continue s \<Rightarrow> recon_inv expected first observations s
      | Return st s \<Rightarrow> recon_stop expected first observations st s
      | Raise e s \<Rightarrow> True)"

lemma recon_inv_stop:
  "recon_inv expected first observations s \<Longrightarrow> st \<noteq> Advanced \<Longrightarrow>
     recon_stop expected first observations st s"
  by (simp add: recon_inv_def recon_stop_def)

lemma recon_inv_lane:
  "recon_inv expected first observations (s\<lparr>rs_lane := l\<rparr>) = recon_inv expected first observations s"
  by (simp add: recon_inv_def)

lemma in_order_next:
  assumes "in_order expected first n ds" and "n < length expected"
    and "matchesTrustedInputExpectedEvent r (expected ! n)"
  shows "in_order expected first (Suc n) (ds @ [\<lparr>dc_receipt = r, dc_physical = False, dc_expectedEvent = e\<rparr>])"
proof -
  have le: "first \<le> n" using assms(1) by (simp add: in_order_def)
  then have "take (Suc n - first) (drop first expected)
      = take (n - first) (drop first expected) @ [expected ! n]"
    using assms(2) by (simp add: Suc_diff_le take_Suc_conv_app_nth)
  then show ?thesis
    using assms le by (simp add: in_order_def list_all2_appendI)
qed

lemma take_physical_ok:
  assumes inv: "recon_inv expected first observations s"
    and take: "add_mset r (mset rest) = mset (rs_queue s)"
    and held: "mset held \<subseteq># mset (rs_queue s)"
  shows "turn_ok expected first observations (take_physical sn r held rest e s)"
proof -
  have ord: "in_order expected first (rs_index s) (rs_decisions s)"
    and all: "mset (map dc_receipt (rs_decisions s)) + mset (rs_queue s) = mset observations"
    using inv by (simp_all add: recon_inv_def)
  have sub: "mset (map dc_receipt (rs_decisions s)) + mset held \<subseteq># mset observations"
    unfolding all [symmetric] using held by (rule subset_mset.add_left_mono)
  have cont: "recon_inv expected first observations
      (decide r True (Some e) (s\<lparr>rs_lane := l, rs_queue := rest\<rparr>))" for l
    using ord all take [symmetric] by (simp add: recon_inv_def decide_def in_order_def)
  show ?thesis
    using sub ord cont
    by (auto simp: take_physical_def turn_ok_def recon_stop_def split: prod.splits sum.splits provenance.splits)
qed

lemma match_head_ok:
  assumes inv: "recon_inv expected first observations s" and q: "rs_queue s = r # rest"
    and idx: "rs_index s < length expected"
    and match: "matchesTrustedInputExpectedEvent r (expected ! rs_index s)"
  shows "turn_ok expected first observations (match_head sn (expected ! rs_index s) r rest s)"
proof -
  have phys: "turn_ok expected first observations (take_physical sn r (r # rest) rest e s)" for e
    using take_physical_ok [OF inv, of r rest "r # rest"] q by simp
  have auto: "recon_inv expected first observations (decide r False e
      (s\<lparr>rs_lane := l, rs_queue := rest, rs_index := Suc (rs_index s)\<rparr>))" for e l
    using inv q in_order_next [OF _ idx match, of first "rs_decisions s" e]
    by (simp add: recon_inv_def decide_def)
  show ?thesis
    using inv q phys auto
    by (auto simp: match_head_def turn_ok_def recon_inv_lane intro: recon_inv_stop
        split: option.splits prod.splits sum.splits provenance.splits)
qed

lemma expected_turn_ok:
  assumes inv: "recon_inv expected first observations s" and idx: "rs_index s < length expected"
  shows "turn_ok expected first observations (expected_turn sn (expected ! rs_index s) s)"
proof (cases "physical_candidate sn (expected ! rs_index s) s")
  case (Some i)
  then have i: "i < length (rs_queue s)"
    unfolding physical_candidate_def by (rule find_index_Some [THEN conjunct1])
  have "turn_ok expected first observations
      (take_physical sn (rs_queue s ! i) (splice_out i (rs_queue s)) (splice_out i (rs_queue s))
        (expected ! rs_index s) s)"
  proof (rule take_physical_ok [OF inv mset_splice_out [OF i]])
    show "mset (splice_out i (rs_queue s)) \<subseteq># mset (rs_queue s)"
      unfolding mset_splice_out [OF i, symmetric] by simp
  qed
  then show ?thesis using Some by (simp add: expected_turn_def Let_def)
next
  case None
  show ?thesis
  proof (cases "rs_queue s")
    case Nil
    then show ?thesis using None inv by (simp add: expected_turn_def turn_ok_def recon_inv_stop)
  next
    case (Cons r rest)
    then show ?thesis
      using None inv match_head_ok [OF inv Cons idx]
      by (auto simp: expected_turn_def turn_ok_def recon_inv_stop)
  qed
qed

lemma expected_loop_ok:
  "recon_inv expected first observations s \<Longrightarrow>
     turn_ok expected first observations (expected_loop sn expected s)"
proof (induction sn expected s rule: expected_loop.induct)
  case (1 sn expected s)
  show ?case
  proof (cases "rs_queue s = [] \<or> rs_index s \<ge> length expected")
    case True
    then show ?thesis using "1.prems" by (simp add: expected_loop.simps [of sn expected s] turn_ok_def)
  next
    case False
    then have "turn_ok expected first observations (expected_turn sn (expected ! rs_index s) s)"
      using expected_turn_ok [OF "1.prems"] by simp
    then show ?thesis
      using "1.IH" [OF False] False
      by (cases "expected_turn sn (expected ! rs_index s) s")
        (auto simp: expected_loop.simps [of sn expected s] turn_ok_def)
  qed
qed

lemma trailing_turn_ok:
  assumes inv: "recon_inv expected first observations s" and q: "rs_queue s = r # rest"
  shows "turn_ok expected first observations (trailing_turn sn r rest s)"
  using inv q
  by (auto simp: trailing_turn_def turn_ok_def recon_inv_stop recon_inv_lane recon_inv_def decide_def
      in_order_def recon_stop_def split: option.splits prod.splits sum.splits)

lemma trailing_loop_ok:
  "recon_inv expected first observations s \<Longrightarrow>
     turn_ok expected first observations (trailing_loop sn s) \<and>
     (\<forall>s'. trailing_loop sn s = Continue s' \<longrightarrow> rs_queue s' = [])"
proof (induction sn s rule: trailing_loop.induct)
  case (1 sn s)
  show ?case
  proof (cases "rs_queue s")
    case Nil
    then show ?thesis using "1.prems" by (simp add: trailing_loop.simps [of sn s] turn_ok_def)
  next
    case (Cons r rest)
    have t: "turn_ok expected first observations (trailing_turn sn r rest s)"
      using trailing_turn_ok [OF "1.prems" Cons] .
    then show ?thesis
      using "1.IH" [OF Cons] Cons
      by (cases "trailing_turn sn r rest s") (auto simp: trailing_loop.simps [of sn s] turn_ok_def)
  qed
qed

text \<open>C27: What a reconciliation of DOM receipts guarantees, whatever the evidence lane answers.  No
  receipt is decided twice or invented: decided and remaining receipts are among the observations,
  and they are all of them when the status is \<open>advanced\<close> or \<open>deferred\<close>.  The receipts taken for
  automatic input are exactly the expected events from the first index up to the reported next
  index, each matching its event, in order.  \<open>advanced\<close> leaves no receipt behind.\<close>

theorem reconciliation_sound:
  assumes "reconcileChromiumTrustedInputReceipts l sn expected first observations = (l', Inr rc)"
    and "first \<le> length expected"
  shows "mset (map dc_receipt (rc_decisions rc)) + mset (rc_remaining rc) \<subseteq># mset observations
    \<and> first \<le> rc_nextExpectedIndex rc \<and> rc_nextExpectedIndex rc \<le> length expected
    \<and> list_all2 matchesTrustedInputExpectedEvent (automatic (rc_decisions rc))
        (take (rc_nextExpectedIndex rc - first) (drop first expected))
    \<and> (rc_status rc \<in> {Advanced, Deferred} \<longrightarrow>
         mset (map dc_receipt (rc_decisions rc)) + mset (rc_remaining rc) = mset observations)
    \<and> (rc_status rc = Advanced \<longrightarrow> rc_remaining rc = [] \<and> rc_decisions rc \<noteq> [])"
proof -
  let ?s0 = "\<lparr>rs_lane = l, rs_index = first, rs_queue = observations, rs_decisions = []\<rparr>"
  have start: "recon_inv expected first observations ?s0"
    using assms(2) by (simp add: recon_inv_def in_order_def)
  define t where "t = (case expected_loop sn expected ?s0 of Continue s \<Rightarrow> trailing_loop sn s | t \<Rightarrow> t)"
  have t: "turn_ok expected first observations t \<and> (\<forall>s. t = Continue s \<longrightarrow> rs_queue s = [])"
    using expected_loop_ok [OF start, of sn] trailing_loop_ok [of expected first observations _ sn]
    by (cases "expected_loop sn expected ?s0") (auto simp: t_def turn_ok_def)
  have rc: "(l', Inr rc) = (case t of
      Raise e s \<Rightarrow> (rs_lane s, Inl e)
    | Return st s \<Rightarrow> (rs_lane s, Inr (finished st s))
    | Continue s \<Rightarrow> (rs_lane s, Inr (finished (if rs_decisions s \<noteq> [] then Advanced else Deferred) s)))"
    using assms(1) by (simp add: reconcileChromiumTrustedInputReceipts_def Let_def t_def)
  show ?thesis
  proof (cases t)
    case (Continue s)
    then have "recon_inv expected first observations s" "rs_queue s = []"
      using t by (auto simp: turn_ok_def)
    then show ?thesis
      using rc Continue by (auto simp: finished_def recon_inv_def in_order_def)
  next
    case (Return st s)
    then have "recon_stop expected first observations st s" using t by (simp add: turn_ok_def)
    then show ?thesis
      using rc Return by (auto simp: finished_def recon_stop_def recon_inv_def in_order_def)
  next
    case (Raise e s)
    then show ?thesis using rc by simp
  qed
qed

text \<open>An automatic key press whose DOM event is observed after one of the hardware.\<close>

definition demo_expected :: expected_event where
  "demo_expected = \<lparr>ee_type = ''keydown'', ee_code = Some ''KeyA'', ee_button = None, ee_clientX = None,
     ee_clientY = None, ee_altKey = False, ee_ctrlKey = False, ee_metaKey = False,
     ee_shiftKey = False, ee_repeat = False\<rparr>"

definition demo_dom :: "string \<Rightarrow> int \<Rightarrow> dom_receipt" where
  "demo_dom c n = \<lparr>ee_type = ''keydown'', ee_code = Some c, ee_button = None, ee_clientX = None,
     ee_clientY = None, ee_altKey = False, ee_ctrlKey = False, ee_metaKey = False,
     ee_shiftKey = False, ee_repeat = False, dr_observationSequence = n, dr_isTrusted = True\<rparr>"

definition demo_reconciled :: reconciliation where
  "demo_reconciled = \<lparr>rc_status = Advanced, rc_nextExpectedIndex = 1, rc_remaining = [],
     rc_decisions = [
       \<lparr>dc_receipt = demo_dom ''KeyW'' 1, dc_physical = True, dc_expectedEvent = Some demo_expected\<rparr>,
       \<lparr>dc_receipt = demo_dom ''KeyA'' 2, dc_physical = False, dc_expectedEvent = Some demo_expected\<rparr>]\<rparr>"

lemma demo_reconcile:
  "snd (reconcileChromiumTrustedInputReceipts demo_evidence_lane (demo_snapshot ''5'' None)
     [demo_expected] 0 [demo_dom ''KeyW'' 1, demo_dom ''KeyA'' 2]) = Inr demo_reconciled"
  by code_simp

theorem reconciliation_sound_witness:
  "list_all2 matchesTrustedInputExpectedEvent (automatic (rc_decisions demo_reconciled)) [demo_expected]"
proof -
  have run: "reconcileChromiumTrustedInputReceipts demo_evidence_lane (demo_snapshot ''5'' None)
      [demo_expected] 0 [demo_dom ''KeyW'' 1, demo_dom ''KeyA'' 2]
    = (fst (reconcileChromiumTrustedInputReceipts demo_evidence_lane (demo_snapshot ''5'' None)
      [demo_expected] 0 [demo_dom ''KeyW'' 1, demo_dom ''KeyA'' 2]), Inr demo_reconciled)"
    using demo_reconcile by (metis prod.collapse)
  show ?thesis
    using reconciliation_sound [OF run] by (simp add: demo_reconciled_def)
qed

end
