(* ===== verification/Effect_Lanes.thy ===== *)
theory Effect_Lanes
  imports Operation_Journal
begin

text \<open>
  The mutation lanes of the Core effect coordinator: \<open>laneKey\<close>, \<open>#enqueueTask\<close> and the release of a
  lane (\<open>src/src/electron/main/coreEffectCoordinator.ts\<close>).  A task chains behind the promises its
  keys hold when it is enqueued; a promise is the number of its task.  A task starts once all of
  those settled (rejections are swallowed by \<open>catch\<close>), ends, and then releases the lanes it still
  holds.
\<close>

section \<open>Lane keys\<close>

definition string_field :: "string \<Rightarrow> core_effect \<Rightarrow> string" where
  "string_field k e = (case field k (action_fields e) of Some (JStr s) \<Rightarrow> s | _ \<Rightarrow> ''undefined'')"

definition laneKey :: "core_effect \<Rightarrow> string" where
  "laneKey e =
     (if action_type e \<in> {''embeddedPrepareTabRoleReload'', ''embeddedCommitTabRoleReload''}
        then ''role-reload:'' @ string_field ''reloadOperationId'' e
      else if action_type e = ''embeddedSupersedeTabRoleReload''
        then ''role-reload-control:'' @ string_field ''reloadOperationId'' e
      else if target_kind e = ''app'' then ''app''
      else target_kind e @ '':'' @ target_handleId e)"

text \<open>The keys of a task: its own reload lane, else what the optional \<open>mutationScopes\<close> names.\<close>

definition task_keys :: "(core_effect \<Rightarrow> string list) option \<Rightarrow> core_effect \<Rightarrow> string list" where
  "task_keys mutationScopes e =
     (let reload = laneKey e
      in if starts_with ''role-reload'' reload then [reload]
         else (case mutationScopes of None \<Rightarrow> [reload] | Some scopes \<Rightarrow> scopes e))"

section \<open>The scheduler\<close>

datatype task_phase = Waiting | Running | Ended

record lane_task =
  lt_keys :: "string list"
  lt_waits :: "nat list"
  lt_phase :: task_phase

record lanes =
  lanes_current :: "(string, nat) js_map"
  lanes_tasks :: "lane_task list"

definition no_lanes :: lanes where
  "no_lanes = \<lparr>lanes_current = [], lanes_tasks = []\<rparr>"

abbreviation phase_at :: "lanes \<Rightarrow> nat \<Rightarrow> task_phase" where
  "phase_at l i \<equiv> lt_phase (lanes_tasks l ! i)"
abbreviation keys_at :: "lanes \<Rightarrow> nat \<Rightarrow> string list" where
  "keys_at l i \<equiv> lt_keys (lanes_tasks l ! i)"
abbreviation waits_at :: "lanes \<Rightarrow> nat \<Rightarrow> nat list" where
  "waits_at l i \<equiv> lt_waits (lanes_tasks l ! i)"
abbreviation task_count :: "lanes \<Rightarrow> nat" where
  "task_count l \<equiv> length (lanes_tasks l)"

definition effective_keys :: "string list \<Rightarrow> lanes \<Rightarrow> string list" where
  "effective_keys keys l =
     (if ''app'' \<in> set keys then map fst (lanes_current l) @ [''app''] else keys @ [''app''])"

definition predecessors :: "string list \<Rightarrow> lanes \<Rightarrow> nat list" where
  "predecessors keys l =
     js_set_of (List.map_filter (jm_get (lanes_current l)) (effective_keys keys l))"

definition enqueue_task :: "string list \<Rightarrow> lanes \<Rightarrow> lanes" where
  "enqueue_task keys l =
     (let current = task_count l
      in \<lparr>lanes_current = fold (\<lambda>k. jm_set k current) keys (lanes_current l),
          lanes_tasks = lanes_tasks l @
            [\<lparr>lt_keys = keys, lt_waits = predecessors keys l, lt_phase = Waiting\<rparr>]\<rparr>)"

definition set_phase :: "nat \<Rightarrow> task_phase \<Rightarrow> lanes \<Rightarrow> lanes" where
  "set_phase i p l = l\<lparr>lanes_tasks := (lanes_tasks l)[i := (lanes_tasks l ! i)\<lparr>lt_phase := p\<rparr>]\<rparr>"

definition startable :: "nat \<Rightarrow> lanes \<Rightarrow> bool" where
  "startable i l \<longleftrightarrow>
     i < task_count l \<and> phase_at l i = Waiting \<and>
     list_all (\<lambda>w. phase_at l w = Ended) (waits_at l i)"

definition start_task :: "nat \<Rightarrow> lanes \<Rightarrow> lanes" where
  "start_task i l = (if startable i l then set_phase i Running l else l)"

definition end_task :: "nat \<Rightarrow> lanes \<Rightarrow> lanes" where
  "end_task i l = (if i < task_count l \<and> phase_at l i = Running then set_phase i Ended l else l)"

definition release_key :: "nat \<Rightarrow> string \<Rightarrow> (string, nat) js_map \<Rightarrow> (string, nat) js_map" where
  "release_key i k m = (if jm_get m k = Some i then jm_delete k m else m)"

definition release_task :: "nat \<Rightarrow> lanes \<Rightarrow> lanes" where
  "release_task i l =
     (if i < task_count l \<and> phase_at l i = Ended
      then l\<lparr>lanes_current := fold (release_key i) (keys_at l i) (lanes_current l)\<rparr> else l)"

datatype lane_op = Enqueue "string list" | Start nat | End nat | Release nat

fun lanes_step :: "lane_op \<Rightarrow> lanes \<Rightarrow> lanes" where
  "lanes_step (Enqueue keys) l = enqueue_task keys l"
| "lanes_step (Start i) l = start_task i l"
| "lanes_step (End i) l = end_task i l"
| "lanes_step (Release i) l = release_task i l"

section \<open>Invariant\<close>

text \<open>Two tasks conflict when they share a key or one of them owns the application lane; a task
  without keys holds no lane.\<close>

definition lanes_conflict :: "string list \<Rightarrow> string list \<Rightarrow> bool" where
  "lanes_conflict a b \<longleftrightarrow>
     set a \<inter> set b \<noteq> {} \<or> (''app'' \<in> set a \<and> b \<noteq> []) \<or> (''app'' \<in> set b \<and> a \<noteq> [])"

text \<open>A lane names a task with its key; a task that has not ended is named by its lanes or followed
  there; tasks wait for earlier ones; a conflicting earlier task is waited for while it has not
  ended; and it has ended before its successor starts.\<close>

definition lanes_named :: "lanes \<Rightarrow> bool" where
  "lanes_named l \<longleftrightarrow> (\<forall>k i. jm_get (lanes_current l) k = Some i \<longrightarrow>
     i < task_count l \<and> k \<in> set (keys_at l i))"

definition lanes_held :: "lanes \<Rightarrow> bool" where
  "lanes_held l \<longleftrightarrow> (\<forall>j k. j < task_count l \<longrightarrow> k \<in> set (keys_at l j) \<longrightarrow> phase_at l j \<noteq> Ended \<longrightarrow>
     (\<exists>c \<ge> j. jm_get (lanes_current l) k = Some c))"

definition waits_back :: "lanes \<Rightarrow> bool" where
  "waits_back l \<longleftrightarrow> (\<forall>j w. j < task_count l \<longrightarrow> w \<in> set (waits_at l j) \<longrightarrow> w < j)"

definition waits_chain :: "lanes \<Rightarrow> bool" where
  "waits_chain l \<longleftrightarrow> (\<forall>i j. i < j \<longrightarrow> j < task_count l \<longrightarrow> lanes_conflict (keys_at l i) (keys_at l j) \<longrightarrow>
     phase_at l i \<noteq> Ended \<longrightarrow>
     (\<exists>w \<in> set (waits_at l j). w = i \<or> (i < w \<and> lanes_conflict (keys_at l i) (keys_at l w))))"

definition in_turn :: "lanes \<Rightarrow> bool" where
  "in_turn l \<longleftrightarrow> (\<forall>i j. i < j \<longrightarrow> j < task_count l \<longrightarrow> lanes_conflict (keys_at l i) (keys_at l j) \<longrightarrow>
     phase_at l j \<noteq> Waiting \<longrightarrow> phase_at l i = Ended)"

definition lanes_inv :: "lanes \<Rightarrow> bool" where
  "lanes_inv l \<longleftrightarrow> lanes_named l \<and> lanes_held l \<and> waits_back l \<and> waits_chain l \<and> in_turn l"

lemmas lanes_inv_defs = lanes_named_def lanes_held_def waits_back_def waits_chain_def in_turn_def

lemma lanes_invD:
  assumes "lanes_inv l"
  shows "jm_get (lanes_current l) k = Some i \<Longrightarrow> i < task_count l \<and> k \<in> set (keys_at l i)"
    and "j < task_count l \<Longrightarrow> k \<in> set (keys_at l j) \<Longrightarrow> phase_at l j \<noteq> Ended \<Longrightarrow>
           \<exists>c \<ge> j. jm_get (lanes_current l) k = Some c"
    and "j < task_count l \<Longrightarrow> w \<in> set (waits_at l j) \<Longrightarrow> w < j"
    and "i < j \<Longrightarrow> j < task_count l \<Longrightarrow> lanes_conflict (keys_at l i) (keys_at l j) \<Longrightarrow>
           phase_at l i \<noteq> Ended \<Longrightarrow>
           \<exists>w \<in> set (waits_at l j). w = i \<or> (i < w \<and> lanes_conflict (keys_at l i) (keys_at l w))"
    and "i < j \<Longrightarrow> j < task_count l \<Longrightarrow> lanes_conflict (keys_at l i) (keys_at l j) \<Longrightarrow>
           phase_at l j \<noteq> Waiting \<Longrightarrow> phase_at l i = Ended"
proof -
  have I: "lanes_named l" "lanes_held l" "waits_back l" "waits_chain l" "in_turn l"
    using assms by (simp_all add: lanes_inv_def)
  show "jm_get (lanes_current l) k = Some i \<Longrightarrow> i < task_count l \<and> k \<in> set (keys_at l i)"
    using I(1) unfolding lanes_named_def by blast
  show "j < task_count l \<Longrightarrow> k \<in> set (keys_at l j) \<Longrightarrow> phase_at l j \<noteq> Ended \<Longrightarrow>
      \<exists>c \<ge> j. jm_get (lanes_current l) k = Some c"
    using I(2) unfolding lanes_held_def by blast
  show "j < task_count l \<Longrightarrow> w \<in> set (waits_at l j) \<Longrightarrow> w < j"
    using I(3) unfolding waits_back_def by blast
  show "i < j \<Longrightarrow> j < task_count l \<Longrightarrow> lanes_conflict (keys_at l i) (keys_at l j) \<Longrightarrow>
      phase_at l i \<noteq> Ended \<Longrightarrow>
      \<exists>w \<in> set (waits_at l j). w = i \<or> (i < w \<and> lanes_conflict (keys_at l i) (keys_at l w))"
    using I(4) unfolding waits_chain_def by blast
  show "i < j \<Longrightarrow> j < task_count l \<Longrightarrow> lanes_conflict (keys_at l i) (keys_at l j) \<Longrightarrow>
      phase_at l j \<noteq> Waiting \<Longrightarrow> phase_at l i = Ended"
    using I(5) unfolding in_turn_def by blast
qed

lemma lanes_inv_empty: "lanes_inv no_lanes"
  by (simp add: lanes_inv_def lanes_inv_defs no_lanes_def)

lemma fold_jm_set_get:
  "jm_get (fold (\<lambda>k. jm_set k c) keys m) k = (if k \<in> set keys then Some c else jm_get m k)"
  by (induction keys arbitrary: m) auto

lemma fold_release_get:
  "jm_get (fold (release_key i) keys m) k
     = (if k \<in> set keys \<and> jm_get m k = Some i then None else jm_get m k)"
  by (induction keys arbitrary: m) (auto simp: release_key_def)

lemma set_predecessors:
  "set (predecessors keys l)
     = {w. \<exists>k \<in> set (effective_keys keys l). jm_get (lanes_current l) k = Some w}"
  by (force simp: predecessors_def List.map_filter_def js_set_of_def set_fold_js_add image_iff)

text \<open>A conflicting task that has not ended is waited for, directly or through a later one.\<close>

lemma predecessor_of_conflict:
  assumes inv: "lanes_inv l" and i: "i < task_count l" "phase_at l i \<noteq> Ended"
    and conf: "lanes_conflict (keys_at l i) keys"
  shows "\<exists>w \<in> set (predecessors keys l).
    w = i \<or> (i < w \<and> lanes_conflict (keys_at l i) (keys_at l w))"
proof -
  have "\<exists>k \<in> set (keys_at l i). k \<in> set (effective_keys keys l) \<or> ''app'' \<in> set keys"
    using conf by (cases "keys_at l i") (auto simp: lanes_conflict_def effective_keys_def split: if_splits)
  then obtain k where k: "k \<in> set (keys_at l i)" "k \<in> set (effective_keys keys l) \<or> ''app'' \<in> set keys"
    by blast
  obtain c where c: "c \<ge> i" "jm_get (lanes_current l) k = Some c"
    using lanes_invD(2) [OF inv i(1) k(1) i(2)] by blast
  have "k \<in> set (map fst (lanes_current l))" using c(2) by (metis domI jm_get_dom)
  then have "k \<in> set (effective_keys keys l)" using k(2) by (auto simp: effective_keys_def)
  then have "c \<in> set (predecessors keys l)" using c(2) by (auto simp: set_predecessors)
  moreover have "k \<in> set (keys_at l c)" using lanes_invD(1) [OF inv c(2)] by blast
  ultimately show ?thesis
    using c(1) k(1) by (intro bexI [of _ c]) (auto simp: lanes_conflict_def)
qed

lemma lanes_inv_enqueue:
  assumes inv: "lanes_inv l"
  shows "lanes_inv (enqueue_task keys l)"
proof -
  let ?n = "task_count l" and ?l = "enqueue_task keys l"
  have cnt: "task_count ?l = Suc ?n" by (simp add: enqueue_task_def Let_def)
  have old: "lanes_tasks ?l ! i = lanes_tasks l ! i" if "i < ?n" for i
    using that by (simp add: enqueue_task_def Let_def nth_append)
  have new: "lanes_tasks ?l ! ?n = \<lparr>lt_keys = keys, lt_waits = predecessors keys l, lt_phase = Waiting\<rparr>"
    by (simp add: enqueue_task_def Let_def)
  have cur: "jm_get (lanes_current ?l) k = (if k \<in> set keys then Some ?n else jm_get (lanes_current l) k)"
    for k
    by (simp add: enqueue_task_def Let_def fold_jm_set_get)
  have below: "w < ?n" if "w \<in> set (predecessors keys l)" for w
    using that lanes_invD(1) [OF inv] by (auto simp: set_predecessors)
  show ?thesis
    unfolding lanes_inv_def lanes_inv_defs cnt cur
  proof (intro conjI allI impI)
    fix k i assume "(if k \<in> set keys then Some ?n else jm_get (lanes_current l) k) = Some i"
    then show "i < Suc ?n" "k \<in> set (keys_at ?l i)"
      using lanes_invD(1) [OF inv, of k i] old new by (auto split: if_splits)
  next
    fix j k assume j: "j < Suc ?n" "k \<in> set (keys_at ?l j)" "phase_at ?l j \<noteq> Ended"
    show "\<exists>c \<ge> j. (if k \<in> set keys then Some ?n else jm_get (lanes_current l) k) = Some c"
      using j lanes_invD(2) [OF inv, of j k] old [of j] new by (cases "j = ?n") auto
  next
    fix j w assume "j < Suc ?n" "w \<in> set (waits_at ?l j)"
    then show "w < j"
      using lanes_invD(3) [OF inv, of j w] below old [of j] new by (cases "j = ?n") auto
  next
    fix i j assume ij: "i < j" "j < Suc ?n" "lanes_conflict (keys_at ?l i) (keys_at ?l j)"
      "phase_at ?l i \<noteq> Ended"
    have i: "i < ?n" using ij by simp
    show "\<exists>w \<in> set (waits_at ?l j). w = i \<or> (i < w \<and> lanes_conflict (keys_at ?l i) (keys_at ?l w))"
    proof (cases "j = ?n")
      case True
      have "\<exists>w \<in> set (predecessors keys l).
          w = i \<or> (i < w \<and> lanes_conflict (keys_at l i) (keys_at l w))"
        using predecessor_of_conflict [OF inv i] ij True old [OF i] new by simp
      then show ?thesis using True new old [OF i] old below by auto
    next
      case False
      then have j: "j < ?n" using ij by simp
      have "\<exists>w \<in> set (waits_at l j). w = i \<or> (i < w \<and> lanes_conflict (keys_at l i) (keys_at l w))"
        using lanes_invD(4) [OF inv ij(1) j] ij old [OF i] old [OF j] by simp
      then show ?thesis using lanes_invD(3) [OF inv j] j old [OF i] old [OF j] old by fastforce
    qed
  next
    fix i j assume ij: "i < j" "j < Suc ?n" "lanes_conflict (keys_at ?l i) (keys_at ?l j)"
      "phase_at ?l j \<noteq> Waiting"
    then have j: "j < ?n" using new by (cases "j = ?n") auto
    then show "phase_at ?l i = Ended"
      using lanes_invD(5) [OF inv ij(1) j] ij old [of i] old [OF j] by simp
  qed
qed

lemma set_phase_simps:
  "task_count (set_phase i p l) = task_count l"
  "lanes_current (set_phase i p l) = lanes_current l"
  "i < task_count l \<Longrightarrow> keys_at (set_phase i p l) j = keys_at l j"
  "i < task_count l \<Longrightarrow> waits_at (set_phase i p l) j = waits_at l j"
  "i < task_count l \<Longrightarrow> phase_at (set_phase i p l) j = (if j = i then p else phase_at l j)"
  by (auto simp: set_phase_def nth_list_update)

lemma lanes_inv_start:
  assumes inv: "lanes_inv l"
  shows "lanes_inv (start_task i l)"
proof (cases "startable i l")
  case True
  then have i: "i < task_count l" "phase_at l i = Waiting"
    and waits: "\<And>w. w \<in> set (waits_at l i) \<Longrightarrow> phase_at l w = Ended"
    by (auto simp: startable_def list_all_iff)
  note S = set_phase_simps(1,2) set_phase_simps(3-5) [OF i(1)]
  have turn: "phase_at l j = Ended" if c: "j < i" "lanes_conflict (keys_at l j) (keys_at l i)" for j
  proof (rule ccontr)
    assume n: "phase_at l j \<noteq> Ended"
    obtain w where w: "w \<in> set (waits_at l i)"
      "w = j \<or> (j < w \<and> lanes_conflict (keys_at l j) (keys_at l w))"
      using lanes_invD(4) [OF inv c(1) i(1) c(2) n] by blast
    then show False
      using n waits [OF w(1)] lanes_invD(3) [OF inv i(1) w(1)] i(1)
        lanes_invD(5) [OF inv, of j w] by auto
  qed
  have later: "phase_at l j = Waiting"
    if "i < j" "j < task_count l" "lanes_conflict (keys_at l i) (keys_at l j)" for j
    using lanes_invD(5) [OF inv that] i(2) by auto
  have "lanes_named (set_phase i Running l)" "waits_back (set_phase i Running l)"
    using inv by (simp_all add: lanes_inv_def lanes_named_def waits_back_def S)
  moreover have "lanes_held (set_phase i Running l)"
    using lanes_invD(2) [OF inv] i by (simp add: lanes_held_def S)
  moreover have "waits_chain (set_phase i Running l)"
    using lanes_invD(4) [OF inv] i by (auto simp: waits_chain_def S)
  moreover have "in_turn (set_phase i Running l)"
    using lanes_invD(5) [OF inv] turn later by (auto simp: in_turn_def S)
  ultimately show ?thesis using True by (simp add: start_task_def lanes_inv_def)
next
  case False
  then show ?thesis using inv by (simp add: start_task_def)
qed

lemma lanes_inv_end:
  assumes inv: "lanes_inv l"
  shows "lanes_inv (end_task i l)"
proof (cases "i < task_count l \<and> phase_at l i = Running")
  case True
  then have i: "i < task_count l" "phase_at l i = Running" by auto
  note S = set_phase_simps(1,2) set_phase_simps(3-5) [OF i(1)]
  have "lanes_named (set_phase i Ended l)" "waits_back (set_phase i Ended l)"
    using inv by (simp_all add: lanes_inv_def lanes_named_def waits_back_def S)
  moreover have "lanes_held (set_phase i Ended l)"
    using lanes_invD(2) [OF inv] by (simp add: lanes_held_def S)
  moreover have "waits_chain (set_phase i Ended l)"
    using lanes_invD(4) [OF inv] by (simp add: waits_chain_def S)
  moreover have "in_turn (set_phase i Ended l)"
    using lanes_invD(5) [OF inv] i by (auto simp: in_turn_def S)
  ultimately show ?thesis using True by (simp add: end_task_def lanes_inv_def)
next
  case False
  then show ?thesis using inv by (auto simp: end_task_def)
qed

lemma lanes_inv_release:
  assumes inv: "lanes_inv l"
  shows "lanes_inv (release_task i l)"
proof (cases "i < task_count l \<and> phase_at l i = Ended")
  case True
  let ?l = "l\<lparr>lanes_current := fold (release_key i) (keys_at l i) (lanes_current l)\<rparr>"
  have get: "jm_get (lanes_current ?l) k =
      (if k \<in> set (keys_at l i) \<and> jm_get (lanes_current l) k = Some i then None
       else jm_get (lanes_current l) k)" for k
    by (simp add: fold_release_get)
  have "lanes_held ?l"
    unfolding lanes_held_def
  proof (intro allI impI)
    fix j k assume j: "j < task_count ?l" "k \<in> set (keys_at ?l j)" "phase_at ?l j \<noteq> Ended"
    then have k: "k \<in> set (keys_at l j)" "phase_at l j \<noteq> Ended" by simp_all
    obtain c where c: "c \<ge> j" "jm_get (lanes_current l) k = Some c"
      using lanes_invD(2) [OF inv, of j k] j by auto
    have "c \<noteq> i"
    proof
      assume ci: "c = i"
      then have "j < i" using c(1) True k(2) by (cases "j = i") auto
      moreover have "lanes_conflict (keys_at l j) (keys_at l i)"
        using k(1) lanes_invD(1) [OF inv c(2)] ci by (auto simp: lanes_conflict_def)
      ultimately show False using lanes_invD(5) [OF inv, of j i] True k(2) by simp
    qed
    then show "\<exists>c \<ge> j. jm_get (lanes_current ?l) k = Some c" using c get [of k] by auto
  qed
  moreover have "lanes_named ?l"
    using lanes_invD(1) [OF inv] get by (auto simp: lanes_named_def split: if_splits)
  moreover have "waits_back ?l" "waits_chain ?l" "in_turn ?l"
    using inv by (simp_all add: lanes_inv_def lanes_inv_defs)
  ultimately show ?thesis using True by (simp add: release_task_def lanes_inv_def)
next
  case False
  then show ?thesis using inv by (auto simp: release_task_def)
qed

interpretation effect_lanes: guarded_machine lanes_step lanes_inv
proof unfold_locales
  fix l op assume "lanes_inv l"
  then show "lanes_inv (lanes_step op l)"
    by (cases op) (simp_all add: lanes_inv_enqueue lanes_inv_start lanes_inv_end lanes_inv_release)
qed

text \<open>C24: The mutation lanes serialise.  In every run of enqueued, started, ended and released
  tasks, a task that has started - it is running or has ended - began only after every conflicting
  task enqueued before it had ended: two tasks that share a scope, or of which one owns the
  application lane, never overlap and run in the order in which they were enqueued.\<close>

theorem lanes_serialise:
  assumes "l = fold lanes_step ops no_lanes"
    and "i < j" and "j < task_count l"
    and "lanes_conflict (keys_at l i) (keys_at l j)"
    and "phase_at l j \<noteq> Waiting"
  shows "phase_at l i = Ended"
  using lanes_invD(5) [OF effect_lanes.run_inv [OF lanes_inv_empty]] assms by blast

text \<open>C25: The lanes never deadlock.  Whenever a task has not ended, the first such task is running
  or can start at once, since tasks wait only for tasks enqueued before them.\<close>

theorem lanes_progress:
  assumes "l = fold lanes_step ops no_lanes"
    and "\<exists>i < task_count l. phase_at l i \<noteq> Ended"
  shows "\<exists>i < task_count l. (\<forall>j < i. phase_at l j = Ended) \<and> (phase_at l i = Running \<or> startable i l)"
proof -
  have inv: "lanes_inv l" unfolding assms(1) by (rule effect_lanes.run_inv [OF lanes_inv_empty])
  define i where "i = (LEAST i. i < task_count l \<and> phase_at l i \<noteq> Ended)"
  have i: "i < task_count l" "phase_at l i \<noteq> Ended"
    using LeastI_ex [of "\<lambda>i. i < task_count l \<and> phase_at l i \<noteq> Ended"] assms(2) by (auto simp: i_def)
  have before: "phase_at l j = Ended" if "j < i" for j
    using that not_less_Least [of j "\<lambda>i. i < task_count l \<and> phase_at l i \<noteq> Ended"] i(1)
    by (auto simp: i_def)
  have "phase_at l i = Running \<or> startable i l"
    using i before lanes_invD(3) [OF inv i(1)]
    by (cases "phase_at l i") (auto simp: startable_def list_all_iff)
  then show ?thesis using i(1) before by blast
qed

text \<open>A role mutation in two scopes, an application mutation behind it, and a third mutation.\<close>

definition demo_lane_ops :: "lane_op list" where
  "demo_lane_ops = [Enqueue [''window:1'', ''role:a''], Enqueue [''app''], Enqueue [''role:b''],
     Start 0, End 0, Release 0, Start 1]"

theorem lanes_serialise_witness: "phase_at (fold lanes_step demo_lane_ops no_lanes) 0 = Ended"
proof (rule lanes_serialise [OF refl, of 0 1])
  show "(0::nat) < 1" by simp
  show "1 < task_count (fold lanes_step demo_lane_ops no_lanes)" by code_simp
  show "lanes_conflict (keys_at (fold lanes_step demo_lane_ops no_lanes) 0)
      (keys_at (fold lanes_step demo_lane_ops no_lanes) 1)" by code_simp
  show "phase_at (fold lanes_step demo_lane_ops no_lanes) 1 \<noteq> Waiting" by code_simp
qed

theorem lanes_progress_witness:
  "\<exists>i < 3. phase_at (fold lanes_step demo_lane_ops no_lanes) i = Running
     \<or> startable i (fold lanes_step demo_lane_ops no_lanes)"
proof -
  have n: "task_count (fold lanes_step demo_lane_ops no_lanes) = 3" by code_simp
  have "phase_at (fold lanes_step demo_lane_ops no_lanes) 1 \<noteq> Ended" by code_simp
  then have "\<exists>i < task_count (fold lanes_step demo_lane_ops no_lanes).
      phase_at (fold lanes_step demo_lane_ops no_lanes) i \<noteq> Ended"
    unfolding n by (intro exI [of _ 1]) simp
  from lanes_progress [OF refl this] show ?thesis unfolding n by blast
qed

end
