(* ===== verification/Effect_Contract.thy ===== *)
theory Effect_Contract
  imports Effect_Lanes
begin

text \<open>
  The contract between Core and the effect coordinator: validation of an effect, its results and
  cancellation errors, the validation of Core's acknowledgement report and the process-wide ledger
  of destructive receipts (the free functions of
  \<open>src/src/electron/main/coreEffectCoordinator.ts\<close>).
\<close>

definition validateEffect :: "core_effect \<Rightarrow> unit outcome" where
  "validateEffect e =
     (if effectId e = [] \<or> operationId e = [] \<or> target_handleId e = []
        then Inl (BridgeError ''ELECTRON_CORE_EFFECT_INVALID'')
      else if completionPolicy e = EventBound \<and> effect_deadlineMs e \<noteq> None
        then Inl (BridgeError ''ELECTRON_CORE_EFFECT_POLICY_INVALID'')
      else if completionPolicy e = DeadlineBound \<and>
              (case effect_deadlineMs e of None \<Rightarrow> True | Some d \<Rightarrow> \<not> isSafeInteger d \<or> d < 1)
        then Inl (BridgeError ''ELECTRON_CORE_EFFECT_POLICY_INVALID'')
      else Inr ())"

definition isDestructiveEffect :: "core_effect \<Rightarrow> bool" where
  "isDestructiveEffect e \<longleftrightarrow> action_type e = ''roleBrowserDataClearSession''"

definition mutatesRuntimeProjection :: "core_effect \<Rightarrow> bool" where
  "mutatesRuntimeProjection e \<longleftrightarrow> action_type e \<in>
     {''embeddedCreateTab'', ''embeddedSetTabAudioMuted'', ''embeddedDestroyRole'',
      ''embeddedClaimRoleSlot'', ''embeddedDestroyTab'', ''embeddedFollowRoleOwnership'',
      ''embeddedApplyAppKitProjection'', ''embeddedProvisionWindowForTabMove'',
      ''embeddedRetireProvisionedWindow'', ''embeddedSetRuntimeWindowVisibility'',
      ''embeddedSetRuntimeWindowPresentation'', ''embeddedSetRuntimeWindowZoom'',
      ''embeddedSetRuntimeRoleZoom''}"

section \<open>Results\<close>

record effect_result =
  er_effectId :: string
  er_operationId :: string
  er_ok :: bool
  er_valueJson :: "string option"
  er_error :: "string option"

definition effectFailure :: "core_effect \<Rightarrow> js_error \<Rightarrow> effect_result" where
  "effectFailure e err =
     \<lparr>er_effectId = effectId e, er_operationId = operationId e, er_ok = False, er_valueJson = None,
      er_error = Some (normalizeRionBridgeError ''ELECTRON_CORE_EFFECT_FAILED'' err)\<rparr>"

text \<open>What \<open>execute\<close> returned, as \<open>JSON.stringify\<close> sees it.\<close>

datatype returned = Undefined | Encodable string | NotEncodable

definition effectSuccess :: "core_effect \<Rightarrow> returned \<Rightarrow> effect_result" where
  "effectSuccess e v =
     (case v of
        NotEncodable \<Rightarrow> effectFailure e (BridgeError ''ELECTRON_CORE_EFFECT_RESULT_INVALID'')
      | Undefined \<Rightarrow> \<lparr>er_effectId = effectId e, er_operationId = operationId e, er_ok = True,
                      er_valueJson = None, er_error = None\<rparr>
      | Encodable s \<Rightarrow> \<lparr>er_effectId = effectId e, er_operationId = operationId e, er_ok = True,
                        er_valueJson = Some s, er_error = None\<rparr>)"

datatype cancel_reason =
  ActorStop | CoreCancelled | DeadlineElapsed | EventStreamFailure | FocusSuperseded | LifecycleSuperseded

fun cancellationError :: "cancel_reason \<Rightarrow> js_error" where
  "cancellationError ActorStop = BridgeError ''ELECTRON_CORE_EFFECT_ACTOR_STOPPED''"
| "cancellationError CoreCancelled = BridgeError ''CHROMIUM_RUNTIME_EFFECT_CANCELLED''"
| "cancellationError DeadlineElapsed = BridgeError ''ELECTRON_CORE_EFFECT_DEADLINE_ELAPSED''"
| "cancellationError EventStreamFailure = BridgeError ''ELECTRON_CORE_EFFECT_EVENT_STREAM_FAILED''"
| "cancellationError FocusSuperseded = BridgeError ''ELECTRON_CORE_EFFECT_FOCUS_SUPERSEDED''"
| "cancellationError LifecycleSuperseded = BridgeError ''ELECTRON_CORE_EFFECT_LIFECYCLE_SUPERSEDED''"

section \<open>Acknowledgement\<close>

record dispatch_report =
  dp_accepted :: "string list"
  dp_duplicate :: "string list"
  dp_late :: "string list"
  dp_unknown :: "string list"
  dp_operationMismatch :: "string list"

definition validateDispatchReport :: "dispatch_report \<Rightarrow> string \<Rightarrow> unit outcome" where
  "validateDispatchReport r i =
     (if length (filter (\<lambda>c. c = i) (dp_accepted r @ dp_duplicate r @ dp_late r @ dp_unknown r @
                                     dp_operationMismatch r)) \<noteq> 1
        then Inl (BridgeError ''ELECTRON_CORE_EFFECT_ACK_INVALID'')
      else if i \<in> set (dp_unknown r) \<or> i \<in> set (dp_operationMismatch r)
        then Inl (BridgeError ''ELECTRON_CORE_EFFECT_ACK_REJECTED'')
      else Inr ())"

text \<open>Core's answer to one dispatched result, and what \<open>afterDispatch\<close> did with it.\<close>

record ack_answer =
  aa_report :: "dispatch_report outcome"
  aa_after :: "unit outcome"

text \<open>\<open>#acknowledge\<close> after the dispatch: the reported error code, which it also returns.\<close>

definition acknowledge :: "core_effect \<Rightarrow> ack_answer \<Rightarrow> string option" where
  "acknowledge e a =
     (case and_then (aa_report a) (\<lambda>r. validateDispatchReport r (effectId e)) of
        Inl err \<Rightarrow> Some (normalizeRionBridgeError ''ELECTRON_CORE_EFFECT_ACK_FAILED'' err)
      | Inr _ \<Rightarrow>
          (case aa_after a of
             Inl err \<Rightarrow> Some (normalizeRionBridgeError ''ELECTRON_CORE_EFFECT_POST_DISPATCH_FAILED'' err)
           | Inr _ \<Rightarrow> None))"

lemma validateDispatchReport_ok:
  "validateDispatchReport r i = Inr () \<longleftrightarrow>
     length (filter (\<lambda>c. c = i) (dp_accepted r @ dp_duplicate r @ dp_late r)) = 1 \<and>
     i \<notin> set (dp_unknown r) \<and> i \<notin> set (dp_operationMismatch r)"
proof -
  have none: "filter (\<lambda>c. c = i) xs = [] \<longleftrightarrow> i \<notin> set xs" for xs :: "string list"
    by (auto simp: filter_empty_conv)
  then have some: "i \<in> set xs \<Longrightarrow> length (filter (\<lambda>c. c = i) xs) > 0" for xs :: "string list"
    by simp
  have zero: "i \<notin> set xs \<Longrightarrow> length (filter (\<lambda>c. c = i) xs) = 0" for xs :: "string list"
    using none by simp
  show ?thesis
    by (cases "i \<in> set (dp_unknown r)"; cases "i \<in> set (dp_operationMismatch r)")
      (simp_all add: validateDispatchReport_def zero)
qed

section \<open>The ledger of destructive receipts\<close>

definition MAX_RETAINED_DESTRUCTIVE_EFFECT_RECEIPTS :: nat where
  "MAX_RETAINED_DESTRUCTIVE_EFFECT_RECEIPTS = 4096"

text \<open>A receipt's promise: the result of a record of this coordinator, or of an earlier one in the
  process.\<close>

datatype receipt_result = OfRecord nat | OfEarlier "effect_result option"

record receipt_ledger =
  lg_receipts :: "(string, string \<times> receipt_result) js_map"
  lg_exhausted :: bool

definition createCoreEffectProcessReceiptLedger :: receipt_ledger where
  "createCoreEffectProcessReceiptLedger = \<lparr>lg_receipts = [], lg_exhausted = False\<rparr>"

definition findDestructive :: "receipt_ledger \<Rightarrow> string \<Rightarrow> (string \<times> receipt_result) option" where
  "findDestructive g i = jm_get (lg_receipts g) i"

definition reserveDestructive ::
  "string \<Rightarrow> string \<times> receipt_result \<Rightarrow> receipt_ledger \<Rightarrow> receipt_ledger \<times> bool" where
  "reserveDestructive i r g =
     (if lg_exhausted g \<or> length (lg_receipts g) \<ge> MAX_RETAINED_DESTRUCTIVE_EFFECT_RECEIPTS
        then (g\<lparr>lg_exhausted := True\<rparr>, False)
      else if jm_has (lg_receipts g) i then (g, False)
      else (g\<lparr>lg_receipts := jm_set i r (lg_receipts g)\<rparr>, True))"

lemma reserveDestructive_cases:
  assumes "reserveDestructive i r g = (g', ok)"
  shows "if ok then findDestructive g i = None \<and> findDestructive g' = (findDestructive g)(i \<mapsto> r)
         else findDestructive g' = findDestructive g"
  using assms
  by (cases "jm_get (lg_receipts g) i")
    (auto simp: reserveDestructive_def findDestructive_def jm_has_def fun_eq_iff split: if_splits)

end
