(* ===== verification/Effect_Coordinator.thy ===== *)
theory Effect_Coordinator
  imports Effect_Contract
begin

text \<open>
  The coordinator of Core effects (class \<open>CoreEffectCoordinator\<close> of
  \<open>src/src/electron/main/coreEffectCoordinator.ts\<close>).  Its asynchronous methods are cut where they
  await: a step begins a task of the lanes, delivers what \<open>execute\<close>, a continuation or Core
  answered, or ends the drain.  A record is its number in the store, which is also the number of
  its lane task; the promise of its result is \<open>er_result\<close>.

  The environment fixes what the code is given: the optional mutation scopes, the JSON encoding that
  serves as fingerprint, and whether a continuation's \<open>cancel\<close> or an unsubscribe throws.  The window
  projection fence and the journal of observations are other components; here an observation
  changes nothing.
\<close>

section \<open>State\<close>

datatype record_stage = Queued | Executing | AwaitingEvent | Acknowledging | Finished

record effect_record =
  rc_effect :: core_effect
  rc_fingerprint :: string
  rc_abortOnDrain :: bool
  rc_aborted :: "cancel_reason option"
  rc_cancellationReason :: "cancel_reason option"
  rc_cancellationFailure :: "js_error option"
  rc_continuation :: bool
  rc_inLane :: bool  \<comment> \<open>settled by \<open>#executeFirst\<close> itself: the acknowledgement holds the lane\<close>
  rc_settled :: bool
  rc_result :: "effect_result option"
  rc_projectionFailure :: "string option"
  rc_stage :: record_stage

datatype terminal_source = Immediate effect_result | Replay receipt_result
datatype terminal_phase = TerminalWaiting | TerminalSent | TerminalDone

record terminal_task =
  tt_effect :: core_effect
  tt_source :: terminal_source
  tt_phase :: terminal_phase

datatype coordinator_phase = CoIdle | CoOpen | CoDraining | CoDisposed

record coordinator =
  co_phase :: coordinator_phase
  co_store :: "effect_record list"
  co_records :: "(string, nat) js_map"
  co_order :: "string list"
  co_ledger :: receipt_ledger
  co_lanes :: lanes
  co_terminals :: "terminal_task list"
  co_projectionSequence :: nat
  co_coreRevision :: int
  co_subscribed :: bool
  co_streamSubscribed :: bool
  co_drainFailure :: "js_error option"
  co_streamFailureRouted :: bool
  co_executed :: "nat list"  \<comment> \<open>records handed to \<open>execute\<close>, in order\<close>
  co_cancelled :: "(nat \<times> cancel_reason) list"  \<comment> \<open>calls of a continuation's \<open>cancel\<close>\<close>
  co_acks :: "(core_effect \<times> effect_result) list"  \<comment> \<open>results dispatched to Core\<close>
  co_reported :: "string list"  \<comment> \<open>codes given to \<open>onError\<close>\<close>

record environment =
  env_mutationScopes :: "(core_effect \<Rightarrow> string list) option"
  env_encode :: "core_effect \<Rightarrow> string option"
  env_cancel :: "nat \<Rightarrow> cancel_reason \<Rightarrow> unit outcome"
  env_unsubscribe :: "unit outcome"
  env_streamUnsubscribe :: "unit outcome"

definition MAX_RETAINED_EFFECT_RECEIPTS :: nat where "MAX_RETAINED_EFFECT_RECEIPTS = 4096"

definition new_coordinator :: "receipt_ledger \<Rightarrow> coordinator" where
  "new_coordinator g = \<lparr>co_phase = CoIdle, co_store = [], co_records = [], co_order = [],
     co_ledger = g, co_lanes = no_lanes, co_terminals = [], co_projectionSequence = 0,
     co_coreRevision = -1, co_subscribed = False, co_streamSubscribed = False,
     co_drainFailure = None, co_streamFailureRouted = False, co_executed = [], co_cancelled = [],
     co_acks = [], co_reported = []\<rparr>"

abbreviation record_at :: "coordinator \<Rightarrow> nat \<Rightarrow> effect_record" where
  "record_at s n \<equiv> co_store s ! n"

definition update_record :: "nat \<Rightarrow> (effect_record \<Rightarrow> effect_record) \<Rightarrow> coordinator \<Rightarrow> coordinator" where
  "update_record n f s = s\<lparr>co_store := (co_store s)[n := f (record_at s n)]\<rparr>"

definition report :: "string \<Rightarrow> coordinator \<Rightarrow> coordinator" where
  "report c s = s\<lparr>co_reported := co_reported s @ [c]\<rparr>"

definition effectRecord :: "core_effect \<Rightarrow> string \<Rightarrow> bool \<Rightarrow> effect_record" where
  "effectRecord e fingerprint abortOnDrain =
     \<lparr>rc_effect = e, rc_fingerprint = fingerprint, rc_abortOnDrain = abortOnDrain, rc_aborted = None,
      rc_cancellationReason = None, rc_cancellationFailure = None, rc_continuation = False,
      rc_inLane = False, rc_settled = False, rc_result = None, rc_projectionFailure = None,
      rc_stage = Queued\<rparr>"

section \<open>Admission\<close>

definition track_terminal :: "core_effect \<Rightarrow> terminal_source \<Rightarrow> coordinator \<Rightarrow> coordinator" where
  "track_terminal e src s = s\<lparr>co_terminals := co_terminals s @
     [\<lparr>tt_effect = e, tt_source = src, tt_phase = TerminalWaiting\<rparr>]\<rparr>"

definition advance_projection :: "coordinator \<Rightarrow> coordinator" where
  "advance_projection s = s\<lparr>co_projectionSequence := co_projectionSequence s + 1\<rparr>"

text \<open>The receipt of an earlier admission of the same effect identity.\<close>

definition existing_receipt :: "coordinator \<Rightarrow> string \<Rightarrow> (string \<times> receipt_result) option" where
  "existing_receipt s i =
     (case findDestructive (co_ledger s) i of
        Some r \<Rightarrow> Some r
      | None \<Rightarrow> (case jm_get (co_records s) i of
                   None \<Rightarrow> None
                 | Some n \<Rightarrow> Some (rc_fingerprint (record_at s n), OfRecord n)))"

definition admit :: "environment \<Rightarrow> core_effect \<Rightarrow> string \<Rightarrow> coordinator \<Rightarrow> coordinator" where
  "admit E e fingerprint s =
     (let n = length (co_store s);
          s1 = s\<lparr>co_store := co_store s @ [effectRecord e fingerprint (isDestructiveEffect e)],
                 co_records := jm_set (effectId e) n (co_records s),
                 co_order := co_order s @ [effectId e]\<rparr>;
          s2 = (if mutatesRuntimeProjection e then advance_projection s1 else s1)
      in s2\<lparr>co_lanes := enqueue_task (task_keys (env_mutationScopes E) e) (co_lanes s2)\<rparr>)"

definition enqueue :: "environment \<Rightarrow> core_effect \<Rightarrow> coordinator \<Rightarrow> coordinator" where
  "enqueue E e s =
     (case env_encode E e of
        None \<Rightarrow> track_terminal e
                 (Immediate (effectFailure e (BridgeError ''ELECTRON_CORE_EFFECT_INVALID''))) s
      | Some fingerprint \<Rightarrow>
          (case existing_receipt s (effectId e) of
             Some (known, source) \<Rightarrow>
               if known \<noteq> fingerprint
               then track_terminal e
                      (Immediate (effectFailure e (BridgeError ''ELECTRON_CORE_EFFECT_ID_REUSED''))) s
               else track_terminal e (Replay source) s
           | None \<Rightarrow>
               if isDestructiveEffect e
               then (let (g, ok) = reserveDestructive (effectId e)
                                     (fingerprint, OfRecord (length (co_store s))) (co_ledger s);
                         s1 = s\<lparr>co_ledger := g\<rparr>
                     in if \<not> ok
                        then track_terminal e (Immediate (effectFailure e
                               (BridgeError ''ELECTRON_DESTRUCTIVE_EFFECT_REPLAY_CAPACITY''))) s1
                        else admit E e fingerprint s1)
               else admit E e fingerprint s))"

section \<open>Cancellation\<close>

definition cancelContinuation :: "environment \<Rightarrow> nat \<Rightarrow> cancel_reason \<Rightarrow> coordinator \<Rightarrow> coordinator" where
  "cancelContinuation E n reason s =
     (let s1 = s\<lparr>co_cancelled := co_cancelled s @ [(n, reason)]\<rparr>
      in (case env_cancel E n reason of
            Inr _ \<Rightarrow> s1
          | Inl err \<Rightarrow>
              (let s2 = update_record n (\<lambda>r. r\<lparr>rc_cancellationFailure := Some err\<rparr>) s1;
                   s3 = (if co_phase s2 = CoDraining \<and> co_drainFailure s2 = None
                         then s2\<lparr>co_drainFailure := Some err\<rparr> else s2)
               in report (normalizeRionBridgeError ''ELECTRON_CORE_EFFECT_CANCELLATION_FAILED'' err) s3)))"

definition cancelRecord ::
  "environment \<Rightarrow> string \<Rightarrow> string option \<Rightarrow> cancel_reason \<Rightarrow> coordinator \<Rightarrow> coordinator" where
  "cancelRecord E i operation reason s =
     (case jm_get (co_records s) i of
        None \<Rightarrow> s
      | Some n \<Rightarrow>
          (let r = record_at s n
           in if rc_settled r then s
              else if (case operation of None \<Rightarrow> False
                       | Some o' \<Rightarrow> o' \<noteq> [] \<and> operationId (rc_effect r) \<noteq> o')
              then report ''ELECTRON_CORE_EFFECT_CANCELLATION_MISMATCH'' s
              else if rc_cancellationReason r \<noteq> None then s
              else
                let s1 = update_record n (\<lambda>r. r\<lparr>rc_cancellationReason := Some reason,
                           rc_aborted := (if rc_aborted r = None then Some reason else rc_aborted r)\<rparr>) s
                in if rc_continuation r then cancelContinuation E n reason s1 else s1))"

section \<open>Settlement\<close>

text \<open>\<open>#pruneEffectRecords\<close>: forget the oldest settled receipts beyond the retained number.\<close>

fun prune_order ::
  "effect_record list \<Rightarrow> string list \<Rightarrow> (string, nat) js_map \<Rightarrow> string list \<times> (string, nat) js_map" where
  "prune_order store [] records = ([], records)"
| "prune_order store (i # order) records =
     (if length records \<le> MAX_RETAINED_EFFECT_RECEIPTS \<or> i = [] then (i # order, records)
      else (case jm_get records i of
              Some n \<Rightarrow> if rc_settled (store ! n)
                        then prune_order store order (jm_delete i records)
                        else (i # order, records)
            | None \<Rightarrow> prune_order store order records))"

definition pruneEffectRecords :: "coordinator \<Rightarrow> coordinator" where
  "pruneEffectRecords s =
     (let (order, records) = prune_order (co_store s) (co_order s) (co_records s)
      in s\<lparr>co_order := order, co_records := records\<rparr>)"

text \<open>\<open>#settleRecord\<close> up to the dispatch of the result; \<open>in_lane\<close> tells who awaits it.\<close>

definition settleRecord :: "bool \<Rightarrow> nat \<Rightarrow> effect_result \<Rightarrow> coordinator \<Rightarrow> coordinator" where
  "settleRecord in_lane n result s =
     (if rc_settled (record_at s n) then s
      else
        let s1 = update_record n (\<lambda>r. r\<lparr>rc_settled := True, rc_continuation := False,
                   rc_result := Some result, rc_inLane := in_lane, rc_stage := Acknowledging\<rparr>) s;
            s2 = pruneEffectRecords s1
        in s2\<lparr>co_acks := co_acks s2 @ [(rc_effect (record_at s n), result)]\<rparr>)"

text \<open>The end of \<open>#settleRecord\<close>, once Core answered: the projection is settled and, where
  \<open>#executeFirst\<close> waited, its lane task ends.\<close>

definition acknowledged :: "nat \<Rightarrow> ack_answer \<Rightarrow> coordinator \<Rightarrow> coordinator" where
  "acknowledged n a s =
     (let r = record_at s n;
          failure = acknowledge (rc_effect r) a;
          s1 = (case failure of None \<Rightarrow> s | Some c \<Rightarrow> report c s);
          projection = (case rc_result r of
              Some res \<Rightarrow> if \<not> er_ok res
                          then Some (case er_error res of Some c \<Rightarrow> c
                                     | None \<Rightarrow> ''ELECTRON_CORE_EFFECT_FAILED'')
                          else failure
            | None \<Rightarrow> failure);
          s2 = update_record n (\<lambda>r. r\<lparr>rc_projectionFailure := projection, rc_stage := Finished\<rparr>) s1
      in if rc_inLane r then s2\<lparr>co_lanes := end_task n (co_lanes s2)\<rparr> else s2)"

definition cancelled_or :: "effect_record \<Rightarrow> js_error \<Rightarrow> js_error" where
  "cancelled_or r err =
     (case rc_cancellationReason r of Some c \<Rightarrow> cancellationError c | None \<Rightarrow> err)"

text \<open>\<open>#executeFirst\<close> up to \<open>execute\<close>.\<close>

definition begin_record :: "nat \<Rightarrow> coordinator \<Rightarrow> coordinator" where
  "begin_record n s =
     (let r = record_at s n; e = rc_effect r;
          s1 = s\<lparr>co_lanes := start_task n (co_lanes s)\<rparr>
      in (case rc_cancellationReason r of
            Some c \<Rightarrow> settleRecord True n (effectFailure e (cancellationError c)) s1
          | None \<Rightarrow>
              (case validateEffect e of
                 Inl err \<Rightarrow> settleRecord True n (effectFailure e (cancelled_or r err)) s1
               | Inr _ \<Rightarrow>
                   (update_record n (\<lambda>r. r\<lparr>rc_stage := Executing\<rparr>) s1)
                     \<lparr>co_executed := co_executed s1 @ [n]\<rparr>)))"

datatype execution_answer = Threw js_error | Returned returned | Continuation

text \<open>\<open>#executeFirst\<close> once \<open>execute\<close> settled.\<close>

definition executed :: "environment \<Rightarrow> nat \<Rightarrow> execution_answer \<Rightarrow> coordinator \<Rightarrow> coordinator" where
  "executed E n answer s =
     (let r = record_at s n; e = rc_effect r
      in (case answer of
            Threw err \<Rightarrow> settleRecord True n (effectFailure e (cancelled_or r err)) s
          | Returned v \<Rightarrow>
              settleRecord True n (case rc_cancellationReason r of
                  Some c \<Rightarrow> effectFailure e (cancellationError c)
                | None \<Rightarrow> effectSuccess e v) s
          | Continuation \<Rightarrow>
              (let s1 = update_record n (\<lambda>r. r\<lparr>rc_continuation := True, rc_stage := AwaitingEvent\<rparr>) s;
                   s2 = (case rc_cancellationReason r of
                           Some c \<Rightarrow> cancelContinuation E n c s1
                         | None \<Rightarrow> if co_phase s \<noteq> CoOpen
                                   then cancelRecord E (effectId e) (Some (operationId e)) ActorStop s1
                                   else s1)
               in s2\<lparr>co_lanes := end_task n (co_lanes s2)\<rparr>)))"

text \<open>\<open>#settleContinuation\<close>: the continuation's completion, or the failure of its cancellation.\<close>

definition continuation_result :: "effect_record \<Rightarrow> returned outcome \<Rightarrow> effect_result" where
  "continuation_result r answer =
     (let e = rc_effect r
      in (case answer of
            Inr v \<Rightarrow> if rc_cancellationReason r = Some EventStreamFailure
                     then effectFailure e (cancellationError EventStreamFailure)
                     else effectSuccess e v
          | Inl err \<Rightarrow>
              (let terminal = normalizeRionBridgeError ''ELECTRON_CORE_EFFECT_FAILED'' err
               in effectFailure e
                    (if rc_cancellationReason r = Some EventStreamFailure
                     then cancellationError EventStreamFailure
                     else (case rc_cancellationReason r of
                             Some c \<Rightarrow> if terminal = ''ELECTRON_CORE_EFFECT_FAILED''
                                       then cancellationError c else BridgeError terminal
                           | None \<Rightarrow> BridgeError terminal)))))"

definition continuation_settled :: "nat \<Rightarrow> returned outcome \<Rightarrow> coordinator \<Rightarrow> coordinator" where
  "continuation_settled n answer s =
     settleRecord False n (continuation_result (record_at s n) answer) s"

section \<open>Events of Core\<close>

record cancellation =
  cn_effectId :: string
  cn_operationId :: string
  cn_reason :: cancel_reason  \<comment> \<open>\<open>ActorStop\<close>, \<open>DeadlineElapsed\<close> or \<open>CoreCancelled\<close>\<close>

datatype core_event =
    BrowserStatuses
  | StateChanged int
  | CoreEffects "core_effect list"
  | CoreEffectCancellations "cancellation list"
  | Shutdown
  | OtherCoreEvent

definition cancel_unsettled :: "environment \<Rightarrow> cancel_reason \<Rightarrow> string \<Rightarrow> coordinator \<Rightarrow> coordinator" where
  "cancel_unsettled E reason i s =
     (case jm_get (co_records s) i of
        None \<Rightarrow> s
      | Some n \<Rightarrow> if rc_settled (record_at s n) then s else cancelRecord E i None reason s)"

fun on_core_event :: "environment \<Rightarrow> core_event \<Rightarrow> coordinator \<Rightarrow> coordinator" where
  "on_core_event E BrowserStatuses s = advance_projection s"
| "on_core_event E (StateChanged revision) s =
     (if revision > co_coreRevision s
      then advance_projection (s\<lparr>co_coreRevision := revision\<rparr>) else s)"
| "on_core_event E (CoreEffects es) s = fold (enqueue E) es s"
| "on_core_event E (CoreEffectCancellations cs) s =
     fold (\<lambda>c. cancelRecord E (cn_effectId c) (Some (cn_operationId c)) (cn_reason c)) cs s"
| "on_core_event E Shutdown s =
     fold (cancel_unsettled E ActorStop) (map fst (co_records s)) s"
| "on_core_event E OtherCoreEvent s = s"

definition onCoreEvent :: "environment \<Rightarrow> core_event \<Rightarrow> coordinator \<Rightarrow> coordinator" where
  "onCoreEvent E ev s = (if co_phase s \<noteq> CoOpen then s else on_core_event E ev s)"

section \<open>Start and drain\<close>

text \<open>\<open>start\<close>: subscribe to the events, then to their failures; \<open>subscription\<close> tells which of the
  two throws.\<close>

datatype subscription = Subscribes | FirstThrows js_error | SecondThrows js_error

definition start :: "environment \<Rightarrow> subscription \<Rightarrow> coordinator \<Rightarrow> coordinator \<times> unit outcome" where
  "start E subscription s =
     (case co_phase s of
        CoDisposed \<Rightarrow> (s, Inl PlainError)
      | CoDraining \<Rightarrow> (s, Inl PlainError)
      | CoOpen \<Rightarrow> (s, Inr ())
      | CoIdle \<Rightarrow>
          (case subscription of
             Subscribes \<Rightarrow>
               (s\<lparr>co_phase := CoOpen, co_subscribed := True, co_streamSubscribed := True\<rparr>, Inr ())
           | FirstThrows err \<Rightarrow> (s, Inl err)
           | SecondThrows err \<Rightarrow>
               (case env_unsubscribe E of
                  Inr _ \<Rightarrow> (s, Inl err)
                | Inl cleanup \<Rightarrow>
                    (report (normalizeRionBridgeError
                       ''ELECTRON_CORE_EFFECT_STARTUP_UNSUBSCRIBE_FAILED'' cleanup) s, Inl err))))"

text \<open>The first failure of the cancellations and unsubscribes of \<open>#beginDrain\<close>.\<close>

definition first_error :: "js_error option \<Rightarrow> js_error option \<Rightarrow> js_error option" where
  "first_error a b = (case a of Some _ \<Rightarrow> a | None \<Rightarrow> b)"

definition thrown :: "'a outcome \<Rightarrow> js_error option" where
  "thrown r = (case r of Inl e \<Rightarrow> Some e | Inr _ \<Rightarrow> None)"

definition drain_record ::
  "environment \<Rightarrow> cancel_reason \<Rightarrow> bool \<Rightarrow> string \<Rightarrow> coordinator \<times> js_error option
     \<Rightarrow> coordinator \<times> js_error option" where
  "drain_record E reason every i acc =
     (let (s, failure) = acc
      in case jm_get (co_records s) i of
           None \<Rightarrow> acc
         | Some n \<Rightarrow>
             (let r = record_at s n;
                  failure' = first_error failure (rc_cancellationFailure r)
              in if \<not> rc_settled r \<and> (every \<or> rc_continuation r \<or> rc_abortOnDrain r)
                 then (cancelRecord E i None reason s, failure') else (s, failure')))"

definition beginDrain ::
  "environment \<Rightarrow> cancel_reason \<Rightarrow> bool \<Rightarrow> coordinator \<Rightarrow> coordinator" where
  "beginDrain E reason every s =
     (if co_phase s \<in> {CoDraining, CoDisposed} then s
      else
        let s1 = s\<lparr>co_phase := CoDraining, co_subscribed := False\<rparr>;
            f1 = (if co_subscribed s then thrown (env_unsubscribe E) else None);
            stream = (reason = EventStreamFailure \<and> co_streamSubscribed s);
            f2 = (if stream then first_error f1 (thrown (env_streamUnsubscribe E)) else f1);
            s2 = (if stream then s1\<lparr>co_streamSubscribed := False\<rparr> else s1);
            (s3, f3) = fold (drain_record E reason every) (map fst (co_records s2)) (s2, f2)
        in s3\<lparr>co_drainFailure := first_error (co_drainFailure s3) f3\<rparr>)"

definition dispose :: "environment \<Rightarrow> coordinator \<Rightarrow> coordinator" where
  "dispose E s = beginDrain E ActorStop False s"

definition onCoreEventStreamFailure :: "environment \<Rightarrow> coordinator \<Rightarrow> coordinator" where
  "onCoreEventStreamFailure E s =
     (if co_streamFailureRouted s \<or> co_phase s = CoIdle then s
      else
        let s1 = s\<lparr>co_streamFailureRouted := True\<rparr>
        in if co_phase s = CoOpen then beginDrain E EventStreamFailure True s1
           else s1\<lparr>co_streamSubscribed := False\<rparr>)"

text \<open>\<open>#drainTasks\<close> is over when the tasks the lanes name ended and no terminal task is left.\<close>

definition drained :: "coordinator \<Rightarrow> bool" where
  "drained s \<longleftrightarrow>
     list_all (\<lambda>(k, i). phase_at (co_lanes s) i = Ended) (lanes_current (co_lanes s)) \<and>
     list_all (\<lambda>t. tt_phase t = TerminalDone) (co_terminals s) \<and>
     list_all (\<lambda>r. rc_inLane r \<or> rc_stage r \<in> {Queued, Executing, Finished}) (co_store s)"

definition finish_drain :: "coordinator \<Rightarrow> coordinator" where
  "finish_drain s =
     s\<lparr>co_phase := CoDisposed, co_records := [], co_order := [], co_terminals := [],
       co_lanes := (co_lanes s)\<lparr>lanes_current := []\<rparr>\<rparr>"

section \<open>Terminal tasks\<close>

definition source_result :: "coordinator \<Rightarrow> terminal_source \<Rightarrow> effect_result option" where
  "source_result s src =
     (case src of
        Immediate r \<Rightarrow> Some r
      | Replay (OfRecord n) \<Rightarrow> rc_result (record_at s n)
      | Replay (OfEarlier r) \<Rightarrow> r)"

definition set_terminal :: "nat \<Rightarrow> terminal_phase \<Rightarrow> coordinator \<Rightarrow> coordinator" where
  "set_terminal m p s = s\<lparr>co_terminals := (co_terminals s)[m := (co_terminals s ! m)\<lparr>tt_phase := p\<rparr>]\<rparr>"

definition send_terminal :: "nat \<Rightarrow> effect_result \<Rightarrow> coordinator \<Rightarrow> coordinator" where
  "send_terminal m result s =
     (set_terminal m TerminalSent s)
       \<lparr>co_acks := co_acks s @ [(tt_effect (co_terminals s ! m), result)]\<rparr>"

definition terminal_acknowledged :: "nat \<Rightarrow> ack_answer \<Rightarrow> coordinator \<Rightarrow> coordinator" where
  "terminal_acknowledged m a s =
     (let s1 = set_terminal m TerminalDone s
      in case acknowledge (tt_effect (co_terminals s ! m)) a of None \<Rightarrow> s1 | Some c \<Rightarrow> report c s1)"

section \<open>Steps\<close>

text \<open>What can happen next.  A record begins when its lane task can start; \<open>execute\<close>, a
  continuation and Core answer once.\<close>

inductive co_step :: "environment \<Rightarrow> coordinator \<Rightarrow> coordinator \<Rightarrow> bool" for E where
  starts: "co_step E s (fst (start E subscription s))"
| event: "co_step E s (onCoreEvent E ev s)"
| stream_failure: "co_step E s (onCoreEventStreamFailure E s)"
| disposes: "co_step E s (dispose E s)"
| begins: "n < length (co_store s) \<Longrightarrow> rc_stage (record_at s n) = Queued \<Longrightarrow>
     startable n (co_lanes s) \<Longrightarrow> co_step E s (begin_record n s)"
| executes: "n < length (co_store s) \<Longrightarrow> rc_stage (record_at s n) = Executing \<Longrightarrow>
     co_step E s (executed E n answer s)"
| continues: "n < length (co_store s) \<Longrightarrow> rc_stage (record_at s n) = AwaitingEvent \<Longrightarrow>
     co_step E s (continuation_settled n completion s)"
| cancel_fails: "n < length (co_store s) \<Longrightarrow> rc_stage (record_at s n) = AwaitingEvent \<Longrightarrow>
     rc_cancellationFailure (record_at s n) = Some err \<Longrightarrow>
     co_step E s (continuation_settled n (Inl err) s)"
| acknowledges: "n < length (co_store s) \<Longrightarrow> rc_stage (record_at s n) = Acknowledging \<Longrightarrow>
     co_step E s (acknowledged n a s)"
| releases: "co_step E s (s\<lparr>co_lanes := release_task n (co_lanes s)\<rparr>)"
| terminal_sends: "m < length (co_terminals s) \<Longrightarrow>
     tt_phase (co_terminals s ! m) = TerminalWaiting \<Longrightarrow>
     source_result s (tt_source (co_terminals s ! m)) = Some result \<Longrightarrow>
     co_step E s (send_terminal m result s)"
| terminal_ends: "m < length (co_terminals s) \<Longrightarrow> tt_phase (co_terminals s ! m) = TerminalSent \<Longrightarrow>
     co_step E s (terminal_acknowledged m a s)"
| drain_ends: "co_phase s = CoDraining \<Longrightarrow> drained s \<Longrightarrow> co_step E s (finish_drain s)"

inductive_cases co_stepE: "co_step E s s'"

inductive co_reach :: "environment \<Rightarrow> coordinator \<Rightarrow> coordinator \<Rightarrow> bool" for E where
  co_start: "co_reach E s s"
| co_more: "co_reach E s s1 \<Longrightarrow> co_step E s1 s2 \<Longrightarrow> co_reach E s s2"

end
