(* ===== verification/Effect_Receipts.thy ===== *)
theory Effect_Receipts
  imports Effect_Coordinator
begin

text \<open>
  What the effect coordinator guarantees: its invariant, kept by every step, and the properties of
  execution, replay and cancellation that follow from it.
\<close>

section \<open>The invariant\<close>

definition record_ok :: "effect_record \<Rightarrow> bool" where
  "record_ok r \<longleftrightarrow>
     (rc_settled r \<longleftrightarrow> rc_stage r \<in> {Acknowledging, Finished}) \<and>
     (rc_settled r \<longleftrightarrow> rc_result r \<noteq> None) \<and>
     (rc_continuation r \<longrightarrow> rc_stage r = AwaitingEvent)"

definition store_ok :: "environment \<Rightarrow> effect_record list \<Rightarrow> bool" where
  "store_ok E store \<longleftrightarrow>
     (\<forall>r \<in> set store. record_ok r \<and> env_encode E (rc_effect r) = Some (rc_fingerprint r))"

definition tasks_ok :: "effect_record list \<Rightarrow> lanes \<Rightarrow> bool" where
  "tasks_ok store l \<longleftrightarrow> lanes_inv l \<and> task_count l = length store"

definition executed_ok :: "effect_record list \<Rightarrow> nat list \<Rightarrow> bool" where
  "executed_ok store ex \<longleftrightarrow>
     distinct ex \<and> (\<forall>n \<in> set ex. n < length store \<and> rc_stage (store ! n) \<noteq> Queued)"

text \<open>The ledger names every destructive record, knows no other record of this coordinator, and
  keeps what it held at the start (\<open>g0\<close>).\<close>

definition ledger_ok :: "receipt_ledger \<Rightarrow> effect_record list \<Rightarrow> receipt_ledger \<Rightarrow> bool" where
  "ledger_ok g0 store g \<longleftrightarrow>
     (\<forall>n < length store. isDestructiveEffect (rc_effect (store ! n)) \<longrightarrow>
        findDestructive g (effectId (rc_effect (store ! n)))
          = Some (rc_fingerprint (store ! n), OfRecord n)) \<and>
     (\<forall>i f n. findDestructive g i = Some (f, OfRecord n) \<longrightarrow>
        n < length store \<and> f = rc_fingerprint (store ! n)) \<and>
     (\<forall>i f r. findDestructive g i = Some (f, OfEarlier r) \<longrightarrow>
        findDestructive g0 i = Some (f, OfEarlier r)) \<and>
     (\<forall>i x. findDestructive g0 i = Some x \<longrightarrow> findDestructive g i = Some x)"

lemma ledger_okD:
  assumes "ledger_ok g0 store g"
  shows "n < length store \<Longrightarrow> isDestructiveEffect (rc_effect (store ! n)) \<Longrightarrow>
      findDestructive g (effectId (rc_effect (store ! n))) = Some (rc_fingerprint (store ! n), OfRecord n)"
    and "findDestructive g i = Some (f, OfRecord n) \<Longrightarrow> n < length store \<and> f = rc_fingerprint (store ! n)"
    and "findDestructive g i = Some (f, OfEarlier r) \<Longrightarrow> findDestructive g0 i = Some (f, OfEarlier r)"
    and "findDestructive g0 i = Some x \<Longrightarrow> findDestructive g i = Some x"
  using assms unfolding ledger_ok_def by blast+

lemma ledger_okI:
  assumes "\<And>n. n < length store \<Longrightarrow> isDestructiveEffect (rc_effect (store ! n)) \<Longrightarrow>
      findDestructive g (effectId (rc_effect (store ! n))) = Some (rc_fingerprint (store ! n), OfRecord n)"
    and "\<And>i f n. findDestructive g i = Some (f, OfRecord n) \<Longrightarrow> n < length store \<and> f = rc_fingerprint (store ! n)"
    and "\<And>i f r. findDestructive g i = Some (f, OfEarlier r) \<Longrightarrow> findDestructive g0 i = Some (f, OfEarlier r)"
    and "\<And>i x. findDestructive g0 i = Some x \<Longrightarrow> findDestructive g i = Some x"
  shows "ledger_ok g0 store g"
  using assms unfolding ledger_ok_def by blast

definition records_ok :: "effect_record list \<Rightarrow> (string, nat) js_map \<Rightarrow> bool" where
  "records_ok store m \<longleftrightarrow>
     (\<forall>i n. jm_get m i = Some n \<longrightarrow> n < length store \<and> effectId (rc_effect (store ! n)) = i)"

definition in_flight_ok :: "coordinator_phase \<Rightarrow> effect_record list \<Rightarrow> (string, nat) js_map \<Rightarrow> bool" where
  "in_flight_ok ph store m \<longleftrightarrow>
     ph = CoDisposed \<or>
     (\<forall>n < length store. \<not> rc_settled (store ! n) \<longrightarrow>
        jm_get m (effectId (rc_effect (store ! n))) = Some n)"

text \<open>Where a result dispatched for \<open>e\<close> may come from: a failure of the admission itself, a record
  of the same encoding, or a destructive receipt of an earlier coordinator.\<close>

definition admission_errors :: "js_error set" where
  "admission_errors =
     {BridgeError ''ELECTRON_CORE_EFFECT_INVALID'', BridgeError ''ELECTRON_CORE_EFFECT_ID_REUSED'',
      BridgeError ''ELECTRON_DESTRUCTIVE_EFFECT_REPLAY_CAPACITY''}"

definition source_ok ::
  "environment \<Rightarrow> receipt_ledger \<Rightarrow> effect_record list \<Rightarrow> core_effect \<Rightarrow> terminal_source \<Rightarrow> bool" where
  "source_ok E g0 store e src \<longleftrightarrow>
     (case src of
        Immediate res \<Rightarrow> \<exists>err \<in> admission_errors. res = effectFailure e err
      | Replay (OfRecord n) \<Rightarrow> n < length store \<and> env_encode E e = Some (rc_fingerprint (store ! n))
      | Replay (OfEarlier r) \<Rightarrow>
          \<exists>f. env_encode E e = Some f \<and> findDestructive g0 (effectId e) = Some (f, OfEarlier r))"

definition ack_ok ::
  "environment \<Rightarrow> receipt_ledger \<Rightarrow> effect_record list \<Rightarrow> core_effect \<times> effect_result \<Rightarrow> bool" where
  "ack_ok E g0 store a \<longleftrightarrow>
     (\<exists>err \<in> admission_errors. snd a = effectFailure (fst a) err) \<or>
     (\<exists>n < length store. rc_result (store ! n) = Some (snd a) \<and>
        env_encode E (fst a) = Some (rc_fingerprint (store ! n))) \<or>
     (\<exists>f. env_encode E (fst a) = Some f \<and>
        findDestructive g0 (effectId (fst a)) = Some (f, OfEarlier (Some (snd a))))"

definition co_inv :: "environment \<Rightarrow> receipt_ledger \<Rightarrow> coordinator \<Rightarrow> bool" where
  "co_inv E g0 s \<longleftrightarrow>
     store_ok E (co_store s) \<and> tasks_ok (co_store s) (co_lanes s) \<and>
     executed_ok (co_store s) (co_executed s) \<and> ledger_ok g0 (co_store s) (co_ledger s) \<and>
     records_ok (co_store s) (co_records s) \<and>
     in_flight_ok (co_phase s) (co_store s) (co_records s) \<and>
     (\<forall>t \<in> set (co_terminals s). source_ok E g0 (co_store s) (tt_effect t) (tt_source t)) \<and>
     (\<forall>a \<in> set (co_acks s). ack_ok E g0 (co_store s) a)"

text \<open>How a record may change.\<close>

definition record_step :: "effect_record \<Rightarrow> effect_record \<Rightarrow> bool" where
  "record_step r r' \<longleftrightarrow>
     rc_effect r' = rc_effect r \<and> rc_fingerprint r' = rc_fingerprint r \<and>
     (rc_result r \<noteq> None \<longrightarrow> rc_result r' = rc_result r) \<and>
     (rc_settled r \<longrightarrow> rc_settled r') \<and> (rc_stage r \<noteq> Queued \<longrightarrow> rc_stage r' \<noteq> Queued) \<and>
     (record_ok r \<longrightarrow> record_ok r')"

lemma nth_update_at: "m < length xs \<Longrightarrow> xs[n := x] ! m = (if n = m then x else xs ! m)"
  by (cases "n < length xs") auto

lemma ack_ok_update:
  assumes "ack_ok E g0 store a" and "record_step (store ! n) r'"
  shows "ack_ok E g0 (store[n := r']) a"
proof -
  have same: "rc_result (store ! m) = Some x \<Longrightarrow> rc_result (store[n := r'] ! m) = Some x"
    "rc_fingerprint (store[n := r'] ! m) = rc_fingerprint (store ! m)" if "m < length store" for m x
    using assms(2) that by (auto simp: record_step_def nth_update_at)
  show ?thesis using assms(1) same by (auto simp: ack_ok_def)
qed

lemma source_ok_update:
  assumes "source_ok E g0 store e src" and "record_step (store ! n) r'"
  shows "source_ok E g0 (store[n := r']) e src"
  using assms
  by (auto simp: source_ok_def record_step_def nth_update_at
      split: terminal_source.splits receipt_result.splits)

lemma co_inv_update:
  assumes inv: "co_inv E g0 s" and step: "record_step (record_at s n) (f (record_at s n))"
  shows "co_inv E g0 (update_record n f s)"
proof (cases "n < length (co_store s)")
  case True
  let ?r = "record_at s n" and ?st = "(co_store s)[n := f (record_at s n)]"
  have rs: "rc_effect (f ?r) = rc_effect ?r" "rc_fingerprint (f ?r) = rc_fingerprint ?r"
    using step by (auto simp: record_step_def)
  have eff: "rc_effect (?st ! m) = rc_effect (record_at s m)"
    "rc_fingerprint (?st ! m) = rc_fingerprint (record_at s m)" if "m < length (co_store s)" for m
    using that rs by (cases "n = m"; simp add: nth_update_at)+
  have "store_ok E ?st"
    using inv step True rs
    by (auto simp: co_inv_def store_ok_def record_step_def dest!: set_update_subset_insert [THEN subsetD])
  moreover have "tasks_ok ?st (co_lanes s)" using inv by (simp add: co_inv_def tasks_ok_def)
  moreover have "executed_ok ?st (co_executed s)"
    using inv step by (auto simp: co_inv_def executed_ok_def record_step_def nth_update_at)
  moreover have "ledger_ok g0 ?st (co_ledger s)"
  proof (rule ledger_okI)
    have L: "ledger_ok g0 (co_store s) (co_ledger s)" using inv by (simp add: co_inv_def)
    note D = ledger_okD [OF L]
    show "findDestructive (co_ledger s) (effectId (rc_effect (?st ! m))) = Some (rc_fingerprint (?st ! m), OfRecord m)"
      if "m < length ?st" "isDestructiveEffect (rc_effect (?st ! m))" for m
      using that D(1) [of m] eff [of m] by simp
    show "m < length ?st \<and> x = rc_fingerprint (?st ! m)"
      if "findDestructive (co_ledger s) i = Some (x, OfRecord m)" for i x m
      using D(2) [OF that] eff [of m] by simp
    show "findDestructive g0 i = Some (x, OfEarlier r)"
      if "findDestructive (co_ledger s) i = Some (x, OfEarlier r)" for i x r
      using D(3) [OF that] .
    show "findDestructive (co_ledger s) i = Some x" if "findDestructive g0 i = Some x" for i x
      using D(4) [OF that] .
  qed
  moreover have "records_ok ?st (co_records s)"
    using inv eff by (auto simp: co_inv_def records_ok_def)
  moreover have "in_flight_ok (co_phase s) ?st (co_records s)"
    using inv step rs by (auto simp: co_inv_def in_flight_ok_def record_step_def nth_update_at)
  moreover have "\<forall>t \<in> set (co_terminals s). source_ok E g0 ?st (tt_effect t) (tt_source t)"
    using inv source_ok_update [OF _ step] by (auto simp: co_inv_def)
  moreover have "\<forall>a \<in> set (co_acks s). ack_ok E g0 ?st a"
    using inv ack_ok_update [OF _ step] by (auto simp: co_inv_def)
  ultimately show ?thesis by (simp add: co_inv_def update_record_def)
next
  case False
  then show ?thesis using inv by (simp add: update_record_def list_update_beyond)
qed

text \<open>What the invariant does not look at.\<close>

lemma co_inv_frame [simp]:
  "co_inv E g0 (s\<lparr>co_reported := x\<rparr>) = co_inv E g0 s"
  "co_inv E g0 (s\<lparr>co_cancelled := x1\<rparr>) = co_inv E g0 s"
  "co_inv E g0 (s\<lparr>co_drainFailure := x2\<rparr>) = co_inv E g0 s"
  "co_inv E g0 (s\<lparr>co_projectionSequence := x3\<rparr>) = co_inv E g0 s"
  "co_inv E g0 (s\<lparr>co_coreRevision := x4\<rparr>) = co_inv E g0 s"
  "co_inv E g0 (s\<lparr>co_streamSubscribed := x5\<rparr>) = co_inv E g0 s"
  "co_inv E g0 (s\<lparr>co_streamFailureRouted := x6\<rparr>) = co_inv E g0 s"
  "co_inv E g0 (s\<lparr>co_subscribed := x7\<rparr>) = co_inv E g0 s"
  by (simp_all add: co_inv_def)

lemma co_inv_report [simp]: "co_inv E g0 (report c s) = co_inv E g0 s"
  by (simp add: report_def)

lemma co_inv_advance_projection [simp]: "co_inv E g0 (advance_projection s) = co_inv E g0 s"
  by (simp add: advance_projection_def)

lemma co_inv_lanes:
  assumes "co_inv E g0 s" and "lanes_inv (co_lanes s) \<Longrightarrow> lanes_inv l"
    and "task_count l = task_count (co_lanes s)"
  shows "co_inv E g0 (s\<lparr>co_lanes := l\<rparr>)"
  using assms by (simp add: co_inv_def tasks_ok_def)

lemma task_count_enqueue: "task_count (enqueue_task keys l) = Suc (task_count l)"
  by (simp add: enqueue_task_def Let_def)

lemma task_counts [simp]:
  "task_count (start_task i l) = task_count l"
  "task_count (end_task i l) = task_count l"
  "task_count (release_task i l) = task_count l"
  by (simp_all add: start_task_def end_task_def release_task_def set_phase_def)

lemma co_inv_phase:
  "co_inv E g0 s \<Longrightarrow> co_phase s \<noteq> CoDisposed \<Longrightarrow> co_inv E g0 (s\<lparr>co_phase := ph\<rparr>)"
  by (auto simp: co_inv_def in_flight_ok_def)

section \<open>Cancellation and settlement keep it\<close>

lemma co_inv_cancelContinuation:
  assumes "co_inv E g0 s"
  shows "co_inv E g0 (cancelContinuation E n reason s)"
proof (cases "env_cancel E n reason")
  case (Inl err)
  have "co_inv E g0 (update_record n (\<lambda>r. r\<lparr>rc_cancellationFailure := Some err\<rparr>)
      (s\<lparr>co_cancelled := co_cancelled s @ [(n, reason)]\<rparr>))"
    using assms by (intro co_inv_update) (auto simp: record_step_def record_ok_def)
  then show ?thesis using Inl by (simp add: cancelContinuation_def Let_def)
next
  case (Inr u)
  then show ?thesis using assms by (simp add: cancelContinuation_def)
qed

lemma co_inv_cancelRecord:
  assumes "co_inv E g0 s"
  shows "co_inv E g0 (cancelRecord E i operation reason s)"
proof -
  have "co_inv E g0 (update_record n (\<lambda>r. r\<lparr>rc_cancellationReason := Some reason,
      rc_aborted := (if rc_aborted r = None then Some reason else rc_aborted r)\<rparr>) s)" for n
    using assms by (intro co_inv_update) (auto simp: record_step_def record_ok_def)
  then show ?thesis
    using assms co_inv_cancelContinuation
    by (auto simp: cancelRecord_def Let_def split: option.splits)
qed

lemma prune_order_get:
  assumes "prune_order store order m = (order', m')"
  shows "jm_get m' i = Some n \<Longrightarrow> jm_get m i = Some n"
    and "jm_get m i = Some n \<Longrightarrow> \<not> rc_settled (store ! n) \<Longrightarrow> jm_get m' i = Some n"
proof -
  have "(jm_get m' i = Some n \<longrightarrow> jm_get m i = Some n) \<and>
    (jm_get m i = Some n \<longrightarrow> \<not> rc_settled (store ! n) \<longrightarrow> jm_get m' i = Some n)"
    using assms
    by (induction store order m rule: prune_order.induct) (auto split: if_splits option.splits)
  then show "jm_get m' i = Some n \<Longrightarrow> jm_get m i = Some n"
    and "jm_get m i = Some n \<Longrightarrow> \<not> rc_settled (store ! n) \<Longrightarrow> jm_get m' i = Some n" by blast+
qed

lemma co_inv_prune:
  assumes "co_inv E g0 s"
  shows "co_inv E g0 (pruneEffectRecords s)"
proof -
  obtain order m where p: "prune_order (co_store s) (co_order s) (co_records s) = (order, m)"
    by fastforce
  have "records_ok (co_store s) m"
    using assms prune_order_get(1) [OF p] by (auto simp: co_inv_def records_ok_def)
  moreover have "in_flight_ok (co_phase s) (co_store s) m"
    using assms prune_order_get(2) [OF p] by (auto simp: co_inv_def in_flight_ok_def)
  ultimately show ?thesis using assms p by (simp add: co_inv_def pruneEffectRecords_def)
qed

lemma pruneEffectRecords_frame [simp]:
  "co_store (pruneEffectRecords s) = co_store s" "co_acks (pruneEffectRecords s) = co_acks s"
  "co_executed (pruneEffectRecords s) = co_executed s" "co_lanes (pruneEffectRecords s) = co_lanes s"
  "co_phase (pruneEffectRecords s) = co_phase s"
  by (simp_all add: pruneEffectRecords_def split: prod.splits)

lemma update_record_frame [simp]:
  "length (co_store (update_record n f s)) = length (co_store s)"
  "co_acks (update_record n f s) = co_acks s" "co_executed (update_record n f s) = co_executed s"
  "co_records (update_record n f s) = co_records s" "co_lanes (update_record n f s) = co_lanes s"
  "co_phase (update_record n f s) = co_phase s"
  by (simp_all add: update_record_def)

lemma co_inv_ack:
  "co_inv E g0 s \<Longrightarrow> ack_ok E g0 (co_store s) a \<Longrightarrow> co_inv E g0 (s\<lparr>co_acks := co_acks s @ [a]\<rparr>)"
  by (auto simp: co_inv_def)

lemma co_inv_settle:
  assumes inv: "co_inv E g0 s" and n: "n < length (co_store s)"
    and stage: "rc_stage (record_at s n) \<notin> {Acknowledging, Finished}"
  shows "co_inv E g0 (settleRecord in_lane n result s)"
proof -
  let ?f = "\<lambda>r. r\<lparr>rc_settled := True, rc_continuation := False, rc_result := Some result,
      rc_inLane := in_lane, rc_stage := Acknowledging\<rparr>"
  have r: "record_ok (record_at s n)" "env_encode E (rc_effect (record_at s n)) = Some (rc_fingerprint (record_at s n))"
    using inv n by (auto simp: co_inv_def store_ok_def)
  have fresh: "\<not> rc_settled (record_at s n)" using r(1) stage by (simp add: record_ok_def)
  have "record_step (record_at s n) (?f (record_at s n))"
    using r(1) fresh by (auto simp: record_step_def record_ok_def)
  then have pr: "co_inv E g0 (pruneEffectRecords (update_record n ?f s))"
    by (intro co_inv_prune co_inv_update [OF inv])
  have "ack_ok E g0 (co_store (update_record n ?f s)) (rc_effect (record_at s n), result)"
    unfolding ack_ok_def
    by (rule disjI2, rule disjI1, rule exI [of _ n]) (use n r(2) in \<open>simp add: update_record_def\<close>)
  then show ?thesis
    using co_inv_ack [OF pr] fresh by (simp add: settleRecord_def Let_def)
qed

section \<open>Admission keeps it\<close>

lemma co_inv_track:
  "co_inv E g0 s \<Longrightarrow> source_ok E g0 (co_store s) e src \<Longrightarrow> co_inv E g0 (track_terminal e src s)"
  by (auto simp: co_inv_def track_terminal_def)

lemma source_ok_append:
  "source_ok E g0 store e src \<Longrightarrow> source_ok E g0 (store @ [r]) e src"
  by (auto simp: source_ok_def nth_append split: terminal_source.splits receipt_result.splits)

lemma ack_ok_append: "ack_ok E g0 store a \<Longrightarrow> ack_ok E g0 (store @ [r]) a"
  by (fastforce simp: ack_ok_def nth_append)

lemma existing_none:
  "existing_receipt s i = None \<Longrightarrow> findDestructive (co_ledger s) i = None \<and> jm_get (co_records s) i = None"
  by (auto simp: existing_receipt_def split: option.splits)

lemma co_inv_existing:
  assumes inv: "co_inv E g0 s" and ex: "existing_receipt s (effectId e) = Some (known, src)"
    and enc: "env_encode E e = Some known"
  shows "source_ok E g0 (co_store s) e (Replay src)"
proof (cases "findDestructive (co_ledger s) (effectId e)")
  case None
  then obtain n where n: "jm_get (co_records s) (effectId e) = Some n" "src = OfRecord n"
    "known = rc_fingerprint (record_at s n)"
    using ex by (auto simp: existing_receipt_def split: option.splits)
  then have "n < length (co_store s)" using inv by (auto simp: co_inv_def records_ok_def)
  then show ?thesis using n enc by (simp add: source_ok_def)
next
  case (Some r)
  then have r: "findDestructive (co_ledger s) (effectId e) = Some (known, src)"
    using ex by (simp add: existing_receipt_def)
  have g: "ledger_ok g0 (co_store s) (co_ledger s)" using inv by (simp add: co_inv_def)
  show ?thesis
  proof (cases src)
    case (OfRecord n)
    then show ?thesis using r ledger_okD(2) [OF g] enc by (auto simp: source_ok_def)
  next
    case (OfEarlier x)
    then have "findDestructive g0 (effectId e) = Some (known, OfEarlier x)"
      using r ledger_okD(3) [OF g] by blast
    then show ?thesis using OfEarlier enc by (simp add: source_ok_def)
  qed
qed

text \<open>A new record, under an identity neither the ledger nor the records know; a destructive one
  has just been entered in the ledger.\<close>

lemma admit_parts:
  "co_store (admit E e fp s) = co_store s @ [effectRecord e fp (isDestructiveEffect e)]"
  "co_records (admit E e fp s) = jm_set (effectId e) (length (co_store s)) (co_records s)"
  "co_lanes (admit E e fp s) = enqueue_task (task_keys (env_mutationScopes E) e) (co_lanes s)"
  "co_ledger (admit E e fp s) = co_ledger s" "co_executed (admit E e fp s) = co_executed s"
  "co_phase (admit E e fp s) = co_phase s" "co_terminals (admit E e fp s) = co_terminals s"
  "co_acks (admit E e fp s) = co_acks s"
  by (simp_all add: admit_def Let_def advance_projection_def)

lemma co_inv_admit:
  assumes inv: "co_inv E g0 s" and enc: "env_encode E e = Some fp"
    and free: "jm_get (co_records s) (effectId e) = None"
    and led: "ledger_ok g0 (co_store s @ [effectRecord e fp (isDestructiveEffect e)]) g"
  shows "co_inv E g0 (admit E e fp (s\<lparr>co_ledger := g\<rparr>))"
proof -
  let ?r = "effectRecord e fp (isDestructiveEffect e)" and ?n = "length (co_store s)"
  have new: "record_ok ?r" "rc_effect ?r = e" "rc_fingerprint ?r = fp" "\<not> rc_settled ?r"
    by (simp_all add: effectRecord_def record_ok_def)
  have "store_ok E (co_store s @ [?r])" using inv new enc by (auto simp: co_inv_def store_ok_def)
  moreover have "tasks_ok (co_store s @ [?r])
      (enqueue_task (task_keys (env_mutationScopes E) e) (co_lanes s))"
    using inv lanes_inv_enqueue by (simp add: co_inv_def tasks_ok_def task_count_enqueue)
  moreover have "executed_ok (co_store s @ [?r]) (co_executed s)"
    using inv by (auto simp: co_inv_def executed_ok_def nth_append)
  moreover have "records_ok (co_store s @ [?r]) (jm_set (effectId e) ?n (co_records s))"
    using inv new by (auto simp: co_inv_def records_ok_def nth_append intro: less_SucI)
  moreover have "in_flight_ok (co_phase s) (co_store s @ [?r]) (jm_set (effectId e) ?n (co_records s))"
  proof (cases "co_phase s = CoDisposed")
    case False
    have "jm_get (jm_set (effectId e) ?n (co_records s)) (effectId (rc_effect ((co_store s @ [?r]) ! m)))
        = Some m"
      if m: "m < Suc ?n" "\<not> rc_settled ((co_store s @ [?r]) ! m)" for m
    proof (cases "m = ?n")
      case True
      then show ?thesis using new by simp
    next
      case old: False
      then have "m < ?n" using m by simp
      then have "jm_get (co_records s) (effectId (rc_effect (record_at s m))) = Some m"
        using inv m False by (simp add: co_inv_def in_flight_ok_def nth_append)
      then show ?thesis using free \<open>m < ?n\<close> by (auto simp: nth_append)
    qed
    then show ?thesis by (simp add: in_flight_ok_def)
  qed (simp add: in_flight_ok_def)
  moreover have "\<forall>t \<in> set (co_terminals s). source_ok E g0 (co_store s @ [?r]) (tt_effect t) (tt_source t)"
    using inv source_ok_append by (auto simp: co_inv_def)
  moreover have "\<forall>a \<in> set (co_acks s). ack_ok E g0 (co_store s @ [?r]) a"
    using inv ack_ok_append by (auto simp: co_inv_def)
  ultimately show ?thesis using led by (simp add: co_inv_def admit_parts)
qed

lemma ledger_ok_plain:
  assumes "ledger_ok g0 store g" and "\<not> isDestructiveEffect (rc_effect r)"
  shows "ledger_ok g0 (store @ [r]) g"
proof -
  have at: "(store @ [r]) ! n = (if n < length store then store ! n else r)"
    if "n < length (store @ [r])" for n
    using that by (auto simp: nth_append less_Suc_eq)
  note D = ledger_okD [OF assms(1)]
  show ?thesis
  proof (rule ledger_okI)
    show "findDestructive g (effectId (rc_effect ((store @ [r]) ! n))) = Some (rc_fingerprint ((store @ [r]) ! n), OfRecord n)"
      if "n < length (store @ [r])" "isDestructiveEffect (rc_effect ((store @ [r]) ! n))" for n
      using that at [OF that(1)] D(1) [of n] assms(2) by (simp split: if_splits)
    show "n < length (store @ [r]) \<and> f = rc_fingerprint ((store @ [r]) ! n)"
      if "findDestructive g i = Some (f, OfRecord n)" for i f n
      using D(2) [OF that] at [of n] by simp
  qed (rule D(3,4), assumption)+
qed

lemma ledger_ok_reserved:
  assumes old: "ledger_ok g0 store g" and free: "findDestructive g i = None"
    and new: "findDestructive g' = (findDestructive g)(i \<mapsto> (rc_fingerprint r, OfRecord (length store)))"
    and i: "effectId (rc_effect r) = i"
  shows "ledger_ok g0 (store @ [r]) g'"
proof -
  have at: "(store @ [r]) ! n = store ! n" if "n < length store" for n using that by (simp add: nth_append)
  note P = ledger_okD [OF old]
  show ?thesis
  proof (rule ledger_okI)
    fix n assume n: "n < length (store @ [r])" "isDestructiveEffect (rc_effect ((store @ [r]) ! n))"
    show "findDestructive g' (effectId (rc_effect ((store @ [r]) ! n)))
        = Some (rc_fingerprint ((store @ [r]) ! n), OfRecord n)"
    proof (cases "n = length store")
      case True
      then show ?thesis using new i by simp
    next
      case False
      then have "n < length store" using n by simp
      then show ?thesis using P(1) [of n] n(2) at [of n] new free by auto
    qed
  next
    fix j f n assume a: "findDestructive g' j = Some (f, OfRecord n)"
    show "n < length (store @ [r]) \<and> f = rc_fingerprint ((store @ [r]) ! n)"
      using a P(2) [of j f n] at [of n] new by (cases "j = i") auto
  next
    fix j f x assume "findDestructive g' j = Some (f, OfEarlier x)"
    then show "findDestructive g0 j = Some (f, OfEarlier x)"
      using P(3) [of j f x] new by (auto split: if_splits)
  next
    fix j x assume "findDestructive g0 j = Some x"
    then show "findDestructive g' j = Some x" using P(4) [of j x] new free by auto
  qed
qed

lemma co_inv_enqueue:
  assumes inv: "co_inv E g0 s"
  shows "co_inv E g0 (enqueue E e s)"
proof (cases "env_encode E e")
  case None
  have "source_ok E g0 (co_store s) e
      (Immediate (effectFailure e (BridgeError ''ELECTRON_CORE_EFFECT_INVALID'')))"
    by (auto simp: source_ok_def admission_errors_def)
  then show ?thesis using None inv by (simp add: enqueue_def co_inv_track)
next
  case enc: (Some fp)
  have imm: "co_inv E g0 (track_terminal e (Immediate (effectFailure e err)) t)"
    if "co_inv E g0 t" "err \<in> admission_errors" for err t
    using that by (intro co_inv_track) (auto simp: source_ok_def)
  show ?thesis
  proof (cases "existing_receipt s (effectId e)")
    case (Some x)
    then show ?thesis
      using inv imm enc co_inv_existing [OF inv] co_inv_track [OF inv]
      by (cases x) (auto simp: enqueue_def admission_errors_def)
  next
    case None
    note free = existing_none [OF None]
    have led: "ledger_ok g0 (co_store s) (co_ledger s)" using inv by (simp add: co_inv_def)
    show ?thesis
    proof (cases "isDestructiveEffect e")
      case False
      have "co_inv E g0 (admit E e fp (s\<lparr>co_ledger := co_ledger s\<rparr>))"
        by (rule co_inv_admit [OF inv enc]) (use free False led in \<open>auto intro!: ledger_ok_plain simp: effectRecord_def\<close>)
      then show ?thesis using enc None False by (simp add: enqueue_def)
    next
      case True
      obtain g ok where g: "reserveDestructive (effectId e) (fp, OfRecord (length (co_store s)))
          (co_ledger s) = (g, ok)" by fastforce
      note R = reserveDestructive_cases [OF g]
      show ?thesis
      proof (cases ok)
        case yes: True
        have "ledger_ok g0 (co_store s @ [effectRecord e fp True]) g"
          using R yes by (intro ledger_ok_reserved [OF led, of "effectId e"]) (auto simp: effectRecord_def)
        then have "co_inv E g0 (admit E e fp (s\<lparr>co_ledger := g\<rparr>))"
          using co_inv_admit [OF inv enc] free True by simp
        then show ?thesis using enc None True g yes by (simp add: enqueue_def)
      next
        case no: False
        then have same: "findDestructive g = findDestructive (co_ledger s)" using R by simp
        have "ledger_ok g0 (co_store s) g" using led unfolding ledger_ok_def same .
        then have "co_inv E g0 (s\<lparr>co_ledger := g\<rparr>)" using inv by (simp add: co_inv_def)
        then show ?thesis using enc None True g no imm by (simp add: enqueue_def admission_errors_def)
      qed
    qed
  qed
qed

section \<open>Every step keeps it\<close>

lemma co_inv_fold: "(\<And>x t. co_inv E g0 t \<Longrightarrow> co_inv E g0 (f x t)) \<Longrightarrow> co_inv E g0 s \<Longrightarrow> co_inv E g0 (fold f xs s)"
  by (induction xs arbitrary: s) auto

lemma co_inv_cancel_unsettled: "co_inv E g0 s \<Longrightarrow> co_inv E g0 (cancel_unsettled E reason i s)"
  by (auto simp: cancel_unsettled_def co_inv_cancelRecord split: option.splits)

lemma co_inv_event: "co_inv E g0 s \<Longrightarrow> co_inv E g0 (onCoreEvent E ev s)"
  by (cases ev)
    (auto simp: onCoreEvent_def co_inv_enqueue co_inv_cancelRecord co_inv_cancel_unsettled
      intro!: co_inv_fold)

lemma co_inv_drain_record:
  "co_inv E g0 (fst acc) \<Longrightarrow> co_inv E g0 (fst (drain_record E reason every i acc))"
  by (cases acc) (auto simp: drain_record_def Let_def co_inv_cancelRecord split: option.splits)

lemma co_inv_drain_fold:
  "co_inv E g0 (fst acc) \<Longrightarrow> co_inv E g0 (fst (fold (drain_record E reason every) xs acc))"
  by (induction xs arbitrary: acc) (auto simp: co_inv_drain_record)

lemma co_inv_beginDrain:
  assumes "co_inv E g0 s"
  shows "co_inv E g0 (beginDrain E reason every s)"
proof (cases "co_phase s \<in> {CoDraining, CoDisposed}")
  case True
  then show ?thesis using assms by (simp add: beginDrain_def)
next
  case False
  then have "co_inv E g0 (s\<lparr>co_phase := CoDraining, co_subscribed := False\<rparr>)"
    using co_inv_phase [OF assms] by simp
  then have "co_inv E g0 (fst (fold (drain_record E reason every) xs (t, f)))"
    if "t \<in> {s\<lparr>co_phase := CoDraining, co_subscribed := False\<rparr>,
        s\<lparr>co_phase := CoDraining, co_subscribed := False, co_streamSubscribed := False\<rparr>}" for t f xs
    using that by (intro co_inv_drain_fold) auto
  then show ?thesis using False by (auto simp: beginDrain_def Let_def case_prod_beta)
qed

lemma co_inv_stream_failure: "co_inv E g0 s \<Longrightarrow> co_inv E g0 (onCoreEventStreamFailure E s)"
  by (simp add: onCoreEventStreamFailure_def Let_def co_inv_beginDrain)

lemma co_inv_start: "co_inv E g0 s \<Longrightarrow> co_inv E g0 (fst (start E subscription s))"
  using co_inv_phase [of E g0 s CoOpen]
  by (auto simp: start_def split: coordinator_phase.splits subscription.splits sum.splits)

lemma co_inv_begin:
  assumes inv: "co_inv E g0 s" and n: "n < length (co_store s)"
    and q: "rc_stage (record_at s n) = Queued"
  shows "co_inv E g0 (begin_record n s)"
proof -
  let ?s = "s\<lparr>co_lanes := start_task n (co_lanes s)\<rparr>"
  have s1: "co_inv E g0 ?s" using inv by (intro co_inv_lanes) (simp_all add: lanes_inv_start)
  have settle: "co_inv E g0 (settleRecord True n res ?s)" for res
    using co_inv_settle [OF s1] n q by simp
  let ?u = "update_record n (\<lambda>r. r\<lparr>rc_stage := Executing\<rparr>) ?s"
  have ok: "record_ok (record_at s n)" using inv n by (simp add: co_inv_def store_ok_def)
  have u: "co_inv E g0 ?u"
    by (rule co_inv_update [OF s1]) (use ok q in \<open>auto simp: record_step_def record_ok_def\<close>)
  have "n \<notin> set (co_executed s)" using inv q by (auto simp: co_inv_def executed_ok_def)
  then have "executed_ok (co_store ?u) (co_executed ?u @ [n])"
    using u n by (simp add: co_inv_def executed_ok_def update_record_def)
  then have "co_inv E g0 (?u\<lparr>co_executed := co_executed ?s @ [n]\<rparr>)"
    using u by (simp add: co_inv_def)
  then show ?thesis using settle by (auto simp: begin_record_def Let_def split: option.splits sum.splits)
qed

lemma co_inv_executed:
  assumes inv: "co_inv E g0 s" and n: "n < length (co_store s)"
    and q: "rc_stage (record_at s n) = Executing"
  shows "co_inv E g0 (executed E n answer s)"
proof -
  have ok: "record_ok (record_at s n)" using inv n by (simp add: co_inv_def store_ok_def)
  have settle: "co_inv E g0 (settleRecord True n res s)" for res
    using co_inv_settle [OF inv n] q by simp
  have u: "co_inv E g0 (update_record n (\<lambda>r. r\<lparr>rc_continuation := True, rc_stage := AwaitingEvent\<rparr>) s)"
    by (rule co_inv_update [OF inv]) (use ok q in \<open>auto simp: record_step_def record_ok_def\<close>)
  have ended: "co_inv E g0 (t\<lparr>co_lanes := end_task n l\<rparr>)" if "co_inv E g0 t" "co_lanes t = l" for t l
    using that by (intro co_inv_lanes) (auto simp: lanes_inv_end)
  show ?thesis
    using settle u ended co_inv_cancelContinuation co_inv_cancelRecord
    by (auto simp: executed_def Let_def split: execution_answer.splits option.splits)
qed

lemma co_inv_acknowledged:
  assumes inv: "co_inv E g0 s" and n: "n < length (co_store s)"
    and q: "rc_stage (record_at s n) = Acknowledging"
  shows "co_inv E g0 (acknowledged n a s)"
proof -
  have ok: "record_ok (record_at s n)" using inv n by (simp add: co_inv_def store_ok_def)
  have u: "co_inv E g0 (update_record n (\<lambda>r. r\<lparr>rc_projectionFailure := p, rc_stage := Finished\<rparr>) t)"
    if "co_inv E g0 t" "co_store t = co_store s" for t p
    by (rule co_inv_update [OF that(1)])
      (use ok q that(2) in \<open>auto simp: record_step_def record_ok_def\<close>)
  have ended: "co_inv E g0 (t\<lparr>co_lanes := end_task n l\<rparr>)" if "co_inv E g0 t" "co_lanes t = l" for t l
    using that by (intro co_inv_lanes) (auto simp: lanes_inv_end)
  have rep: "co_inv E g0 (report c s)" "co_store (report c s) = co_store s"
    "co_lanes (report c s) = co_lanes s" for c
    using inv by (simp_all add: report_def)
  show ?thesis
    using u [OF inv refl] u [OF rep(1,2)] ended rep(3)
    by (auto simp: acknowledged_def Let_def split: option.splits)
qed

lemma co_inv_set_terminal: "co_inv E g0 s \<Longrightarrow> co_inv E g0 (set_terminal m p s)"
proof (cases "m < length (co_terminals s)")
  case True
  assume "co_inv E g0 s"
  then show ?thesis
    using nth_mem [OF True]
    by (auto simp: co_inv_def set_terminal_def dest!: set_update_subset_insert [THEN subsetD])
next
  case False
  assume "co_inv E g0 s"
  then show ?thesis using False by (simp add: set_terminal_def list_update_beyond)
qed

lemma co_inv_send_terminal:
  assumes inv: "co_inv E g0 s" and m: "m < length (co_terminals s)"
    and src: "source_result s (tt_source (co_terminals s ! m)) = Some result"
  shows "co_inv E g0 (send_terminal m result s)"
proof -
  let ?t = "co_terminals s ! m"
  have "source_ok E g0 (co_store s) (tt_effect ?t) (tt_source ?t)"
    using inv m by (simp add: co_inv_def)
  then have "ack_ok E g0 (co_store s) (tt_effect ?t, result)"
    using src by (auto simp: source_ok_def source_result_def ack_ok_def
        split: terminal_source.splits receipt_result.splits)
  then show ?thesis
    using co_inv_set_terminal [OF inv, of m TerminalSent]
    by (auto simp: send_terminal_def co_inv_def set_terminal_def)
qed

lemma co_inv_terminal_acknowledged: "co_inv E g0 s \<Longrightarrow> co_inv E g0 (terminal_acknowledged m a s)"
  by (simp add: terminal_acknowledged_def Let_def co_inv_set_terminal split: option.splits)

text \<open>When the tasks the lanes name have ended, so has every task with a key.\<close>

lemma lanes_inv_cleared:
  assumes inv: "lanes_inv l"
    and over: "list_all (\<lambda>(k, i). phase_at l i = Ended) (lanes_current l)"
  shows "lanes_inv (l\<lparr>lanes_current := []\<rparr>)"
proof -
  have "phase_at l j = Ended" if j: "j < task_count l" "k \<in> set (keys_at l j)" for j k
  proof (rule ccontr)
    assume n: "phase_at l j \<noteq> Ended"
    obtain c where c: "c \<ge> j" "jm_get (lanes_current l) k = Some c"
      using lanes_invD(2) [OF inv j n] by blast
    have "(k, c) \<in> set (lanes_current l)" using c(2) by (simp add: jm_get_def map_of_SomeD)
    then have e: "phase_at l c = Ended" using over by (auto simp: list_all_iff)
    have "lanes_conflict (keys_at l j) (keys_at l c)"
      using lanes_invD(1) [OF inv c(2)] j(2) by (auto simp: lanes_conflict_def)
    moreover have "j < c" using c(1) e n by (cases "j = c") auto
    ultimately show False using lanes_invD(5) [OF inv, of j c] lanes_invD(1) [OF inv c(2)] e n by auto
  qed
  then show ?thesis
    using inv by (auto simp: lanes_inv_def lanes_named_def lanes_held_def waits_back_def
        waits_chain_def in_turn_def)
qed

lemma co_inv_finish_drain:
  assumes "co_inv E g0 s" and "drained s"
  shows "co_inv E g0 (finish_drain s)"
proof -
  have L: "lanes_inv (co_lanes s)" "task_count (co_lanes s) = length (co_store s)"
    using assms by (simp_all add: co_inv_def tasks_ok_def)
  have "lanes_inv ((co_lanes s)\<lparr>lanes_current := []\<rparr>)"
    by (rule lanes_inv_cleared [OF L(1)]) (use assms(2) in \<open>simp add: drained_def\<close>)
  then show ?thesis
    using assms(1) L(2) by (simp add: co_inv_def finish_drain_def tasks_ok_def records_ok_def in_flight_ok_def)
qed

lemma co_step_inv: "co_step E s s' \<Longrightarrow> co_inv E g0 s \<Longrightarrow> co_inv E g0 s'"
proof (induction rule: co_step.induct)
  case (releases s n)
  then show ?case by (intro co_inv_lanes) (simp_all add: lanes_inv_release)
next
  case (continues n s completion)
  then show ?case by (simp add: continuation_settled_def co_inv_settle)
next
  case (cancel_fails n s err)
  then show ?case by (simp add: continuation_settled_def co_inv_settle)
qed (simp_all add: co_inv_start co_inv_event co_inv_stream_failure dispose_def co_inv_beginDrain
    co_inv_begin co_inv_executed co_inv_acknowledged co_inv_send_terminal
    co_inv_terminal_acknowledged co_inv_finish_drain)

lemma co_reach_inv: "co_reach E s s' \<Longrightarrow> co_inv E g0 s \<Longrightarrow> co_inv E g0 s'"
  by (induction rule: co_reach.induct) (auto intro: co_step_inv)

text \<open>A ledger a new coordinator can be given: its receipts belong to earlier coordinators.\<close>

definition earlier_ledger :: "receipt_ledger \<Rightarrow> bool" where
  "earlier_ledger g \<longleftrightarrow> (\<forall>i f n. findDestructive g i \<noteq> Some (f, OfRecord n))"

lemma co_inv_new: "earlier_ledger g \<Longrightarrow> co_inv E g (new_coordinator g)"
  by (auto simp: co_inv_def new_coordinator_def store_ok_def tasks_ok_def lanes_inv_empty
      executed_ok_def records_ok_def in_flight_ok_def earlier_ledger_def intro!: ledger_okI)
     (simp add: no_lanes_def)

section \<open>A cancelled effect that has not begun\<close>

definition cancelled_first :: "nat \<Rightarrow> core_effect \<Rightarrow> cancel_reason \<Rightarrow> coordinator \<Rightarrow> bool" where
  "cancelled_first n e c s \<longleftrightarrow>
     n < length (co_store s) \<and> n \<notin> set (co_executed s) \<and>
     rc_effect (record_at s n) = e \<and> rc_cancellationReason (record_at s n) = Some c \<and>
     (rc_stage (record_at s n) = Queued \<or>
      (rc_stage (record_at s n) \<in> {Acknowledging, Finished} \<and>
       rc_result (record_at s n) = Some (effectFailure e (cancellationError c))))"

lemma cancelled_first_frame [simp]:
  "cancelled_first n e c (s\<lparr>co_reported := x\<rparr>) = cancelled_first n e c s"
  "cancelled_first n e c (s\<lparr>co_cancelled := x1\<rparr>) = cancelled_first n e c s"
  "cancelled_first n e c (s\<lparr>co_drainFailure := x2\<rparr>) = cancelled_first n e c s"
  "cancelled_first n e c (s\<lparr>co_projectionSequence := x3\<rparr>) = cancelled_first n e c s"
  "cancelled_first n e c (s\<lparr>co_coreRevision := x4\<rparr>) = cancelled_first n e c s"
  "cancelled_first n e c (s\<lparr>co_streamSubscribed := x5\<rparr>) = cancelled_first n e c s"
  "cancelled_first n e c (s\<lparr>co_streamFailureRouted := x6\<rparr>) = cancelled_first n e c s"
  "cancelled_first n e c (s\<lparr>co_subscribed := x7\<rparr>) = cancelled_first n e c s"
  "cancelled_first n e c (s\<lparr>co_lanes := x8\<rparr>) = cancelled_first n e c s"
  "cancelled_first n e c (s\<lparr>co_phase := x9\<rparr>) = cancelled_first n e c s"
  "cancelled_first n e c (s\<lparr>co_acks := x10\<rparr>) = cancelled_first n e c s"
  "cancelled_first n e c (s\<lparr>co_ledger := x11\<rparr>) = cancelled_first n e c s"
  "cancelled_first n e c (s\<lparr>co_terminals := x12\<rparr>) = cancelled_first n e c s"
  "cancelled_first n e c (s\<lparr>co_records := x17\<rparr>) = cancelled_first n e c s"
  "cancelled_first n e c (s\<lparr>co_order := x18\<rparr>) = cancelled_first n e c s"
  "cancelled_first n e c (report d s) = cancelled_first n e c s"
  "cancelled_first n e c (advance_projection s) = cancelled_first n e c s"
  "cancelled_first n e c (track_terminal x13 x14 s) = cancelled_first n e c s"
  "cancelled_first n e c (set_terminal x15 x16 s) = cancelled_first n e c s"
  "cancelled_first n e c (pruneEffectRecords s) = cancelled_first n e c s"
  by (simp_all add: cancelled_first_def report_def advance_projection_def track_terminal_def set_terminal_def)

lemma cancelled_first_other [simp]:
  "m \<noteq> n \<Longrightarrow> cancelled_first n e c (update_record m f s) = cancelled_first n e c s"
  by (simp add: cancelled_first_def update_record_def)

lemma cancelled_first_cancelContinuation:
  "m \<noteq> n \<Longrightarrow> cancelled_first n e c (cancelContinuation E m reason s) = cancelled_first n e c s"
  by (simp add: cancelContinuation_def Let_def split: sum.splits)

lemma cancelled_first_cancelRecord:
  assumes "cancelled_first n e c s"
  shows "cancelled_first n e c (cancelRecord E i operation reason s)"
proof -
  have "rc_cancellationReason (record_at s n) \<noteq> None" using assms by (simp add: cancelled_first_def)
  then show ?thesis
    using assms
    by (cases "jm_get (co_records s) i = Some n")
      (auto simp: cancelRecord_def Let_def cancelled_first_cancelContinuation split: option.splits)
qed

lemma cancelled_first_enqueue:
  assumes "cancelled_first n e c s"
  shows "cancelled_first n e c (enqueue E x s)"
proof -
  have admit: "cancelled_first n e c (admit E x fp t)" if "cancelled_first n e c t" for fp t
    using that by (auto simp: cancelled_first_def admit_parts nth_append)
  show ?thesis
    using assms admit by (auto simp: enqueue_def Let_def split: option.splits prod.splits)
qed

lemma cancelled_first_fold:
  "(\<And>x t. cancelled_first n e c t \<Longrightarrow> cancelled_first n e c (f x t)) \<Longrightarrow>
     cancelled_first n e c s \<Longrightarrow> cancelled_first n e c (fold f xs s)"
  by (induction xs arbitrary: s) auto

lemma cancelled_first_event:
  "cancelled_first n e c s \<Longrightarrow> cancelled_first n e c (onCoreEvent E ev s)"
  by (cases ev)
    (auto simp: onCoreEvent_def cancelled_first_enqueue cancelled_first_cancelRecord cancel_unsettled_def
      intro!: cancelled_first_fold split: option.splits)

lemma cancelled_first_drain:
  assumes "cancelled_first n e c s"
  shows "cancelled_first n e c (beginDrain E reason every s)"
proof -
  have one: "cancelled_first n e c (fst (drain_record E reason every i acc))"
    if "cancelled_first n e c (fst acc)" for i acc
    using that cancelled_first_cancelRecord
    by (cases acc) (auto simp: drain_record_def Let_def split: option.splits)
  have "cancelled_first n e c (fst (fold (drain_record E reason every) xs acc))"
    if "cancelled_first n e c (fst acc)" for xs acc
    using that one by (induction xs arbitrary: acc) auto
  then show ?thesis using assms by (auto simp: beginDrain_def Let_def case_prod_beta)
qed

lemma cancelled_first_settle:
  "m \<noteq> n \<Longrightarrow> cancelled_first n e c (settleRecord b m res s) = cancelled_first n e c s"
  by (simp add: settleRecord_def Let_def)

lemma cancelled_first_begin:
  assumes "cancelled_first n e c s" and "co_inv E g0 s" and "m < length (co_store s)"
    and "rc_stage (record_at s m) = Queued"
  shows "cancelled_first n e c (begin_record m s)"
proof (cases "m = n")
  case True
  have "record_ok (record_at s n)" using assms(2,3) True by (simp add: co_inv_def store_ok_def)
  then have "\<not> rc_settled (record_at s n)" using assms(4) True by (simp add: record_ok_def)
  then show ?thesis
    using assms(1) True
    by (auto simp: begin_record_def Let_def settleRecord_def cancelled_first_def update_record_def)
next
  case False
  have "cancelled_first n e c (t\<lparr>co_executed := co_executed t @ [m]\<rparr>) = cancelled_first n e c t" for t
    using False by (auto simp: cancelled_first_def)
  then show ?thesis
    using assms(1) False cancelled_first_settle
    by (auto simp: begin_record_def Let_def cancelled_first_def update_record_def split: option.splits sum.splits)
qed

lemma cancelled_first_step:
  "co_step E s s' \<Longrightarrow> co_inv E g0 s \<Longrightarrow> cancelled_first n e c s \<Longrightarrow> cancelled_first n e c s'"
proof (induction rule: co_step.induct)
  case (starts s subscription)
  then show ?case
    by (auto simp: start_def split: coordinator_phase.splits subscription.splits sum.splits)
next
  case (executes m s answer)
  then have "m \<noteq> n" by (auto simp: cancelled_first_def)
  then show ?case
    using executes.prems cancelled_first_cancelRecord
    by (auto simp: executed_def Let_def cancelled_first_settle cancelled_first_cancelContinuation
        split: execution_answer.splits option.splits)
next
  case (acknowledges m s a)
  show ?case
  proof (cases "m = n")
    case True
    then show ?thesis
      using acknowledges
      by (auto simp: acknowledged_def Let_def cancelled_first_def update_record_def report_def
          split: option.splits)
  next
    case False
    then show ?thesis
      using acknowledges by (auto simp: acknowledged_def Let_def split: option.splits)
  qed
next
  case (continues m s completion)
  then have "m \<noteq> n" by (auto simp: cancelled_first_def)
  then show ?case using continues by (simp add: continuation_settled_def cancelled_first_settle)
next
  case (cancel_fails m s err)
  then have "m \<noteq> n" by (auto simp: cancelled_first_def)
  then show ?case using cancel_fails by (simp add: continuation_settled_def cancelled_first_settle)
qed (auto simp: cancelled_first_event onCoreEventStreamFailure_def Let_def dispose_def
    cancelled_first_drain cancelled_first_begin send_terminal_def terminal_acknowledged_def
    finish_drain_def split: option.splits)

section \<open>Properties\<close>

text \<open>C5: Effects are executed at most once.  In every run of a coordinator, each record is handed
  to \<open>execute\<close> at most once; a destructive effect identity is executed at most once in the life of
  the process, across coordinators: two executed destructive records have different identities,
  and an identity the process ledger already held is not executed again; and before the drain is
  over no two records in flight share an identity, so a redelivered effect joins the first.\<close>

theorem executed_once:
  assumes "earlier_ledger g" and "co_reach E (new_coordinator g) s"
  shows "distinct (co_executed s)
    \<and> (\<forall>n \<in> set (co_executed s). isDestructiveEffect (rc_effect (record_at s n)) \<longrightarrow>
         findDestructive g (effectId (rc_effect (record_at s n))) = None
         \<and> (\<forall>m \<in> set (co_executed s). isDestructiveEffect (rc_effect (record_at s m)) \<longrightarrow>
              effectId (rc_effect (record_at s m)) = effectId (rc_effect (record_at s n)) \<longrightarrow> m = n))
    \<and> (co_phase s \<noteq> CoDisposed \<longrightarrow>
         (\<forall>n < length (co_store s). \<forall>m < length (co_store s).
            \<not> rc_settled (record_at s n) \<longrightarrow> \<not> rc_settled (record_at s m) \<longrightarrow>
            effectId (rc_effect (record_at s m)) = effectId (rc_effect (record_at s n)) \<longrightarrow> m = n))"
proof -
  have inv: "co_inv E g s" using co_reach_inv [OF assms(2) co_inv_new [OF assms(1)]] .
  have ex: "executed_ok (co_store s) (co_executed s)" using inv by (simp add: co_inv_def)
  have L: "ledger_ok g (co_store s) (co_ledger s)" using inv by (simp add: co_inv_def)
  have fl: "in_flight_ok (co_phase s) (co_store s) (co_records s)" using inv by (simp add: co_inv_def)
  have entry: "findDestructive (co_ledger s) (effectId (rc_effect (record_at s n)))
      = Some (rc_fingerprint (record_at s n), OfRecord n)"
    if "n \<in> set (co_executed s)" "isDestructiveEffect (rc_effect (record_at s n))" for n
    using ledger_okD(1) [OF L] that ex by (simp add: executed_ok_def)
  have once: "findDestructive g (effectId (rc_effect (record_at s n))) = None"
    if "n \<in> set (co_executed s)" "isDestructiveEffect (rc_effect (record_at s n))" for n
  proof (rule ccontr)
    assume "\<not> ?thesis"
    then obtain x where x: "findDestructive g (effectId (rc_effect (record_at s n))) = Some x" by auto
    then have "x = (rc_fingerprint (record_at s n), OfRecord n)"
      using ledger_okD(4) [OF L x] entry [OF that] by simp
    then show False using x assms(1) by (simp add: earlier_ledger_def)
  qed
  have same: "m = n"
    if "n \<in> set (co_executed s)" "isDestructiveEffect (rc_effect (record_at s n))"
      "m \<in> set (co_executed s)" "isDestructiveEffect (rc_effect (record_at s m))"
      "effectId (rc_effect (record_at s m)) = effectId (rc_effect (record_at s n))" for n m
    using entry [OF that(1,2)] entry [OF that(3,4)] that(5) by simp
  have flight: "m = n"
    if "co_phase s \<noteq> CoDisposed" "n < length (co_store s)" "m < length (co_store s)"
      "\<not> rc_settled (record_at s n)" "\<not> rc_settled (record_at s m)"
      "effectId (rc_effect (record_at s m)) = effectId (rc_effect (record_at s n))" for n m
    using fl that unfolding in_flight_ok_def by (metis option.inject)
  show ?thesis using ex once same flight unfolding executed_ok_def by blast
qed

text \<open>C15: Every result the coordinator dispatches to Core for an effect is one of: the failure of its
  admission (identity not encodable, reused for a different intent, or the destructive ledger
  full); the settled result of a record with the same encoding, so that a redelivery is answered
  with the first result and never with another; or the result of the same destructive effect under
  an earlier coordinator of the process.\<close>

theorem dispatched_results_sound:
  assumes "earlier_ledger g" and "co_reach E (new_coordinator g) s"
    and "(e, res) \<in> set (co_acks s)"
  shows "(\<exists>err \<in> admission_errors. res = effectFailure e err)
    \<or> (\<exists>n < length (co_store s). rc_result (record_at s n) = Some res
         \<and> rc_settled (record_at s n)
         \<and> env_encode E e = env_encode E (rc_effect (record_at s n)))
    \<or> (\<exists>f. env_encode E e = Some f
         \<and> findDestructive g (effectId e) = Some (f, OfEarlier (Some res)))"
proof -
  have inv: "co_inv E g s" using co_reach_inv [OF assms(2) co_inv_new [OF assms(1)]] .
  have "ack_ok E g (co_store s) (e, res)" using inv assms(3) by (auto simp: co_inv_def)
  moreover have "record_ok (record_at s n)"
    "env_encode E (rc_effect (record_at s n)) = Some (rc_fingerprint (record_at s n))"
    if "n < length (co_store s)" for n
    using inv that by (simp_all add: co_inv_def store_ok_def)
  ultimately show ?thesis by (fastforce simp: ack_ok_def record_ok_def)
qed

text \<open>C16: Cancellation before execution is final.  A record that Core cancelled while it was still
  queued is never handed to \<open>execute\<close> afterwards, and the only result it can get is the failure
  of that first cancellation, whatever else is cancelled, drained or delivered.\<close>

theorem cancelled_before_execution:
  assumes "earlier_ledger g" and "co_reach E (new_coordinator g) s"
    and "n < length (co_store s)" and "rc_stage (record_at s n) = Queued"
    and "rc_cancellationReason (record_at s n) = Some c"
    and "co_reach E s s'"
  shows "n \<notin> set (co_executed s')
    \<and> (\<forall>res. rc_result (record_at s' n) = Some res \<longrightarrow>
         res = effectFailure (rc_effect (record_at s n)) (cancellationError c))"
proof -
  have inv: "co_inv E g s" using co_reach_inv [OF assms(2) co_inv_new [OF assms(1)]] .
  then have "n \<notin> set (co_executed s)" using assms(4) by (auto simp: co_inv_def executed_ok_def)
  then have start: "cancelled_first n (rc_effect (record_at s n)) c s"
    using assms(3-5) by (simp add: cancelled_first_def)
  have "co_inv E g s' \<and> cancelled_first n (rc_effect (record_at s n)) c s'"
    using assms(6) inv start
    by (induction rule: co_reach.induct) (blast intro: co_step_inv cancelled_first_step)+
  moreover have "record_ok (record_at s' n)"
    using calculation by (simp add: co_inv_def store_ok_def cancelled_first_def)
  ultimately show ?thesis by (auto simp: cancelled_first_def record_ok_def)
qed

section \<open>A coordinator at work\<close>

definition demo_environment :: environment where
  "demo_environment = \<lparr>env_mutationScopes = None, env_encode = (\<lambda>e. Some (effectId e)),
     env_cancel = (\<lambda>_ _. Inr ()), env_unsubscribe = Inr (), env_streamUnsubscribe = Inr ()\<rparr>"

definition demo_clear :: core_effect where
  "demo_clear = \<lparr>effectId = ''e'', operationId = ''o'', parentOperationId = None,
     target_kind = ''app'', target_handleId = ''h'', action_type = ''roleBrowserDataClearSession'',
     action_fields = [], completionPolicy = EventBound, effect_deadlineMs = None\<rparr>"

abbreviation demo_fresh :: coordinator where
  "demo_fresh \<equiv> new_coordinator createCoreEffectProcessReceiptLedger"

definition demo_open :: coordinator where
  "demo_open = fst (start demo_environment Subscribes demo_fresh)"
definition demo_queued :: coordinator where
  "demo_queued = onCoreEvent demo_environment (CoreEffects [demo_clear]) demo_open"
definition demo_running :: coordinator where "demo_running = begin_record 0 demo_queued"
definition demo_settled :: coordinator where
  "demo_settled = executed demo_environment 0 (Returned Undefined) demo_running"
definition demo_cancelled :: coordinator where
  "demo_cancelled = onCoreEvent demo_environment (CoreEffectCancellations
     [\<lparr>cn_effectId = ''e'', cn_operationId = ''o'', cn_reason = CoreCancelled\<rparr>]) demo_queued"
definition demo_refused :: coordinator where "demo_refused = begin_record 0 demo_cancelled"

lemma demo_earlier: "earlier_ledger createCoreEffectProcessReceiptLedger"
  by (simp add: earlier_ledger_def createCoreEffectProcessReceiptLedger_def findDestructive_def)

lemma demo_queued_facts:
  "0 < length (co_store demo_queued) \<and> rc_stage (record_at demo_queued 0) = Queued
     \<and> startable 0 (co_lanes demo_queued)"
  by code_simp

lemma demo_running_facts:
  "0 < length (co_store demo_running) \<and> rc_stage (record_at demo_running 0) = Executing
     \<and> co_executed demo_running = [0] \<and> rc_effect (record_at demo_running 0) = demo_clear"
  by code_simp

lemma demo_cancelled_facts:
  "0 < length (co_store demo_cancelled) \<and> rc_stage (record_at demo_cancelled 0) = Queued
     \<and> startable 0 (co_lanes demo_cancelled)
     \<and> rc_cancellationReason (record_at demo_cancelled 0) = Some CoreCancelled"
  by code_simp

lemma demo_reach_queued: "co_reach demo_environment demo_fresh demo_queued"
  unfolding demo_queued_def demo_open_def
  by (rule co_more [OF co_more [OF co_start starts] event])

lemma demo_reach_running: "co_reach demo_environment demo_fresh demo_running"
  unfolding demo_running_def
  by (rule co_more [OF demo_reach_queued begins]) (use demo_queued_facts in auto)

lemma demo_reach_settled: "co_reach demo_environment demo_fresh demo_settled"
  unfolding demo_settled_def
  by (rule co_more [OF demo_reach_running executes]) (use demo_running_facts in auto)

lemma demo_reach_cancelled: "co_reach demo_environment demo_fresh demo_cancelled"
  unfolding demo_cancelled_def by (rule co_more [OF demo_reach_queued event])

theorem executed_once_witness:
  "co_executed demo_running = [0]
    \<and> findDestructive createCoreEffectProcessReceiptLedger (effectId demo_clear) = None"
  using executed_once [OF demo_earlier demo_reach_running] demo_running_facts
  by (simp add: isDestructiveEffect_def demo_clear_def)

lemma demo_ack: "(demo_clear, effectSuccess demo_clear Undefined) \<in> set (co_acks demo_settled)"
  by code_simp

theorem dispatched_results_sound_witness:
  "(\<exists>err \<in> admission_errors. effectSuccess demo_clear Undefined = effectFailure demo_clear err)
    \<or> (\<exists>n < length (co_store demo_settled).
         rc_result (record_at demo_settled n) = Some (effectSuccess demo_clear Undefined))
    \<or> (\<exists>f. findDestructive createCoreEffectProcessReceiptLedger ''e'' = Some f)"
  using dispatched_results_sound [OF demo_earlier demo_reach_settled demo_ack]
  by (auto simp: demo_clear_def)

theorem cancelled_before_execution_witness: "0 \<notin> set (co_executed demo_refused)"
proof -
  have "co_reach demo_environment demo_cancelled demo_refused"
    unfolding demo_refused_def
    by (rule co_more [OF co_start begins]) (use demo_cancelled_facts in auto)
  then show ?thesis
    using cancelled_before_execution [OF demo_earlier demo_reach_cancelled] demo_cancelled_facts
    by blast
qed

text \<open>An effect without identity is recorded before it is validated; once it is the oldest record,
  \<open>#pruneEffectRecords\<close> gives up, however many settled receipts follow it.\<close>

lemma empty_identity_blocks_pruning:
  "prune_order store ([] # order) records = ([] # order, records)"
  by simp

end
