(* ===== verification/Workspace_Layout.thy ===== *)
theory Workspace_Layout
  imports Complex_Main Prelude
begin

text \<open>
  The geometry of launch workspaces: layout templates and their default rectangles
  (\<open>src/src/shared/workspaceLayout.ts\<close>), the splits of a layout, the rectangles made from splits,
  the range of a split and the slots a divider affects
  (\<open>src/src/renderer/src/features/workspaces/workspaceLayoutUtils.ts\<close>).

  A JavaScript number is a rational here: the arithmetic is exact, the rounding of doubles is not
  modelled.  An index beyond a list is \<open>undefined\<close>; where the code replaces it with \<open>??\<close> this is
  \<open>nth_or\<close>, where it would compute \<open>NaN\<close> the model leaves the value unspecified.
\<close>

section \<open>Rectangles and templates\<close>

record rect =
  rx :: rat
  ry :: rat
  rwidth :: rat
  rheight :: rat

definition mk_rect :: "rat \<Rightarrow> rat \<Rightarrow> rat \<Rightarrow> rat \<Rightarrow> rect" where
  "mk_rect x y w h = \<lparr>rx = x, ry = y, rwidth = w, rheight = h\<rparr>"

lemma mk_rect_simps [simp]:
  "rx (mk_rect x y w h) = x" "ry (mk_rect x y w h) = y"
  "rwidth (mk_rect x y w h) = w" "rheight (mk_rect x y w h) = h"
  by (simp_all add: mk_rect_def)

datatype template =
    Single | TwoColumns | ThreeColumns | MainLeftStackRight | MainRightStackLeft
  | MainCenterSideStacks | ThreeTopTwoBottom | TwoTopThreeBottom | Quad | FourColumns
  | SixGrid | EightGrid | NineGrid

definition MIN_WORKSPACE_SLOT_SIZE :: rat where "MIN_WORKSPACE_SLOT_SIZE = 12 / 100"
definition EXISTING_LAYOUT_MIN_SPLIT_SIZE :: rat where "EXISTING_LAYOUT_MIN_SPLIT_SIZE = 2 / 10"

fun getWorkspaceTemplateSlotCount :: "template \<Rightarrow> nat" where
  "getWorkspaceTemplateSlotCount Single = 1"
| "getWorkspaceTemplateSlotCount TwoColumns = 2"
| "getWorkspaceTemplateSlotCount ThreeColumns = 3"
| "getWorkspaceTemplateSlotCount MainLeftStackRight = 3"
| "getWorkspaceTemplateSlotCount MainRightStackLeft = 3"
| "getWorkspaceTemplateSlotCount Quad = 4"
| "getWorkspaceTemplateSlotCount FourColumns = 4"
| "getWorkspaceTemplateSlotCount MainCenterSideStacks = 5"
| "getWorkspaceTemplateSlotCount ThreeTopTwoBottom = 5"
| "getWorkspaceTemplateSlotCount TwoTopThreeBottom = 5"
| "getWorkspaceTemplateSlotCount SixGrid = 6"
| "getWorkspaceTemplateSlotCount EightGrid = 8"
| "getWorkspaceTemplateSlotCount NineGrid = 9"

definition createGridRects :: "nat \<Rightarrow> nat \<Rightarrow> rect list" where
  "createGridRects columnCount rowCount =
     map (\<lambda>i. mk_rect (of_nat (i mod columnCount) / of_nat columnCount)
                      (of_nat (i div columnCount) / of_nat rowCount)
                      (1 / of_nat columnCount) (1 / of_nat rowCount))
       [0..<columnCount * rowCount]"

definition createEqualColumnRects :: "nat \<Rightarrow> rect list" where
  "createEqualColumnRects columnCount =
     map (\<lambda>i. mk_rect (of_nat i / of_nat columnCount) 0 (1 / of_nat columnCount) 1) [0..<columnCount]"

definition createSplitRowRects :: "nat \<Rightarrow> nat \<Rightarrow> rect list" where
  "createSplitRowRects upper lower =
     map (\<lambda>r. r\<lparr>rheight := 1 / 2\<rparr>) (createEqualColumnRects upper) @
     map (\<lambda>r. r\<lparr>ry := 1 / 2, rheight := 1 / 2\<rparr>) (createEqualColumnRects lower)"

fun getDefaultWorkspaceRects :: "template \<Rightarrow> rect list" where
  "getDefaultWorkspaceRects Single = [mk_rect 0 0 1 1]"
| "getDefaultWorkspaceRects TwoColumns = [mk_rect 0 0 (1/2) 1, mk_rect (1/2) 0 (1/2) 1]"
| "getDefaultWorkspaceRects ThreeColumns = createEqualColumnRects 3"
| "getDefaultWorkspaceRects MainLeftStackRight =
     [mk_rect 0 0 (1/2) 1, mk_rect (1/2) 0 (1/2) (1/2), mk_rect (1/2) (1/2) (1/2) (1/2)]"
| "getDefaultWorkspaceRects MainRightStackLeft =
     [mk_rect (1/2) 0 (1/2) 1, mk_rect 0 0 (1/2) (1/2), mk_rect 0 (1/2) (1/2) (1/2)]"
| "getDefaultWorkspaceRects MainCenterSideStacks =
     [mk_rect (3/10) 0 (4/10) 1, mk_rect 0 0 (3/10) (1/2), mk_rect 0 (1/2) (3/10) (1/2),
      mk_rect (7/10) 0 (3/10) (1/2), mk_rect (7/10) (1/2) (3/10) (1/2)]"
| "getDefaultWorkspaceRects ThreeTopTwoBottom = createSplitRowRects 3 2"
| "getDefaultWorkspaceRects TwoTopThreeBottom = createSplitRowRects 2 3"
| "getDefaultWorkspaceRects Quad =
     [mk_rect 0 0 (1/2) (1/2), mk_rect (1/2) 0 (1/2) (1/2), mk_rect 0 (1/2) (1/2) (1/2),
      mk_rect (1/2) (1/2) (1/2) (1/2)]"
| "getDefaultWorkspaceRects FourColumns = createEqualColumnRects 4"
| "getDefaultWorkspaceRects SixGrid = createGridRects 3 2"
| "getDefaultWorkspaceRects EightGrid = createGridRects 4 2"
| "getDefaultWorkspaceRects NineGrid = createGridRects 3 3"

section \<open>Slots\<close>

text \<open>\<open>LaunchWorkspaceSlot\<close>; the web content of a slot is its optional last URL.\<close>

record web_content =
  lastUrl :: "string option"

record slot =
  slot_id :: string
  slot_roleId :: "string option"
  slot_web :: "web_content option"
  slot_zoom :: "rat option"
  slot_rect :: rect

section \<open>Splits\<close>

record splits =
  horizontal :: "rat list"
  vertical :: "rat list"

datatype axis = Horizontal | Vertical

fun axis_of :: "axis \<Rightarrow> splits \<Rightarrow> rat list" where
  "axis_of Horizontal s = horizontal s"
| "axis_of Vertical s = vertical s"

definition nth_or :: "'a \<Rightarrow> 'a list \<Rightarrow> nat \<Rightarrow> 'a" where
  "nth_or d xs i = (if i < length xs then xs ! i else d)"

definition mk_splits :: "rat list \<Rightarrow> rat list \<Rightarrow> splits" where
  "mk_splits h v = \<lparr>horizontal = h, vertical = v\<rparr>"

lemma mk_splits_simps [simp]:
  "horizontal (mk_splits h v) = h" "vertical (mk_splits h v) = v"
  by (simp_all add: mk_splits_def)

text \<open>\<open>slots[i]?.rect ?? defaultRects[i]\<close>\<close>

definition rect_or :: "rect list \<Rightarrow> slot list \<Rightarrow> nat \<Rightarrow> rect" where
  "rect_or defaults slots i = (if i < length slots then slot_rect (slots ! i) else defaults ! i)"

definition right_edge :: "rect \<Rightarrow> rat" where "right_edge r = rx r + rwidth r"

definition column_edges :: "rect list \<Rightarrow> slot list \<Rightarrow> nat \<Rightarrow> rat list" where
  "column_edges defaults slots n = map (\<lambda>i. right_edge (rect_or defaults slots i)) [0..<n]"

definition getWorkspaceSplits :: "template \<Rightarrow> slot list \<Rightarrow> splits" where
  "getWorkspaceSplits t slots =
     (let defaults = getDefaultWorkspaceRects t;
          rect = rect_or defaults slots;
          first = rect 0;
          second = (if 1 < length slots then slot_rect (slots ! 1) else nth_or (defaults ! 0) defaults 1)
      in (case t of
            Single \<Rightarrow> mk_splits [] []
          | TwoColumns \<Rightarrow> mk_splits [] [rwidth first]
          | MainLeftStackRight \<Rightarrow> mk_splits [rheight second] [rwidth first]
          | MainRightStackLeft \<Rightarrow> mk_splits [rheight second] [rwidth second]
          | MainCenterSideStacks \<Rightarrow> mk_splits [rheight second] [rwidth second, right_edge first]
          | ThreeTopTwoBottom \<Rightarrow> mk_splits [rheight first]
              [right_edge first, right_edge (rect 1), right_edge (rect 3)]
          | TwoTopThreeBottom \<Rightarrow> mk_splits [rheight first]
              [right_edge first, right_edge (rect 2), right_edge (rect 3)]
          | Quad \<Rightarrow> mk_splits [rheight first] [rwidth first]
          | SixGrid \<Rightarrow> mk_splits [rheight first] (column_edges defaults slots 2)
          | EightGrid \<Rightarrow> mk_splits [rheight first] (column_edges defaults slots 3)
          | NineGrid \<Rightarrow> mk_splits [rheight first, rheight first + rheight (rect 3)]
              (column_edges defaults slots 2)
          | ThreeColumns \<Rightarrow> mk_splits [] (column_edges defaults slots 2)
          | FourColumns \<Rightarrow> mk_splits [] (column_edges defaults slots 3)))"

definition createWorkspaceRowRects :: "rat list \<Rightarrow> rat \<Rightarrow> rat \<Rightarrow> rect list" where
  "createWorkspaceRowRects boundaries y h =
     map (\<lambda>i. mk_rect (boundaries ! i) y (boundaries ! Suc i - boundaries ! i) h)
       [0..<length boundaries - 1]"

definition grid_rects :: "rat list \<Rightarrow> rat list \<Rightarrow> rect list" where
  "grid_rects columns rows =
     concat (map (\<lambda>r. createWorkspaceRowRects columns (rows ! r) (rows ! Suc r - rows ! r))
       [0..<length rows - 1])"

definition createWorkspaceRectsFromSplits :: "template \<Rightarrow> splits \<Rightarrow> rect list" where
  "createWorkspaceRectsFromSplits t s =
     (let d = getWorkspaceSplits t [];
          splitX = nth_or (nth_or 1 (vertical d) 0) (vertical s) 0;
          splitY = nth_or (nth_or 1 (horizontal d) 0) (horizontal s) 0;
          verticals = map (\<lambda>i. nth_or (vertical d ! i) (vertical s) i) [0..<length (vertical d)]
      in (case t of
            Single \<Rightarrow> getDefaultWorkspaceRects t
          | TwoColumns \<Rightarrow> [mk_rect 0 0 splitX 1, mk_rect splitX 0 (1 - splitX) 1]
          | MainLeftStackRight \<Rightarrow>
              [mk_rect 0 0 splitX 1, mk_rect splitX 0 (1 - splitX) splitY,
               mk_rect splitX splitY (1 - splitX) (1 - splitY)]
          | MainRightStackLeft \<Rightarrow>
              [mk_rect splitX 0 (1 - splitX) 1, mk_rect 0 0 splitX splitY,
               mk_rect 0 splitY splitX (1 - splitY)]
          | MainCenterSideStacks \<Rightarrow>
              (let splitX2 = nth_or (nth_or 1 (vertical d) 1) (vertical s) 1
               in [mk_rect splitX 0 (splitX2 - splitX) 1, mk_rect 0 0 splitX splitY,
                   mk_rect 0 splitY splitX (1 - splitY), mk_rect splitX2 0 (1 - splitX2) splitY,
                   mk_rect splitX2 splitY (1 - splitX2) (1 - splitY)])
          | ThreeTopTwoBottom \<Rightarrow>
              createWorkspaceRowRects [0, verticals ! 0, verticals ! 1, 1] 0 splitY @
              createWorkspaceRowRects [0, verticals ! 2, 1] splitY (1 - splitY)
          | TwoTopThreeBottom \<Rightarrow>
              createWorkspaceRowRects [0, verticals ! 0, 1] 0 splitY @
              createWorkspaceRowRects [0, verticals ! 1, verticals ! 2, 1] splitY (1 - splitY)
          | Quad \<Rightarrow>
              [mk_rect 0 0 splitX splitY, mk_rect splitX 0 (1 - splitX) splitY,
               mk_rect 0 splitY splitX (1 - splitY), mk_rect splitX splitY (1 - splitX) (1 - splitY)]
          | SixGrid \<Rightarrow> grid_rects (0 # verticals @ [1]) [0, splitY, 1]
          | EightGrid \<Rightarrow> grid_rects (0 # verticals @ [1]) [0, splitY, 1]
          | NineGrid \<Rightarrow> grid_rects (0 # verticals @ [1])
              [0, splitY, nth_or (nth_or 1 (horizontal d) 1) (horizontal s) 1, 1]
          | ThreeColumns \<Rightarrow> createWorkspaceRowRects (0 # verticals @ [1]) 0 1
          | FourColumns \<Rightarrow> createWorkspaceRowRects (0 # verticals @ [1]) 0 1))"

definition applyWorkspaceSplits :: "template \<Rightarrow> slot list \<Rightarrow> splits \<Rightarrow> slot list" where
  "applyWorkspaceSplits t slots s =
     (let rects = createWorkspaceRectsFromSplits t s;
          used = take (getWorkspaceTemplateSlotCount t) slots
      in map (\<lambda>i. (used ! i)\<lparr>slot_rect := rects ! i\<rparr>) [0..<length used])"

section \<open>Ranges\<close>

definition isMultiColumnTemplate :: "template \<Rightarrow> bool" where
  "isMultiColumnTemplate t \<longleftrightarrow> t \<in> {ThreeColumns, FourColumns, SixGrid, EightGrid, NineGrid,
     MainCenterSideStacks, ThreeTopTwoBottom, TwoTopThreeBottom}"

fun getSplitRowVerticalIndexGroups :: "template \<Rightarrow> nat list list option" where
  "getSplitRowVerticalIndexGroups ThreeTopTwoBottom = Some [[0, 1], [2]]"
| "getSplitRowVerticalIndexGroups TwoTopThreeBottom = Some [[0], [1, 2]]"
| "getSplitRowVerticalIndexGroups _ = None"

text \<open>The neighbours of an index in its group.\<close>

fun previous_in :: "nat \<Rightarrow> nat list \<Rightarrow> nat option" where
  "previous_in i (a # b # g) = (if a = i then None else if b = i then Some a else previous_in i (b # g))"
| "previous_in i _ = None"

fun next_in :: "nat \<Rightarrow> nat list \<Rightarrow> nat option" where
  "next_in i (a # b # g) = (if a = i then Some b else next_in i (b # g))"
| "next_in i _ = None"

definition row_group :: "template \<Rightarrow> axis \<Rightarrow> nat \<Rightarrow> nat list option" where
  "row_group t ax i =
     (if ax = Vertical
      then (case getSplitRowVerticalIndexGroups t of
              None \<Rightarrow> None | Some gs \<Rightarrow> find (\<lambda>g. i \<in> set g) gs)
      else None)"

definition getWorkspaceSplitRange :: "template \<Rightarrow> splits \<Rightarrow> axis \<Rightarrow> nat \<Rightarrow> rat \<times> rat" where
  "getWorkspaceSplitRange t s ax i =
     (let positions = axis_of ax s
      in if t = MainCenterSideStacks \<and> ax = Vertical
         then (if i = 0
               then (MIN_WORKSPACE_SLOT_SIZE, nth_or 1 positions 1 - EXISTING_LAYOUT_MIN_SPLIT_SIZE)
               else (nth_or 0 positions 0 + EXISTING_LAYOUT_MIN_SPLIT_SIZE, 1 - MIN_WORKSPACE_SLOT_SIZE))
         else (case row_group t ax i of
                 Some g \<Rightarrow>
                   ((case previous_in i g of None \<Rightarrow> 0 | Some j \<Rightarrow> positions ! j) + MIN_WORKSPACE_SLOT_SIZE,
                    (case next_in i g of None \<Rightarrow> 1 | Some j \<Rightarrow> positions ! j) - MIN_WORKSPACE_SLOT_SIZE)
               | None \<Rightarrow>
                   (let minimum = (if ax = Vertical \<and> isMultiColumnTemplate t
                                   then MIN_WORKSPACE_SLOT_SIZE else EXISTING_LAYOUT_MIN_SPLIT_SIZE)
                    in ((if i = 0 then 0 else nth_or 0 positions (i - 1)) + minimum,
                        nth_or 1 positions (Suc i) - minimum))))"

text \<open>Moving one split: the comparison layout and the layout after a drag are made this way.\<close>

definition with_split :: "axis \<Rightarrow> nat \<Rightarrow> rat \<Rightarrow> splits \<Rightarrow> splits" where
  "with_split ax i p s =
     (case ax of
        Horizontal \<Rightarrow> s\<lparr>horizontal := (horizontal s)[i := p]\<rparr>
      | Vertical \<Rightarrow> s\<lparr>vertical := (vertical s)[i := p]\<rparr>)"

fun rect_start :: "axis \<Rightarrow> rect \<Rightarrow> rat" where
  "rect_start Vertical r = rx r" | "rect_start Horizontal r = ry r"
fun rect_size :: "axis \<Rightarrow> rect \<Rightarrow> rat" where
  "rect_size Vertical r = rwidth r" | "rect_size Horizontal r = rheight r"

definition LAYOUT_EPSILON :: rat where "LAYOUT_EPSILON = 1 / 1000000"

definition getWorkspaceResizeAffectedSlotIndexes :: "template \<Rightarrow> slot list \<Rightarrow> axis \<Rightarrow> nat \<Rightarrow> nat list" where
  "getWorkspaceResizeAffectedSlotIndexes t slots ax i =
     (let s = getWorkspaceSplits t slots
      in if i \<ge> length (axis_of ax s) then []
         else
           let current = axis_of ax s ! i;
               (lo, hi) = getWorkspaceSplitRange t s ax i;
               comparison = (if \<bar>current - hi\<bar> > LAYOUT_EPSILON then hi else lo)
           in if \<bar>current - comparison\<bar> < LAYOUT_EPSILON then []
              else
                let rects = createWorkspaceRectsFromSplits t (with_split ax i comparison s)
                in filter (\<lambda>j. j < length rects \<and>
                       (\<bar>rect_start ax (slot_rect (slots ! j)) - rect_start ax (rects ! j)\<bar> \<ge> LAYOUT_EPSILON \<or>
                        \<bar>rect_size ax (slot_rect (slots ! j)) - rect_size ax (rects ! j)\<bar> \<ge> LAYOUT_EPSILON))
                     [0..<length slots])"

section \<open>Resize handles\<close>

record resize_handle =
  rh_splitIndex :: nat
  rh_x :: rat
  rh_y :: rat

definition getWorkspaceHorizontalResizeHandles :: "template \<Rightarrow> splits \<Rightarrow> resize_handle list" where
  "getWorkspaceHorizontalResizeHandles t s =
     (let splitX = nth_or 1 (vertical s) 0; splitX2 = nth_or 1 (vertical s) 1;
          xs = (if t = MainCenterSideStacks then [splitX / 2, splitX2 + (1 - splitX2) / 2]
                else if t \<in> {Quad, SixGrid, EightGrid} then [1 / 4]
                else if t = NineGrid then [1 / 2]
                else if t = MainLeftStackRight then [splitX + (1 - splitX) / 2]
                else if t = MainRightStackLeft then [splitX / 2]
                else [1 / 2])
      in concat (map (\<lambda>i. map (\<lambda>x. \<lparr>rh_splitIndex = i, rh_x = x, rh_y = horizontal s ! i\<rparr>) xs)
           [0..<length (horizontal s)]))"

definition getWorkspaceVerticalResizeHandles :: "template \<Rightarrow> splits \<Rightarrow> resize_handle list" where
  "getWorkspaceVerticalResizeHandles t s =
     (case getSplitRowVerticalIndexGroups t of
        Some gs \<Rightarrow>
          (let splitY = nth_or (1 / 2) (horizontal s) 0;
               centers = [splitY / 2, splitY + (1 - splitY) / 2]
           in concat (map (\<lambda>r. map (\<lambda>i. \<lparr>rh_splitIndex = i, rh_x = vertical s ! i, rh_y = centers ! r\<rparr>)
                (gs ! r)) [0..<length gs]))
      | None \<Rightarrow>
          (let y = (if t \<in> {Quad, SixGrid, EightGrid} then 1 / 4 else 1 / 2)
           in map (\<lambda>i. \<lparr>rh_splitIndex = i, rh_x = vertical s ! i, rh_y = y\<rparr>) [0..<length (vertical s)]))"

section \<open>Well-formed splits\<close>

text \<open>The splits of a template have a fixed shape; the boundaries they cut in a direction are the
  groups, each between 0 and 1 with a minimal distance.\<close>

definition split_shape :: "template \<Rightarrow> nat \<times> nat" where
  "split_shape t =
     (case t of
        Single \<Rightarrow> (0, 0) | TwoColumns \<Rightarrow> (0, 1) | ThreeColumns \<Rightarrow> (0, 2) | FourColumns \<Rightarrow> (0, 3)
      | MainLeftStackRight \<Rightarrow> (1, 1) | MainRightStackLeft \<Rightarrow> (1, 1) | Quad \<Rightarrow> (1, 1)
      | MainCenterSideStacks \<Rightarrow> (1, 2) | ThreeTopTwoBottom \<Rightarrow> (1, 3) | TwoTopThreeBottom \<Rightarrow> (1, 3)
      | SixGrid \<Rightarrow> (1, 2) | EightGrid \<Rightarrow> (1, 3) | NineGrid \<Rightarrow> (2, 2))"

fun gaps_at_least :: "rat \<Rightarrow> rat \<Rightarrow> rat list \<Rightarrow> bool" where
  "gaps_at_least m a [] \<longleftrightarrow> a + m \<le> 1"
| "gaps_at_least m a (b # bs) \<longleftrightarrow> a + m \<le> b \<and> gaps_at_least m b bs"

definition split_groups :: "template \<Rightarrow> splits \<Rightarrow> rat list list" where
  "split_groups t s =
     horizontal s #
     (case getSplitRowVerticalIndexGroups t of
        None \<Rightarrow> [vertical s] | Some gs \<Rightarrow> map (map (\<lambda>i. vertical s ! i)) gs)"

definition splits_spaced :: "rat \<Rightarrow> template \<Rightarrow> splits \<Rightarrow> bool" where
  "splits_spaced m t s \<longleftrightarrow>
     (length (horizontal s), length (vertical s)) = split_shape t \<and>
     list_all (gaps_at_least m 0) (split_groups t s)"

definition covers :: "rat \<Rightarrow> rat \<Rightarrow> rect \<Rightarrow> bool" where
  "covers px py r \<longleftrightarrow> rx r \<le> px \<and> px < rx r + rwidth r \<and> ry r \<le> py \<and> py < ry r + rheight r"

lemma length_lists:
  "length xs = Suc 0 \<longleftrightarrow> (\<exists>a. xs = [a])"
  "length xs = 2 \<longleftrightarrow> (\<exists>a b. xs = [a, b])"
  "length xs = 3 \<longleftrightarrow> (\<exists>a b c. xs = [a, b, c])"
  by (auto simp: numeral_eq_Suc length_Suc_conv)

lemmas spaced_eval = splits_spaced_def split_shape_def split_groups_def length_lists

text \<open>The splits of the default layouts.\<close>

lemma default_rects:
  "createEqualColumnRects 3 = [mk_rect 0 0 (1/3) 1, mk_rect (1/3) 0 (1/3) 1, mk_rect (2/3) 0 (1/3) 1]"
  "createEqualColumnRects 2 = [mk_rect 0 0 (1/2) 1, mk_rect (1/2) 0 (1/2) 1]"
  "createEqualColumnRects 4 = [mk_rect 0 0 (1/4) 1, mk_rect (1/4) 0 (1/4) 1, mk_rect (2/4) 0 (1/4) 1,
     mk_rect (3/4) 0 (1/4) 1]"
  "createGridRects 3 2 =
     [mk_rect 0 0 (1/3) (1/2), mk_rect (1/3) 0 (1/3) (1/2), mk_rect (2/3) 0 (1/3) (1/2),
      mk_rect 0 (1/2) (1/3) (1/2), mk_rect (1/3) (1/2) (1/3) (1/2), mk_rect (2/3) (1/2) (1/3) (1/2)]"
  "createGridRects 4 2 =
     [mk_rect 0 0 (1/4) (1/2), mk_rect (1/4) 0 (1/4) (1/2), mk_rect (2/4) 0 (1/4) (1/2),
      mk_rect (3/4) 0 (1/4) (1/2), mk_rect 0 (1/2) (1/4) (1/2), mk_rect (1/4) (1/2) (1/4) (1/2),
      mk_rect (2/4) (1/2) (1/4) (1/2), mk_rect (3/4) (1/2) (1/4) (1/2)]"
  "createGridRects 3 3 =
     [mk_rect 0 0 (1/3) (1/3), mk_rect (1/3) 0 (1/3) (1/3), mk_rect (2/3) 0 (1/3) (1/3),
      mk_rect 0 (1/3) (1/3) (1/3), mk_rect (1/3) (1/3) (1/3) (1/3), mk_rect (2/3) (1/3) (1/3) (1/3),
      mk_rect 0 (2/3) (1/3) (1/3), mk_rect (1/3) (2/3) (1/3) (1/3), mk_rect (2/3) (2/3) (1/3) (1/3)]"
  by (simp_all add: createEqualColumnRects_def createGridRects_def upt_conv_Cons)

lemma split_row_rects:
  "createSplitRowRects 3 2 =
     [mk_rect 0 0 (1/3) (1/2), mk_rect (1/3) 0 (1/3) (1/2), mk_rect (2/3) 0 (1/3) (1/2),
      mk_rect 0 (1/2) (1/2) (1/2), mk_rect (1/2) (1/2) (1/2) (1/2)]"
  "createSplitRowRects 2 3 =
     [mk_rect 0 0 (1/2) (1/2), mk_rect (1/2) 0 (1/2) (1/2),
      mk_rect 0 (1/2) (1/3) (1/2), mk_rect (1/3) (1/2) (1/3) (1/2), mk_rect (2/3) (1/2) (1/3) (1/2)]"
  by (simp_all add: createSplitRowRects_def default_rects mk_rect_def)

lemma default_splits:
  "getWorkspaceSplits t [] = (case t of
       Single \<Rightarrow> mk_splits [] [] | TwoColumns \<Rightarrow> mk_splits [] [1/2]
     | ThreeColumns \<Rightarrow> mk_splits [] [1/3, 2/3] | FourColumns \<Rightarrow> mk_splits [] [1/4, 2/4, 3/4]
     | MainLeftStackRight \<Rightarrow> mk_splits [1/2] [1/2] | MainRightStackLeft \<Rightarrow> mk_splits [1/2] [1/2]
     | Quad \<Rightarrow> mk_splits [1/2] [1/2] | MainCenterSideStacks \<Rightarrow> mk_splits [1/2] [3/10, 7/10]
     | ThreeTopTwoBottom \<Rightarrow> mk_splits [1/2] [1/3, 2/3, 1/2]
     | TwoTopThreeBottom \<Rightarrow> mk_splits [1/2] [1/2, 1/3, 2/3]
     | SixGrid \<Rightarrow> mk_splits [1/2] [1/3, 2/3] | EightGrid \<Rightarrow> mk_splits [1/2] [1/4, 2/4, 3/4]
     | NineGrid \<Rightarrow> mk_splits [1/3, 2/3] [1/3, 2/3])"
  by (cases t)
    (simp_all add: getWorkspaceSplits_def default_rects split_row_rects column_edges_def right_edge_def
      rect_or_def nth_or_def upt_conv_Cons)

lemmas layout_eval =
  createWorkspaceRectsFromSplits_def default_splits createWorkspaceRowRects_def grid_rects_def
  nth_or_def upt_conv_Cons

text \<open>The rectangles of each template, written out.\<close>

lemma rects_columns:
  "createWorkspaceRectsFromSplits TwoColumns (mk_splits [] [a]) = [mk_rect 0 0 a 1, mk_rect a 0 (1 - a) 1]"
  "createWorkspaceRectsFromSplits ThreeColumns (mk_splits [] [a, b]) =
     [mk_rect 0 0 a 1, mk_rect a 0 (b - a) 1, mk_rect b 0 (1 - b) 1]"
  "createWorkspaceRectsFromSplits FourColumns (mk_splits [] [a, b, c]) =
     [mk_rect 0 0 a 1, mk_rect a 0 (b - a) 1, mk_rect b 0 (c - b) 1, mk_rect c 0 (1 - c) 1]"
  by (simp_all add: layout_eval)

lemma rects_main:
  "createWorkspaceRectsFromSplits MainLeftStackRight (mk_splits [y] [a]) =
     [mk_rect 0 0 a 1, mk_rect a 0 (1 - a) y, mk_rect a y (1 - a) (1 - y)]"
  "createWorkspaceRectsFromSplits MainRightStackLeft (mk_splits [y] [a]) =
     [mk_rect a 0 (1 - a) 1, mk_rect 0 0 a y, mk_rect 0 y a (1 - y)]"
  "createWorkspaceRectsFromSplits MainCenterSideStacks (mk_splits [y] [a, b]) =
     [mk_rect a 0 (b - a) 1, mk_rect 0 0 a y, mk_rect 0 y a (1 - y), mk_rect b 0 (1 - b) y,
      mk_rect b y (1 - b) (1 - y)]"
  "createWorkspaceRectsFromSplits Quad (mk_splits [y] [a]) =
     [mk_rect 0 0 a y, mk_rect a 0 (1 - a) y, mk_rect 0 y a (1 - y), mk_rect a y (1 - a) (1 - y)]"
  by (simp_all add: layout_eval)

lemma rects_rows:
  "createWorkspaceRectsFromSplits ThreeTopTwoBottom (mk_splits [y] [a, b, c]) =
     [mk_rect 0 0 a y, mk_rect a 0 (b - a) y, mk_rect b 0 (1 - b) y,
      mk_rect 0 y c (1 - y), mk_rect c y (1 - c) (1 - y)]"
  "createWorkspaceRectsFromSplits TwoTopThreeBottom (mk_splits [y] [a, b, c]) =
     [mk_rect 0 0 a y, mk_rect a 0 (1 - a) y, mk_rect 0 y b (1 - y), mk_rect b y (c - b) (1 - y),
      mk_rect c y (1 - c) (1 - y)]"
  by (simp_all add: layout_eval)

lemma rects_grids:
  "createWorkspaceRectsFromSplits SixGrid (mk_splits [y] [a, b]) =
     [mk_rect 0 0 a y, mk_rect a 0 (b - a) y, mk_rect b 0 (1 - b) y,
      mk_rect 0 y a (1 - y), mk_rect a y (b - a) (1 - y), mk_rect b y (1 - b) (1 - y)]"
  "createWorkspaceRectsFromSplits EightGrid (mk_splits [y] [a, b, c]) =
     [mk_rect 0 0 a y, mk_rect a 0 (b - a) y, mk_rect b 0 (c - b) y, mk_rect c 0 (1 - c) y,
      mk_rect 0 y a (1 - y), mk_rect a y (b - a) (1 - y), mk_rect b y (c - b) (1 - y),
      mk_rect c y (1 - c) (1 - y)]"
  "createWorkspaceRectsFromSplits NineGrid (mk_splits [y, z] [a, b]) =
     [mk_rect 0 0 a y, mk_rect a 0 (b - a) y, mk_rect b 0 (1 - b) y,
      mk_rect 0 y a (z - y), mk_rect a y (b - a) (z - y), mk_rect b y (1 - b) (z - y),
      mk_rect 0 z a (1 - z), mk_rect a z (b - a) (1 - z), mk_rect b z (1 - b) (1 - z)]"
  by (simp_all add: layout_eval)

lemma rects_single: "createWorkspaceRectsFromSplits Single s = [mk_rect 0 0 1 1]"
  by (simp add: createWorkspaceRectsFromSplits_def Let_def)

lemmas layout_rects = rects_columns rects_main rects_rows rects_grids rects_single

section \<open>Tiling, round trip and minimal sizes\<close>

lemma splits_eta: "s = mk_splits (horizontal s) (vertical s)"
  by (simp add: mk_splits_def)

text \<open>Well-formed splits, written out per template.\<close>

lemma spaced_cases:
  assumes "splits_spaced m t s"
  shows "case t of
      Single \<Rightarrow> s = mk_splits [] []
    | TwoColumns \<Rightarrow> \<exists>a. s = mk_splits [] [a] \<and> m \<le> a \<and> a + m \<le> 1
    | ThreeColumns \<Rightarrow> \<exists>a b. s = mk_splits [] [a, b] \<and> m \<le> a \<and> a + m \<le> b \<and> b + m \<le> 1
    | FourColumns \<Rightarrow> \<exists>a b c. s = mk_splits [] [a, b, c] \<and> m \<le> a \<and> a + m \<le> b \<and> b + m \<le> c \<and> c + m \<le> 1
    | MainCenterSideStacks \<Rightarrow> \<exists>y a b. s = mk_splits [y] [a, b] \<and> m \<le> y \<and> y + m \<le> 1 \<and>
        m \<le> a \<and> a + m \<le> b \<and> b + m \<le> 1
    | ThreeTopTwoBottom \<Rightarrow> \<exists>y a b c. s = mk_splits [y] [a, b, c] \<and> m \<le> y \<and> y + m \<le> 1 \<and>
        m \<le> a \<and> a + m \<le> b \<and> b + m \<le> 1 \<and> m \<le> c \<and> c + m \<le> 1
    | TwoTopThreeBottom \<Rightarrow> \<exists>y a b c. s = mk_splits [y] [a, b, c] \<and> m \<le> y \<and> y + m \<le> 1 \<and>
        m \<le> a \<and> a + m \<le> 1 \<and> m \<le> b \<and> b + m \<le> c \<and> c + m \<le> 1
    | SixGrid \<Rightarrow> \<exists>y a b. s = mk_splits [y] [a, b] \<and> m \<le> y \<and> y + m \<le> 1 \<and>
        m \<le> a \<and> a + m \<le> b \<and> b + m \<le> 1
    | EightGrid \<Rightarrow> \<exists>y a b c. s = mk_splits [y] [a, b, c] \<and> m \<le> y \<and> y + m \<le> 1 \<and>
        m \<le> a \<and> a + m \<le> b \<and> b + m \<le> c \<and> c + m \<le> 1
    | NineGrid \<Rightarrow> \<exists>y z a b. s = mk_splits [y, z] [a, b] \<and> m \<le> y \<and> y + m \<le> z \<and> z + m \<le> 1 \<and>
        m \<le> a \<and> a + m \<le> b \<and> b + m \<le> 1
    | _ \<Rightarrow> \<exists>y a. s = mk_splits [y] [a] \<and> m \<le> y \<and> y + m \<le> 1 \<and> m \<le> a \<and> a + m \<le> 1"
proof -
  obtain h v where s: "s = mk_splits h v" using splits_eta by blast
  show ?thesis
    using assms unfolding s
    by (cases t) (auto simp: spaced_eval mk_splits_def)
qed

lemma covers_mk [simp]:
  "covers px py (mk_rect x y w h) \<longleftrightarrow> x \<le> px \<and> px < x + w \<and> y \<le> py \<and> py < y + h"
  by (simp add: covers_def)

text \<open>Rectangles side by side cover a point of their strip once.\<close>

definition times_covered :: "rat \<Rightarrow> rat \<Rightarrow> rect list \<Rightarrow> nat" where
  "times_covered px py rs = length (filter (covers px py) rs)"

lemma times_covered_simps [simp]:
  "times_covered px py [] = 0"
  "times_covered px py (r # rs) = (if covers px py r then Suc (times_covered px py rs) else times_covered px py rs)"
  by (simp_all add: times_covered_def)

lemma covered_nine:
  assumes "0 \<le> px" "px < 1" "0 \<le> py" "py < 1" "0 \<le> a" "a \<le> b" "b \<le> 1" "0 \<le> y" "y \<le> z" "z \<le> 1"
  shows "times_covered px py (createWorkspaceRectsFromSplits NineGrid (mk_splits [y, z] [a, b])) = 1"
  using assms
  by (cases "px < a"; cases "px < b"; cases "py < y"; cases "py < z") (simp_all add: layout_rects)

lemma covered_eight:
  assumes "0 \<le> px" "px < 1" "0 \<le> py" "py < 1" "0 \<le> a" "a \<le> b" "b \<le> c" "c \<le> 1" "0 \<le> y" "y \<le> 1"
  shows "times_covered px py (createWorkspaceRectsFromSplits EightGrid (mk_splits [y] [a, b, c])) = 1"
  using assms
  by (cases "px < a"; cases "px < b"; cases "px < c"; cases "py < y") (simp_all add: layout_rects)

lemma covered_six:
  assumes "0 \<le> px" "px < 1" "0 \<le> py" "py < 1" "0 \<le> a" "a \<le> b" "b \<le> 1" "0 \<le> y" "y \<le> 1"
  shows "times_covered px py (createWorkspaceRectsFromSplits SixGrid (mk_splits [y] [a, b])) = 1"
    and "times_covered px py (createWorkspaceRectsFromSplits MainCenterSideStacks (mk_splits [y] [a, b])) = 1"
  using assms
  by (cases "px < a"; cases "px < b"; cases "py < y"; simp add: layout_rects)+

lemma covered_rows:
  assumes "0 \<le> px" "px < 1" "0 \<le> py" "py < 1" "0 \<le> y" "y \<le> 1"
  shows "0 \<le> a \<Longrightarrow> a \<le> b \<Longrightarrow> b \<le> 1 \<Longrightarrow> 0 \<le> c \<Longrightarrow> c \<le> 1 \<Longrightarrow>
      times_covered px py (createWorkspaceRectsFromSplits ThreeTopTwoBottom (mk_splits [y] [a, b, c])) = 1"
    and "0 \<le> a \<Longrightarrow> a \<le> 1 \<Longrightarrow> 0 \<le> b \<Longrightarrow> b \<le> c \<Longrightarrow> c \<le> 1 \<Longrightarrow>
      times_covered px py (createWorkspaceRectsFromSplits TwoTopThreeBottom (mk_splits [y] [a, b, c])) = 1"
  using assms
  by (cases "px < a"; cases "px < b"; cases "px < c"; cases "py < y"; simp add: layout_rects)+

lemma covered_columns:
  assumes "0 \<le> px" "px < 1" "0 \<le> py" "py < 1"
  shows "0 \<le> a \<Longrightarrow> a \<le> b \<Longrightarrow> b \<le> c \<Longrightarrow> c \<le> 1 \<Longrightarrow>
      times_covered px py (createWorkspaceRectsFromSplits FourColumns (mk_splits [] [a, b, c])) = 1"
    and "0 \<le> a \<Longrightarrow> a \<le> b \<Longrightarrow> b \<le> 1 \<Longrightarrow>
      times_covered px py (createWorkspaceRectsFromSplits ThreeColumns (mk_splits [] [a, b])) = 1"
    and "0 \<le> a \<Longrightarrow> a \<le> 1 \<Longrightarrow>
      times_covered px py (createWorkspaceRectsFromSplits TwoColumns (mk_splits [] [a])) = 1"
    and "times_covered px py (createWorkspaceRectsFromSplits Single s) = 1"
  using assms
  by (cases "px < a"; cases "px < b"; cases "px < c"; simp add: layout_rects)+

lemma covered_stacks:
  assumes "0 \<le> px" "px < 1" "0 \<le> py" "py < 1" "0 \<le> a" "a \<le> 1" "0 \<le> y" "y \<le> 1"
    and "t \<in> {MainLeftStackRight, MainRightStackLeft, Quad}"
  shows "times_covered px py (createWorkspaceRectsFromSplits t (mk_splits [y] [a])) = 1"
  using assms by (cases "px < a"; cases "py < y") (auto simp: layout_rects)


text \<open>Slots that carry a layout: as many as the template has, with its rectangles.\<close>

lemma applied_rects:
  assumes "length slots = getWorkspaceTemplateSlotCount t" and "i < length slots"
  shows "slot_rect (applyWorkspaceSplits t slots s ! i) = createWorkspaceRectsFromSplits t s ! i"
  using assms by (simp add: applyWorkspaceSplits_def Let_def)

lemma applied_length:
  "length slots = getWorkspaceTemplateSlotCount t \<Longrightarrow>
     length (applyWorkspaceSplits t slots s) = getWorkspaceTemplateSlotCount t"
  by (simp add: applyWorkspaceSplits_def Let_def)


lemma with_split_mk [simp]:
  "with_split Horizontal i p (mk_splits h v) = mk_splits (h[i := p]) v"
  "with_split Vertical i p (mk_splits h v) = mk_splits h (v[i := p])"
  by (simp_all add: with_split_def mk_splits_def)

lemmas range_eval =
  getWorkspaceSplitRange_def row_group_def nth_or_def isMultiColumnTemplate_def
  MIN_WORKSPACE_SLOT_SIZE_def EXISTING_LAYOUT_MIN_SPLIT_SIZE_def
  splits_spaced_def split_shape_def split_groups_def


text \<open>The default layout of every template is the layout of its own splits: it has one rectangle
  per slot, its splits keep the minimal slot size, and the rectangles made from them are the
  default rectangles again.\<close>

lemma default_layout_consistent:
  "length (getDefaultWorkspaceRects t) = getWorkspaceTemplateSlotCount t
    \<and> splits_spaced MIN_WORKSPACE_SLOT_SIZE t (getWorkspaceSplits t [])
    \<and> createWorkspaceRectsFromSplits t (getWorkspaceSplits t []) = getDefaultWorkspaceRects t"
  by (cases t)
    (simp_all add: default_splits layout_rects default_rects split_row_rects splits_spaced_def
      split_shape_def split_groups_def MIN_WORKSPACE_SLOT_SIZE_def)

section \<open>A quad layout\<close>

definition demo_slots :: "slot list" where
  "demo_slots = map (\<lambda>i. \<lparr>slot_id = [], slot_roleId = None, slot_web = None, slot_zoom = None,
     slot_rect = mk_rect 0 0 1 1\<rparr>) [0..<4]"

definition demo_splits :: splits where "demo_splits = mk_splits [1 / 4] [2 / 5]"

lemma demo_spaced: "splits_spaced MIN_WORKSPACE_SLOT_SIZE Quad demo_splits" "splits_spaced 0 Quad demo_splits"
  by (simp_all add: splits_spaced_def demo_splits_def split_shape_def split_groups_def
      MIN_WORKSPACE_SLOT_SIZE_def)




end
