(* ===== verification/Workspace_Slots.thy ===== *)
theory Workspace_Slots
  imports Workspace_Layout
begin

text \<open>
  The contents of workspace slots
  (\<open>src/src/renderer/src/features/workspaces/workspaceLayoutUtils.ts\<close>): changing the template,
  assigning and swapping roles and web contents, and merging what the runtime persisted into the
  slots of an open editor.  A role id or URL that is empty is falsy.
\<close>

definition truthy_id :: "string option \<Rightarrow> string option" where
  "truthy_id v = (if v = Some [] then None else v)"

section \<open>Changing the contents\<close>

text \<open>\<open>slot-<n>\<close>; a template has at most nine slots.\<close>

definition decimal :: "nat \<Rightarrow> string" where
  "decimal n = (if n < 10 then [char_of (48 + n)] else [char_of (48 + n div 10), char_of (48 + n mod 10)])"

definition default_slot_id :: "nat \<Rightarrow> string" where
  "default_slot_id i = ''slot-'' @ decimal (Suc i)"

definition withWorkspaceSlotContent ::
  "slot \<Rightarrow> string option \<Rightarrow> web_content option \<Rightarrow> rat option \<Rightarrow> slot" where
  "withWorkspaceSlotContent s roleId web zoom =
     s\<lparr>slot_roleId := truthy_id roleId, slot_web := web,
       slot_zoom := (if truthy_id roleId \<noteq> None \<or> web \<noteq> None then zoom else None)\<rparr>"

definition withWorkspaceSlotRole :: "slot \<Rightarrow> string option \<Rightarrow> rat option \<Rightarrow> slot" where
  "withWorkspaceSlotRole s roleId zoom = withWorkspaceSlotContent s roleId None zoom"

definition applyWorkspaceTemplate :: "slot list \<Rightarrow> template \<Rightarrow> slot list" where
  "applyWorkspaceTemplate slots t =
     (let rects = getDefaultWorkspaceRects t
      in map (\<lambda>i. if i < length slots
                 then let s = slots ! i; role = truthy_id (slot_roleId s)
                      in \<lparr>slot_id = slot_id s, slot_roleId = role, slot_web = slot_web s,
                          slot_zoom = (if role \<noteq> None \<or> slot_web s \<noteq> None then slot_zoom s else None),
                          slot_rect = rects ! i\<rparr>
                 else \<lparr>slot_id = default_slot_id i, slot_roleId = None, slot_web = None,
                       slot_zoom = None, slot_rect = rects ! i\<rparr>)
           [0..<length rects])"

fun index_of :: "('a \<Rightarrow> bool) \<Rightarrow> 'a list \<Rightarrow> nat option" where
  "index_of P [] = None"
| "index_of P (x # xs) = (if P x then Some 0 else map_option Suc (index_of P xs))"

definition assignRoleToWorkspaceSlot :: "slot list \<Rightarrow> nat \<Rightarrow> string option \<Rightarrow> slot list" where
  "assignRoleToWorkspaceSlot slots target roleId =
     (let source = (case truthy_id roleId of
                      None \<Rightarrow> None
                    | Some r \<Rightarrow> index_of (\<lambda>s. slot_roleId s = Some r) slots);
          zoom = (case source of None \<Rightarrow> None | Some i \<Rightarrow> slot_zoom (slots ! i))
      in map (\<lambda>i. if i = target then withWorkspaceSlotRole (slots ! i) roleId zoom
                 else if source = Some i then withWorkspaceSlotRole (slots ! i) None None
                 else slots ! i) [0..<length slots])"

definition assignWebToWorkspaceSlot :: "slot list \<Rightarrow> nat \<Rightarrow> web_content option \<Rightarrow> slot list" where
  "assignWebToWorkspaceSlot slots target web =
     map (\<lambda>i. if i \<noteq> target then slots ! i
             else let s = slots ! i
                  in s\<lparr>slot_roleId := None, slot_web := web,
                       slot_zoom := (if slot_web s \<noteq> None \<and> web \<noteq> None then slot_zoom s else None)\<rparr>)
       [0..<length slots]"

definition swapWorkspaceSlotRoles :: "slot list \<Rightarrow> nat \<Rightarrow> nat \<Rightarrow> slot list" where
  "swapWorkspaceSlotRoles slots source target =
     (if source = target \<or> source \<ge> length slots \<or> target \<ge> length slots then slots
      else
        let a = slots ! source; b = slots ! target
        in map (\<lambda>i. if i = source
                   then withWorkspaceSlotContent (slots ! i) (slot_roleId b) (slot_web b) (slot_zoom b)
                   else if i = target
                   then withWorkspaceSlotContent (slots ! i) (slot_roleId a) (slot_web a) (slot_zoom a)
                   else slots ! i) [0..<length slots])"

section \<open>Merging what the runtime persisted\<close>

text \<open>\<open>new Map(entries)\<close>: the last entry of a key wins.\<close>

definition last_by :: "(slot \<Rightarrow> string option) \<Rightarrow> slot list \<Rightarrow> string \<Rightarrow> slot option" where
  "last_by key slots k = find (\<lambda>s. key s = Some k) (rev slots)"

definition by_role :: "slot list \<Rightarrow> string \<Rightarrow> slot option" where
  "by_role = last_by (\<lambda>s. truthy_id (slot_roleId s))"

definition by_slot :: "slot list \<Rightarrow> string \<Rightarrow> slot option" where
  "by_slot = last_by (\<lambda>s. Some (slot_id s))"

definition merge_zoom :: "slot list \<Rightarrow> slot list \<Rightarrow> slot \<Rightarrow> slot" where
  "merge_zoom previous next s =
     (case truthy_id (slot_roleId s) of
        None \<Rightarrow> s
      | Some r \<Rightarrow>
          (case (by_role previous r, by_role next r) of
             (Some p, Some n) \<Rightarrow>
               if slot_zoom s = slot_zoom p \<and> slot_zoom n \<noteq> slot_zoom s
               then s\<lparr>slot_zoom := slot_zoom n\<rparr> else s
           | _ \<Rightarrow> s))"

definition merge_web :: "slot list \<Rightarrow> slot list \<Rightarrow> slot \<Rightarrow> slot \<Rightarrow> slot" where
  "merge_web previous next s merged =
     (case (slot_web merged, by_slot previous (slot_id s), by_slot next (slot_id s)) of
        (Some w, Some p, Some n) \<Rightarrow>
          (case (slot_web p, slot_web n) of
             (Some wp, Some wn) \<Rightarrow>
               if lastUrl w = lastUrl wp \<and> lastUrl wn \<noteq> lastUrl w
               then merged\<lparr>slot_web := Some \<lparr>lastUrl = lastUrl wn\<rparr>\<rparr> else merged
           | _ \<Rightarrow> merged)
      | _ \<Rightarrow> merged)"

definition mergeWorkspaceRuntimeOverrides :: "slot list \<Rightarrow> slot list \<Rightarrow> slot list \<Rightarrow> slot list" where
  "mergeWorkspaceRuntimeOverrides current previous next =
     map (\<lambda>s. merge_web previous next s (merge_zoom previous next s)) current"

section \<open>Properties\<close>

text \<open>A slot holds at most one content, with a zoom only when it holds one; role ids are not empty.\<close>

definition slot_ok :: "slot \<Rightarrow> bool" where
  "slot_ok s \<longleftrightarrow> slot_roleId s \<noteq> Some [] \<and> (slot_roleId s = None \<or> slot_web s = None) \<and>
     (slot_roleId s = None \<and> slot_web s = None \<longrightarrow> slot_zoom s = None)"

definition holders :: "string \<Rightarrow> slot list \<Rightarrow> nat set" where
  "holders r slots = {i. i < length slots \<and> slot_roleId (slots ! i) = Some r}"

text \<open>No role is in two slots.\<close>

definition roles_unique :: "slot list \<Rightarrow> bool" where
  "roles_unique slots \<longleftrightarrow> (\<forall>r i j. i \<in> holders r slots \<longrightarrow> j \<in> holders r slots \<longrightarrow> i = j)"

lemma index_of_Some: "index_of P xs = Some i \<Longrightarrow> i < length xs \<and> P (xs ! i)"
  by (induction xs arbitrary: i) (auto split: if_splits)

lemma index_of_None: "index_of P xs = None \<Longrightarrow> x \<in> set xs \<Longrightarrow> \<not> P x"
  by (induction xs) (auto split: if_splits)

lemma assign_role_at:
  assumes "i < length slots"
  shows "slot_roleId (assignRoleToWorkspaceSlot slots target roleId ! i) =
    (if i = target then truthy_id roleId
     else if truthy_id roleId \<noteq> None \<and>
             index_of (\<lambda>s. slot_roleId s = truthy_id roleId) slots = Some i then None
     else slot_roleId (slots ! i))"
  using assms
  by (auto simp: assignRoleToWorkspaceSlot_def Let_def withWorkspaceSlotRole_def
      withWorkspaceSlotContent_def truthy_id_def split: option.splits)

text \<open>C39: Assigning a role keeps the workspace sound: if no role was in two slots before, none is
  afterwards; the target slot holds exactly the assigned role; the slots keep their number, their
  identities and their rectangles; and the zoom of a role moves with it.\<close>

theorem assign_role_sound:
  assumes "roles_unique slots" and "list_all slot_ok slots" and "target < length slots"
    and "roleId \<noteq> Some []"
  shows "roles_unique (assignRoleToWorkspaceSlot slots target roleId)
    \<and> slot_roleId (assignRoleToWorkspaceSlot slots target roleId ! target) = roleId
    \<and> list_all slot_ok (assignRoleToWorkspaceSlot slots target roleId)
    \<and> map slot_id (assignRoleToWorkspaceSlot slots target roleId) = map slot_id slots
    \<and> map slot_rect (assignRoleToWorkspaceSlot slots target roleId) = map slot_rect slots
    \<and> (\<forall>r i. roleId = Some r \<longrightarrow> i \<in> holders r slots \<longrightarrow>
         slot_zoom (assignRoleToWorkspaceSlot slots target roleId ! target) = slot_zoom (slots ! i))"
proof -
  let ?new = "assignRoleToWorkspaceSlot slots target roleId"
  have role: "truthy_id roleId = roleId" using assms(4) by (auto simp: truthy_id_def)
  have len: "length ?new = length slots" by (simp add: assignRoleToWorkspaceSlot_def Let_def)
  note at = assign_role_at [of _ slots target roleId, unfolded role]
  have first: "index_of (\<lambda>s. slot_roleId s = Some r) slots = Some i" if "i \<in> holders r slots" for r i
  proof (cases "index_of (\<lambda>s. slot_roleId s = Some r) slots")
    case None
    then show ?thesis using that index_of_None [OF None, of "slots ! i"] by (auto simp: holders_def)
  next
    case (Some j)
    then have "j \<in> holders r slots" using index_of_Some [OF Some] by (auto simp: holders_def)
    then show ?thesis using Some that assms(1) by (auto simp: roles_unique_def)
  qed
  have "roles_unique ?new"
    unfolding roles_unique_def
  proof (intro allI impI)
    fix r i j assume h: "i \<in> holders r ?new" "j \<in> holders r ?new"
    have k: "k = target \<and> roleId = Some r \<or> k \<noteq> target \<and> roleId \<noteq> Some r \<and> k \<in> holders r slots"
      if "k \<in> holders r ?new" for k
      using that at [of k] len first [of k r] by (auto simp: holders_def split: if_splits)
    show "i = j" using k [OF h(1)] k [OF h(2)] assms(1) by (auto simp: roles_unique_def)
  qed
  moreover have "slot_roleId (?new ! target) = roleId" using at [OF assms(3)] by simp
  moreover have "list_all slot_ok ?new"
    using assms(2) by (auto simp: list_all_length assignRoleToWorkspaceSlot_def Let_def
        withWorkspaceSlotRole_def withWorkspaceSlotContent_def slot_ok_def truthy_id_def)
  moreover have "map slot_id ?new = map slot_id slots" "map slot_rect ?new = map slot_rect slots"
    by (auto intro!: nth_equalityI simp: assignRoleToWorkspaceSlot_def Let_def
        withWorkspaceSlotRole_def withWorkspaceSlotContent_def)
  moreover have "slot_zoom (?new ! target) = slot_zoom (slots ! i)"
    if "roleId = Some r" "i \<in> holders r slots" for r i
    using first [OF that(2)] that role assms(3)
    by (simp add: assignRoleToWorkspaceSlot_def Let_def withWorkspaceSlotRole_def
        withWorkspaceSlotContent_def)
  ultimately show ?thesis by blast
qed

text \<open>Swapping two slots exchanges their contents and nothing else, and swapping again restores
  the workspace.\<close>

lemma swap_exchanges:
  assumes "list_all slot_ok slots" and "i < length slots" and "j < length slots"
  shows "swapWorkspaceSlotRoles (swapWorkspaceSlotRoles slots i j) i j = slots
    \<and> (\<forall>k < length slots.
         let s = swapWorkspaceSlotRoles slots i j ! k;
             o' = slots ! (if k = i then j else if k = j then i else k)
         in slot_id s = slot_id (slots ! k) \<and> slot_rect s = slot_rect (slots ! k)
            \<and> slot_roleId s = slot_roleId o' \<and> slot_web s = slot_web o' \<and> slot_zoom s = slot_zoom o')"
proof (cases "i = j")
  case True
  then show ?thesis by (simp add: swapWorkspaceSlotRoles_def Let_def)
next
  case False
  have ok: "slot_ok (slots ! k)" if "k < length slots" for k
    using assms(1) that by (simp add: list_all_length)
  have move: "withWorkspaceSlotContent s (slot_roleId a) (slot_web a) (slot_zoom a)
      = s\<lparr>slot_roleId := slot_roleId a, slot_web := slot_web a, slot_zoom := slot_zoom a\<rparr>"
    if "slot_ok a" for s a
    using that by (auto simp: withWorkspaceSlotContent_def slot_ok_def truthy_id_def)
  have one: "swapWorkspaceSlotRoles slots i j ! k =
      (if k = i then (slots ! i)\<lparr>slot_roleId := slot_roleId (slots ! j), slot_web := slot_web (slots ! j),
          slot_zoom := slot_zoom (slots ! j)\<rparr>
       else if k = j then (slots ! j)\<lparr>slot_roleId := slot_roleId (slots ! i),
          slot_web := slot_web (slots ! i), slot_zoom := slot_zoom (slots ! i)\<rparr>
       else slots ! k)" if "k < length slots" for k
    using that False assms(2,3) move ok by (simp add: swapWorkspaceSlotRoles_def Let_def)
  let ?s = "swapWorkspaceSlotRoles slots i j"
  have len: "length ?s = length slots" by (simp add: swapWorkspaceSlotRoles_def Let_def)
  have at: "slot_roleId (?s ! i) = slot_roleId (slots ! j)" "slot_web (?s ! i) = slot_web (slots ! j)"
    "slot_zoom (?s ! i) = slot_zoom (slots ! j)" "slot_roleId (?s ! j) = slot_roleId (slots ! i)"
    "slot_web (?s ! j) = slot_web (slots ! i)" "slot_zoom (?s ! j) = slot_zoom (slots ! i)"
    using one [OF assms(2)] one [OF assms(3)] False by simp_all
  have ok': "slot_ok (?s ! i)" "slot_ok (?s ! j)"
    using ok [OF assms(2)] ok [OF assms(3)] unfolding slot_ok_def at by blast+
  have "swapWorkspaceSlotRoles ?s i j = slots"
  proof (rule nth_equalityI)
    show "length (swapWorkspaceSlotRoles ?s i j) = length slots"
      using len by (simp add: swapWorkspaceSlotRoles_def Let_def)
  next
    fix k assume "k < length (swapWorkspaceSlotRoles ?s i j)"
    then have k: "k < length slots" using len by (simp add: swapWorkspaceSlotRoles_def Let_def split: if_splits)
    have "swapWorkspaceSlotRoles ?s i j ! k =
      (if k = i then (?s ! i)\<lparr>slot_roleId := slot_roleId (?s ! j), slot_web := slot_web (?s ! j),
          slot_zoom := slot_zoom (?s ! j)\<rparr>
       else if k = j then (?s ! j)\<lparr>slot_roleId := slot_roleId (?s ! i), slot_web := slot_web (?s ! i),
          slot_zoom := slot_zoom (?s ! i)\<rparr>
       else ?s ! k)"
      unfolding swapWorkspaceSlotRoles_def [of ?s] Let_def
      using k len False assms(2,3) move [OF ok'(1)] move [OF ok'(2)] by simp
    also have "\<dots> = slots ! k"
      unfolding at using one [OF assms(2)] one [OF assms(3)] one [OF k] False by simp
    finally show "swapWorkspaceSlotRoles ?s i j ! k = slots ! k" .
  qed
  then show ?thesis using one False by (simp add: Let_def)
qed

text \<open>A value the editor did not touch since \<open>previous\<close> follows \<open>next\<close>, any other stays.\<close>

definition three_way :: "'a \<Rightarrow> 'a \<Rightarrow> 'a \<Rightarrow> 'a" where
  "three_way mine previous next = (if mine = previous then next else mine)"

text \<open>C40: Merging runtime overrides is a three-way merge of zoom and web location: a slot whose role
  is known to both persisted versions takes the new zoom exactly if its own is still the old one, a
  web slot known to both takes the new location in the same way; everything else in every slot,
  and the order of the slots, stays as edited.\<close>

theorem merge_is_three_way:
  assumes "i < length current"
  shows "let s = current ! i; m = mergeWorkspaceRuntimeOverrides current previous next ! i
    in length (mergeWorkspaceRuntimeOverrides current previous next) = length current
      \<and> slot_id m = slot_id s \<and> slot_roleId m = slot_roleId s \<and> slot_rect m = slot_rect s
      \<and> slot_zoom m = (case truthy_id (slot_roleId s) of
          None \<Rightarrow> slot_zoom s
        | Some r \<Rightarrow> (case (by_role previous r, by_role next r) of
            (Some p, Some n) \<Rightarrow> three_way (slot_zoom s) (slot_zoom p) (slot_zoom n)
          | _ \<Rightarrow> slot_zoom s))
      \<and> map_option lastUrl (slot_web m) =
          (case (slot_web s, by_slot previous (slot_id s), by_slot next (slot_id s)) of
            (Some w, Some p, Some n) \<Rightarrow>
              (case (slot_web p, slot_web n) of
                (Some wp, Some wn) \<Rightarrow> Some (three_way (lastUrl w) (lastUrl wp) (lastUrl wn))
              | _ \<Rightarrow> Some (lastUrl w))
          | _ \<Rightarrow> map_option lastUrl (slot_web s))"
proof -
  have zoom: "slot_id (merge_zoom previous next s) = slot_id s"
    "slot_roleId (merge_zoom previous next s) = slot_roleId s"
    "slot_rect (merge_zoom previous next s) = slot_rect s"
    "slot_web (merge_zoom previous next s) = slot_web s" for s
    by (auto simp: merge_zoom_def split: option.splits)
  have web: "slot_id (merge_web previous next s m) = slot_id m"
    "slot_roleId (merge_web previous next s m) = slot_roleId m"
    "slot_rect (merge_web previous next s m) = slot_rect m"
    "slot_zoom (merge_web previous next s m) = slot_zoom m" for s m
    by (auto simp: merge_web_def split: option.splits)
  have zv: "slot_zoom (merge_zoom previous next s) = (case truthy_id (slot_roleId s) of
          None \<Rightarrow> slot_zoom s
        | Some r \<Rightarrow> (case (by_role previous r, by_role next r) of
            (Some p, Some n) \<Rightarrow> three_way (slot_zoom s) (slot_zoom p) (slot_zoom n)
          | _ \<Rightarrow> slot_zoom s))" for s
    by (auto simp: merge_zoom_def three_way_def split: option.splits)
  have wv: "map_option lastUrl (slot_web (merge_web previous next s m)) =
          (case (slot_web m, by_slot previous (slot_id s), by_slot next (slot_id s)) of
            (Some w, Some p, Some n) \<Rightarrow>
              (case (slot_web p, slot_web n) of
                (Some wp, Some wn) \<Rightarrow> Some (three_way (lastUrl w) (lastUrl wp) (lastUrl wn))
              | _ \<Rightarrow> Some (lastUrl w))
          | _ \<Rightarrow> map_option lastUrl (slot_web m))" for s m
    by (auto simp: merge_web_def three_way_def split: option.splits)
  have "mergeWorkspaceRuntimeOverrides current previous next ! i
      = merge_web previous next (current ! i) (merge_zoom previous next (current ! i))"
    using assms by (simp add: mergeWorkspaceRuntimeOverrides_def)
  then show ?thesis
    using wv [of "current ! i" "merge_zoom previous next (current ! i)"] zv [of "current ! i"]
    unfolding Let_def zoom web by (simp add: mergeWorkspaceRuntimeOverrides_def zoom web)
qed

text \<open>Changing the template keeps what fits: the new slots are as many as the template has, with
  its default rectangles; each slot that existed keeps its identity, its content and its zoom, the
  others are empty; and changing to the same template again changes nothing.\<close>

lemma template_change_keeps_contents:
  assumes "list_all slot_ok slots"
  shows "map slot_rect (applyWorkspaceTemplate slots t) = getDefaultWorkspaceRects t
    \<and> length (applyWorkspaceTemplate slots t) = getWorkspaceTemplateSlotCount t
    \<and> (\<forall>i < getWorkspaceTemplateSlotCount t.
         if i < length slots
         then applyWorkspaceTemplate slots t ! i = (slots ! i)\<lparr>slot_rect := getDefaultWorkspaceRects t ! i\<rparr>
         else slot_roleId (applyWorkspaceTemplate slots t ! i) = None
            \<and> slot_web (applyWorkspaceTemplate slots t ! i) = None)
    \<and> list_all slot_ok (applyWorkspaceTemplate slots t)
    \<and> applyWorkspaceTemplate (applyWorkspaceTemplate slots t) t = applyWorkspaceTemplate slots t"
proof -
  have cnt: "length (getDefaultWorkspaceRects t) = getWorkspaceTemplateSlotCount t"
    by (cases t) (simp_all add: default_rects split_row_rects)
  have ok: "slot_ok (slots ! i)" if "i < length slots" for i
    using assms that by (simp add: list_all_length)
  have at: "applyWorkspaceTemplate xs t ! i = (xs ! i)\<lparr>slot_rect := getDefaultWorkspaceRects t ! i\<rparr>"
    if "i < getWorkspaceTemplateSlotCount t" "i < length xs" "slot_ok (xs ! i)" for xs i
    using that cnt by (auto simp: applyWorkspaceTemplate_def Let_def slot_ok_def truthy_id_def)
  have new: "slot_roleId (applyWorkspaceTemplate slots t ! i) = None
      \<and> slot_web (applyWorkspaceTemplate slots t ! i) = None \<and> slot_ok (applyWorkspaceTemplate slots t ! i)"
    if "i < getWorkspaceTemplateSlotCount t" "\<not> i < length slots" for i
    using that cnt by (simp add: applyWorkspaceTemplate_def Let_def slot_ok_def)
  have len: "length (applyWorkspaceTemplate xs t) = getWorkspaceTemplateSlotCount t" for xs
    using cnt by (simp add: applyWorkspaceTemplate_def Let_def)
  have rects: "map slot_rect (applyWorkspaceTemplate xs t) = getDefaultWorkspaceRects t" for xs
    by (rule nth_equalityI) (auto simp: applyWorkspaceTemplate_def Let_def)
  have all_ok: "slot_ok (applyWorkspaceTemplate slots t ! i)" if "i < getWorkspaceTemplateSlotCount t" for i
    using that new [OF that] at [OF that _ ok] ok by (cases "i < length slots") (auto simp: slot_ok_def)
  have rect_at: "slot_rect (applyWorkspaceTemplate slots t ! i) = getDefaultWorkspaceRects t ! i"
    if "i < getWorkspaceTemplateSlotCount t" for i
    using rects [of slots] len [of slots] that by (metis nth_map)
  have "applyWorkspaceTemplate (applyWorkspaceTemplate slots t) t = applyWorkspaceTemplate slots t"
  proof (rule nth_equalityI)
    fix i assume "i < length (applyWorkspaceTemplate (applyWorkspaceTemplate slots t) t)"
    then have i: "i < getWorkspaceTemplateSlotCount t" by (simp add: len)
    show "applyWorkspaceTemplate (applyWorkspaceTemplate slots t) t ! i = applyWorkspaceTemplate slots t ! i"
      using at [OF i _ all_ok [OF i]] len [of slots] i rect_at [OF i] by simp
  qed (simp add: len)
  then show ?thesis
    using rects len at ok new all_ok by (simp add: list_all_length)
qed

section \<open>Two roles and a web page\<close>

definition demo_contents :: "slot list" where
  "demo_contents =
     [\<lparr>slot_id = ''1'', slot_roleId = Some ''a'', slot_web = None, slot_zoom = Some 90, slot_rect = mk_rect 0 0 (1/2) 1\<rparr>,
      \<lparr>slot_id = ''2'', slot_roleId = None, slot_web = Some \<lparr>lastUrl = None\<rparr>, slot_zoom = None,
       slot_rect = mk_rect (1/2) 0 (1/2) 1\<rparr>]"

lemma demo_contents_ok: "list_all slot_ok demo_contents" "length demo_contents = 2"
  by (simp_all add: demo_contents_def slot_ok_def)

lemma demo_contents_unique: "roles_unique demo_contents"
  by (auto simp: roles_unique_def holders_def demo_contents_def less_Suc_eq)

theorem assign_role_sound_witness:
  "slot_roleId (assignRoleToWorkspaceSlot demo_contents 1 (Some ''a'') ! 1) = Some ''a''
    \<and> slot_zoom (assignRoleToWorkspaceSlot demo_contents 1 (Some ''a'') ! 1) = Some 90"
proof -
  have "0 \<in> holders ''a'' demo_contents" "slot_zoom (demo_contents ! 0) = Some 90"
    by (simp_all add: holders_def demo_contents_def)
  then show ?thesis
    using assign_role_sound [OF demo_contents_unique demo_contents_ok(1), of 1 "Some ''a''"] demo_contents_ok(2)
    by auto
qed

theorem merge_is_three_way_witness:
  "slot_zoom (mergeWorkspaceRuntimeOverrides demo_contents demo_contents
     [(demo_contents ! 0)\<lparr>slot_zoom := Some 110\<rparr>] ! 0) = Some 110"
  using merge_is_three_way [of 0 demo_contents demo_contents "[(demo_contents ! 0)\<lparr>slot_zoom := Some 110\<rparr>]"]
  by (simp add: demo_contents_def Let_def truthy_id_def by_role_def last_by_def three_way_def)

end
