(* ===== verification/Workspace_Resize.thy ===== *)
theory Workspace_Resize
  imports Workspace_Layout
begin

text \<open>
  Snapping of a dragged divider (\<open>src/src/shared/workspaceResize.ts\<close>): candidates are the ends of
  the range, the initial position, thirds and halves, and every 5 percent; the position snaps to
  the closest one, with hysteresis around the previous choice.  Numbers are exact rationals.
\<close>

definition SNAP_STEP :: rat where "SNAP_STEP = 5 / 100"
definition COMMON_POSITIONS :: "rat list" where "COMMON_POSITIONS = [1 / 3, 1 / 2, 2 / 3]"
definition RESIZE_EPSILON :: rat where "RESIZE_EPSILON = 1 / 1000000"
definition SWITCH_TOLERANCE :: rat where "SWITCH_TOLERANCE = 1 / 1000"

record snap_options =
  sp_initialPosition :: rat
  sp_max :: rat
  sp_min :: rat
  sp_previousPosition :: "rat option"

definition clampWorkspaceResizePosition :: "rat \<Rightarrow> rat \<Rightarrow> rat \<Rightarrow> rat" where
  "clampWorkspaceResizePosition v lo hi = min hi (max lo v)"

text \<open>\<open>Math.round\<close> rounds halves up.\<close>

definition js_round :: "rat \<Rightarrow> int" where "js_round v = \<lfloor>v + 1 / 2\<rfloor>"

definition roundWorkspaceResizePosition :: "rat \<Rightarrow> rat" where
  "roundWorkspaceResizePosition v = of_int (js_round (v * 1000000)) / 1000000"

text \<open>\<open>addCandidate\<close> on the candidates so far.\<close>

definition add_candidate :: "rat \<Rightarrow> rat \<Rightarrow> bool \<Rightarrow> rat \<Rightarrow> rat list \<Rightarrow> rat list" where
  "add_candidate lo hi rounded c cs =
     (if lo - RESIZE_EPSILON \<le> c \<and> c \<le> hi + RESIZE_EPSILON
      then let v = clampWorkspaceResizePosition c lo hi
           in js_add (if rounded then roundWorkspaceResizePosition v else v) cs
      else cs)"

definition step_positions :: "rat \<Rightarrow> rat \<Rightarrow> rat list" where
  "step_positions lo hi =
     map (\<lambda>i. of_int i * SNAP_STEP)
       [\<lceil>(lo - RESIZE_EPSILON) / SNAP_STEP\<rceil>..\<lfloor>(hi + RESIZE_EPSILON) / SNAP_STEP\<rfloor>]"

definition createWorkspaceResizeSnapCandidates :: "rat \<Rightarrow> rat \<Rightarrow> rat \<Rightarrow> rat list" where
  "createWorkspaceResizeSnapCandidates lo hi initial =
     sort (fold (add_candidate lo hi True) (step_positions lo hi)
            (fold (add_candidate lo hi False) (lo # hi # initial # COMMON_POSITIONS) []))"

definition closer :: "rat \<Rightarrow> rat \<Rightarrow> rat \<Rightarrow> rat" where
  "closer requested c closest =
     (if \<bar>requested - c\<bar> < \<bar>requested - closest\<bar> - RESIZE_EPSILON then c else closest)"

definition snapWorkspaceResizePosition :: "rat \<Rightarrow> snap_options \<Rightarrow> rat" where
  "snapWorkspaceResizePosition requestedPosition o' =
     (let lo = min (sp_min o') (sp_max o'); hi = max (sp_min o') (sp_max o');
          requested = clampWorkspaceResizePosition requestedPosition lo hi;
          candidates = createWorkspaceResizeSnapCandidates lo hi (sp_initialPosition o');
          closest = fold (closer requested) (tl candidates)
                      (case candidates of [] \<Rightarrow> requested | c # _ \<Rightarrow> c)
      in (case sp_previousPosition o' of
            None \<Rightarrow> closest
          | Some p \<Rightarrow>
              if lo - RESIZE_EPSILON \<le> p \<and> p \<le> hi + RESIZE_EPSILON
              then (case find (\<lambda>c. \<bar>c - p\<bar> < RESIZE_EPSILON) candidates of
                      None \<Rightarrow> closest
                    | Some c \<Rightarrow>
                        if \<bar>requested - c\<bar> \<le> \<bar>requested - closest\<bar> + SWITCH_TOLERANCE then c else closest)
              else closest))"

section \<open>Properties\<close>

lemma closer_fold:
  "\<bar>requested - fold (closer requested) cs c\<bar> \<le> \<bar>requested - c\<bar>
    \<and> (\<forall>d \<in> set cs. \<bar>requested - fold (closer requested) cs c\<bar> \<le> \<bar>requested - d\<bar> + RESIZE_EPSILON)
    \<and> fold (closer requested) cs c \<in> set (c # cs)"
proof (induction cs arbitrary: c)
  case (Cons d cs)
  have step: "\<bar>requested - closer requested d c\<bar> \<le> \<bar>requested - c\<bar>"
    "\<bar>requested - closer requested d c\<bar> \<le> \<bar>requested - d\<bar> + RESIZE_EPSILON"
    "closer requested d c \<in> {c, d}"
    by (auto simp: closer_def RESIZE_EPSILON_def)
  show ?case using Cons.IH [of "closer requested d c"] step by auto
qed simp

lemma round_near: "\<bar>roundWorkspaceResizePosition v - v\<bar> \<le> RESIZE_EPSILON / 2"
proof -
  define n :: rat where "n = of_int \<lfloor>v * 1000000 + 1 / 2\<rfloor>"
  have "n \<le> v * 1000000 + 1 / 2" "v * 1000000 + 1 / 2 < n + 1"
    unfolding n_def by (rule of_int_floor_le, rule floor_correct [THEN conjunct2, simplified])
  moreover have "roundWorkspaceResizePosition v = n / 1000000"
    by (simp add: roundWorkspaceResizePosition_def js_round_def n_def)
  ultimately show ?thesis by (simp add: RESIZE_EPSILON_def abs_if)
qed

lemma clamp_range: "lo \<le> hi \<Longrightarrow> lo \<le> clampWorkspaceResizePosition v lo hi \<and> clampWorkspaceResizePosition v lo hi \<le> hi"
  by (simp add: clampWorkspaceResizePosition_def)

lemma rounded_range:
  assumes "lo \<le> hi"
  shows "lo - RESIZE_EPSILON / 2 \<le> roundWorkspaceResizePosition (clampWorkspaceResizePosition v lo hi)"
    and "roundWorkspaceResizePosition (clampWorkspaceResizePosition v lo hi) \<le> hi + RESIZE_EPSILON / 2"
  using round_near [THEN abs_le_D1, of "clampWorkspaceResizePosition v lo hi"]
    round_near [THEN abs_le_D2, of "clampWorkspaceResizePosition v lo hi"] clamp_range [OF assms, of v]
  by linarith+

definition in_range :: "rat \<Rightarrow> rat \<Rightarrow> rat list \<Rightarrow> bool" where
  "in_range lo hi cs \<longleftrightarrow> list_all (\<lambda>c. lo - RESIZE_EPSILON / 2 \<le> c \<and> c \<le> hi + RESIZE_EPSILON / 2) cs"

lemma in_range_step:
  assumes "lo \<le> hi" and "in_range lo hi cs"
  shows "in_range lo hi (add_candidate lo hi rounded x cs)"
proof -
  have "0 \<le> RESIZE_EPSILON" by (simp add: RESIZE_EPSILON_def)
  then show ?thesis
    using assms(2) rounded_range [OF assms(1), of x] clamp_range [OF assms(1), of x]
    by (auto simp: in_range_def list_all_iff add_candidate_def Let_def intro: order_trans [rotated] order_trans)
qed

lemma in_range_fold:
  "lo \<le> hi \<Longrightarrow> in_range lo hi cs \<Longrightarrow> in_range lo hi (fold (add_candidate lo hi rounded) xs cs)"
proof (induction xs arbitrary: cs)
  case (Cons x xs)
  then show ?case using in_range_step [of lo hi cs rounded x] by simp
qed simp

lemma candidates_range:
  assumes "lo \<le> hi" and "c \<in> set (createWorkspaceResizeSnapCandidates lo hi initial)"
  shows "lo - RESIZE_EPSILON / 2 \<le> c \<and> c \<le> hi + RESIZE_EPSILON / 2"
proof -
  have "in_range lo hi []" by (simp add: in_range_def)
  then have "in_range lo hi (fold (add_candidate lo hi True) (step_positions lo hi)
      (fold (add_candidate lo hi False) (lo # hi # initial # COMMON_POSITIONS) []))"
    using in_range_fold assms(1) by blast
  then show ?thesis
    using assms(2) by (simp add: in_range_def list_all_iff createWorkspaceResizeSnapCandidates_def del: fold.simps)
qed

lemma fold_candidates_grow: "set cs \<subseteq> set (fold (add_candidate lo hi rounded) xs cs)"
proof (induction xs arbitrary: cs)
  case (Cons x xs)
  have "set cs \<subseteq> set (add_candidate lo hi rounded x cs)" by (auto simp: add_candidate_def Let_def)
  then show ?case using Cons.IH [of "add_candidate lo hi rounded x cs"] by auto
qed simp

lemma candidates_ends:
  assumes "lo \<le> hi"
  shows "lo \<in> set (createWorkspaceResizeSnapCandidates lo hi initial)"
    and "hi \<in> set (createWorkspaceResizeSnapCandidates lo hi initial)"
proof -
  let ?first = "add_candidate lo hi False hi (add_candidate lo hi False lo [])"
  have "lo \<in> set ?first" "hi \<in> set ?first"
    using assms by (auto simp: add_candidate_def clampWorkspaceResizePosition_def RESIZE_EPSILON_def Let_def)
  then show "lo \<in> set (createWorkspaceResizeSnapCandidates lo hi initial)"
    "hi \<in> set (createWorkspaceResizeSnapCandidates lo hi initial)"
    using fold_candidates_grow [of ?first lo hi False "initial # COMMON_POSITIONS"]
      fold_candidates_grow [of "fold (add_candidate lo hi False) (initial # COMMON_POSITIONS) ?first" lo hi True]
    by (auto simp: createWorkspaceResizeSnapCandidates_def)
qed

text \<open>A dragged divider always snaps to a candidate position of its range, and to a nearest one:
  the result is a candidate, lies in the range up to half a millionth, and no candidate is closer to
  the requested (clamped) position by more than a millionth - or, where the previous choice is kept,
  by more than a thousandth and a millionth.\<close>

lemma snap_nearest_candidate:
  fixes o' :: snap_options
  assumes "lo = min (sp_min o') (sp_max o')" and "hi = max (sp_min o') (sp_max o')"
    and "requested = clampWorkspaceResizePosition position lo hi"
    and "candidates = createWorkspaceResizeSnapCandidates lo hi (sp_initialPosition o')"
    and "tolerance = (if sp_previousPosition o' = None then 0 else SWITCH_TOLERANCE)"
  shows "snapWorkspaceResizePosition position o' \<in> set candidates
    \<and> lo - RESIZE_EPSILON / 2 \<le> snapWorkspaceResizePosition position o'
    \<and> snapWorkspaceResizePosition position o' \<le> hi + RESIZE_EPSILON / 2
    \<and> (\<forall>c \<in> set candidates. \<bar>requested - snapWorkspaceResizePosition position o'\<bar>
         \<le> \<bar>requested - c\<bar> + RESIZE_EPSILON + tolerance)"
proof -
  have le: "lo \<le> hi" using assms(1,2) by simp
  have ne: "candidates \<noteq> []" using candidates_ends(1) [OF le, of "sp_initialPosition o'"] assms(4) by auto
  define closest where "closest = fold (closer requested) (tl candidates) (hd candidates)"
  have near: "closest \<in> set candidates"
    "\<forall>c \<in> set candidates. \<bar>requested - closest\<bar> \<le> \<bar>requested - c\<bar> + RESIZE_EPSILON"
    using closer_fold [of requested "tl candidates" "hd candidates"] ne
    by (auto simp: closest_def RESIZE_EPSILON_def neq_Nil_conv)
  have snap: "snapWorkspaceResizePosition position o' = (case sp_previousPosition o' of
            None \<Rightarrow> closest
          | Some p \<Rightarrow>
              if lo - RESIZE_EPSILON \<le> p \<and> p \<le> hi + RESIZE_EPSILON
              then (case find (\<lambda>c. \<bar>c - p\<bar> < RESIZE_EPSILON) candidates of
                      None \<Rightarrow> closest
                    | Some c \<Rightarrow>
                        if \<bar>requested - c\<bar> \<le> \<bar>requested - closest\<bar> + SWITCH_TOLERANCE then c else closest)
              else closest)"
    using ne unfolding snapWorkspaceResizePosition_def Let_def assms(1-4) [symmetric] closest_def
    by (simp add: neq_Nil_conv split: list.splits option.splits) auto
  have "snapWorkspaceResizePosition position o' \<in> set candidates
    \<and> (\<forall>c \<in> set candidates. \<bar>requested - snapWorkspaceResizePosition position o'\<bar>
         \<le> \<bar>requested - c\<bar> + RESIZE_EPSILON + tolerance)"
    using near unfolding snap assms(5)
    by (fastforce simp: find_Some_iff SWITCH_TOLERANCE_def split: option.splits)
  then show ?thesis using candidates_range [OF le] assms(4) by blast
qed

end
