(* ===== verification/Quit_Lifecycle.thy ===== *)
theory Quit_Lifecycle
  imports Prelude "HOL-Library.Sublist"
begin

text \<open>
  Quitting the application (\<open>src/src/electron/main/lifecycle.ts\<close>, class \<open>ElectronMainLifecycle\<close>):
  the renderer's confirmation, the persisted clean-exit boundary, the shutdown of Core, the fatal
  quit that invalidates a clean one, and the routing of a failed clean quit.

  A promise field is \<open>None\<close> before its method ran.  The chain of \<open>then\<close>s behind
  \<open>#cleanQuitPromise\<close> is \<open>qs_clean\<close>, one stage for every point where other code may run; each
  continuation is one operation, so every interleaving of continuations, method calls and answers
  of the ports is a sequence of steps.  \<open>qs_log\<close> records what the code does to the outside, in order.
\<close>

section \<open>State\<close>

datatype failure_phase = CleanBoundary | CheckedCoreShutdown | PostShutdownFatalFence

record clean_failure =
  cf_cleanBoundaryPersisted :: bool
  cf_error :: js_error
  cf_fatalGenerationInvalidated :: bool
  cf_phase :: failure_phase

datatype promise = Waiting | Resolved | Rejected js_error

datatype clean_stage =
    BoundaryQueued
  | BoundaryRunning
  | BoundaryPassed
  | ShutdownAwaited
  | CleanSettled "js_error option"

datatype shutdown_stage = ShutdownQueued | ShutdownRunning | ShutdownSettled "js_error option"

datatype quit_kind = QuitOnly | QuitAndRelaunch

datatype quit_stage = AwaitsClean quit_kind | QuitFinished "js_error option"

datatype fatal_stage = AwaitsCleanEnd | AwaitsShutdown

datatype quit_log =
    CleanExitCalled
  | CleanExitPersisted
  | ShutdownCalled
  | ShutdownProven
  | CleanQuitProven
  | FatalBegan
  | AppRelaunch
  | AppQuit
  | ErrorReported string
  | FailureRouted clean_failure

record quit_state =
  qs_stopped :: bool
  qs_shutdown :: "shutdown_stage option"
  qs_fatal :: "fatal_stage option"
  qs_clean :: "clean_stage option"
  qs_cleanObserved :: bool  \<comment> \<open>\<open>#observeCleanQuitFailure\<close> is attached to it\<close>
  qs_quit :: "quit_stage option"
  qs_fatalGeneration :: nat
  qs_cleanFailureRouted :: bool
  qs_cleanBoundaryPersisted :: bool
  qs_cleanFailurePhase :: failure_phase
  qs_log :: "quit_log list"

text \<open>The optional members of the input: whether there is a \<open>prepareCleanExit\<close>, whether the app can
  relaunch, and the platform.\<close>

record quit_input =
  qi_prepareCleanExit :: bool
  qi_relaunch :: bool
  qi_darwin :: bool

definition new_quit_state :: quit_state where
  "new_quit_state = \<lparr>qs_stopped = False, qs_shutdown = None, qs_fatal = None, qs_clean = None,
     qs_cleanObserved = False, qs_quit = None, qs_fatalGeneration = 0, qs_cleanFailureRouted = False,
     qs_cleanBoundaryPersisted = False, qs_cleanFailurePhase = CleanBoundary, qs_log = []\<rparr>"

definition log_quit :: "quit_log \<Rightarrow> quit_state \<Rightarrow> quit_state" where
  "log_quit x s = s\<lparr>qs_log := qs_log s @ [x]\<rparr>"

text \<open>\<open>#reportError\<close>: what \<open>onError\<close> throws is swallowed.\<close>

definition reportError :: "js_error \<Rightarrow> quit_state \<Rightarrow> quit_state" where
  "reportError e s = log_quit (ErrorReported (normalizeRionBridgeError ''ELECTRON_LIFECYCLE_FAILED'' e)) s"

section \<open>Shutting Core down\<close>

definition prepareQuit :: "quit_state \<Rightarrow> quit_state" where
  "prepareQuit s = (case qs_shutdown s of
     Some _ \<Rightarrow> s
   | None \<Rightarrow> s\<lparr>qs_shutdown := Some ShutdownQueued\<rparr>)"

definition call_shutdown :: "quit_state \<Rightarrow> quit_state" where
  "call_shutdown s = (if qs_shutdown s = Some ShutdownQueued
     then log_quit ShutdownCalled (s\<lparr>qs_shutdown := Some ShutdownRunning\<rparr>) else s)"

definition shutdown_answered :: "unit outcome \<Rightarrow> quit_state \<Rightarrow> quit_state" where
  "shutdown_answered r s = (if qs_shutdown s = Some ShutdownRunning
     then (case r of
             Inr _ \<Rightarrow> log_quit ShutdownProven (s\<lparr>qs_stopped := True, qs_shutdown := Some (ShutdownSettled None)\<rparr>)
           | Inl e \<Rightarrow> reportError e (s\<lparr>qs_shutdown := Some (ShutdownSettled (Some e))\<rparr>))
     else s)"

section \<open>The fatal quit\<close>

definition beginFatalQuit :: "quit_state \<Rightarrow> quit_state" where
  "beginFatalQuit s = (if qs_fatalGeneration s = 0
     then log_quit FatalBegan (s\<lparr>qs_fatalGeneration := 1\<rparr>) else s)"

definition prepareFatalQuit :: "quit_state \<Rightarrow> quit_state" where
  "prepareFatalQuit s = (let s' = beginFatalQuit s in
     case qs_fatal s' of Some _ \<Rightarrow> s' | None \<Rightarrow> s'\<lparr>qs_fatal := Some AwaitsCleanEnd\<rparr>)"

text \<open>A clean quit that began after the fatal one rejects at once, so waiting for the clean quit of
  that time or of now is the same.\<close>

definition clean_ended :: "quit_state \<Rightarrow> bool" where
  "clean_ended s \<longleftrightarrow> (case qs_clean s of None \<Rightarrow> True | Some (CleanSettled _) \<Rightarrow> True | _ \<Rightarrow> False)"

definition fatal_continues :: "quit_state \<Rightarrow> quit_state" where
  "fatal_continues s = (if qs_fatal s = Some AwaitsCleanEnd \<and> clean_ended s
     then prepareQuit (s\<lparr>qs_fatal := Some AwaitsShutdown\<rparr>) else s)"

section \<open>The clean quit\<close>

definition requireCleanQuitGeneration :: "nat \<Rightarrow> quit_state \<Rightarrow> unit outcome" where
  "requireCleanQuitGeneration g s =
     (if g = 0 \<and> qs_fatalGeneration s = g then Inr () else Inl PlainError)"

text \<open>\<open>prepareCleanQuit\<close>: the result says whether the returned promise is \<open>#cleanQuitPromise\<close>
  (\<open>Inr\<close>) or a rejection that is not kept (\<open>Inl\<close>).\<close>

definition prepareCleanQuit :: "quit_input \<Rightarrow> quit_state \<Rightarrow> quit_state \<times> unit outcome" where
  "prepareCleanQuit i s =
     (if qs_clean s \<noteq> None then (s, Inr ())
      else if qi_prepareCleanExit i \<and> qs_shutdown s \<noteq> None
        then (reportError PlainError s, Inl PlainError)
      else (case requireCleanQuitGeneration (qs_fatalGeneration s) s of
              Inl e \<Rightarrow> ((reportError e s)\<lparr>qs_clean := Some (CleanSettled (Some e))\<rparr>, Inr ())
            | Inr _ \<Rightarrow>
                if \<not> qi_prepareCleanExit i
                then (prepareQuit (s\<lparr>qs_cleanFailurePhase := CheckedCoreShutdown,
                        qs_clean := Some ShutdownAwaited, qs_cleanObserved := True\<rparr>), Inr ())
                else (s\<lparr>qs_clean := Some BoundaryQueued, qs_cleanObserved := True\<rparr>, Inr ())))"

definition call_clean_exit :: "quit_state \<Rightarrow> quit_state" where
  "call_clean_exit s = (if qs_clean s = Some BoundaryQueued
     then log_quit CleanExitCalled (s\<lparr>qs_clean := Some BoundaryRunning\<rparr>) else s)"

text \<open>The clean generation captured at the start is 0: otherwise there is no boundary.\<close>

definition clean_exit_answered :: "unit outcome \<Rightarrow> quit_state \<Rightarrow> quit_state" where
  "clean_exit_answered r s = (if qs_clean s = Some BoundaryRunning
     then (case r of
             Inl e \<Rightarrow> (reportError e s)\<lparr>qs_clean := Some (CleanSettled (Some e))\<rparr>
           | Inr _ \<Rightarrow>
               let s' = log_quit CleanExitPersisted (s\<lparr>qs_cleanBoundaryPersisted := True\<rparr>)
               in (case requireCleanQuitGeneration 0 s' of
                     Inr _ \<Rightarrow> s'\<lparr>qs_clean := Some BoundaryPassed\<rparr>
                   | Inl e \<Rightarrow> (reportError e s')\<lparr>qs_clean := Some (CleanSettled (Some e))\<rparr>))
     else s)"

definition enter_shutdown :: "quit_state \<Rightarrow> quit_state" where
  "enter_shutdown s = (if qs_clean s = Some BoundaryPassed
     then prepareQuit (s\<lparr>qs_cleanFailurePhase := CheckedCoreShutdown, qs_clean := Some ShutdownAwaited\<rparr>)
     else s)"

definition clean_after_shutdown :: "quit_state \<Rightarrow> quit_state" where
  "clean_after_shutdown s =
     (case (qs_clean s, qs_shutdown s) of
        (Some ShutdownAwaited, Some (ShutdownSettled (Some e))) \<Rightarrow>
          s\<lparr>qs_clean := Some (CleanSettled (Some e))\<rparr>
      | (Some ShutdownAwaited, Some (ShutdownSettled None)) \<Rightarrow>
          let s' = s\<lparr>qs_cleanFailurePhase := PostShutdownFatalFence\<rparr>
          in (case requireCleanQuitGeneration 0 s' of
                Inr _ \<Rightarrow> log_quit CleanQuitProven (s'\<lparr>qs_clean := Some (CleanSettled None)\<rparr>)
              | Inl e \<Rightarrow> (reportError e s')\<lparr>qs_clean := Some (CleanSettled (Some e))\<rparr>)
      | _ \<Rightarrow> s)"

text \<open>\<open>#observeCleanQuitFailure\<close>; \<open>handler\<close> is what \<open>onCleanExitFailure\<close> does, throwing or rejecting.\<close>

definition route_failure :: "unit outcome \<Rightarrow> quit_state \<Rightarrow> quit_state" where
  "route_failure handler s =
     (case qs_clean s of
        Some (CleanSettled (Some e)) \<Rightarrow>
          if \<not> qs_cleanObserved s \<or> qs_cleanFailureRouted s then s
          else let s' = log_quit (FailureRouted
                          \<lparr>cf_cleanBoundaryPersisted = qs_cleanBoundaryPersisted s, cf_error = e,
                           cf_fatalGenerationInvalidated = qs_fatalGeneration s > 0,
                           cf_phase = qs_cleanFailurePhase s\<rparr>) (s\<lparr>qs_cleanFailureRouted := True\<rparr>)
               in (case handler of Inr _ \<Rightarrow> s' | Inl e' \<Rightarrow> reportError e' s')
      | _ \<Rightarrow> s)"

section \<open>Quit and restart\<close>

definition commit_quit :: "quit_kind \<Rightarrow> quit_input \<Rightarrow> quit_state \<Rightarrow> quit_state" where
  "commit_quit k i s =
     (case prepareCleanQuit i s of
        (s', Inr _) \<Rightarrow> s'\<lparr>qs_quit := Some (AwaitsClean k)\<rparr>
      | (s', Inl e) \<Rightarrow> s'\<lparr>qs_quit := Some (QuitFinished (Some e))\<rparr>)"

definition confirmQuit :: "quit_input \<Rightarrow> quit_state \<Rightarrow> quit_state" where
  "confirmQuit i s = (if qs_quit s \<noteq> None then s else commit_quit QuitOnly i s)"

definition confirmRestart :: "quit_input \<Rightarrow> quit_state \<Rightarrow> quit_state" where
  "confirmRestart i s = (if qs_quit s \<noteq> None \<or> \<not> qi_relaunch i then s else commit_quit QuitAndRelaunch i s)"

text \<open>\<open>answer\<close> is what \<open>requestRendererQuitConfirmation\<close> does.\<close>

definition requestQuit :: "quit_input \<Rightarrow> bool outcome \<Rightarrow> quit_state \<Rightarrow> quit_state" where
  "requestQuit i answer s =
     (if qs_quit s \<noteq> None \<or> qs_stopped s then s
      else (case answer of
              Inl e \<Rightarrow> reportError e s
            | Inr True \<Rightarrow> s
            | Inr False \<Rightarrow> confirmQuit i s))"

text \<open>What follows the clean quit; a throwing \<open>app.quit\<close> or \<open>app.relaunch\<close> rejects the quit.\<close>

definition quit_continues :: "unit outcome \<Rightarrow> unit outcome \<Rightarrow> quit_state \<Rightarrow> quit_state" where
  "quit_continues relaunch quit s =
     (case (qs_quit s, qs_clean s) of
        (Some (AwaitsClean k), Some (CleanSettled (Some e))) \<Rightarrow> s\<lparr>qs_quit := Some (QuitFinished (Some e))\<rparr>
      | (Some (AwaitsClean k), Some (CleanSettled None)) \<Rightarrow>
          let s1 = (if k = QuitAndRelaunch then log_quit AppRelaunch s else s)
          in (case (if k = QuitAndRelaunch then relaunch else Inr ()) of
                Inl e \<Rightarrow> s1\<lparr>qs_quit := Some (QuitFinished (Some e))\<rparr>
              | Inr _ \<Rightarrow> (log_quit AppQuit s1)\<lparr>qs_quit := Some (QuitFinished
                  (case quit of Inl e \<Rightarrow> Some e | Inr _ \<Rightarrow> None))\<rparr>)
      | _ \<Rightarrow> s)"

text \<open>The listeners of the application: whether the event is prevented, and the state.\<close>

definition onBeforeQuit :: "quit_input \<Rightarrow> bool outcome \<Rightarrow> quit_state \<Rightarrow> quit_state \<times> bool" where
  "onBeforeQuit i answer s = (if qs_stopped s then (s, False) else (requestQuit i answer s, True))"

definition onWindowAllClosed :: "quit_input \<Rightarrow> bool outcome \<Rightarrow> quit_state \<Rightarrow> quit_state" where
  "onWindowAllClosed i answer s = (if qi_darwin i then s else requestQuit i answer s)"

definition isQuitCommitted :: "quit_state \<Rightarrow> bool" where
  "isQuitCommitted s = qs_stopped s"

section \<open>Steps\<close>

datatype quit_op =
    RequestQuit "bool outcome"
  | ConfirmQuit
  | ConfirmRestart
  | PrepareQuit
  | PrepareCleanQuit
  | BeginFatalQuit
  | PrepareFatalQuit
  | BeforeQuit "bool outcome"
  | WindowAllClosed "bool outcome"
  | CallCleanExit
  | CleanExitAnswered "unit outcome"
  | EnterShutdown
  | CallShutdown
  | ShutdownAnswered "unit outcome"
  | CleanAfterShutdown
  | RouteFailure "unit outcome"
  | QuitContinues "unit outcome" "unit outcome"
  | FatalContinues

fun quit_step :: "quit_input \<Rightarrow> quit_op \<Rightarrow> quit_state \<Rightarrow> quit_state" where
  "quit_step i (RequestQuit a) s = requestQuit i a s"
| "quit_step i ConfirmQuit s = confirmQuit i s"
| "quit_step i ConfirmRestart s = confirmRestart i s"
| "quit_step i PrepareQuit s = prepareQuit s"
| "quit_step i PrepareCleanQuit s = fst (prepareCleanQuit i s)"
| "quit_step i BeginFatalQuit s = beginFatalQuit s"
| "quit_step i PrepareFatalQuit s = prepareFatalQuit s"
| "quit_step i (BeforeQuit a) s = fst (onBeforeQuit i a s)"
| "quit_step i (WindowAllClosed a) s = onWindowAllClosed i a s"
| "quit_step i CallCleanExit s = call_clean_exit s"
| "quit_step i (CleanExitAnswered r) s = clean_exit_answered r s"
| "quit_step i EnterShutdown s = enter_shutdown s"
| "quit_step i CallShutdown s = call_shutdown s"
| "quit_step i (ShutdownAnswered r) s = shutdown_answered r s"
| "quit_step i CleanAfterShutdown s = clean_after_shutdown s"
| "quit_step i (RouteFailure h) s = route_failure h s"
| "quit_step i (QuitContinues a b) s = quit_continues a b s"
| "quit_step i FatalContinues s = fatal_continues s"

definition quit_run :: "quit_input \<Rightarrow> quit_op list \<Rightarrow> quit_state" where
  "quit_run i ops = fold (quit_step i) ops new_quit_state"

section \<open>Invariants\<close>

text \<open>An act is anything but a reported error.\<close>

fun is_act :: "quit_log \<Rightarrow> bool" where
  "is_act (ErrorReported _) = False"
| "is_act _ = True"

definition acts :: "quit_state \<Rightarrow> quit_log list" where
  "acts s = filter is_act (qs_log s)"

lemma acts_log [simp]:
  "acts (log_quit x s) = (if is_act x then acts s @ [x] else acts s)"
  "acts (reportError e s) = acts s"
  by (simp_all add: acts_def log_quit_def reportError_def)

lemma log_quit_fields [simp]:
  "qs_stopped (log_quit x s) = qs_stopped s" "qs_shutdown (log_quit x s) = qs_shutdown s"
  "qs_fatal (log_quit x s) = qs_fatal s" "qs_clean (log_quit x s) = qs_clean s"
  "qs_cleanObserved (log_quit x s) = qs_cleanObserved s" "qs_quit (log_quit x s) = qs_quit s"
  "qs_fatalGeneration (log_quit x s) = qs_fatalGeneration s"
  "qs_cleanFailureRouted (log_quit x s) = qs_cleanFailureRouted s"
  "qs_cleanBoundaryPersisted (log_quit x s) = qs_cleanBoundaryPersisted s"
  "qs_cleanFailurePhase (log_quit x s) = qs_cleanFailurePhase s"
  by (simp_all add: log_quit_def)

lemma reportError_fields [simp]:
  "qs_stopped (reportError e s) = qs_stopped s" "qs_shutdown (reportError e s) = qs_shutdown s"
  "qs_fatal (reportError e s) = qs_fatal s" "qs_clean (reportError e s) = qs_clean s"
  "qs_cleanObserved (reportError e s) = qs_cleanObserved s" "qs_quit (reportError e s) = qs_quit s"
  "qs_fatalGeneration (reportError e s) = qs_fatalGeneration s"
  "qs_cleanFailureRouted (reportError e s) = qs_cleanFailureRouted s"
  "qs_cleanBoundaryPersisted (reportError e s) = qs_cleanBoundaryPersisted s"
  "qs_cleanFailurePhase (reportError e s) = qs_cleanFailurePhase s"
  by (simp_all add: reportError_def)

lemma acts_update [simp]:
  "acts (s\<lparr>qs_stopped := b\<rparr>) = acts s" "acts (s\<lparr>qs_shutdown := sh\<rparr>) = acts s"
  "acts (s\<lparr>qs_fatal := f\<rparr>) = acts s" "acts (s\<lparr>qs_clean := c\<rparr>) = acts s"
  "acts (s\<lparr>qs_cleanObserved := b\<rparr>) = acts s" "acts (s\<lparr>qs_quit := q\<rparr>) = acts s"
  "acts (s\<lparr>qs_fatalGeneration := g\<rparr>) = acts s" "acts (s\<lparr>qs_cleanFailureRouted := b\<rparr>) = acts s"
  "acts (s\<lparr>qs_cleanBoundaryPersisted := b\<rparr>) = acts s" "acts (s\<lparr>qs_cleanFailurePhase := p\<rparr>) = acts s"
  by (simp_all add: acts_def)


fun shutdown_begun :: "shutdown_stage option \<Rightarrow> bool" where
  "shutdown_begun None = False"
| "shutdown_begun (Some ShutdownQueued) = False"
| "shutdown_begun (Some _) = True"

fun boundary_begun :: "clean_stage option \<Rightarrow> bool" where
  "boundary_begun None = False"
| "boundary_begun (Some BoundaryQueued) = False"
| "boundary_begun (Some _) = True"

fun boundary_over :: "clean_stage option \<Rightarrow> bool" where
  "boundary_over None = False"
| "boundary_over (Some BoundaryQueued) = False"
| "boundary_over (Some BoundaryRunning) = False"
| "boundary_over (Some _) = True"

fun quit_over :: "quit_stage option \<Rightarrow> bool" where
  "quit_over (Some (QuitFinished _)) = True"
| "quit_over _ = False"

lemmas quit_ops = prepareQuit_def call_shutdown_def shutdown_answered_def beginFatalQuit_def
  prepareFatalQuit_def fatal_continues_def requireCleanQuitGeneration_def call_clean_exit_def
  clean_exit_answered_def enter_shutdown_def clean_after_shutdown_def route_failure_def
  prepareCleanQuit_def commit_quit_def onBeforeQuit_def onWindowAllClosed_def
  confirmQuit_def confirmRestart_def requestQuit_def quit_continues_def Let_def

lemmas quit_splits = option.split sum.split bool.split clean_stage.split shutdown_stage.split quit_stage.split


lemma step_shutdown_called:
  "(ShutdownCalled \<in> set (acts s) \<longleftrightarrow> shutdown_begun (qs_shutdown s)) \<Longrightarrow>
   (ShutdownCalled \<in> set (acts (quit_step i x s)) \<longleftrightarrow> shutdown_begun (qs_shutdown (quit_step i x s)))"
  by (cases x) (simp_all add: quit_ops split: quit_splits)

lemma step_shutdown_proven:
  "(ShutdownProven \<in> set (acts s) \<longleftrightarrow> qs_shutdown s = Some (ShutdownSettled None)) \<Longrightarrow>
   (ShutdownProven \<in> set (acts (quit_step i x s)) \<longleftrightarrow> qs_shutdown (quit_step i x s) = Some (ShutdownSettled None))"
  by (cases x) (simp_all add: quit_ops split: quit_splits)

lemma step_boundary_called:
  "(CleanExitCalled \<in> set (acts s) \<longrightarrow> boundary_begun (qs_clean s)) \<Longrightarrow>
   (CleanExitCalled \<in> set (acts (quit_step i x s)) \<longrightarrow> boundary_begun (qs_clean (quit_step i x s)))"
  by (cases x) (auto simp: quit_ops split: quit_splits)

lemma step_persisted:
  "(CleanExitPersisted \<in> set (acts s) \<longleftrightarrow> qs_cleanBoundaryPersisted s) \<Longrightarrow>
   (CleanExitPersisted \<in> set (acts (quit_step i x s)) \<longleftrightarrow> qs_cleanBoundaryPersisted (quit_step i x s))"
  by (cases x) (simp_all add: quit_ops split: quit_splits)

lemma step_boundary_over:
  "(qs_cleanBoundaryPersisted s \<longrightarrow> boundary_over (qs_clean s)) \<Longrightarrow>
   (qs_cleanBoundaryPersisted (quit_step i x s) \<longrightarrow> boundary_over (qs_clean (quit_step i x s)))"
  by (cases x) (auto simp: quit_ops split: quit_splits)

lemma step_clean_proven:
  "(CleanQuitProven \<in> set (acts s) \<longleftrightarrow> qs_clean s = Some (CleanSettled None)) \<Longrightarrow>
   (CleanQuitProven \<in> set (acts (quit_step i x s)) \<longleftrightarrow> qs_clean (quit_step i x s) = Some (CleanSettled None))"
  by (cases x) (simp_all add: quit_ops split: quit_splits)

lemma step_fatal:
  "(FatalBegan \<in> set (acts s) \<longleftrightarrow> qs_fatalGeneration s > 0) \<Longrightarrow>
   (FatalBegan \<in> set (acts (quit_step i x s)) \<longleftrightarrow> qs_fatalGeneration (quit_step i x s) > 0)"
  by (cases x) (simp_all add: quit_ops split: quit_splits)

lemma quit_finished_stays:
  "qs_quit s = Some (QuitFinished e) \<Longrightarrow> qs_quit (quit_step i x s) = Some (QuitFinished e)"
  by (cases x) (simp_all add: quit_ops split: quit_splits)

lemma quit_over_stays: "quit_over (qs_quit s) \<Longrightarrow> quit_over (qs_quit (quit_step i x s))"
  using quit_finished_stays [of s _ i x] by (cases "qs_quit s" rule: quit_over.cases) auto

lemma clean_settled_stays:
  "qs_clean s = Some (CleanSettled r) \<Longrightarrow> qs_clean (quit_step i x s) = Some (CleanSettled r)"
  by (cases x) (simp_all add: quit_ops split: quit_splits)

lemma quiet_ops [simp]:
  "acts (prepareQuit s) = acts s" "acts (fst (prepareCleanQuit i s)) = acts s"
  "acts (commit_quit k i s) = acts s" "acts (confirmQuit i s) = acts s" "acts (confirmRestart i s) = acts s"
  "acts (requestQuit i a s) = acts s" "acts (fst (onBeforeQuit i a s)) = acts s"
  "acts (onWindowAllClosed i a s) = acts s" "acts (enter_shutdown s) = acts s" "acts (fatal_continues s) = acts s"
proof -
  show pq: "acts (prepareQuit s) = acts s" for s by (simp add: prepareQuit_def split: option.split)
  show cq: "acts (fst (prepareCleanQuit i s)) = acts s" for s
    by (simp add: prepareCleanQuit_def pq split: sum.split)
  show k: "acts (commit_quit k i s) = acts s" for k s
    using cq [of s] by (auto simp: commit_quit_def split: prod.split sum.split)
  show c: "acts (confirmQuit i s) = acts s" for s by (simp add: confirmQuit_def k)
  show "acts (confirmRestart i s) = acts s" by (simp add: confirmRestart_def k)
  show r: "acts (requestQuit i a s) = acts s" for s by (simp add: requestQuit_def c split: sum.split bool.split)
  show "acts (fst (onBeforeQuit i a s)) = acts s" "acts (onWindowAllClosed i a s) = acts s"
    by (simp_all add: onBeforeQuit_def onWindowAllClosed_def r)
  show "acts (enter_shutdown s) = acts s" "acts (fatal_continues s) = acts s"
    by (simp_all add: enter_shutdown_def fatal_continues_def pq)
qed

lemmas loud_ops = call_shutdown_def shutdown_answered_def beginFatalQuit_def prepareFatalQuit_def
  call_clean_exit_def clean_exit_answered_def clean_after_shutdown_def route_failure_def quit_continues_def
  requireCleanQuitGeneration_def Let_def

lemma app_acts:
  "AppRelaunch \<notin> set (acts s) \<Longrightarrow> AppQuit \<notin> set (acts s) \<Longrightarrow>
   (AppRelaunch \<in> set (acts (quit_step i x s)) \<or> AppQuit \<in> set (acts (quit_step i x s)) \<longrightarrow>
     quit_over (qs_quit (quit_step i x s)) \<and> qs_clean s = Some (CleanSettled None))"
  by (cases x) (simp_all add: loud_ops split: quit_splits, auto?)

lemma step_app:
  "(AppRelaunch \<in> set (acts s) \<or> AppQuit \<in> set (acts s) \<longrightarrow>
      quit_over (qs_quit s) \<and> qs_clean s = Some (CleanSettled None)) \<Longrightarrow>
   (AppRelaunch \<in> set (acts (quit_step i x s)) \<or> AppQuit \<in> set (acts (quit_step i x s)) \<longrightarrow>
      quit_over (qs_quit (quit_step i x s)) \<and> qs_clean (quit_step i x s) = Some (CleanSettled None))"
  using app_acts [of s i x] quit_over_stays [of s i x] clean_settled_stays [of s None i x] by blast

lemma step_routed:
  "(FailureRouted f \<in> set (acts s) \<longrightarrow> qs_cleanFailureRouted s) \<Longrightarrow>
   (FailureRouted f \<in> set (acts (quit_step i x s)) \<longrightarrow> qs_cleanFailureRouted (quit_step i x s))"
  by (cases x) (auto simp: quit_ops split: quit_splits)


lemma subseq_later: "subseq xs ys \<Longrightarrow> subseq xs (ys @ [z])"
  by (rule list_emb_prefix)

fun shutdown_acts :: "shutdown_stage option \<Rightarrow> quit_log list" where
  "shutdown_acts (Some ShutdownRunning) = [ShutdownCalled]"
| "shutdown_acts (Some (ShutdownSettled None)) = [ShutdownCalled, ShutdownProven]"
| "shutdown_acts _ = []"

fun clean_acts :: "clean_stage option \<Rightarrow> shutdown_stage option \<Rightarrow> quit_log list" where
  "clean_acts (Some BoundaryRunning) _ = [CleanExitCalled]"
| "clean_acts (Some BoundaryPassed) _ = [CleanExitCalled, CleanExitPersisted]"
| "clean_acts (Some ShutdownAwaited) sh = [CleanExitCalled, CleanExitPersisted] @ shutdown_acts sh"
| "clean_acts (Some (CleanSettled None)) _ =
     [CleanExitCalled, CleanExitPersisted, ShutdownCalled, ShutdownProven, CleanQuitProven]"
| "clean_acts _ _ = []"

fun before_shutdown :: "clean_stage option \<Rightarrow> bool" where
  "before_shutdown (Some BoundaryQueued) = True"
| "before_shutdown (Some BoundaryRunning) = True"
| "before_shutdown (Some BoundaryPassed) = True"
| "before_shutdown _ = False"

lemma step_before_shutdown:
  "qi_prepareCleanExit i \<Longrightarrow> x \<noteq> PrepareQuit \<Longrightarrow> (before_shutdown (qs_clean s) \<longrightarrow> qs_shutdown s = None) \<Longrightarrow>
   (before_shutdown (qs_clean (quit_step i x s)) \<longrightarrow> qs_shutdown (quit_step i x s) = None)"
  by (cases x) (auto simp: quit_ops clean_ended_def split: quit_splits)

lemma subseq_both: "subseq (xs @ [z]) (ys @ [z]) = subseq xs ys"
  by (rule subseq_append)

lemma subseq_ends [simp]:
  "subseq [a, b, c] (ys @ [c]) = subseq [a, b] ys" 
  "subseq [a, c] (ys @ [c]) = subseq [a] ys" 
  "subseq [c] (ys @ [c])" 
  "subseq [a, b, d, c] (ys @ [c]) = subseq [a, b, d] ys" 
  "subseq [a, b, d, e, c] (ys @ [c]) = subseq [a, b, d, e] ys" 
  "subseq [a, b, d, e, f, c] (ys @ [c]) = subseq [a, b, d, e, f] ys" 
  using subseq_both [of "[a, b]" c ys] subseq_both [of "[a]" c ys]  subseq_both [of "[a, b, d]" c ys]
   subseq_both [of "[a, b, d, e]" c ys] subseq_both [of "[a, b, d, e, f]" c ys]
  by (simp_all add: subseq_singleton_left)

lemma clean_acts_shutdown:
  "subseq (clean_acts c None) xs \<Longrightarrow> subseq (clean_acts c (Some ShutdownQueued)) xs"
  "subseq (clean_acts c (Some ShutdownQueued)) xs \<Longrightarrow> subseq (clean_acts c (Some ShutdownRunning)) (xs @ [ShutdownCalled])"
  "subseq (clean_acts c (Some ShutdownRunning)) xs \<Longrightarrow> subseq (clean_acts c (Some (ShutdownSettled None))) (xs @ [ShutdownProven])"
  "subseq (clean_acts c (Some ShutdownRunning)) xs \<Longrightarrow> subseq (clean_acts c (Some (ShutdownSettled (Some e)))) xs"
  by (cases "(c, None :: shutdown_stage option)" rule: clean_acts.cases;
      auto intro: subseq_later subseq_order.order_trans [rotated])+

lemma step_clean_acts:
  "qi_prepareCleanExit i \<Longrightarrow> x \<noteq> PrepareQuit \<Longrightarrow> (before_shutdown (qs_clean s) \<longrightarrow> qs_shutdown s = None) \<Longrightarrow>
   subseq (clean_acts (qs_clean s) (qs_shutdown s)) (acts s) \<Longrightarrow>
   subseq (clean_acts (qs_clean (quit_step i x s)) (qs_shutdown (quit_step i x s))) (acts (quit_step i x s))"
  by (cases x) (auto simp: quit_ops clean_ended_def intro: subseq_later clean_acts_shutdown split: quit_splits)

definition no_fatal_first :: "quit_state \<Rightarrow> bool" where
  "no_fatal_first s \<longleftrightarrow> CleanQuitProven \<in> set (acts s) \<and>
     FatalBegan \<notin> set (takeWhile (\<lambda>a. a \<noteq> CleanQuitProven) (acts s))"

lemma acts_grow: "\<exists>zs. acts (quit_step i x s) = acts s @ zs"
  by (cases x) (auto simp: quit_ops split: quit_splits)

lemma step_no_fatal_first:
  assumes "FatalBegan \<in> set (acts s) \<longleftrightarrow> qs_fatalGeneration s > 0"
    and "CleanQuitProven \<in> set (acts s) \<longleftrightarrow> qs_clean s = Some (CleanSettled None)"
    and "qs_clean s = Some (CleanSettled None) \<longrightarrow> no_fatal_first s"
  shows "qs_clean (quit_step i x s) = Some (CleanSettled None) \<longrightarrow> no_fatal_first (quit_step i x s)"
proof (cases "qs_clean s = Some (CleanSettled None)")
  case True
  obtain zs where "acts (quit_step i x s) = acts s @ zs" using acts_grow by blast
  then show ?thesis
    using assms(3) True takeWhile_append1 [of CleanQuitProven "acts s" "\<lambda>a. a \<noteq> CleanQuitProven" zs]
    by (simp add: no_fatal_first_def)
next
  case False
  then show ?thesis
    using assms(1,2)
    by (cases x) (auto simp: quit_ops no_fatal_first_def takeWhile_append split: quit_splits)
qed

lemma subseq_quit_end:
  "subseq xs ys \<Longrightarrow> subseq (xs @ [z]) (ys @ [y, z])"
  using list_emb_append_mono [of "(=)" xs ys "[z]" "[y, z]"] by simp

lemma step_quit_path:
  assumes "qs_clean s = Some (CleanSettled None) \<longrightarrow> subseq xs (acts s)"
    and "AppQuit \<in> set (acts s) \<longrightarrow> subseq (xs @ [AppQuit]) (acts s)"
  shows "AppQuit \<in> set (acts (quit_step i x s)) \<longrightarrow> subseq (xs @ [AppQuit]) (acts (quit_step i x s))"
proof (cases "AppQuit \<in> set (acts s)")
  case True
  then show ?thesis using assms(2) acts_grow [of i x s] by (auto intro: list_emb_prefix)
next
  case False
  then show ?thesis using assms(1)
    by (cases x) (auto simp: loud_ops subseq_both intro: subseq_quit_end split: quit_splits)
qed

definition stages_match :: "quit_state \<Rightarrow> bool" where
  "stages_match s \<longleftrightarrow>
     (ShutdownCalled \<in> set (acts s) \<longleftrightarrow> shutdown_begun (qs_shutdown s)) \<and>
     (ShutdownProven \<in> set (acts s) \<longleftrightarrow> qs_shutdown s = Some (ShutdownSettled None)) \<and>
     (CleanExitCalled \<in> set (acts s) \<longrightarrow> boundary_begun (qs_clean s)) \<and>
     (CleanExitPersisted \<in> set (acts s) \<longleftrightarrow> qs_cleanBoundaryPersisted s) \<and>
     (qs_cleanBoundaryPersisted s \<longrightarrow> boundary_over (qs_clean s)) \<and>
     (CleanQuitProven \<in> set (acts s) \<longleftrightarrow> qs_clean s = Some (CleanSettled None)) \<and>
     (FatalBegan \<in> set (acts s) \<longleftrightarrow> qs_fatalGeneration s > 0) \<and>
     (AppRelaunch \<in> set (acts s) \<or> AppQuit \<in> set (acts s) \<longrightarrow>
        quit_over (qs_quit s) \<and> qs_clean s = Some (CleanSettled None)) \<and>
     (\<forall>f. FailureRouted f \<in> set (acts s) \<longrightarrow> qs_cleanFailureRouted s)"

lemma stages_matchD:
  assumes "stages_match s"
  shows "ShutdownCalled \<in> set (acts s) \<longleftrightarrow> shutdown_begun (qs_shutdown s)"
    "ShutdownProven \<in> set (acts s) \<longleftrightarrow> qs_shutdown s = Some (ShutdownSettled None)"
    "CleanExitCalled \<in> set (acts s) \<longrightarrow> boundary_begun (qs_clean s)"
    "CleanExitPersisted \<in> set (acts s) \<longleftrightarrow> qs_cleanBoundaryPersisted s"
    "qs_cleanBoundaryPersisted s \<longrightarrow> boundary_over (qs_clean s)"
    "CleanQuitProven \<in> set (acts s) \<longleftrightarrow> qs_clean s = Some (CleanSettled None)"
    "FatalBegan \<in> set (acts s) \<longleftrightarrow> qs_fatalGeneration s > 0"
    "AppRelaunch \<in> set (acts s) \<or> AppQuit \<in> set (acts s) \<longrightarrow>
        quit_over (qs_quit s) \<and> qs_clean s = Some (CleanSettled None)"
    "FailureRouted f \<in> set (acts s) \<longrightarrow> qs_cleanFailureRouted s"
  using assms unfolding stages_match_def by blast+

lemma stages_match_step: "stages_match s \<Longrightarrow> stages_match (quit_step i x s)"
  unfolding stages_match_def [of "quit_step i x s"]
  by (intro conjI allI step_shutdown_called step_shutdown_proven step_boundary_called step_persisted
      step_boundary_over step_clean_proven step_fatal step_app step_routed; erule stages_matchD)

lemma acts_once_step:
  assumes m: "stages_match s" and d: "distinct (acts s)"
  shows "distinct (acts (quit_step i x s))"
proof -
  have fatal: "distinct (acts (beginFatalQuit s))"
    using d stages_matchD(7) [OF m] by (auto simp: beginFatalQuit_def)
  show ?thesis
  proof (cases x)
    case PrepareFatalQuit
    then show ?thesis using fatal by (simp add: prepareFatalQuit_def Let_def split: option.split)
  next
    case (CleanExitAnswered r)
    have "qs_clean s = Some BoundaryRunning \<Longrightarrow> CleanExitPersisted \<notin> set (acts s)"
      using stages_matchD(4,5) [OF m] by auto
    then show ?thesis using CleanExitAnswered d by (auto simp: clean_exit_answered_def Let_def split: sum.split)
  next
    case (ShutdownAnswered r)
    then show ?thesis using d stages_matchD(2) [OF m] by (auto simp: shutdown_answered_def split: sum.split)
  next
    case CleanAfterShutdown
    then show ?thesis using d stages_matchD(6) [OF m]
      by (auto simp: clean_after_shutdown_def Let_def split: quit_splits)
  next
    case (RouteFailure h)
    have "\<not> qs_cleanFailureRouted s \<Longrightarrow> FailureRouted f \<notin> set (acts s)" for f
      using stages_matchD(9) [OF m] by blast
    then show ?thesis using RouteFailure d by (auto simp: route_failure_def Let_def split: quit_splits)
  next
    case (QuitContinues a b)
    have "qs_quit s = Some (AwaitsClean k) \<Longrightarrow> AppRelaunch \<notin> set (acts s) \<and> AppQuit \<notin> set (acts s)" for k
      using stages_matchD(8) [OF m] by auto
    then show ?thesis using QuitContinues d by (auto simp: quit_continues_def Let_def split: quit_splits)
  qed (use d fatal stages_matchD(1,3) [OF m] in \<open>auto simp: call_shutdown_def call_clean_exit_def\<close>)
qed


definition quit_ordered :: "quit_state \<Rightarrow> bool" where
  "quit_ordered s \<longleftrightarrow>
     (before_shutdown (qs_clean s) \<longrightarrow> qs_shutdown s = None) \<and>
     subseq (clean_acts (qs_clean s) (qs_shutdown s)) (acts s) \<and>
     (AppQuit \<in> set (acts s) \<longrightarrow>
        subseq [CleanExitCalled, CleanExitPersisted, ShutdownCalled, ShutdownProven, CleanQuitProven, AppQuit] (acts s))"

lemma quit_ordered_step:
  assumes "qi_prepareCleanExit i" and "x \<noteq> PrepareQuit" and "quit_ordered s"
  shows "quit_ordered (quit_step i x s)"
proof -
  have o: "before_shutdown (qs_clean s) \<longrightarrow> qs_shutdown s = None"
    "subseq (clean_acts (qs_clean s) (qs_shutdown s)) (acts s)"
    "AppQuit \<in> set (acts s) \<longrightarrow>
        subseq [CleanExitCalled, CleanExitPersisted, ShutdownCalled, ShutdownProven, CleanQuitProven, AppQuit] (acts s)"
    using assms(3) unfolding quit_ordered_def by blast+
  have "qs_clean s = Some (CleanSettled None) \<longrightarrow>
      subseq [CleanExitCalled, CleanExitPersisted, ShutdownCalled, ShutdownProven, CleanQuitProven] (acts s)"
    using o(2) by auto
  from step_quit_path [OF this, of i x] o(3)
  show ?thesis
    unfolding quit_ordered_def
    using step_before_shutdown [OF assms(1,2) o(1)] step_clean_acts [OF assms(1,2) o(1,2)] by simp
qed

definition quit_inv :: "quit_state \<Rightarrow> bool" where
  "quit_inv s \<longleftrightarrow> stages_match s \<and> distinct (acts s) \<and>
     (qs_clean s = Some (CleanSettled None) \<longrightarrow> no_fatal_first s)"

lemma quit_inv_step:
  assumes "quit_inv s"
  shows "quit_inv (quit_step i x s)"
proof -
  have a: "stages_match s" "distinct (acts s)" "qs_clean s = Some (CleanSettled None) \<longrightarrow> no_fatal_first s"
    using assms unfolding quit_inv_def by blast+
  show ?thesis
    unfolding quit_inv_def
    using stages_match_step [OF a(1)] acts_once_step [OF a(1,2)]
      step_no_fatal_first [OF stages_matchD(7) [OF a(1)] stages_matchD(6) [OF a(1)] a(3)] by simp
qed

lemma quit_inv_new: "quit_inv new_quit_state"
  by (simp add: quit_inv_def stages_match_def new_quit_state_def acts_def)

interpretation quit: guarded_machine "quit_step i" quit_inv for i
  by unfold_locales (rule quit_inv_step)

lemma quit_run_inv: "quit_inv (quit_run i ops)"
  unfolding quit_run_def by (rule quit.run_inv) (rule quit_inv_new)

lemma quit_run_ordered:
  assumes "qi_prepareCleanExit i" and "PrepareQuit \<notin> set ops"
  shows "quit_ordered (quit_run i ops)"
proof -
  have run: "quit_ordered s \<Longrightarrow> quit_ordered (fold (quit_step i) ops s)" for s
    using assms(2)
  proof (induction ops arbitrary: s)
    case (Cons x ops)
    then show ?case using quit_ordered_step [OF assms(1), of x s] by (metis fold_simps(2) list.set_intros(1,2))
  qed simp
  have "quit_ordered new_quit_state" by (simp add: quit_ordered_def new_quit_state_def acts_def)
  then show ?thesis unfolding quit_run_def by (rule run)
qed


lemma step_stopped:
  "(qs_stopped s \<longleftrightarrow> qs_shutdown s = Some (ShutdownSettled None)) \<Longrightarrow>
   (qs_stopped (quit_step i x s) \<longleftrightarrow> qs_shutdown (quit_step i x s) = Some (ShutdownSettled None))"
  by (cases x) (simp_all add: quit_ops split: quit_splits)

lemma quit_run_stopped:
  "qs_stopped (quit_run i ops) \<longleftrightarrow> qs_shutdown (quit_run i ops) = Some (ShutdownSettled None)"
  unfolding quit_run_def
  by (rule quit.run_stable [OF quit_inv_new]) (simp_all add: new_quit_state_def step_stopped)

section \<open>Properties\<close>


definition demo_quit_input :: quit_input where
  "demo_quit_input = \<lparr>qi_prepareCleanExit = True, qi_relaunch = True, qi_darwin = False\<rparr>"

definition demo_quit_ops :: "quit_op list" where
  "demo_quit_ops = [RequestQuit (Inr True), ConfirmRestart, CallCleanExit, CleanExitAnswered (Inr ()),
     EnterShutdown, CallShutdown, ShutdownAnswered (Inr ()), CleanAfterShutdown,
     QuitContinues (Inr ()) (Inr ()), BeginFatalQuit]"


end
