(* ===== verification/Clean_Exit.thy ===== *)
theory Clean_Exit
  imports Quit_Lifecycle
begin

text \<open>
  The clean exit (\<open>src/src/electron/main/cleanExitCoordinator.ts\<close>): closing every ingress and
  draining what was admitted before the clean journal is persisted, and what a failed clean quit does
  to that journal before the process is terminated.
\<close>

section \<open>Which failures invalidate the journal\<close>

definition PRETERMINAL_CHECKED_SHUTDOWN_CODES :: "string list" where
  "PRETERMINAL_CHECKED_SHUTDOWN_CODES =
     [''CHROME_PROFILE_IMPORT_HELPER_REGISTRY_FAILED'', ''CORE_SHUTDOWN_BROWSER_OPERATIONS_UNVERIFIED'',
      ''CORE_SHUTDOWN_PRETERMINAL_UNVERIFIED'', ''CORE_SHUTDOWN_ROLE_BROWSER_DATA_CLEAR_UNVERIFIED'']"

definition PROVEN_LATE_CHECKED_SHUTDOWN_CODES :: "string list" where
  "PROVEN_LATE_CHECKED_SHUTDOWN_CODES =
     [''CORE_LOG_DATABASE_FAILED'', ''CORE_SHUTTING_DOWN'', ''CORE_SHUTDOWN_INSTANCE_LOCK_UNVERIFIED'',
      ''CORE_SHUTDOWN_RUNTIME_UNVERIFIED'', ''CORE_STATE_DATABASE_FAILED'']"

fun error_code :: "js_error \<Rightarrow> string option" where
  "error_code (BridgeError c) = Some c"
| "error_code PlainError = None"

definition cleanExitFailureRequiresInvalidation :: "clean_failure \<Rightarrow> bool" where
  "cleanExitFailureRequiresInvalidation f =
     (if cf_fatalGenerationInvalidated f \<or> \<not> cf_cleanBoundaryPersisted f \<or> cf_phase f \<noteq> CheckedCoreShutdown
      then True
      else (case error_code (cf_error f) of
              None \<Rightarrow> True
            | Some c \<Rightarrow>
                if c = [] \<or> c \<in> set PRETERMINAL_CHECKED_SHUTDOWN_CODES then True
                else c \<notin> set PROVEN_LATE_CHECKED_SHUTDOWN_CODES))"

section \<open>Preparing the exit\<close>

text \<open>What the runtime does with its \<open>persist\<close> callback: it fails before calling it, or calls it once
  and then settles itself.\<close>

datatype runtime_exit = FailsBefore js_error | Persists "unit outcome"

text \<open>The ports: \<open>ep_closeAndDrain\<close> is \<open>None\<close> without a renderer ingress, a thrown error, or the
  outcome of the returned promise; the runtime's \<open>beginCleanExit\<close> comes with the runtime.\<close>

record exit_ports =
  ep_beginCommandDrain :: "unit outcome"
  ep_runtime :: "(unit outcome \<times> runtime_exit) option"
  ep_releaseIngress :: "unit outcome"
  ep_closeAndDrain :: "unit outcome outcome option"
  ep_waitCommandDrain :: "nat \<Rightarrow> bool outcome"
  ep_persist :: "unit outcome"
  ep_invalidate :: "unit outcome"
  ep_timeoutMs :: "nat option"

datatype exit_call =
    BeginCommandDrain
  | BeginRuntimeExit
  | ReleaseIngress
  | CloseIngress
  | PrepareRuntime
  | WaitCommandDrain nat
  | PersistClean
  | InvalidateClean

definition ROLE_BROWSER_DATA_CLEAR_COMMAND_DRAIN_TIMEOUT_MS :: nat where
  "ROLE_BROWSER_DATA_CLEAR_COMMAND_DRAIN_TIMEOUT_MS = 30000"

definition failure_of :: "'a outcome \<Rightarrow> js_error option" where
  "failure_of r = (case r of Inl e \<Rightarrow> Some e | Inr _ \<Rightarrow> None)"

definition earlier_failure :: "js_error option \<Rightarrow> js_error option \<Rightarrow> js_error option" where
  "earlier_failure a b = (case a of Some e \<Rightarrow> Some e | None \<Rightarrow> b)"

text \<open>The three fences are attempted whatever the others do: the calls made, the first failure and
  the promise of the renderer's drain.\<close>

definition raise_fences :: "exit_ports \<Rightarrow> exit_call list \<times> js_error option \<times> unit outcome" where
  "raise_fences P =
     (let f1 = failure_of (ep_beginCommandDrain P);
          c2 = (case ep_runtime P of None \<Rightarrow> [] | Some _ \<Rightarrow> [BeginRuntimeExit]);
          f2 = (case ep_runtime P of
                  None \<Rightarrow> Some (BridgeError ''ELECTRON_CHROMIUM_RUNTIME_UNAVAILABLE'')
                | Some (r, _) \<Rightarrow> failure_of r);
          (c3, f3, drain) =
            (case ep_releaseIngress P of
               Inl e \<Rightarrow> ([], Some e, Inr ())
             | Inr _ \<Rightarrow>
                 (case ep_closeAndDrain P of
                    None \<Rightarrow> ([], None, Inr ())
                  | Some (Inl e) \<Rightarrow> ([CloseIngress], Some e, Inr ())
                  | Some (Inr r) \<Rightarrow> ([CloseIngress], None, r)))
      in ([BeginCommandDrain] @ c2 @ [ReleaseIngress] @ c3,
          earlier_failure f1 (earlier_failure f2 f3), drain))"

text \<open>The \<open>persist\<close> callback.\<close>

definition persist_clean :: "exit_ports \<Rightarrow> exit_call list \<times> unit outcome" where
  "persist_clean P =
     (let t = (case ep_timeoutMs P of Some t \<Rightarrow> t | None \<Rightarrow> ROLE_BROWSER_DATA_CLEAR_COMMAND_DRAIN_TIMEOUT_MS)
      in (case ep_waitCommandDrain P t of
            Inl e \<Rightarrow> ([WaitCommandDrain t], Inl e)
          | Inr False \<Rightarrow>
              ([WaitCommandDrain t], Inl (BridgeError ''ELECTRON_ROLE_BROWSER_DATA_CLEAR_DRAIN_INDETERMINATE''))
          | Inr True \<Rightarrow> ([WaitCommandDrain t, PersistClean], ep_persist P)))"

definition drain_and_persist :: "exit_ports \<Rightarrow> runtime_exit \<Rightarrow> unit outcome \<Rightarrow> exit_call list \<times> unit outcome" where
  "drain_and_persist P rt drain =
     (case drain of
        Inl e \<Rightarrow> ([], Inl e)
      | Inr _ \<Rightarrow>
          (case rt of
             FailsBefore e \<Rightarrow> ([PrepareRuntime], Inl e)
           | Persists own \<Rightarrow>
               (let (calls, r) = persist_clean P
                in (PrepareRuntime # calls, (case r of Inl e \<Rightarrow> Inl e | Inr _ \<Rightarrow> own)))))"

definition prepareElectronCleanExit :: "exit_ports \<Rightarrow> exit_call list \<times> unit outcome" where
  "prepareElectronCleanExit P =
     (case raise_fences P of
        (calls, Some e, _) \<Rightarrow> (calls, Inl e)
      | (calls, None, drain) \<Rightarrow>
          (case ep_runtime P of
             None \<Rightarrow> (calls, Inl PlainError)  \<comment> \<open>excluded by the fences\<close>
           | Some (_, rt) \<Rightarrow>
               (case drain_and_persist P rt drain of
                  (rest, Inr _) \<Rightarrow> (calls @ rest, Inr ())
                | (rest, Inl e) \<Rightarrow>
                    (calls @ rest @ [InvalidateClean],
                     Inl (case ep_invalidate P of Inl e' \<Rightarrow> e' | Inr _ \<Rightarrow> e)))))"

section \<open>Terminating after a failure\<close>

datatype terminate_call = TerminateInvalidate | TerminateReport string | ForceTerminate

text \<open>What \<open>onError\<close> throws is swallowed; the result is that of \<open>forceTerminate\<close>.\<close>

definition terminateAfterCleanExitFailure ::
  "clean_failure \<Rightarrow> unit outcome \<Rightarrow> unit outcome \<Rightarrow> terminate_call list \<times> unit outcome" where
  "terminateAfterCleanExitFailure f invalidate terminate =
     ((if cleanExitFailureRequiresInvalidation f
       then (case invalidate of
               Inr _ \<Rightarrow> [TerminateInvalidate]
             | Inl e \<Rightarrow> [TerminateInvalidate,
                 TerminateReport (normalizeRionBridgeError ''ELECTRON_RUNTIME_RESTORE_UNCLEAN_INVALIDATION_FAILED'' e)])
       else []) @ [ForceTerminate], terminate)"

section \<open>What a routed failure knows\<close>

fun awaiting_boundary :: "clean_stage option \<Rightarrow> bool" where
  "awaiting_boundary None = True"
| "awaiting_boundary (Some BoundaryQueued) = True"
| "awaiting_boundary (Some BoundaryRunning) = True"
| "awaiting_boundary (Some BoundaryPassed) = True"
| "awaiting_boundary _ = False"

definition phase_ok :: "quit_state \<Rightarrow> bool" where
  "phase_ok s \<longleftrightarrow>
     (awaiting_boundary (qs_clean s) \<longrightarrow> qs_cleanFailurePhase s = CleanBoundary) \<and>
     (\<forall>e. qs_clean s = Some (CleanSettled (Some e)) \<longrightarrow> qs_cleanFailurePhase s = CheckedCoreShutdown \<longrightarrow>
        qs_shutdown s = Some (ShutdownSettled (Some e)))"

lemma step_awaiting:
  "(awaiting_boundary (qs_clean s) \<longrightarrow> qs_cleanFailurePhase s = CleanBoundary) \<Longrightarrow>
   (awaiting_boundary (qs_clean (quit_step i x s)) \<longrightarrow> qs_cleanFailurePhase (quit_step i x s) = CleanBoundary)"
  by (cases x) (auto simp: quit_ops split: quit_splits)

lemma shutdown_settled_stays:
  "qs_shutdown s = Some (ShutdownSettled r) \<Longrightarrow> qs_shutdown (quit_step i x s) = Some (ShutdownSettled r)"
  by (cases x) (simp_all add: quit_ops split: quit_splits)

lemma step_checked_failure:
  assumes "awaiting_boundary (qs_clean s) \<longrightarrow> qs_cleanFailurePhase s = CleanBoundary"
    and "qs_clean s \<noteq> Some (CleanSettled (Some e))"
  shows "qs_clean (quit_step i x s) = Some (CleanSettled (Some e)) \<longrightarrow>
    qs_cleanFailurePhase (quit_step i x s) = CheckedCoreShutdown \<longrightarrow>
    qs_shutdown (quit_step i x s) = Some (ShutdownSettled (Some e))"
  using assms by (cases x) (auto simp: quit_ops split: quit_splits)


lemma phase_ok_step:
  assumes "phase_ok s"
  shows "phase_ok (quit_step i x s)"
proof -
  have a: "awaiting_boundary (qs_clean s) \<longrightarrow> qs_cleanFailurePhase s = CleanBoundary"
    "qs_clean s = Some (CleanSettled (Some e)) \<longrightarrow> qs_cleanFailurePhase s = CheckedCoreShutdown \<longrightarrow>
        qs_shutdown s = Some (ShutdownSettled (Some e))" for e
    using assms unfolding phase_ok_def by blast+
  have kept: "qs_clean s = Some (CleanSettled (Some e)) \<Longrightarrow>
      qs_cleanFailurePhase (quit_step i x s) = qs_cleanFailurePhase s" for e
    by (cases x) (simp_all add: quit_ops split: quit_splits)
  have "qs_clean (quit_step i x s) = Some (CleanSettled (Some e)) \<longrightarrow>
      qs_cleanFailurePhase (quit_step i x s) = CheckedCoreShutdown \<longrightarrow>
      qs_shutdown (quit_step i x s) = Some (ShutdownSettled (Some e))" for e
  proof (cases "qs_clean s = Some (CleanSettled (Some e))")
    case True
    then show ?thesis using a(2) [of e] kept [of e] shutdown_settled_stays [of s "Some e" i x] by simp
  next
    case False
    then show ?thesis by (rule step_checked_failure [OF a(1)])
  qed
  then show ?thesis unfolding phase_ok_def using step_awaiting [OF a(1)] by simp
qed

definition routed_ok :: "quit_state \<Rightarrow> bool" where
  "routed_ok s \<longleftrightarrow> (\<forall>f. FailureRouted f \<in> set (acts s) \<longrightarrow>
     qs_clean s = Some (CleanSettled (Some (cf_error f))) \<and>
     (cf_cleanBoundaryPersisted f \<longrightarrow> CleanExitPersisted \<in> set (acts s)) \<and>
     (cf_phase f = CheckedCoreShutdown \<longrightarrow> qs_shutdown s = Some (ShutdownSettled (Some (cf_error f)))) \<and>
     (\<forall>g. FailureRouted g \<in> set (acts s) \<longrightarrow> g = f))"

text \<open>Only the routing step adds a routed failure, and it adds what the state says.\<close>

lemma routed_before:
  "x \<noteq> RouteFailure h \<Longrightarrow> (\<forall>h. x \<noteq> RouteFailure h) \<Longrightarrow>
   FailureRouted f \<in> set (acts (quit_step i x s)) \<longleftrightarrow> FailureRouted f \<in> set (acts s)"
  by (cases x) (simp_all add: loud_ops split: quit_splits)

lemma routed_ok_grow:
  assumes "routed_ok s" and "FailureRouted f \<in> set (acts s)"
  shows "qs_clean (quit_step i x s) = Some (CleanSettled (Some (cf_error f)))"
    and "cf_cleanBoundaryPersisted f \<longrightarrow> CleanExitPersisted \<in> set (acts (quit_step i x s))"
    and "cf_phase f = CheckedCoreShutdown \<longrightarrow>
      qs_shutdown (quit_step i x s) = Some (ShutdownSettled (Some (cf_error f)))"
proof -
  have a: "qs_clean s = Some (CleanSettled (Some (cf_error f)))"
    "cf_cleanBoundaryPersisted f \<longrightarrow> CleanExitPersisted \<in> set (acts s)"
    "cf_phase f = CheckedCoreShutdown \<longrightarrow> qs_shutdown s = Some (ShutdownSettled (Some (cf_error f)))"
    using assms unfolding routed_ok_def by blast+
  show "qs_clean (quit_step i x s) = Some (CleanSettled (Some (cf_error f)))"
    by (rule clean_settled_stays [OF a(1)])
  show "cf_phase f = CheckedCoreShutdown \<longrightarrow>
      qs_shutdown (quit_step i x s) = Some (ShutdownSettled (Some (cf_error f)))"
    using a(3) shutdown_settled_stays by blast
  obtain zs where "acts (quit_step i x s) = acts s @ zs" using acts_grow by blast
  then show "cf_cleanBoundaryPersisted f \<longrightarrow> CleanExitPersisted \<in> set (acts (quit_step i x s))"
    using a(2) by auto
qed

lemma routed_ok_route:
  assumes "stages_match s" and "phase_ok s" and "routed_ok s"
  shows "routed_ok (route_failure h s)"
proof (cases "\<exists>e. qs_clean s = Some (CleanSettled (Some e)) \<and> qs_cleanObserved s \<and> \<not> qs_cleanFailureRouted s")
  case True
  then obtain e where e: "qs_clean s = Some (CleanSettled (Some e))" "qs_cleanObserved s" "\<not> qs_cleanFailureRouted s"
    by blast
  have none: "FailureRouted f \<notin> set (acts s)" for f using stages_matchD(9) [OF assms(1)] e(3) by blast
  have ph: "qs_cleanFailurePhase s = CheckedCoreShutdown \<longrightarrow> qs_shutdown s = Some (ShutdownSettled (Some e))"
    using assms(2) e(1) unfolding phase_ok_def by blast
  show ?thesis
    using e none ph stages_matchD(4) [OF assms(1)]
    by (auto simp: routed_ok_def route_failure_def Let_def split: sum.split)
next
  case False
  then have "route_failure h s = s"
    by (auto simp: route_failure_def split: option.split clean_stage.split)
  then show ?thesis using assms(3) by simp
qed

lemma routed_ok_step:
  assumes "stages_match s" and "phase_ok s" and "routed_ok s"
  shows "routed_ok (quit_step i x s)"
proof (cases "\<exists>h. x = RouteFailure h")
  case True
  then show ?thesis using routed_ok_route [OF assms] by auto
next
  case False
  then have same: "FailureRouted f \<in> set (acts (quit_step i x s)) \<longleftrightarrow> FailureRouted f \<in> set (acts s)" for f
    using routed_before [of x "Inr ()"] by blast
  show ?thesis
    unfolding routed_ok_def same
    using routed_ok_grow [OF assms(3)] assms(3) [unfolded routed_ok_def] by blast
qed

lemma routed_run:
  "stages_match (quit_run i ops) \<and> phase_ok (quit_run i ops) \<and> routed_ok (quit_run i ops)"
  unfolding quit_run_def
proof (rule quit.run_stable [OF quit_inv_new])
  show "stages_match new_quit_state \<and> phase_ok new_quit_state \<and> routed_ok new_quit_state"
    using quit_inv_new by (simp add: quit_inv_def phase_ok_def routed_ok_def new_quit_state_def acts_def)
next
  fix x t assume "stages_match t \<and> phase_ok t \<and> routed_ok t"
  then show "stages_match (quit_step i x t) \<and> phase_ok (quit_step i x t) \<and> routed_ok (quit_step i x t)"
    using stages_match_step phase_ok_step routed_ok_step by blast
qed

section \<open>Properties\<close>

text \<open>C33: A failed clean quit is routed once and never keeps a clean journal it has no right to. In every
  run, at most one failure is routed, and then the application does not quit on this path; a routed
  failure that does not invalidate the journal had its boundary persisted, and Core's shutdown itself
  failed, with one of the proven late codes; and the termination that follows invalidates exactly when
  required and ends with the forced termination, whatever the invalidation does.\<close>

theorem routed_failure_sound:
  assumes "s = quit_run i ops" and "FailureRouted f \<in> set (acts s)"
  shows "(\<forall>g. FailureRouted g \<in> set (acts s) \<longrightarrow> g = f)
    \<and> AppQuit \<notin> set (acts s) \<and> AppRelaunch \<notin> set (acts s)
    \<and> (\<not> cleanExitFailureRequiresInvalidation f \<longrightarrow>
         CleanExitPersisted \<in> set (acts s)
         \<and> (\<exists>c \<in> set PROVEN_LATE_CHECKED_SHUTDOWN_CODES.
              qs_shutdown s = Some (ShutdownSettled (Some (BridgeError c)))))
    \<and> last (fst (terminateAfterCleanExitFailure f invalidate terminate)) = ForceTerminate
    \<and> (TerminateInvalidate \<in> set (fst (terminateAfterCleanExitFailure f invalidate terminate))
         \<longleftrightarrow> cleanExitFailureRequiresInvalidation f)"
proof -
  have inv: "stages_match s" "routed_ok s" using routed_run [of i ops] assms(1) by simp_all
  have f: "qs_clean s = Some (CleanSettled (Some (cf_error f)))"
    "cf_cleanBoundaryPersisted f \<longrightarrow> CleanExitPersisted \<in> set (acts s)"
    "cf_phase f = CheckedCoreShutdown \<longrightarrow> qs_shutdown s = Some (ShutdownSettled (Some (cf_error f)))"
    "\<forall>g. FailureRouted g \<in> set (acts s) \<longrightarrow> g = f"
    using inv(2) assms(2) unfolding routed_ok_def by blast+
  have kept: "cf_cleanBoundaryPersisted f \<and> cf_phase f = CheckedCoreShutdown
      \<and> (\<exists>c \<in> set PROVEN_LATE_CHECKED_SHUTDOWN_CODES. cf_error f = BridgeError c)"
    if "\<not> cleanExitFailureRequiresInvalidation f"
    using that by (cases "cf_error f")
      (auto simp: cleanExitFailureRequiresInvalidation_def split: if_splits)
  have "AppQuit \<notin> set (acts s) \<and> AppRelaunch \<notin> set (acts s)"
    using stages_matchD(8) [OF inv(1)] f(1) by auto
  then show ?thesis
    using f kept by (auto simp: terminateAfterCleanExitFailure_def split: sum.split)
qed

definition demo_failed_ops :: "quit_op list" where
  "demo_failed_ops = [ConfirmQuit, CallCleanExit, CleanExitAnswered (Inr ()), EnterShutdown, CallShutdown,
     ShutdownAnswered (Inl (BridgeError ''CORE_STATE_DATABASE_FAILED'')), CleanAfterShutdown, RouteFailure (Inr ())]"

definition demo_routed :: clean_failure where
  "demo_routed = \<lparr>cf_cleanBoundaryPersisted = True, cf_error = BridgeError ''CORE_STATE_DATABASE_FAILED'',
     cf_fatalGenerationInvalidated = False, cf_phase = CheckedCoreShutdown\<rparr>"

theorem routed_failure_sound_witness:
  "fst (terminateAfterCleanExitFailure demo_routed (Inr ()) (Inr ())) = [ForceTerminate]
   \<and> AppQuit \<notin> set (acts (quit_run demo_quit_input demo_failed_ops))"
proof -
  have "FailureRouted demo_routed \<in> set (acts (quit_run demo_quit_input demo_failed_ops))"
    "fst (terminateAfterCleanExitFailure demo_routed (Inr ()) (Inr ())) = [ForceTerminate]"
    by code_simp+
  then show ?thesis using routed_failure_sound [OF refl] by blast
qed

lemma fence_calls:
  assumes "raise_fences P = (fences, failed, drain)"
  shows "fences = BeginCommandDrain # (if ep_runtime P = None then [] else [BeginRuntimeExit]) @ ReleaseIngress
      # (if ep_releaseIngress P = Inr () \<and> ep_closeAndDrain P \<noteq> None then [CloseIngress] else [])"
    and "failed = None \<longrightarrow> ep_runtime P \<noteq> None"
  using assms
  by (auto simp: raise_fences_def Let_def earlier_failure_def failure_of_def split: option.splits sum.splits prod.splits)

lemma drain_and_persist_calls:
  assumes "drain_and_persist P rt drain = (rest, r)"
  shows "InvalidateClean \<notin> set rest
    \<and> (PersistClean \<in> set rest \<longrightarrow> drain = Inr () \<and>
         (\<exists>t. ep_waitCommandDrain P t = Inr True \<and> rest = [PrepareRuntime, WaitCommandDrain t, PersistClean]))
    \<and> (r = Inr () \<longrightarrow> PersistClean \<in> set rest \<and> ep_persist P = Inr ())"
  using assms
  by (auto simp: drain_and_persist_def persist_clean_def Let_def split: sum.splits runtime_exit.splits bool.splits prod.splits)


definition demo_exit_ports :: exit_ports where
  "demo_exit_ports = \<lparr>ep_beginCommandDrain = Inr (), ep_runtime = Some (Inr (), Persists (Inr ())),
     ep_releaseIngress = Inr (), ep_closeAndDrain = Some (Inr (Inr ())), ep_waitCommandDrain = (\<lambda>_. Inr True),
     ep_persist = Inr (), ep_invalidate = Inr (), ep_timeoutMs = None\<rparr>"


end
