(* ===== verification/Macro_Graph.thy ===== *)
theory Macro_Graph
  imports Prelude
begin

text \<open>
  Macros that call macros (\<open>src/src/shared/macroDependencies.ts\<close>, \<open>macroExecution.ts\<close>, the sources of
  \<open>macroShortcuts.ts\<close> and the callable targets of the editor,
  \<open>src/src/renderer/src/features/macros/macroUtils.ts\<close>): the traversals of the call graph, the roles a
  macro may be started from, and the check that keeps the graph free of cycles.
\<close>

section \<open>Macros\<close>

datatype execution_mode = SourceRole | SelectedRoles

datatype source_scope = AllRoles | AllExecutionRoles | ChosenRoles "string list"

text \<open>A step other than a call of a macro carries nothing the traversals read.\<close>

datatype macro_step = CallMacro string | InputStep

record macro =
  mc_id :: string
  mc_steps :: "macro_step list"
  mc_roleIds :: "string list"
  mc_executionMode :: "execution_mode option"
  mc_shortcutSourceScope :: source_scope

definition getMacroDependencyIds :: "macro \<Rightarrow> string list" where
  "getMacroDependencyIds m = concat (map (\<lambda>s. case s of CallMacro i \<Rightarrow> [i] | InputStep \<Rightarrow> []) (mc_steps m))"

text \<open>\<open>new Map(macros.map(...))\<close>: the last macro with an id wins.\<close>

definition macroById :: "macro list \<Rightarrow> string \<Rightarrow> macro option" where
  "macroById ms i = find (\<lambda>m. mc_id m = i) (rev ms)"

definition calls_of :: "macro list \<Rightarrow> string \<Rightarrow> string list" where
  "calls_of ms i = (case macroById ms i of None \<Rightarrow> [] | Some m \<Rightarrow> getMacroDependencyIds m)"

section \<open>Traversals\<close>

text \<open>Known macros not visited yet: every turn of a traversal removes one of them or shrinks the stack
  of pending ids, whose end is its top.\<close>

definition unvisited :: "macro list \<Rightarrow> string list \<Rightarrow> nat" where
  "unvisited ms visited = card (set (map mc_id ms) - set visited)"

lemma macroById_Some: "macroById ms i = Some m \<Longrightarrow> m \<in> set ms \<and> mc_id m = i"
  by (auto simp: macroById_def find_Some_iff) (metis length_rev nth_mem set_rev)

lemma unvisited_less:
  "macroById ms i = Some m \<Longrightarrow> i \<notin> set visited \<Longrightarrow> unvisited ms (i # visited) < unvisited ms visited"
  unfolding unvisited_def
  by (rule psubset_card_mono) (auto dest!: macroById_Some)

lemma unvisited_same: "macroById ms i = None \<Longrightarrow> unvisited ms (i # visited) = unvisited ms visited"
  by (auto simp: unvisited_def macroById_def find_None_iff intro!: arg_cong [where f = card])

function depends_loop :: "macro list \<Rightarrow> string \<Rightarrow> string list \<Rightarrow> string list \<Rightarrow> bool" where
  "depends_loop ms target pending visited =
     (if pending = [] then False
      else
        let current = last pending; rest = butlast pending
        in if current = target then True
           else if current \<in> set visited then depends_loop ms target rest visited
           else (case macroById ms current of
                   None \<Rightarrow> depends_loop ms target rest (current # visited)
                 | Some m \<Rightarrow> depends_loop ms target (rest @ getMacroDependencyIds m) (current # visited)))"
  by pat_completeness auto
termination
  by (relation "measures [\<lambda>(ms, t, p, v). unvisited ms v, \<lambda>(ms, t, p, v). length p]")
    (auto simp: unvisited_less unvisited_same)

definition macroDependsOn :: "macro list \<Rightarrow> string \<Rightarrow> string \<Rightarrow> bool" where
  "macroDependsOn ms source target = depends_loop ms target [source] []"

definition unassigned :: "macro \<Rightarrow> bool" where
  "unassigned m \<longleftrightarrow> mc_executionMode m \<noteq> Some SourceRole \<and> mc_roleIds m = []"

function unassigned_loop :: "macro list \<Rightarrow> string list \<Rightarrow> string list \<Rightarrow> macro option" where
  "unassigned_loop ms pending visited =
     (if pending = [] then None
      else
        let current = last pending; rest = butlast pending
        in if current \<in> set visited then unassigned_loop ms rest visited
           else (case macroById ms current of
                   None \<Rightarrow> unassigned_loop ms rest (current # visited)
                 | Some m \<Rightarrow>
                     if unassigned m then Some m
                     else unassigned_loop ms (rest @ getMacroDependencyIds m) (current # visited)))"
  by pat_completeness auto
termination
  by (relation "measures [\<lambda>(ms, p, v). unvisited ms v, \<lambda>(ms, p, v). length p]")
    (auto simp: unvisited_less unvisited_same)

definition findUnassignedMacroDependency :: "macro list \<Rightarrow> string \<Rightarrow> macro option" where
  "findUnassignedMacroDependency ms source = unassigned_loop ms [source] []"

function source_loop :: "macro list \<Rightarrow> string list \<Rightarrow> string list \<Rightarrow> macro list \<Rightarrow> macro list" where
  "source_loop ms pending visited dynamic =
     (if pending = [] then dynamic
      else
        let current = last pending; rest = butlast pending
        in if current \<in> set visited then source_loop ms rest visited dynamic
           else (case macroById ms current of
                   None \<Rightarrow> source_loop ms rest (current # visited) dynamic
                 | Some m \<Rightarrow>
                     source_loop ms (rest @ getMacroDependencyIds m) (current # visited)
                       (if mc_executionMode m = Some SourceRole then dynamic @ [m] else dynamic)))"
  by pat_completeness auto
termination
  by (relation "measures [\<lambda>(ms, p, v, d). unvisited ms v, \<lambda>(ms, p, v, d). length p]")
    (auto simp: unvisited_less unvisited_same)

definition sourceRoleDependencies :: "macro list \<Rightarrow> string \<Rightarrow> macro list" where
  "sourceRoleDependencies ms root = source_loop ms [root] [] []"

declare depends_loop.simps [simp del] unassigned_loop.simps [simp del] source_loop.simps [simp del]

section \<open>Sources\<close>

definition allowsMacroSource :: "macro \<Rightarrow> string \<Rightarrow> bool" where
  "allowsMacroSource m role =
     (case mc_shortcutSourceScope m of
        AllRoles \<Rightarrow> True
      | ChosenRoles rs \<Rightarrow> role \<in> set rs
      | AllExecutionRoles \<Rightarrow> role \<in> set (mc_roleIds m))"

definition allowsMacroChainSource :: "macro list \<Rightarrow> macro \<Rightarrow> string \<Rightarrow> bool" where
  "allowsMacroChainSource ms root role \<longleftrightarrow>
     (allowsMacroSource root role \<or> (mc_executionMode root \<noteq> Some SourceRole \<and> role \<in> set (mc_roleIds root)))
     \<and> list_all (\<lambda>m. allowsMacroSource m role) (sourceRoleDependencies ms (mc_id root))"

definition macroRoleAssignmentsOverlap :: "string list \<Rightarrow> string list \<Rightarrow> bool" where
  "macroRoleAssignmentsOverlap l r = list_ex (\<lambda>x. x \<in> set r) l"

definition getMacroShortcutSourceRoleIds :: "macro \<Rightarrow> string list" where
  "getMacroShortcutSourceRoleIds m =
     (case mc_shortcutSourceScope m of ChosenRoles rs \<Rightarrow> rs | _ \<Rightarrow> mc_roleIds m)"

definition macroShortcutSourcesOverlap :: "macro \<Rightarrow> macro \<Rightarrow> bool" where
  "macroShortcutSourcesOverlap l r =
     (if mc_shortcutSourceScope l = AllRoles \<or> mc_shortcutSourceScope r = AllRoles then True
      else macroRoleAssignmentsOverlap (getMacroShortcutSourceRoleIds l) (getMacroShortcutSourceRoleIds r))"

section \<open>Callable targets\<close>

datatype unavailable_reason = TargetMissing | TargetSelf | TargetCycle

definition getMacroTargetUnavailableReason ::
  "macro list \<Rightarrow> string option \<Rightarrow> string \<Rightarrow> unavailable_reason option" where
  "getMacroTargetUnavailableReason ms current targetId =
     (case find (\<lambda>m. mc_id m = targetId) ms of
        None \<Rightarrow> Some TargetMissing
      | Some target \<Rightarrow>
          if Some (mc_id target) = current then Some TargetSelf
          else (case current of
                  None \<Rightarrow> None
                | Some c \<Rightarrow> if c \<noteq> [] \<and> macroDependsOn ms (mc_id target) c then Some TargetCycle else None))"

definition isCallableMacroTarget :: "macro list \<Rightarrow> string option \<Rightarrow> string \<Rightarrow> bool" where
  "isCallableMacroTarget ms current targetId \<longleftrightarrow> getMacroTargetUnavailableReason ms current targetId = None"

definition getCallableMacroTargets :: "macro list \<Rightarrow> string option \<Rightarrow> macro list" where
  "getCallableMacroTargets ms current = filter (\<lambda>m. isCallableMacroTarget ms current (mc_id m)) ms"

definition getMacroTargetOptions :: "macro list \<Rightarrow> string option \<Rightarrow> (macro \<times> unavailable_reason option) list" where
  "getMacroTargetOptions ms current = map (\<lambda>m. (m, getMacroTargetUnavailableReason ms current (mc_id m))) ms"

section \<open>Worklists\<close>

text \<open>What a depth-first search with a set of visited nodes still has to find: the nodes outside the
  visited ones that the pending ones reach.  A search that visited nodes only with their successors
  keeps the visited set closed up to the pending nodes.\<close>

locale worklist =
  fixes succ :: "'a \<Rightarrow> 'a list"
begin

definition edges :: "('a \<times> 'a) set" where "edges = {(a, b). b \<in> set (succ a)}"

definition frontier :: "'a set \<Rightarrow> 'a set \<Rightarrow> 'a set" where
  "frontier V P = {i. i \<notin> V \<and> (\<exists>p \<in> P. (p, i) \<in> edges\<^sup>*)}"

definition closed_up_to :: "'a set \<Rightarrow> 'a set \<Rightarrow> bool" where
  "closed_up_to V P \<longleftrightarrow> (\<forall>v \<in> V. set (succ v) \<subseteq> V \<union> P)"

lemma frontier_empty: "frontier V {} = {}"
  by (simp add: frontier_def)

lemma leaves_closed:
  assumes "(v, i) \<in> edges\<^sup>*" and "v \<in> V" and "i \<notin> V" and "closed_up_to V P"
  shows "\<exists>p \<in> P. (p, i) \<in> edges\<^sup>*"
  using assms(1,2)
proof (induction rule: converse_rtrancl_induct)
  case base
  then show ?case using assms(3) by simp
next
  case (step v w)
  show ?case
  proof (cases "w \<in> V")
    case False
    then have "w \<in> P" using step.hyps(1) step.prems assms(4) by (auto simp: edges_def closed_up_to_def)
    then show ?thesis using step.hyps(2) by blast
  qed (use step.IH in blast)
qed

lemma frontier_visited:
  "v \<in> V \<Longrightarrow> closed_up_to V (insert v P) \<Longrightarrow> frontier V (insert v P) = frontier V P"
proof -
  assume v: "v \<in> V" and c: "closed_up_to V (insert v P)"
  have "closed_up_to V P" using v c by (auto simp: closed_up_to_def)
  then show "frontier V (insert v P) = frontier V P"
    using leaves_closed v by (fastforce simp: frontier_def)
qed

lemma frontier_new:
  assumes "v \<notin> V"
  shows "frontier V (insert v P) = insert v (frontier (insert v V) (P \<union> set (succ v)))"
proof -
  have "(v, i) \<in> edges\<^sup>* \<longleftrightarrow> i = v \<or> (\<exists>w \<in> set (succ v). (w, i) \<in> edges\<^sup>*)" for i
    using converse_rtranclE [of v i edges] by (auto simp: edges_def intro: converse_rtrancl_into_rtrancl)
  then show ?thesis using assms by (auto simp: frontier_def)
qed

lemma closed_visited: "v \<in> V \<Longrightarrow> closed_up_to V (insert v P) \<Longrightarrow> closed_up_to V P"
  by (auto simp: closed_up_to_def)

lemma closed_new: "closed_up_to V (insert v P) \<Longrightarrow> closed_up_to (insert v V) (P \<union> set (succ v))"
  by (auto simp: closed_up_to_def)

lemma closed_start: "closed_up_to {} P"
  by (simp add: closed_up_to_def)

lemma frontier_start: "i \<in> frontier {} {p} \<longleftrightarrow> (p, i) \<in> edges\<^sup>*"
  by (simp add: frontier_def)

end

interpretation graph: worklist "calls_of ms" for ms .

text \<open>The calls of a macro list as a relation: \<open>reaches ms a b\<close> says that macro \<open>a\<close> runs \<open>b\<close>, directly
  or through other macros, or is \<open>b\<close>.\<close>

definition calls :: "macro list \<Rightarrow> (string \<times> string) set" where
  "calls ms = {(a, b). b \<in> set (calls_of ms a)}"

lemma graph_edges: "graph.edges ms = calls ms"
  by (simp add: graph.edges_def calls_def)

text \<open>The turn of a traversal: the end of the stack and what is left, seen as sets.\<close>

lemma stack_set: "pending \<noteq> [] \<Longrightarrow> set pending = insert (last pending) (set (butlast pending))"
  by (metis append_butlast_last_id list.set(1,2) set_append Un_insert_right sup_bot.right_neutral)

text \<open>One turn of a traversal.\<close>

lemma turn_visited:
  assumes "pending \<noteq> []" and "graph.closed_up_to ms (set visited) (set pending)" and "last pending \<in> set visited"
  shows "graph.closed_up_to ms (set visited) (set (butlast pending))"
    and "graph.frontier ms (set visited) (set pending) = graph.frontier ms (set visited) (set (butlast pending))"
  using graph.closed_visited [OF assms(3), of ms] graph.frontier_visited [OF assms(3), of ms] assms(2)
  unfolding stack_set [OF assms(1)] by blast+

lemma turn_new:
  assumes "pending \<noteq> []" and "graph.closed_up_to ms (set visited) (set pending)" and "last pending \<notin> set visited"
  shows "graph.closed_up_to ms (set (last pending # visited)) (set (butlast pending @ calls_of ms (last pending)))"
    and "graph.frontier ms (set visited) (set pending) = insert (last pending)
      (graph.frontier ms (set (last pending # visited)) (set (butlast pending @ calls_of ms (last pending))))"
  using graph.closed_new graph.frontier_new [OF assms(3), of ms] assms(2)
  unfolding stack_set [OF assms(1)] by auto

text \<open>An id of no macro has no calls, so the traversals treat it like any other.\<close>

lemma calls_of_Some: "macroById ms i = Some m \<Longrightarrow> calls_of ms i = getMacroDependencyIds m"
  by (simp add: calls_of_def)

lemma calls_of_None: "macroById ms i = None \<Longrightarrow> calls_of ms i = []"
  by (simp add: calls_of_def)

lemma depends_turn:
  "depends_loop ms target pending visited \<longleftrightarrow> pending \<noteq> [] \<and>
     (last pending = target \<or>
      (if last pending \<in> set visited then depends_loop ms target (butlast pending) visited
       else depends_loop ms target (butlast pending @ calls_of ms (last pending)) (last pending # visited)))"
  by (subst depends_loop.simps) (auto simp: Let_def calls_of_Some calls_of_None split: option.split)

lemma unassigned_turn:
  "unassigned_loop ms pending visited =
     (if pending = [] then None
      else if last pending \<in> set visited then unassigned_loop ms (butlast pending) visited
      else (case macroById ms (last pending) of
              Some m \<Rightarrow> if unassigned m then Some m
                else unassigned_loop ms (butlast pending @ calls_of ms (last pending)) (last pending # visited)
            | None \<Rightarrow> unassigned_loop ms (butlast pending @ calls_of ms (last pending)) (last pending # visited)))"
  by (subst unassigned_loop.simps) (auto simp: Let_def calls_of_Some calls_of_None split: option.split)

definition if_source :: "macro option \<Rightarrow> macro list" where
  "if_source m = (case m of None \<Rightarrow> [] | Some m \<Rightarrow> if mc_executionMode m = Some SourceRole then [m] else [])"

lemma source_turn:
  "source_loop ms pending visited dynamic =
     (if pending = [] then dynamic
      else if last pending \<in> set visited then source_loop ms (butlast pending) visited dynamic
      else source_loop ms (butlast pending @ calls_of ms (last pending)) (last pending # visited)
             (dynamic @ if_source (macroById ms (last pending))))"
  by (subst source_loop.simps) (auto simp: Let_def calls_of_Some calls_of_None if_source_def split: option.split)

lemma traversal_induct [case_names stop turn]:
  assumes "\<And>visited. P [] visited"
    and "\<And>pending visited. pending \<noteq> [] \<Longrightarrow>
      (last pending \<in> set visited \<Longrightarrow> P (butlast pending) visited) \<Longrightarrow>
      (last pending \<notin> set visited \<Longrightarrow> P (butlast pending @ calls_of ms (last pending)) (last pending # visited)) \<Longrightarrow>
      P pending visited"
  shows "P pending visited"
proof -
  have "ms' = ms \<longrightarrow> P pending visited" for ms' and d :: "macro list"
  proof (induction ms' pending visited d rule: source_loop.induct)
    case (1 ms' pending visited d)
    show ?case
    proof (intro impI, cases "pending = []")
      case True
      then show "P pending visited" using assms(1) by simp
    next
      case False
      assume ms: "ms' = ms"
      show "P pending visited"
      proof (rule assms(2) [OF False])
        show "P (butlast pending) visited" if "last pending \<in> set visited"
          using "1.IH"(1) [OF False refl refl that] ms by simp
        show "P (butlast pending @ calls_of ms (last pending)) (last pending # visited)"
          if "last pending \<notin> set visited"
          using "1.IH"(2) [OF False refl refl that] "1.IH"(3) [OF False refl refl that] ms
          by (cases "macroById ms (last pending)") (auto simp: calls_of_Some calls_of_None)
      qed
    qed
  qed
  then show ?thesis by blast
qed

text \<open>What each traversal computes.\<close>

lemma depends_loop_frontier:
  "graph.closed_up_to ms (set visited) (set pending) \<Longrightarrow> target \<notin> set visited \<Longrightarrow>
     depends_loop ms target pending visited \<longleftrightarrow> target \<in> graph.frontier ms (set visited) (set pending)"
proof (induction pending visited rule: traversal_induct [of _ ms])
  case (stop visited)
  then show ?case by (simp add: depends_turn [of _ _ "[]"] graph.frontier_empty)
next
  case (turn pending visited)
  show ?case
  proof (cases "last pending \<in> set visited")
    case True
    then show ?thesis
      using turn.IH(1) turn_visited [OF turn.hyps turn.prems(1)] turn.prems(2) turn.hyps
        depends_turn [of ms target pending visited] by auto
  next
    case False
    then show ?thesis
      using turn.IH(2) turn_new [OF turn.hyps turn.prems(1)] turn.prems(2) turn.hyps
        depends_turn [of ms target pending visited] by auto
  qed
qed

definition unassigned_result :: "macro list \<Rightarrow> string set \<Rightarrow> macro option \<Rightarrow> bool" where
  "unassigned_result ms found r \<longleftrightarrow>
     (case r of
        None \<Rightarrow> \<forall>i \<in> found. \<forall>m. macroById ms i = Some m \<longrightarrow> \<not> unassigned m
      | Some m \<Rightarrow> \<exists>i \<in> found. macroById ms i = Some m \<and> unassigned m)"

lemma unassigned_loop_frontier:
  "graph.closed_up_to ms (set visited) (set pending) \<Longrightarrow>
     unassigned_result ms (graph.frontier ms (set visited) (set pending)) (unassigned_loop ms pending visited)"
proof (induction pending visited rule: traversal_induct [of _ ms])
  case (stop visited)
  then show ?case by (simp add: unassigned_turn [of _ "[]"] unassigned_result_def graph.frontier_empty)
next
  case (turn pending visited)
  show ?case
  proof (cases "last pending \<in> set visited")
    case True
    then show ?thesis
      using turn.IH(1) turn_visited [OF turn.hyps turn.prems] turn.hyps
        unassigned_turn [of ms pending visited] by simp
  next
    case False
    then show ?thesis
      using turn.IH(2) turn_new [OF turn.hyps turn.prems] turn.hyps unassigned_turn [of ms pending visited]
      by (auto simp: unassigned_result_def split: option.splits if_splits)
  qed
qed

lemma source_loop_frontier:
  "graph.closed_up_to ms (set visited) (set pending) \<Longrightarrow>
     set (source_loop ms pending visited dynamic) = set dynamic \<union>
       {m. \<exists>i \<in> graph.frontier ms (set visited) (set pending).
             macroById ms i = Some m \<and> mc_executionMode m = Some SourceRole}"
proof (induction pending visited arbitrary: dynamic rule: traversal_induct [of _ ms])
  case (stop visited)
  then show ?case by (simp add: source_turn [of _ "[]"] graph.frontier_empty)
next
  case (turn pending visited)
  show ?case
  proof (cases "last pending \<in> set visited")
    case True
    then show ?thesis
      using turn.IH(1) turn_visited [OF turn.hyps turn.prems] turn.hyps
        source_turn [of ms pending visited dynamic] by simp
  next
    case False
    then show ?thesis
      using turn.IH(2) turn_new [OF turn.hyps turn.prems] turn.hyps source_turn [of ms pending visited dynamic]
      by (auto simp: if_source_def split: option.splits if_splits)
  qed
qed

lemma dependsOn_iff: "macroDependsOn ms a b \<longleftrightarrow> (a, b) \<in> (calls ms)\<^sup>*"
  using depends_loop_frontier [of ms "[]" "[a]" b] graph.frontier_start [of b ms a]
  by (simp add: macroDependsOn_def graph.closed_start graph_edges)

lemma unassigned_iff:
  "unassigned_result ms {i. (a, i) \<in> (calls ms)\<^sup>*} (findUnassignedMacroDependency ms a)"
proof -
  have "graph.frontier ms {} {a} = {i. (a, i) \<in> (calls ms)\<^sup>*}"
    using graph.frontier_start [of _ ms a] by (auto simp: graph_edges)
  then show ?thesis
    using unassigned_loop_frontier [of ms "[]" "[a]"]
    by (simp add: findUnassignedMacroDependency_def graph.closed_start)
qed

lemma source_dependencies_iff:
  "m \<in> set (sourceRoleDependencies ms a) \<longleftrightarrow>
     (\<exists>i. (a, i) \<in> (calls ms)\<^sup>* \<and> macroById ms i = Some m \<and> mc_executionMode m = Some SourceRole)"
  using source_loop_frontier [of ms "[]" "[a]" "[]"] graph.frontier_start [of _ ms a]
  by (auto simp: sourceRoleDependencies_def graph.closed_start graph_edges)

section \<open>Properties\<close>

text \<open>C34: The traversals compute reachability, on every macro list - with missing macros, duplicate ids
  and cycles - and always end. A macro depends on exactly the ids its calls lead to; the source-role
  dependencies are exactly the source-role macros reached; and the search for an unassigned macro
  finds a reached one that runs on no role, and finds none only when there is none.\<close>

theorem traversals_compute_reachability:
  "macroDependsOn ms a b = ((a, b) \<in> (calls ms)\<^sup>*)
   \<and> set (sourceRoleDependencies ms a) =
       {m. \<exists>i. (a, i) \<in> (calls ms)\<^sup>* \<and> macroById ms i = Some m \<and> mc_executionMode m = Some SourceRole}
   \<and> (case findUnassignedMacroDependency ms a of
        None \<Rightarrow> \<forall>i m. (a, i) \<in> (calls ms)\<^sup>* \<longrightarrow> macroById ms i = Some m \<longrightarrow> \<not> unassigned m
      | Some m \<Rightarrow> \<exists>i. (a, i) \<in> (calls ms)\<^sup>* \<and> macroById ms i = Some m \<and> unassigned m)"
  using dependsOn_iff unassigned_iff [of ms a] source_dependencies_iff
  by (auto simp: unassigned_result_def split: option.splits)

definition demo_macro :: "string \<Rightarrow> macro_step list \<Rightarrow> string list \<Rightarrow> execution_mode \<Rightarrow> macro" where
  "demo_macro i steps roles mode = \<lparr>mc_id = i, mc_steps = steps, mc_roleIds = roles,
     mc_executionMode = Some mode, mc_shortcutSourceScope = AllExecutionRoles\<rparr>"

definition demo_macros :: "macro list" where
  "demo_macros = [demo_macro ''a'' [CallMacro ''b'', InputStep] [''r''] SelectedRoles,
     demo_macro ''b'' [CallMacro ''c''] [''r''] SourceRole, demo_macro ''c'' [InputStep] [] SelectedRoles]"

lemma demo_calls:
  "calls_of demo_macros i = (if i = ''a'' then [''b''] else if i = ''b'' then [''c''] else [])"
proof -
  have "macroById demo_macros i = (if i = ''c'' then Some (demo_macros ! 2)
      else if i = ''b'' then Some (demo_macros ! 1) else if i = ''a'' then Some (demo_macros ! 0) else None)"
    by (simp add: macroById_def demo_macros_def demo_macro_def eq_commute)
  then show ?thesis
    by (simp add: calls_of_def demo_macros_def demo_macro_def getMacroDependencyIds_def)
qed

theorem traversals_compute_reachability_witness:
  "macroDependsOn demo_macros ''a'' ''c'' \<and> \<not> macroDependsOn demo_macros ''c'' ''a''
   \<and> findUnassignedMacroDependency demo_macros ''a'' \<noteq> None"
proof -
  have e: "calls demo_macros = {(''a'', ''b''), (''b'', ''c'')}" by (auto simp: calls_def demo_calls split: if_splits)
  have c: "(''a'', ''c'') \<in> (calls demo_macros)\<^sup>*"
    by (rule rtrancl_trans [of _ "''b''"]) (rule r_into_rtrancl; simp add: e)+
  have n: "(''c'', ''a'') \<notin> (calls demo_macros)\<^sup>*"
  proof
    assume "(''c'', ''a'') \<in> (calls demo_macros)\<^sup>*"
    then show False by (cases rule: converse_rtranclE) (auto simp: e)
  qed
  have "macroById demo_macros ''c'' = Some (demo_macros ! 2)" "unassigned (demo_macros ! 2)"
    by (simp_all add: macroById_def demo_macros_def demo_macro_def unassigned_def)
  then show ?thesis
    using traversals_compute_reachability [of demo_macros "''a''" "''c''"]
      traversals_compute_reachability [of demo_macros "''c''" "''a''"] c n
    by (auto split: option.splits)
qed

text \<open>Saving an edited macro replaces the macro with its id.\<close>

definition save_macro :: "macro \<Rightarrow> macro list \<Rightarrow> macro list" where
  "save_macro m ms = map (\<lambda>n. if mc_id n = mc_id m then m else n) ms"

lemma find_map_list: "find P (map f xs) = map_option f (find (\<lambda>x. P (f x)) xs)"
  by (induction xs) simp_all

lemma macroById_save:
  assumes "mc_id m \<in> mc_id ` set ms"
  shows "macroById (save_macro m ms) i = (if i = mc_id m then Some m else macroById ms i)"
proof -
  have same: "mc_id (if mc_id n = mc_id m then m else n) = mc_id n" for n by simp
  have f: "macroById (save_macro m ms) i = map_option (\<lambda>n. if mc_id n = mc_id m then m else n) (macroById ms i)"
    by (simp add: macroById_def save_macro_def rev_map find_map_list same)
  show ?thesis
  proof (cases "macroById ms i")
    case None
    then have "i \<notin> mc_id ` set ms" by (auto simp: macroById_def find_None_iff)
    then show ?thesis using f None assms by auto
  next
    case (Some n)
    then have "mc_id n = i" by (auto dest: macroById_Some)
    then show ?thesis using f Some by simp
  qed
qed

lemma calls_save:
  "mc_id m \<in> mc_id ` set ms \<Longrightarrow>
     calls (save_macro m ms) = {(a, b) \<in> calls ms. a \<noteq> mc_id m} \<union> {mc_id m} \<times> set (getMacroDependencyIds m)"
  by (auto simp: calls_def calls_of_def macroById_save split: if_splits)

lemma path_avoids:
  assumes "(t, c) \<in> ({(a, b) \<in> r. a \<noteq> c} \<union> {c} \<times> T)\<^sup>*"
  shows "(t, c) \<in> r\<^sup>*"
  using assms
proof (induction rule: converse_rtrancl_induct)
  case (step y z)
  then show ?case by (auto intro: converse_rtrancl_into_rtrancl)
qed simp

lemma acyclic_new_calls:
  assumes "acyclic r" and "finite T" and "\<forall>t \<in> T. (t, c) \<notin> r\<^sup>*"
  shows "acyclic ({(a, b) \<in> r. a \<noteq> c} \<union> {c} \<times> T)"
  using assms(2,3)
proof (induction T rule: finite_induct)
  case empty
  have "{(a, b) \<in> r. a \<noteq> c} \<union> {c} \<times> {} \<subseteq> r" by auto
  then show ?case using assms(1) acyclic_subset by blast
next
  case (insert t T)
  have "{(a, b) \<in> r. a \<noteq> c} \<union> {c} \<times> insert t T = insert (c, t) ({(a, b) \<in> r. a \<noteq> c} \<union> {c} \<times> T)" by auto
  then show ?case unfolding acyclic_insert using insert.IH insert.prems path_avoids [of t c r T] by fastforce
qed

lemma callable_iff:
  "isCallableMacroTarget ms (Some c) t \<longleftrightarrow>
     t \<in> mc_id ` set ms \<and> t \<noteq> c \<and> (c = [] \<or> (t, c) \<notin> (calls ms)\<^sup>*)"
proof (cases "find (\<lambda>m. mc_id m = t) ms")
  case None
  then have "t \<notin> mc_id ` set ms" by (auto simp: find_None_iff)
  then show ?thesis using None by (simp add: isCallableMacroTarget_def getMacroTargetUnavailableReason_def)
next
  case (Some m)
  then have "m \<in> set ms" "mc_id m = t" by (auto simp: find_Some_iff)
  then show ?thesis using Some
    by (auto simp: isCallableMacroTarget_def getMacroTargetUnavailableReason_def dependsOn_iff)
qed

text \<open>C35: The editor keeps macros free of endless recursion. If no macro leads back to itself and an
  existing macro is saved with calls of targets that the editor offers as callable, then again no
  macro leads back to itself; and the offered targets are exactly the existing ones that do not lead
  to the edited macro.\<close>

theorem callable_targets_keep_acyclic:
  assumes "acyclic (calls ms)" and "mc_id m \<in> mc_id ` set ms" and "mc_id m \<noteq> []"
    and "list_all (isCallableMacroTarget ms (Some (mc_id m))) (getMacroDependencyIds m)"
  shows "acyclic (calls (save_macro m ms))
    \<and> set (getCallableMacroTargets ms (Some (mc_id m))) = {n \<in> set ms. (mc_id n, mc_id m) \<notin> (calls ms)\<^sup>*}"
proof
  have "\<forall>t \<in> set (getMacroDependencyIds m). (t, mc_id m) \<notin> (calls ms)\<^sup>*"
    using assms(3,4) by (auto simp: list_all_iff callable_iff)
  then show "acyclic (calls (save_macro m ms))"
    unfolding calls_save [OF assms(2)] by (intro acyclic_new_calls assms(1)) simp_all
  show "set (getCallableMacroTargets ms (Some (mc_id m))) = {n \<in> set ms. (mc_id n, mc_id m) \<notin> (calls ms)\<^sup>*}"
    using assms(3) by (auto simp: getCallableMacroTargets_def callable_iff)
qed

lemma demo_acyclic: "acyclic (calls demo_macros)"
proof -
  have "calls demo_macros = {(''a'', ''b''), (''b'', ''c'')}" by (auto simp: calls_def demo_calls split: if_splits)
  moreover have "(''b'', ''a'') \<notin> {(''b'', ''c'')}\<^sup>*"
  proof
    assume "(''b'', ''a'') \<in> {(''b'', ''c'')}\<^sup>*"
    then have "(''c'', ''a'') \<in> {(''b'', ''c'')}\<^sup>*" by (cases rule: converse_rtranclE) auto
    then show False by (cases rule: converse_rtranclE) auto
  qed
  moreover have "acyclic ({} :: (string \<times> string) set)" by (simp add: acyclic_def)
  ultimately show ?thesis by (simp add: acyclic_insert)
qed

theorem callable_targets_keep_acyclic_witness:
  "acyclic (calls (save_macro (demo_macro ''b'' [CallMacro ''c'', CallMacro ''c''] [] SelectedRoles) demo_macros))
   \<and> map mc_id (getCallableMacroTargets demo_macros (Some ''b'')) = [''c'']"
proof -
  have off: "map mc_id (getCallableMacroTargets demo_macros (Some ''b'')) = [''c'']"
    and "isCallableMacroTarget demo_macros (Some ''b'') ''c''"
    by code_simp+
  then show ?thesis
    using callable_targets_keep_acyclic [OF demo_acyclic, of "demo_macro ''b'' [CallMacro ''c'', CallMacro ''c''] [] SelectedRoles"]
      off by (simp add: demo_macro_def demo_macros_def getMacroDependencyIds_def)
qed

text \<open>A macro chain runs only where every part of it may. A role is allowed as the source of a chain
  exactly if the root admits it, as a source or as one of its selected roles, and every source-role
  macro the chain reaches admits it; and two shortcuts are taken to overlap exactly if one listens on
  all roles or some role may start both.\<close>

lemma chain_sources_exact:
  "(allowsMacroChainSource ms root role \<longleftrightarrow>
     (allowsMacroSource root role \<or> mc_executionMode root \<noteq> Some SourceRole \<and> role \<in> set (mc_roleIds root))
     \<and> \<not> (\<exists>i m. (mc_id root, i) \<in> (calls ms)\<^sup>* \<and> macroById ms i = Some m
          \<and> mc_executionMode m = Some SourceRole \<and> \<not> allowsMacroSource m role))
   \<and> (macroShortcutSourcesOverlap l r \<longleftrightarrow>
     mc_shortcutSourceScope l = AllRoles \<or> mc_shortcutSourceScope r = AllRoles
     \<or> (\<exists>role. allowsMacroSource l role \<and> allowsMacroSource r role))"
proof
  show "allowsMacroChainSource ms root role \<longleftrightarrow>
     (allowsMacroSource root role \<or> mc_executionMode root \<noteq> Some SourceRole \<and> role \<in> set (mc_roleIds root))
     \<and> \<not> (\<exists>i m. (mc_id root, i) \<in> (calls ms)\<^sup>* \<and> macroById ms i = Some m
          \<and> mc_executionMode m = Some SourceRole \<and> \<not> allowsMacroSource m role)"
    unfolding allowsMacroChainSource_def list_all_iff Ball_def source_dependencies_iff by blast
  show "macroShortcutSourcesOverlap l r \<longleftrightarrow>
     mc_shortcutSourceScope l = AllRoles \<or> mc_shortcutSourceScope r = AllRoles
     \<or> (\<exists>role. allowsMacroSource l role \<and> allowsMacroSource r role)"
    by (auto simp: macroShortcutSourcesOverlap_def macroRoleAssignmentsOverlap_def list_ex_iff allowsMacroSource_def
        getMacroShortcutSourceRoleIds_def split: source_scope.splits)
qed

end
