(* ===== verification/Sequence_Bounds.thy ===== *)
theory Sequence_Bounds
  imports Sequence_Executor
begin

text \<open>
  What a key sequence can leave behind, whatever was held before it: bounds on the keys the page
  still sees after every outcome of the executor, and what Core has planned for the role by then.
  These are the facts the trusted input coordinator rests its bookkeeping on.
\<close>

section \<open>What the ports keep\<close>

definition sends_keep :: "'w ports \<Rightarrow> string \<Rightarrow> ('w \<Rightarrow> bool) \<Rightarrow> bool" where
  "sends_keep P q Q \<longleftrightarrow>
     (\<forall>r w. req_roleId r = q \<longrightarrow> Q w \<longrightarrow> Q (fst (dispatch P r w))) \<and>
     (\<forall>f b w. Q w \<longrightarrow> Q (record_failure P f b w))"

text \<open>The identities of a role's transitions are among \<open>ids\<close>: the executor completes no other one.\<close>

definition id_in :: "string set \<Rightarrow> transition outcome \<Rightarrow> bool" where
  "id_in ids out \<longleftrightarrow> (\<forall>tr t. out = Inr tr \<longrightarrow> transitionId tr = Some t \<longrightarrow> t \<in> ids)"

lemma id_in_UNIV [simp]: "id_in UNIV out"
  by (simp add: id_in_def)

lemma id_inD: "id_in ids (Inr tr) \<Longrightarrow> transitionId tr = Some t \<Longrightarrow> t \<in> ids"
  by (simp add: id_in_def)

definition ports_keep :: "'w ports \<Rightarrow> string \<Rightarrow> string set \<Rightarrow> ('w \<Rightarrow> bool) \<Rightarrow> bool" where
  "ports_keep P q ids Q \<longleftrightarrow> sends_keep P q Q \<and>
     (\<forall>i w. prep_roleId i = q \<longrightarrow> Q w \<longrightarrow>
        Q (fst (core_prepare P i w)) \<and> id_in ids (snd (core_prepare P i w))) \<and>
     (\<forall>w. Q w \<longrightarrow> Q (fst (core_reassert P q w)) \<and> id_in ids (snd (core_reassert P q w))) \<and>
     (\<forall>t b w. t \<in> ids \<longrightarrow> Q w \<longrightarrow> Q (fst (core_complete P t b w)))"

lemma sends_keepD:
  assumes "sends_keep P q Q"
  shows "req_roleId r = q \<Longrightarrow> Q w \<Longrightarrow> dispatch P r w = (w', out) \<Longrightarrow> Q w'"
    and "Q w \<Longrightarrow> Q (record_failure P f b w)"
  using assms unfolding sends_keep_def by (metis fst_conv)+

lemma ports_keepD:
  assumes "ports_keep P q ids Q"
  shows "sends_keep P q Q"
    and "prep_roleId i = q \<Longrightarrow> Q w \<Longrightarrow> core_prepare P i w = (w', out) \<Longrightarrow> Q w' \<and> id_in ids out"
    and "Q w \<Longrightarrow> core_reassert P q w = (w', out) \<Longrightarrow> Q w' \<and> id_in ids out"
    and "t \<in> ids \<Longrightarrow> Q w \<Longrightarrow> core_complete P t b w = (w', out') \<Longrightarrow> Q w'"
  using assms unfolding ports_keep_def by (metis fst_conv snd_conv)+

lemma release_edges_keeps:
  assumes "release_edges P cx rs active rel w = (w', rel', c)"
    and "sends_keep P (roleId (cx_request cx)) Q" and "Q w"
  shows "Q w'"
  using assms(1,3)
  by (induction rs arbitrary: active rel w)
    (auto simp: Let_def split: if_splits option.splits prod.splits sum.splits
      dest: sends_keepD(1) [OF assms(2), rotated 2])

lemma compensateEdges_keeps:
  assumes "compensateEdges P cx es rel w = (w', rel', c)"
    and "sends_keep P (roleId (cx_request cx)) Q" and "Q w"
  shows "Q w'"
  using assms(1) release_edges_keeps [OF _ assms(2,3)]
  by (auto simp: compensateEdges_def Let_def split: prod.splits)

lemma rollback_keeps:
  assumes "rollback P tid w = (w', c)" and "\<And>t w' out. tid = Some t \<Longrightarrow> core_complete P t False w = (w', out) \<Longrightarrow> Q w'"
    and "Q w"
  shows "Q w'"
  using assms by (auto simp: rollback_def split: option.splits if_splits prod.splits)

lemma recover_keeps:
  assumes "recover P cx tr nb cause applied edges failed rel w = (w', rel', f)"
    and "ports_keep P (roleId (cx_request cx)) ids Q" and "id_in ids (Inr tr)" and "Q w"
  shows "Q w'"
proof -
  note sends = ports_keepD(1) [OF assms(2)]
  obtain w1 r1 c1 where 1: "compensateEdges P cx edges rel w = (w1, r1, c1)" by (metis prod_cases3)
  obtain w2 c2 where 2: "rollback P (transitionId tr) w1 = (w2, c2)" by fastforce
  have w1: "Q w1" using compensateEdges_keeps [OF 1 sends assms(4)] .
  have "Q w2" by (rule rollback_keeps [OF 2, where Q = Q, OF _ w1]) (rule ports_keepD(4) [OF assms(2) id_inD [OF assms(3)] w1])
  moreover have "\<exists>b. w' = record_failure P f b w2"
    using assms(1) 1 2 by (auto simp: recover_def recoverChromiumKeySequence_def Let_def)
  ultimately show ?thesis using sends_keepD(2) [OF sends] by blast
qed

lemma dispatch_fails_keep:
  assumes "ports_keep P (roleId (cx_request cx)) ids Q" and "id_in ids (Inr tr)" and "Q w"
  shows "Q (fst (dispatch_threw P cx tr nb applied rel e cause w))"
    and "Q (fst (dispatch_refused P cx tr nb applied rel e rc w))"
  using recover_keeps [OF _ assms]
  by (auto simp: dispatch_threw_def dispatch_refused_def Let_def split: prod.splits)

lemma run_effects_keeps:
  assumes "run_effects P cx tr nb es applied rel w = (w', out)"
    and "ports_keep P (roleId (cx_request cx)) ids Q" and "id_in ids (Inr tr)" and "Q w"
  shows "Q w'"
  using assms(1,4)
proof (induction es arbitrary: applied rel w)
  case Nil
  then show ?case by simp
next
  case (Cons e es)
  obtain w1 o1 where d: "dispatch P (nativeRequest (cx_request cx) (cx_surfaceGeneration cx) e
      (cx_physical cx) (request_intent (cx_request cx))) w = (w1, o1)" by fastforce
  have "Q w1" using sends_keepD(1) [OF ports_keepD(1) [OF assms(2)] _ Cons.prems(2) d] by simp
  then show ?case
    using Cons.prems(1) d Cons.IH dispatch_fails_keep [OF assms(2,3)]
    by (auto split: sum.splits prod.splits if_splits) (metis fst_conv)+
qed

lemma finish_keeps:
  assumes "finish_sequence P cx tr nb applied rel w = (w', out)"
    and "ports_keep P (roleId (cx_request cx)) ids Q" and "id_in ids (Inr tr)" and "Q w"
  shows "Q w'"
  using assms(1,4)
  by (auto simp: finish_sequence_def Let_def split: option.splits if_splits sum.splits prod.splits
      dest: recover_keeps [OF _ assms(2,3)] ports_keepD(4) [OF assms(2), rotated 2] id_inD [OF assms(3)])

lemma prepare_keeps:
  assumes "prepare_transition P request platform w = (w', out)"
    and "ports_keep P (roleId request) ids Q" and "Q w"
  shows "Q w' \<and> (\<forall>tr ph. out = Inr (tr, ph) \<longrightarrow> id_in ids (Inr tr))"
  using assms(1,3)
  by (auto simp: prepare_transition_def split: browser_action.splits option.splits if_splits
      sum.splits prod.splits dest: ports_keepD(2) [OF assms(2), rotated 2]
      ports_keepD(3) [OF assms(2), rotated])

text \<open>Whatever every port keeps, the executor keeps.\<close>

lemma execute_keeps:
  assumes "executeChromiumTrustedKeySequence P request g platform w = (w', out)"
    and "ports_keep P (roleId request) ids Q" and "Q w"
  shows "Q w'"
proof -
  obtain w0 p where 1: "prepare_transition P request platform w = (w0, p)" by fastforce
  have w0: "Q w0" using prepare_keeps [OF 1 assms(2,3)] by simp
  show ?thesis
  proof (cases p)
    case (Inl r)
    then show ?thesis using assms(1) 1 w0 by (simp add: executeChromiumTrustedKeySequence_def)
  next
    case (Inr q)
    obtain tr physical where q: "q = (tr, physical)" by fastforce
    have ids: "id_in ids (Inr tr)" using prepare_keeps [OF 1 assms(2,3)] Inr q by simp
    let ?cx = "\<lparr>cx_request = request, cx_surfaceGeneration = g, cx_physical = physical\<rparr>"
    obtain w1 r where 2: "run_effects P ?cx tr (neutral_before tr) (effects tr) [] [] w0 = (w1, r)"
      by fastforce
    have "Q w1" using run_effects_keeps [OF 2 _ ids] assms(2) w0 by simp
    then show ?thesis
      using assms(1) 1 2 Inr q finish_keeps [of P ?cx tr "neutral_before tr" _ _ w1 w' out ids Q] assms(2) ids
      by (auto simp: executeChromiumTrustedKeySequence_def Let_def split: sum.splits prod.splits)
  qed
qed

section \<open>Keys left behind by a failure\<close>

text \<open>A failed sequence may leave the keys it pressed, and never one it reports as released.\<close>

definition pressed :: "key_effect list \<Rightarrow> string set" where
  "pressed es = {code e | e. e \<in> set es \<and> phase e = RawKeyDown}"

lemma pressed_simps [simp]:
  "pressed [] = {}"
  "pressed (es @ es') = pressed es \<union> pressed es'"
  "pressed [e] = (if phase e = RawKeyDown then {code e} else {})"
  by (auto simp: pressed_def)

lemma outcome_upper:
  assumes "outcome_allows out e h h'"
  shows "h' \<subseteq> h \<union> pressed [e]"
  using assms by (cases "phase e") (auto simp: outcome_allows_def apply_edge_def
      split: sum.splits receipt_status.splits if_splits)

lemma outcome_up:
  assumes "outcome_allows out e h h'" and "phase e = KeyUp"
  shows "h' \<subseteq> h" and "out = Inr rc \<Longrightarrow> rec_status rc = Applied \<Longrightarrow> h' = h - {code e}"
  using assms by (auto simp: outcome_allows_def apply_edge_def
      split: sum.splits receipt_status.splits if_splits)

lemma release_edges_bound:
  assumes "release_edges P cx rs active rel w = (w', rel', c)"
    and "tracks_held P (roleId (cx_request cx)) held" and "set rel \<inter> held w = {}"
  shows "held w' \<subseteq> held w \<and> set rel' \<inter> held w' = {}"
  using assms(1,3)
proof (induction rs arbitrary: active rel w)
  case Nil
  then show ?case by simp
next
  case (Cons e rs)
  let ?e = "e\<lparr>activeCodes := active, activeCodesBefore := removeAll (code e) active\<rparr>"
  show ?case
  proof (cases "inverseChromiumKeyEffect ?e")
    case None
    then show ?thesis
      using Cons.prems Cons.IH [of "removeAll (code e) active" rel w] by (auto simp: Let_def split: if_splits)
  next
    case (Some u)
    note up = inverse_phase [OF Some]
    obtain w1 out where d: "dispatch P (nativeRequest (cx_request cx) (cx_surfaceGeneration cx) u
      (cx_physical cx) Cleanup) w = (w1, out)" by fastforce
    note o = outcome_up [OF tracks_dispatch [OF assms(2) d]]
    show ?thesis
    proof (cases "nowMs P w \<ge> deadlineMs (cx_request cx)")
      case True
      then show ?thesis using Cons.prems by simp
    next
      case False
      show ?thesis
      proof (cases "\<exists>rc. out = Inr rc \<and> rec_status rc = Applied")
        case True
        then obtain rc where rc: "out = Inr rc" "rec_status rc = Applied" by blast
        have h: "held w1 = held w - {code u}" using o(2) up rc by simp
        then have "set (js_add (code u) rel) \<inter> held w1 = {}" using Cons.prems(2) by auto
        then show ?thesis
          using Cons.prems(1) Cons.IH False Some d rc h by (fastforce simp: Let_def)
      next
        case other: False
        then have "w' = w1" "rel' = rel"
          using Cons.prems(1) False Some d by (auto simp: Let_def split: sum.splits)
        then show ?thesis using o(1) up Cons.prems(2) by auto
      qed
    qed
  qed
qed

lemma recover_bound:
  assumes "recover P cx tr nb cause applied edges failed rel w = (w', rel', f)"
    and "tracks_held P (roleId (cx_request cx)) held" and "set rel \<inter> held w = {}"
  shows "held w' \<subseteq> held w \<and> set rel' \<inter> held w' = {}"
proof -
  obtain w1 r1 c1 where 1: "compensateEdges P cx edges rel w = (w1, r1, c1)" by (metis prod_cases3)
  have "held w1 \<subseteq> held w \<and> set r1 \<inter> held w1 = {}"
    using 1 release_edges_bound [OF _ assms(2,3)]
    by (auto simp: compensateEdges_def Let_def split: prod.splits)
  moreover have "held w' = held w1" "rel' = r1"
    using assms(1) 1 rollback_held [OF assms(2)] tracks_record [OF assms(2)]
    by (auto simp: recover_def recoverChromiumKeySequence_def Let_def split_def)
  ultimately show ?thesis by simp
qed

definition left_behind :: "sequence_failure \<Rightarrow> string set" where
  "left_behind f = {c. (RawKeyDown, c) \<in> set (sf_possiblyAppliedEdges f)}"

lemma left_behind_failure [simp]:
  "left_behind (ChromiumTrustedInputSequenceFailure c q i es n rel) = pressed es"
  "sf_confirmedReleaseCodes (ChromiumTrustedInputSequenceFailure c q i es n rel) = rel"
  by (auto simp: left_behind_def ChromiumTrustedInputSequenceFailure_def pressed_def image_iff) metis

lemma dispatch_threw_bound:
  assumes "dispatch_threw P cx tr nb applied rel e cause w = (w', Thrown f)"
    and "tracks_held P (roleId (cx_request cx)) held"
    and "set (if phase e = RawKeyDown then removeAll (code e) rel else rel) \<inter> held w = {}"
  shows "held w' \<subseteq> held w \<and> set (sf_confirmedReleaseCodes f) \<inter> held w' = {} \<and>
    left_behind f = pressed (applied @ [e])"
proof -
  let ?pa = "if phase e = RawKeyDown then [e] else []"
  obtain w1 r fr where r: "recover P cx tr nb (normalize_code cause) applied (applied @ ?pa) (Some e)
      (if phase e = RawKeyDown then removeAll (code e) rel else rel) w = (w1, r, fr)"
    by (metis prod_cases3)
  show ?thesis
    using assms(1) recover_bound [OF r assms(2,3)] r
    by (auto simp: dispatch_threw_def Let_def)
qed

lemma dispatch_refused_bound:
  assumes "dispatch_refused P cx tr nb applied rel e rc w = (w', Thrown f)"
    and "tracks_held P (roleId (cx_request cx)) held"
    and "set (if rec_status rc = Indeterminate \<and> phase e = RawKeyDown
              then removeAll (code e) rel else rel) \<inter> held w = {}"
  shows "held w' \<subseteq> held w \<and> set (sf_confirmedReleaseCodes f) \<inter> held w' = {} \<and>
    left_behind f = pressed (applied @ (if rec_status rc = Indeterminate \<and> phase e = RawKeyDown
                                         then [e] else []))"
proof -
  let ?pa = "if rec_status rc = Indeterminate \<and> phase e = RawKeyDown then [e] else []"
  have eq: "(if ?pa \<noteq> [] then removeAll (code e) rel else rel) =
      (if rec_status rc = Indeterminate \<and> phase e = RawKeyDown then removeAll (code e) rel else rel)"
    by simp
  obtain w1 r fr where r: "recover P cx tr nb (receiptFailure rc) applied (applied @ ?pa) (Some e)
      (if rec_status rc = Indeterminate \<and> phase e = RawKeyDown then removeAll (code e) rel else rel) w
        = (w1, r, fr)"
    by (metis prod_cases3)
  show ?thesis
    using assms(1) recover_bound [OF r assms(2,3)] r
    unfolding dispatch_refused_def Let_def eq by (auto simp: sequenceFailure_def Let_def)
qed

text \<open>The effect loop, from any keys held and any effects applied before.\<close>

lemma run_effects_bound:
  assumes "run_effects P cx tr nb es applied rel w = (w', Inl (Thrown f))"
    and "tracks_held P (roleId (cx_request cx)) held"
    and "held w \<subseteq> B \<union> pressed applied" and "set rel \<inter> held w = {}"
  shows "held w' \<subseteq> B \<union> left_behind f \<and> set (sf_confirmedReleaseCodes f) \<inter> held w' = {}"
  using assms(1,3,4)
proof (induction es arbitrary: applied rel w)
  case Nil
  then show ?case by simp
next
  case (Cons e es)
  obtain w1 out where d: "dispatch P (nativeRequest (cx_request cx) (cx_surfaceGeneration cx) e
      (cx_physical cx) (request_intent (cx_request cx))) w = (w1, out)" by fastforce
  note t = tracks_dispatch [OF assms(2) d]
  have up: "held w1 \<subseteq> B \<union> pressed (applied @ [e])" using outcome_upper [OF t] Cons.prems(2) by auto
  have rel: "set (if phase e = RawKeyDown then removeAll (code e) rel else rel) \<inter> held w1 = {}"
    using outcome_upper [OF t] Cons.prems(3) by (cases "phase e") auto
  show ?case
  proof (cases out)
    case (Inl cause)
    then have "dispatch_threw P cx tr nb applied rel e cause w1 = (w', Thrown f)"
      using Cons.prems(1) d by (auto split: prod.splits)
    from dispatch_threw_bound [OF this assms(2) rel] up show ?thesis by auto
  next
    case (Inr rc)
    show ?thesis
    proof (cases "rec_status rc = Applied")
      case True
      let ?rel = "if phase e = KeyUp then js_add (code e) rel else removeAll (code e) rel"
      have "set ?rel \<inter> held w1 = {}"
        using rel t Inr True by (cases "phase e") (auto simp: outcome_allows_def apply_edge_def)
      then show ?thesis using Cons.IH [OF _ up] Cons.prems(1) d Inr True by simp
    next
      case False
      then have r: "dispatch_refused P cx tr nb applied rel e rc w1 = (w', Thrown f)"
        using Cons.prems(1) d Inr by (auto split: prod.splits)
      have same: "held w1 = held w" if "rec_status rc \<noteq> Indeterminate"
        using t Inr False that by (cases "rec_status rc") (auto simp: outcome_allows_def)
      have "set (if rec_status rc = Indeterminate \<and> phase e = RawKeyDown
              then removeAll (code e) rel else rel) \<inter> held w1 = {}"
        using rel same Cons.prems(3) by (cases "phase e") (auto split: if_splits)
      from dispatch_refused_bound [OF r assms(2) this]
      show ?thesis using up same Cons.prems(2) by (cases "phase e") (auto split: if_splits)
    qed
  qed
qed

section \<open>What Core has planned\<close>

text \<open>The contract of the embedded keyboard port: \<open>planned w\<close> are the codes Core counts as held for
  the role, \<open>pend w t\<close> those it will count once the pending transition \<open>t\<close> is confirmed. A plan chains
  from the planned codes and says whether any remain; a reassertion plans no change and needs no
  confirmation.  \<open>ok\<close> is what Core keeps invariant.\<close>

definition plan_ok :: "string set \<Rightarrow> transition \<Rightarrow> bool" where
  "plan_ok A tr \<longleftrightarrow> effect_chain A (effects tr) \<and> (hasHeldKeys tr \<longleftrightarrow> fold apply_edge (effects tr) A \<noteq> {})"

definition prepare_law ::
  "'w ports \<Rightarrow> string \<Rightarrow> ('w \<Rightarrow> bool) \<Rightarrow> ('w \<Rightarrow> string set) \<Rightarrow> ('w \<Rightarrow> string \<Rightarrow> string set option) \<Rightarrow> bool" where
  "prepare_law P q ok planned pend \<longleftrightarrow>
     (\<forall>i w. ok w \<longrightarrow> prep_roleId i = q \<longrightarrow>
        (case core_prepare P i w of
           (w', Inr tr) \<Rightarrow> plan_ok (planned w) tr \<and> planned w' = planned w \<and>
             (\<forall>t. transitionId tr = Some t \<longrightarrow> pend w' t = Some (fold apply_edge (effects tr) (planned w)))
         | (w', Inl _) \<Rightarrow> planned w' = planned w))"

definition reassert_law ::
  "'w ports \<Rightarrow> string \<Rightarrow> ('w \<Rightarrow> bool) \<Rightarrow> ('w \<Rightarrow> string set) \<Rightarrow> bool" where
  "reassert_law P q ok planned \<longleftrightarrow>
     (\<forall>w. ok w \<longrightarrow>
        (case core_reassert P q w of
           (w', Inr tr) \<Rightarrow> plan_ok (planned w) tr \<and> planned w' = planned w \<and> transitionId tr = None \<and>
             fold apply_edge (effects tr) (planned w) = planned w
         | (w', Inl _) \<Rightarrow> planned w' = planned w))"

definition complete_law ::
  "'w ports \<Rightarrow> ('w \<Rightarrow> bool) \<Rightarrow> ('w \<Rightarrow> string set) \<Rightarrow> ('w \<Rightarrow> string \<Rightarrow> string set option) \<Rightarrow> bool" where
  "complete_law P ok planned pend \<longleftrightarrow>
     (\<forall>t b w X. ok w \<longrightarrow> pend w t = Some X \<longrightarrow>
        (case core_complete P t b w of
           (w', Inr _) \<Rightarrow> planned w' = (if b then X else planned w)
         | (_, Inl _) \<Rightarrow> True))"

definition plans_keys ::
  "'w ports \<Rightarrow> string \<Rightarrow> ('w \<Rightarrow> bool) \<Rightarrow> ('w \<Rightarrow> string set) \<Rightarrow> ('w \<Rightarrow> string \<Rightarrow> string set option) \<Rightarrow> bool" where
  "plans_keys P q ok planned pend \<longleftrightarrow> ports_keep P q UNIV ok \<and> prepare_law P q ok planned pend \<and>
     reassert_law P q ok planned \<and> complete_law P ok planned pend \<and>
     (\<forall>A B. sends_keep P q (\<lambda>w. ok w \<and> planned w = A \<and> pend w = B))"

lemma plans_keysD:
  assumes "plans_keys P q ok planned pend"
  shows "ports_keep P q UNIV ok" "prepare_law P q ok planned pend" "reassert_law P q ok planned"
    "complete_law P ok planned pend" "sends_keep P q (\<lambda>w. ok w \<and> planned w = A \<and> pend w = B)"
  using assms by (simp_all add: plans_keys_def)

lemma prepare_lawD:
  assumes "prepare_law P q ok planned pend" "ok w" "prep_roleId i = q"
  shows "core_prepare P i w = (w', Inr tr) \<Longrightarrow>
        plan_ok (planned w) tr \<and> planned w' = planned w \<and>
        (\<forall>t. transitionId tr = Some t \<longrightarrow> pend w' t = Some (fold apply_edge (effects tr) (planned w)))"
    and "core_prepare P i w = (w', out) \<Longrightarrow> planned w' = planned w"
  using assms unfolding prepare_law_def by (fastforce split: prod.splits sum.splits)+

lemma reassert_lawD:
  assumes "reassert_law P q ok planned" "ok w"
  shows "core_reassert P q w = (w', Inr tr) \<Longrightarrow>
        plan_ok (planned w) tr \<and> planned w' = planned w \<and> transitionId tr = None \<and>
        fold apply_edge (effects tr) (planned w) = planned w"
    and "core_reassert P q w = (w', out) \<Longrightarrow> planned w' = planned w"
  using assms unfolding reassert_law_def by (fastforce split: prod.splits sum.splits)+

lemma complete_lawD:
  assumes "complete_law P ok planned pend" "ok w" "pend w t = Some X"
    "core_complete P t b w = (w', Inr y)"
  shows "planned w' = (if b then X else planned w)"
  using assms unfolding complete_law_def by (fastforce split: prod.splits sum.splits)

text \<open>A transition Core returned, with the identity it is pending under.\<close>

definition awaiting :: "('w \<Rightarrow> string set) \<Rightarrow> ('w \<Rightarrow> string \<Rightarrow> string set option) \<Rightarrow> transition \<Rightarrow> 'w \<Rightarrow> bool" where
  "awaiting planned pend tr w \<longleftrightarrow> plan_ok (planned w) tr \<and>
     (case transitionId tr of
        None \<Rightarrow> fold apply_edge (effects tr) (planned w) = planned w
      | Some t \<Rightarrow> t \<noteq> [] \<and> pend w t = Some (fold apply_edge (effects tr) (planned w)))"

lemma prepare_plans:
  assumes "prepare_transition P request platform w = (w0, out)"
    and "tracks_held P (roleId request) held" and "plans_keys P (roleId request) ok planned pend" and "ok w"
  shows "held w0 = held w \<and> planned w0 = planned w \<and> ok w0 \<and>
    (\<forall>tr ph. out = Inr (tr, ph) \<longrightarrow> awaiting planned pend tr w0) \<and>
    (\<forall>r. out = Inl r \<longrightarrow> (case r of Completed _ \<Rightarrow> False | Rethrown _ \<Rightarrow> True
       | Thrown f \<Rightarrow> \<not> sf_quarantine f \<and> \<not> sf_confirmedInputNeutrality f \<and>
           sf_possiblyAppliedEdges f = [] \<and> sf_confirmedReleaseCodes f = []))"
proof -
  have h: "held w' = held w" if "core_prepare P i w = (w', x)" for i w' x
    using tracks_heldD(4) [OF assms(2), of i w] that by simp
  have h': "held w' = held w" if "core_reassert P (roleId request) w = (w', x)" for w' x
    using tracks_heldD(5) [OF assms(2), of w] that by simp
  have k: "ok w0" using prepare_keeps [OF assms(1) plans_keysD(1) [OF assms(3)] assms(4)] by simp
  note prep = prepare_lawD [OF plans_keysD(2) [OF assms(3)] assms(4)]
  note reas = reassert_lawD [OF plans_keysD(3) [OF assms(3)] assms(4)]
  have q: "planned w0 = planned w"
    using assms(1)
    by (auto simp: prepare_transition_def split: browser_action.splits option.splits if_splits
        sum.splits prod.splits dest: prep(2) [rotated] reas(2))
  have "held w0 = held w"
    using assms(1)
    by (auto simp: prepare_transition_def split: browser_action.splits option.splits if_splits
        sum.splits prod.splits dest: h h')
  moreover have "awaiting planned pend tr w0" if "out = Inr (tr, ph)" for tr ph
    using assms(1) that
    by (auto simp: prepare_transition_def awaiting_def split: browser_action.splits option.splits
        if_splits sum.splits prod.splits dest: prep(1) [rotated] reas(1))
  moreover have "case r of Completed _ \<Rightarrow> False | Rethrown _ \<Rightarrow> True
       | Thrown f \<Rightarrow> \<not> sf_quarantine f \<and> \<not> sf_confirmedInputNeutrality f \<and>
           sf_possiblyAppliedEdges f = [] \<and> sf_confirmedReleaseCodes f = []" if "out = Inl r" for r
    using assms(1) that
    by (auto simp: prepare_transition_def ChromiumTrustedInputSequenceFailure_def
        split: browser_action.splits option.splits if_splits sum.splits prod.splits)
  ultimately show ?thesis using q k by blast
qed

text \<open>While effects are dispatched nothing changes in Core; a confirmed rollback restores the plan.\<close>

lemma run_effects_applied_keeps:
  assumes "run_effects P cx tr nb es applied rel w = (w', Inr x)"
    and "sends_keep P (roleId (cx_request cx)) Q" and "Q w"
  shows "Q w'"
  using assms(1,3)
proof (induction es arbitrary: applied rel w)
  case (Cons e es)
  obtain w1 out where d: "dispatch P (nativeRequest (cx_request cx) (cx_surfaceGeneration cx) e
      (cx_physical cx) (request_intent (cx_request cx))) w = (w1, out)" by fastforce
  have "Q w1" using sends_keepD(1) [OF assms(2) _ Cons.prems(2) d] by simp
  then show ?case using Cons.prems(1) d Cons.IH by (auto split: sum.splits prod.splits if_splits)
qed simp

lemma rollback_planned:
  assumes "rollback P tid w = (w', None)" and "complete_law P ok planned pend" and "ok w"
    and "\<And>t. tid = Some t \<Longrightarrow> pend w t \<noteq> None"
  shows "planned w' = planned w"
proof (cases tid)
  case (Some t)
  then obtain X where "pend w t = Some X" using assms(4) by auto
  then show ?thesis
    using assms(1) Some complete_lawD [OF assms(2,3), of t X False]
    by (auto simp: rollback_def Let_def split: if_splits prod.splits sum.splits)
qed (use assms(1) in \<open>simp add: rollback_def\<close>)

lemma recover_planned:
  assumes "recover P cx tr nb cause applied edges failed rel w = (w', rel', f)"
    and "plans_keys P (roleId (cx_request cx)) ok planned pend" and "ok w" and "rollbackSucceeded f"
    and "\<And>t. transitionId tr = Some t \<Longrightarrow> pend w t \<noteq> None"
  shows "planned w' = planned w"
proof -
  let ?Q = "\<lambda>x. ok x \<and> planned x = planned w \<and> pend x = pend w"
  have sends: "sends_keep P (roleId (cx_request cx)) ?Q" by (rule plans_keysD(5) [OF assms(2)])
  obtain w1 r1 c1 where 1: "compensateEdges P cx edges rel w = (w1, r1, c1)" by (metis prod_cases3)
  obtain w2 c2 where 2: "rollback P (transitionId tr) w1 = (w2, c2)" by fastforce
  have q1: "?Q w1" using compensateEdges_keeps [OF 1 sends] assms(3) by simp
  have c2: "c2 = None" and b: "\<exists>b. w' = record_failure P f b w2"
    using assms(1,4) 1 2
    by (auto simp: recover_def recoverChromiumKeySequence_def rollbackSucceeded_def Let_def)
  have "planned w2 = planned w1"
    using rollback_planned [OF 2 [unfolded c2] plans_keysD(4) [OF assms(2)]] q1 assms(5) by simp
  moreover have "ok w2"
  proof (rule rollback_keeps [OF 2, where Q = ok])
    show "ok x" if "core_complete P t False w1 = (x, out)" for t x out
      using ports_keepD(4) [OF plans_keysD(1) [OF assms(2)] UNIV_I] q1 that by blast
  qed (use q1 in simp)
  moreover have "planned (record_failure P f b w2) = planned w2" if "ok w2" for b
    using sends_keepD(2) [OF plans_keysD(5) [OF assms(2), of "planned w2" "pend w2"], of w2] that by simp
  ultimately show ?thesis using b q1 by auto
qed

lemma run_effects_planned:
  assumes "run_effects P cx tr nb es applied rel w = (w', Inl (Thrown f))"
    and "sf_confirmedInputNeutrality f"
    and "plans_keys P (roleId (cx_request cx)) ok planned pend" and "ok w"
    and "\<And>t. transitionId tr = Some t \<Longrightarrow> pend w t \<noteq> None"
  shows "planned w' = planned w"
  using assms(1,4,5)
proof (induction es arbitrary: applied rel w)
  case (Cons e es)
  obtain w1 out where d: "dispatch P (nativeRequest (cx_request cx) (cx_surfaceGeneration cx) e
      (cx_physical cx) (request_intent (cx_request cx))) w = (w1, out)" by fastforce
  have q: "ok w1 \<and> planned w1 = planned w \<and> pend w1 = pend w"
    using sends_keepD(1) [OF plans_keysD(5) [OF assms(3)] _ _ d, of "planned w" "pend w"] Cons.prems(2)
    by simp
  then have pd: "pend w1 t \<noteq> None" if "transitionId tr = Some t" for t using Cons.prems(3) that by simp
  note rec = recover_planned [OF _ assms(3) _ _ pd]
  show ?case
  proof (cases out)
    case (Inl cause)
    then have "dispatch_threw P cx tr nb applied rel e cause w1 = (w', Thrown f)"
      using Cons.prems(1) d by (auto split: prod.splits)
    from dispatch_threw_recovers [OF this] assms(2) rec q show ?thesis by metis
  next
    case (Inr rc)
    show ?thesis
    proof (cases "rec_status rc = Applied")
      case True
      then show ?thesis using Cons.IH [of _ _ w1] Cons.prems(1) d Inr q pd by fastforce
    next
      case False
      then have "dispatch_refused P cx tr nb applied rel e rc w1 = (w', Thrown f)"
        using Cons.prems(1) d Inr by (auto split: prod.splits)
      from dispatch_refused_recovers [OF this] assms(2) rec q show ?thesis by metis
    qed
  qed
qed simp

section \<open>Outcomes of the executor\<close>

lemma run_effects_applied:
  "run_effects P cx tr nb es applied rel w = (w', Inr (ap, rel')) \<Longrightarrow> ap = applied @ es"
  by (induction es arbitrary: applied rel w) (fastforce split: sum.splits prod.splits if_splits)+

text \<open>Splitting a run of the executor at the prepared transition.\<close>

lemma execute_cases:
  assumes "executeChromiumTrustedKeySequence P request g platform w = (w', out)"
  obtains (unplanned) "prepare_transition P request platform w = (w', Inl out)"
  | (stopped) w0 tr physical cx where "prepare_transition P request platform w = (w0, Inr (tr, physical))"
      and "cx_request cx = request"
      and "run_effects P cx tr (neutral_before tr) (effects tr) [] [] w0 = (w', Inl out)"
  | (finished) w0 tr physical cx w1 rel where
      "prepare_transition P request platform w = (w0, Inr (tr, physical))"
      and "cx_request cx = request"
      and "run_effects P cx tr (neutral_before tr) (effects tr) [] [] w0 = (w1, Inr (effects tr, rel))"
      and "finish_sequence P cx tr (neutral_before tr) (effects tr) rel w1 = (w', out)"
proof -
  obtain w0 p where 1: "prepare_transition P request platform w = (w0, p)" by fastforce
  show ?thesis
  proof (cases p)
    case (Inl r)
    then show ?thesis using assms 1 unplanned by (simp add: executeChromiumTrustedKeySequence_def)
  next
    case (Inr q)
    obtain tr physical where q: "q = (tr, physical)" by fastforce
    let ?cx = "\<lparr>cx_request = request, cx_surfaceGeneration = g, cx_physical = physical\<rparr>"
    obtain w1 r where 2: "run_effects P ?cx tr (neutral_before tr) (effects tr) [] [] w0 = (w1, r)"
      by fastforce
    show ?thesis
    proof (cases r)
      case (Inl x)
      then show ?thesis
        using assms 1 2 Inr q stopped [of w0 tr physical ?cx]
        by (simp add: executeChromiumTrustedKeySequence_def Let_def)
    next
      case r: (Inr x)
      obtain ap rel where x: "x = (ap, rel)" by fastforce
      have "ap = effects tr" using run_effects_applied [OF 2 [unfolded r x]] by simp
      then show ?thesis
        using assms 1 2 Inr q r x finished [of w0 tr physical ?cx w1 rel]
        by (simp add: executeChromiumTrustedKeySequence_def Let_def)
    qed
  qed
qed

lemma run_effects_rel:
  assumes "run_effects P cx tr nb es applied rel w = (w', Inr (ap, rel'))"
    and "tracks_held P (roleId (cx_request cx)) held" and "set rel \<inter> held w = {}"
  shows "held w' \<subseteq> held w \<union> pressed es \<and> set rel' \<inter> held w' = {}"
  using assms(1,3)
proof (induction es arbitrary: applied rel w)
  case (Cons e es)
  obtain w1 out where d: "dispatch P (nativeRequest (cx_request cx) (cx_surfaceGeneration cx) e
      (cx_physical cx) (request_intent (cx_request cx))) w = (w1, out)" by fastforce
  obtain rc where rc: "out = Inr rc" "rec_status rc = Applied"
    using Cons.prems(1) d by (auto split: sum.splits if_splits prod.splits)
  have h: "held w1 = apply_edge e (held w)"
    using tracks_dispatch [OF assms(2) d] rc by (simp add: outcome_allows_def)
  let ?rel = "if phase e = KeyUp then js_add (code e) rel else removeAll (code e) rel"
  have "set ?rel \<inter> held w1 = {}"
    using Cons.prems(2) h by (cases "phase e") (auto simp: apply_edge_def)
  then have "held w' \<subseteq> held w1 \<union> pressed es \<and> set rel' \<inter> held w' = {}"
    using Cons.IH [of "applied @ [e]" ?rel w1] Cons.prems(1) d rc by simp
  then show ?case using h by (cases "phase e") (auto simp: apply_edge_def pressed_def)
qed simp

lemma run_effects_quarantine:
  "run_effects P cx tr nb es applied rel w = (w', Inl (Thrown f)) \<Longrightarrow>
     sf_quarantine f \<or> sf_confirmedInputNeutrality f"
  by (induction es arbitrary: applied rel w)
    (auto simp: dispatch_threw_def dispatch_refused_def sequenceFailure_def Let_def
      ChromiumTrustedInputSequenceFailure_def split: sum.splits prod.splits if_splits)

lemma finish_completed:
  assumes "finish_sequence P cx tr nb applied rel w = (w', Completed x)"
  shows "ex_hasHeldKeys x = hasHeldKeys tr \<and> ex_confirmedEffects x = applied \<and>
    ex_activeCodes x = (if effects tr = [] then [] else activeCodes (last (effects tr))) \<and>
    rec_confirmedNeutrality (ex_receipt x) = (\<not> hasHeldKeys tr) \<and>
    (case transitionId tr of None \<Rightarrow> w' = w
     | Some t \<Rightarrow> if t = [] then w' = w else core_complete P t True w = (w', Inr ()))"
  using assms
  by (cases "transitionId tr")
    (auto simp: finish_sequence_def Let_def split: if_splits sum.splits prod.splits)

lemma finish_thrown:
  assumes "finish_sequence P cx tr nb applied rel w = (w', Thrown f)"
  obtains t w1 e rel' fr where "core_complete P t True w = (w1, Inl e)"
    and "recover P cx tr nb (normalize_code e) applied applied None rel w1 = (w', rel', fr)"
    and "f = ChromiumTrustedInputSequenceFailure ''SYSTEM_TRUSTED_INPUT_INDETERMINATE'' True False
           applied False rel'"
  using assms
  by (cases "transitionId tr")
    (auto simp: finish_sequence_def Let_def split: if_splits sum.splits prod.splits)

lemma finish_not_rethrown: "finish_sequence P cx tr nb applied rel w \<noteq> (w', Rethrown e)"
  by (cases "transitionId tr")
    (auto simp: finish_sequence_def Let_def split: if_splits sum.splits prod.splits)

text \<open>Completed: the plan was applied to what was held, and Core counts it.\<close>

lemma execute_completed:
  assumes "executeChromiumTrustedKeySequence P request g platform w = (w', Completed x)"
    and "tracks_held P (roleId request) held" and "plans_keys P (roleId request) ok planned pend" and "ok w"
  obtains tr where "plan_ok (planned w) tr"
    and "held w' = fold apply_edge (effects tr) (held w)"
    and "planned w' = fold apply_edge (effects tr) (planned w)"
    and "ex_hasHeldKeys x = hasHeldKeys tr" and "ex_confirmedEffects x = effects tr"
    and "ex_activeCodes x = (if effects tr = [] then [] else activeCodes (last (effects tr)))"
    and "rec_confirmedNeutrality (ex_receipt x) = (\<not> hasHeldKeys tr)"
  using assms(1)
proof (cases rule: execute_cases)
  case unplanned
  then show ?thesis using prepare_plans [OF unplanned assms(2-4)] by simp
next
  case (stopped w0 tr physical cx)
  then show ?thesis using run_effects_thrown [OF stopped(3)] by auto
next
  case (finished w0 tr physical cx w1 rel)
  have p: "held w0 = held w" "planned w0 = planned w" "ok w0" "awaiting planned pend tr w0"
    using prepare_plans [OF finished(1) assms(2-4)] by auto
  have tracks: "tracks_held P (roleId (cx_request cx)) held" using assms(2) finished(2) by simp
  have h1: "held w1 = fold apply_edge (effects tr) (held w)"
    using run_effects_applied_held [OF finished(3) tracks] p(1) by simp
  have q1: "ok w1 \<and> planned w1 = planned w \<and> pend w1 = pend w0"
    using run_effects_applied_keeps [OF finished(3)
      plans_keysD(5) [OF assms(3) [folded finished(2)], of "planned w" "pend w0"]] p by simp
  note fin = finish_completed [OF finished(4)]
  have "held w' = held w1"
    using fin tracks_complete [OF assms(2)] by (fastforce split: option.splits if_splits)
  moreover have "planned w' = fold apply_edge (effects tr) (planned w)"
    using fin p(4) q1 p(2) complete_lawD [OF plans_keysD(4) [OF assms(3)], of w1 _ _ True]
    by (auto simp: awaiting_def split: option.splits if_splits)
  ultimately show ?thesis
    using that [of tr] fin h1 p(2,4) by (simp add: awaiting_def)
qed

text \<open>Rethrown: nothing was dispatched.\<close>

lemma execute_rethrown:
  assumes "executeChromiumTrustedKeySequence P request g platform w = (w', Rethrown e)"
    and "tracks_held P (roleId request) held" and "plans_keys P (roleId request) ok planned pend" and "ok w"
  shows "held w' = held w \<and> planned w' = planned w"
  using assms(1)
proof (cases rule: execute_cases)
  case unplanned
  then show ?thesis using prepare_plans [OF unplanned assms(2-4)] by simp
next
  case (stopped w0 tr physical cx)
  then show ?thesis using run_effects_thrown [OF stopped(3)] by auto
next
  case (finished w0 tr physical cx w1 rel)
  then show ?thesis using finish_not_rethrown by metis
qed

text \<open>Thrown: what may be left behind, and what a confirmed neutrality excludes.\<close>

lemma execute_thrown_bound:
  assumes "executeChromiumTrustedKeySequence P request g platform w = (w', Thrown f)"
    and "tracks_held P (roleId request) held" and "plans_keys P (roleId request) ok planned pend" and "ok w"
  shows "held w' \<subseteq> held w \<union> left_behind f" and "set (sf_confirmedReleaseCodes f) \<inter> held w' = {}"
proof -
  have "held w' \<subseteq> held w \<union> left_behind f \<and> set (sf_confirmedReleaseCodes f) \<inter> held w' = {}"
    using assms(1)
  proof (cases rule: execute_cases)
    case unplanned
    then show ?thesis using prepare_plans [OF unplanned assms(2-4)] by simp
  next
    case (stopped w0 tr physical cx)
    have "held w0 = held w" using prepare_plans [OF stopped(1) assms(2-4)] by simp
    then show ?thesis
      using run_effects_bound [OF stopped(3) assms(2) [folded stopped(2)], of "held w"] by simp
  next
    case (finished w0 tr physical cx w1 rel)
    have tracks: "tracks_held P (roleId (cx_request cx)) held" using assms(2) finished(2) by simp
    have h0: "held w0 = held w" using prepare_plans [OF finished(1) assms(2-4)] by simp
    have h1: "held w1 \<subseteq> held w \<union> pressed (effects tr)" "set rel \<inter> held w1 = {}"
      using run_effects_rel [OF finished(3) tracks] h0 by auto
    obtain t w2 e rel' fr where t: "core_complete P t True w1 = (w2, Inl e)"
      and r: "recover P cx tr (neutral_before tr) (normalize_code e) (effects tr) (effects tr) None rel w2
                = (w', rel', fr)"
      and f: "f = ChromiumTrustedInputSequenceFailure ''SYSTEM_TRUSTED_INPUT_INDETERMINATE'' True False
           (effects tr) False rel'"
      using finish_thrown [OF finished(4)] by metis
    have "held w2 = held w1" using tracks_complete [OF tracks t] .
    then show ?thesis using recover_bound [OF r tracks] h1 f by auto
  qed
  then show "held w' \<subseteq> held w \<union> left_behind f" "set (sf_confirmedReleaseCodes f) \<inter> held w' = {}"
    by blast+
qed

text \<open>A failure without quarantine either dispatched nothing or confirmed neutrality.\<close>

lemma execute_thrown_calm:
  assumes "executeChromiumTrustedKeySequence P request g platform w = (w', Thrown f)"
    and "tracks_held P (roleId request) held" and "plans_keys P (roleId request) ok planned pend" and "ok w"
    and "\<not> sf_quarantine f" and "\<not> sf_confirmedInputNeutrality f"
  shows "held w' = held w \<and> planned w' = planned w \<and> sf_confirmedReleaseCodes f = []"
  using assms(1)
proof (cases rule: execute_cases)
  case unplanned
  then show ?thesis using prepare_plans [OF unplanned assms(2-4)] by simp
next
  case (stopped w0 tr physical cx)
  then show ?thesis using run_effects_quarantine [OF stopped(3)] assms(5,6) by simp
next
  case (finished w0 tr physical cx w1 rel)
  show ?thesis
    by (rule finish_thrown [OF finished(4)])
      (use assms(5) in \<open>simp add: ChromiumTrustedInputSequenceFailure_def\<close>)
qed

lemma execute_thrown_neutral:
  assumes "executeChromiumTrustedKeySequence P request g platform w = (w', Thrown f)"
    and "tracks_held P (roleId request) held" and "plans_keys P (roleId request) ok planned pend" and "ok w"
    and "sf_confirmedInputNeutrality f"
  shows "held w' \<subseteq> held w \<and> planned w = {} \<and> planned w' = {}"
  using assms(1)
proof (cases rule: execute_cases)
  case unplanned
  then show ?thesis using prepare_plans [OF unplanned assms(2-4)] assms(5) by simp
next
  case (stopped w0 tr physical cx)
  have p: "held w0 = held w" "planned w0 = planned w" "ok w0" "awaiting planned pend tr w0"
    using prepare_plans [OF stopped(1) assms(2-4)] by auto
  have nb: "neutral_before tr"
    using run_effects_needs_neutral_start [OF stopped(3) assms(5)] .
  then have e: "planned w0 = {}" "effect_chain {} (effects tr)"
    using p(4) by (auto simp: awaiting_def plan_ok_def neutral_before_def split: list.splits)
  have "held w' \<subseteq> held w0"
    using run_effects_neutral [OF stopped(3) assms(5) assms(2) [folded stopped(2)], of "held w0"] e by simp
  moreover have "planned w' = planned w0"
    by (rule run_effects_planned [OF stopped(3) assms(5) assms(3) [folded stopped(2)] p(3)])
      (use p(4) in \<open>auto simp: awaiting_def\<close>)
  ultimately show ?thesis using p(1,2) e(1) by simp
next
  case (finished w0 tr physical cx w1 rel)
  show ?thesis
    by (rule finish_thrown [OF finished(4)])
      (use assms(5) in \<open>simp add: ChromiumTrustedInputSequenceFailure_def\<close>)
qed

end
