(* ===== verification/Embedded_Input.thy ===== *)
theory Embedded_Input
  imports Sequence_Executor "HOL-Library.Char_ord" "HOL-Library.List_Lexorder"
begin

text \<open>
  The keys Core holds for a role (\<open>src/crates/rion-core/src/embedded_input.rs\<close>): every key code
  has a set of owners, a transition is planned against them and stays pending until the executor
  reports how it ended, and a failed transition is rolled back.

  A \<open>HashMap\<close> is a list of its entries: the code never observes its order, it sorts what it
  returns.  A fresh UUID is an argument of the operation that draws it.
\<close>

section \<open>State\<close>

datatype core_error = InvalidInput | Domain string

type_synonym held_codes = "(string, string list) js_map"

record pending_transition =
  pt_before :: held_codes
  pt_role_id :: string

record embedded_input =
  held_by_role :: "(string, held_codes) js_map"
  ei_pending :: "(string, pending_transition) js_map"
  pending_role_ids :: "string list"

definition MAX_PENDING_TRANSITIONS :: nat where "MAX_PENDING_TRANSITIONS = 512"
definition MAX_IDENTIFIER_LENGTH :: nat where "MAX_IDENTIFIER_LENGTH = 256"

definition embedded_input_new :: embedded_input where
  "embedded_input_new = \<lparr>held_by_role = [], ei_pending = [], pending_role_ids = []\<rparr>"

section \<open>Validation\<close>

text \<open>Rust strings are UTF-8: \<open>len\<close> counts bytes, a character above 127 has two.\<close>

definition rust_len :: "string \<Rightarrow> nat" where
  "rust_len s = sum_list (map (\<lambda>c. if (of_char c :: nat) < 128 then 1 else 2) s)"

definition rust_space :: "char \<Rightarrow> bool" where
  "rust_space c \<longleftrightarrow> js_space c \<or> (of_char c :: nat) = 133"

definition rust_control :: "char \<Rightarrow> bool" where
  "rust_control c \<longleftrightarrow> (let n = (of_char c :: nat) in n < 32 \<or> (127 \<le> n \<and> n < 160))"

definition validate_identifier :: "string \<Rightarrow> core_error + unit" where
  "validate_identifier s =
     (if list_all rust_space s \<or> rust_len s > MAX_IDENTIFIER_LENGTH \<or> list_ex rust_control s
      then Inl InvalidInput else Inr ())"

definition is_modifier_code :: "string \<Rightarrow> bool" where
  "is_modifier_code c \<longleftrightarrow> c \<in> set [''AltLeft'', ''AltRight'', ''ControlLeft'', ''ControlRight'',
     ''MetaLeft'', ''MetaRight'', ''ShiftLeft'', ''ShiftRight'']"

fun validate_modifiers :: "string list \<Rightarrow> string list \<Rightarrow> core_error + unit" where
  "validate_modifiers seen [] = Inr ()"
| "validate_modifiers seen (c # cs) =
     (case validate_identifier c of
        Inl e \<Rightarrow> Inl e
      | Inr _ \<Rightarrow> if \<not> is_modifier_code c \<or> c \<in> set seen then Inl InvalidInput
                else validate_modifiers (c # seen) cs)"

section \<open>Planning\<close>

definition sorted_active_codes :: "held_codes \<Rightarrow> string list" where
  "sorted_active_codes held = sort (map fst (filter (\<lambda>e. snd e \<noteq> []) held))"

definition owners_of :: "held_codes \<Rightarrow> string \<Rightarrow> string list" where
  "owners_of held c = (case jm_get held c of None \<Rightarrow> [] | Some os \<Rightarrow> os)"

definition planned_effect :: "key_phase \<Rightarrow> string \<Rightarrow> held_codes \<Rightarrow> held_codes \<Rightarrow> bool \<Rightarrow> bool \<Rightarrow> key_effect" where
  "planned_effect ph current before after repeat_key suppress =
     \<lparr>phase = ph, code = current, activeCodesBefore = sorted_active_codes before,
      activeCodes = sorted_active_codes after, autoRepeat = repeat_key, suppressShortcut = suppress\<rparr>"

text \<open>One turn of the loop of \<open>apply_hold\<close>, then of \<open>apply_release\<close>.\<close>

definition hold_code :: "string \<Rightarrow> string \<Rightarrow> string \<Rightarrow> held_codes \<Rightarrow> held_codes \<times> key_effect list" where
  "hold_code c ow current held =
     (let owners = owners_of held current;
          held' = jm_set current (js_add ow owners) held
      in (held', if ow \<in> set owners \<or> owners \<noteq> [] then []
                 else [planned_effect RawKeyDown current held held' False (current = c)]))"

definition release_code :: "string \<Rightarrow> string \<Rightarrow> string \<Rightarrow> held_codes \<Rightarrow> held_codes \<times> key_effect list" where
  "release_code c ow current held =
     (case jm_get held current of
        None \<Rightarrow> (held, [])
      | Some owners \<Rightarrow>
          (let left = removeAll ow owners
           in if left \<noteq> [] then (jm_set current left held, [])
              else (let held' = jm_delete current held
                    in (held', [planned_effect KeyUp current held held' False (current = c)]))))"

fun each_code :: "(string \<Rightarrow> held_codes \<Rightarrow> held_codes \<times> key_effect list) \<Rightarrow> string list \<Rightarrow> held_codes
    \<Rightarrow> held_codes \<times> key_effect list" where
  "each_code f [] held = (held, [])"
| "each_code f (c # cs) held =
     (let (held1, es) = f c held; (held2, es') = each_code f cs held1 in (held2, es @ es'))"

definition apply_hold :: "string \<Rightarrow> string list \<Rightarrow> string \<Rightarrow> held_codes \<Rightarrow> held_codes \<times> key_effect list" where
  "apply_hold c ms ow = each_code (hold_code c ow) (ms @ [c])"

definition apply_release :: "string \<Rightarrow> string list \<Rightarrow> string \<Rightarrow> held_codes \<Rightarrow> held_codes \<times> key_effect list" where
  "apply_release c ms ow = each_code (release_code c ow) (c # rev ms)"

definition tap_owner :: "string \<Rightarrow> string \<Rightarrow> string" where
  "tap_owner uuid ow = CHR 0x00 # ''tap:'' @ uuid @ '':'' @ ow"

definition apply_tap ::
  "string \<Rightarrow> string \<Rightarrow> string list \<Rightarrow> string \<Rightarrow> held_codes \<Rightarrow> held_codes \<times> key_effect list" where
  "apply_tap uuid c ms ow held =
     (let t = tap_owner uuid ow;
          (held1, down) = apply_hold c ms t held;
          key_was_held = list_ex (\<lambda>x. x \<noteq> t) (owners_of held1 c);
          down' = (if key_was_held
                   then filter (\<lambda>e. code e \<noteq> c) down
                          @ [planned_effect RawKeyDown c held1 held1 True True]
                   else down);
          (held2, up) = apply_release c ms t held1
      in (held2, down' @ up))"

definition remove_empty_codes :: "held_codes \<Rightarrow> held_codes" where
  "remove_empty_codes held = filter (\<lambda>e. snd e \<noteq> []) held"

section \<open>Operations\<close>

definition held_of_role :: "embedded_input \<Rightarrow> string \<Rightarrow> held_codes" where
  "held_of_role s r = (case jm_get (held_by_role s) r of None \<Rightarrow> [] | Some h \<Rightarrow> h)"

definition put_held :: "string \<Rightarrow> held_codes \<Rightarrow> embedded_input \<Rightarrow> embedded_input" where
  "put_held r held s =
     s\<lparr>held_by_role := (if held = [] then jm_delete r (held_by_role s)
                        else jm_set r held (held_by_role s))\<rparr>"

definition plan_effects ::
  "action_phase \<Rightarrow> string \<Rightarrow> string \<Rightarrow> string list \<Rightarrow> string \<Rightarrow> held_codes \<Rightarrow> held_codes \<times> key_effect list" where
  "plan_effects ph tap_uuid c ms ow held =
     (case ph of
        Hold \<Rightarrow> apply_hold c ms ow held
      | ReleaseKey \<Rightarrow> apply_release c ms ow held
      | Tap \<Rightarrow> apply_tap tap_uuid c ms ow held)"

definition admit_transition :: "string \<Rightarrow> string \<Rightarrow> string list \<Rightarrow> string \<Rightarrow> embedded_input \<Rightarrow> core_error option" where
  "admit_transition r c ms ow s =
     (case (validate_identifier r, validate_identifier c, validate_identifier ow) of
        (Inr _, Inr _, Inr _) \<Rightarrow>
          if length ms > 8 then Some InvalidInput
          else (case validate_modifiers [] ms of
            Inl e \<Rightarrow> Some e
          | Inr _ \<Rightarrow>
              if length (ei_pending s) \<ge> MAX_PENDING_TRANSITIONS
              then Some (Domain ''BROWSER_ACTION_BACKPRESSURE'')
              else if r \<in> set (pending_role_ids s) then Some (Domain ''BROWSER_ACTION_ORDERING'')
              else None)
      | _ \<Rightarrow> Some InvalidInput)"

definition core_key_prepare ::
  "string \<Rightarrow> action_phase \<Rightarrow> string \<Rightarrow> string list \<Rightarrow> string \<Rightarrow> string \<Rightarrow> string \<Rightarrow> embedded_input
     \<Rightarrow> embedded_input \<times> (core_error + transition)" where
  "core_key_prepare r ph c ms ow tap_uuid uuid s =
     (case admit_transition r c ms ow s of
        Some e \<Rightarrow> (s, Inl e)
      | None \<Rightarrow>
          (let before = held_of_role s r;
               (held, es) = plan_effects ph tap_uuid c ms ow before;
               held' = remove_empty_codes held
           in ((put_held r held' s)
                 \<lparr>ei_pending := jm_set uuid \<lparr>pt_before = before, pt_role_id = r\<rparr> (ei_pending s),
                  pending_role_ids := js_add r (pending_role_ids s)\<rparr>,
               Inr \<lparr>transitionId = Some uuid, effects = es, hasHeldKeys = (held' \<noteq> [])\<rparr>)))"

definition core_key_complete :: "string \<Rightarrow> bool \<Rightarrow> embedded_input \<Rightarrow> embedded_input \<times> (core_error + unit)" where
  "core_key_complete t succeeded s =
     (case jm_get (ei_pending s) t of
        None \<Rightarrow> (s, Inl (Domain ''BROWSER_KEY_TRANSITION_NOT_FOUND''))
      | Some p \<Rightarrow>
          (let s' = s\<lparr>ei_pending := jm_delete t (ei_pending s),
                      pending_role_ids := removeAll (pt_role_id p) (pending_role_ids s)\<rparr>
           in (if succeeded then s' else put_held (pt_role_id p) (pt_before p) s', Inr ())))"

text \<open>Modifiers are reasserted first: the key sorts by \<open>(!is_modifier_code(code), code)\<close>.\<close>

definition core_key_reassert :: "string \<Rightarrow> embedded_input \<Rightarrow> core_error + transition" where
  "core_key_reassert r s =
     (case validate_identifier r of
        Inl e \<Rightarrow> Inl e
      | Inr _ \<Rightarrow>
          if r \<in> set (pending_role_ids s) then Inl (Domain ''BROWSER_ACTION_ORDERING'')
          else (case jm_get (held_by_role s) r of
            None \<Rightarrow> Inr \<lparr>transitionId = None, effects = [], hasHeldKeys = False\<rparr>
          | Some held \<Rightarrow>
              (let codes = sort (map fst held);
                   ordered = filter is_modifier_code codes @ filter (\<lambda>c. \<not> is_modifier_code c) codes
               in Inr \<lparr>transitionId = None,
                       effects = map (\<lambda>c. planned_effect RawKeyDown c held held False
                                            (\<not> is_modifier_code c)) ordered,
                       hasHeldKeys = True\<rparr>)))"

definition core_keys_clear :: "string \<Rightarrow> embedded_input \<Rightarrow> embedded_input" where
  "core_keys_clear r s =
     s\<lparr>held_by_role := jm_delete r (held_by_role s),
       ei_pending := filter (\<lambda>e. pt_role_id (snd e) \<noteq> r) (ei_pending s),
       pending_role_ids := removeAll r (pending_role_ids s)\<rparr>"

definition core_has_held_keys :: "string \<Rightarrow> embedded_input \<Rightarrow> bool" where
  "core_has_held_keys r s \<longleftrightarrow> held_of_role s r \<noteq> []"

definition core_keys_shutdown :: "embedded_input \<Rightarrow> embedded_input" where
  "core_keys_shutdown s = \<lparr>held_by_role = [], ei_pending = [], pending_role_ids = []\<rparr>"

section \<open>Owners\<close>

text \<open>The abstract view of what a role holds: which owner holds which code.\<close>

definition owned :: "held_codes \<Rightarrow> (string \<times> string) set" where
  "owned held = {(c, ow). ow \<in> set (owners_of held c)}"

definition down :: "held_codes \<Rightarrow> string set" where
  "down held = fst ` owned held"

definition held_ok :: "held_codes \<Rightarrow> bool" where
  "held_ok held \<longleftrightarrow> jm_wf held \<and> (\<forall>e \<in> set held. snd e \<noteq> [])"

lemma owners_of_set [simp]: "owners_of (jm_set k v m) c = (if c = k then v else owners_of m c)"
  by (simp add: owners_of_def)

lemma owners_of_delete [simp]: "owners_of (jm_delete k m) c = (if c = k then [] else owners_of m c)"
  by (simp add: owners_of_def)

lemma mem_down: "c \<in> down held \<longleftrightarrow> owners_of held c \<noteq> []"
proof -
  have "owners_of held c \<noteq> [] \<longleftrightarrow> (\<exists>ow. ow \<in> set (owners_of held c))"
    by (metis hd_in_set length_pos_if_in_set list.size(3) not_less_zero)
  then show ?thesis by (force simp: down_def owned_def)
qed

lemma held_ok_Nil [simp]: "held_ok []"
  by (simp add: held_ok_def)

lemma held_ok_set: "held_ok held \<Longrightarrow> v \<noteq> [] \<Longrightarrow> held_ok (jm_set k v held)"
  using jm_set_entries [of _ k v held] by (fastforce simp: held_ok_def)

lemma held_ok_delete: "held_ok held \<Longrightarrow> held_ok (jm_delete k held)"
  by (auto simp: held_ok_def) (auto simp: jm_delete_def)

lemma down_keys: "held_ok held \<Longrightarrow> down held = fst ` set held"
proof (rule set_eqI)
  fix c
  assume ok: "held_ok held"
  have "owners_of held c \<noteq> []" if "jm_get held c = Some os" for os
    using that ok jm_get_in_values [OF that] by (auto simp: held_ok_def owners_of_def)
  then have "c \<in> down held \<longleftrightarrow> c \<in> dom (jm_get held)"
    by (auto simp: mem_down owners_of_def split: option.splits)
  then show "c \<in> down held \<longleftrightarrow> c \<in> fst ` set held" by (simp add: jm_get_dom)
qed

lemma sorted_active_down: "held_ok held \<Longrightarrow> set (sorted_active_codes held) = down held"
proof -
  assume ok: "held_ok held"
  then have "filter (\<lambda>e. snd e \<noteq> []) held = held" by (auto simp: held_ok_def filter_id_conv)
  then show ?thesis using down_keys [OF ok] by (simp add: sorted_active_codes_def)
qed

lemma remove_empty_ok: "held_ok held \<Longrightarrow> remove_empty_codes held = held"
  by (auto simp: held_ok_def remove_empty_codes_def filter_id_conv)

lemma down_empty: "held_ok held \<Longrightarrow> down held = {} \<longleftrightarrow> held = []"
  by (simp add: down_keys)

subsection \<open>Planning tracks the owners\<close>

text \<open>A plan that turns \<open>held\<close> into \<open>held'\<close>: its effects chain and press and release exactly the
  difference.\<close>

definition plans :: "held_codes \<Rightarrow> held_codes \<Rightarrow> key_effect list \<Rightarrow> bool" where
  "plans held held' es \<longleftrightarrow>
     held_ok held' \<and> effect_chain (down held) es \<and> fold apply_edge es (down held) = down held'"

lemma plans_append: "plans h1 h2 es \<Longrightarrow> plans h2 h3 es' \<Longrightarrow> plans h1 h3 (es @ es')"
  by (simp add: plans_def effect_chain_append)

lemma plans_none: "held_ok held' \<Longrightarrow> down held' = down held \<Longrightarrow> plans held held' []"
  by (simp add: plans_def)

lemma plans_one:
  assumes "held_ok held" "held_ok held'" "down held' = apply_edge e (down held)"
    and "e = planned_effect ph c held held' rp sh" and "rp \<longrightarrow> c \<in> down held"
  shows "plans held held' [e]"
  using assms by (simp add: plans_def planned_effect_def sorted_active_down)

lemma hold_code_plans:
  assumes "hold_code c ow current held = (held', es)" and "held_ok held"
  shows "plans held held' es" and "owned held' = insert (current, ow) (owned held)"
    and "\<forall>e \<in> set es. phase e = RawKeyDown \<and> code e = current \<and> code e \<notin> down held"
proof -
  have h: "held' = jm_set current (js_add ow (owners_of held current)) held"
    using assms(1) by (simp add: hold_code_def Let_def)
  have nn: "js_add ow (owners_of held current) \<noteq> []"
    using set_js_add [of ow "owners_of held current"] by (metis empty_iff empty_set insertI1)
  have ok: "held_ok held'" using h nn assms(2) by (simp add: held_ok_set)
  show o: "owned held' = insert (current, ow) (owned held)"
    using set_js_add [of ow "owners_of held current"] by (auto simp: h owned_def split: if_splits)
  have d: "down held' = insert current (down held)" by (simp add: down_def o)
  show "\<forall>e \<in> set es. phase e = RawKeyDown \<and> code e = current \<and> code e \<notin> down held"
    using assms(1) by (auto simp: hold_code_def Let_def planned_effect_def mem_down split: if_splits)
  show "plans held held' es"
  proof (cases "owners_of held current = []")
    case True
    then have "es = [planned_effect RawKeyDown current held held' False (current = c)]"
      using assms(1) h by (auto simp: hold_code_def Let_def)
    then show ?thesis
      using plans_one [OF assms(2) ok, of _ RawKeyDown current False "current = c"] d
      by (simp add: planned_effect_def apply_edge_def)
  next
    case False
    then have "es = []" using assms(1) by (simp add: hold_code_def Let_def)
    moreover have "down held' = down held" using False d by (auto simp: mem_down)
    ultimately show ?thesis using ok by (simp add: plans_none)
  qed
qed

lemma release_code_plans:
  assumes "release_code c ow current held = (held', es)" and "held_ok held"
  shows "plans held held' es" and "owned held' = owned held - {(current, ow)}"
    and "\<forall>e \<in> set es. phase e = KeyUp \<and> code e = current"
proof -
  have "plans held held' es \<and> owned held' = owned held - {(current, ow)} \<and>
    (\<forall>e \<in> set es. phase e = KeyUp \<and> code e = current)"
  proof (cases "jm_get held current")
    case None
    then have "owners_of held current = []" by (simp add: owners_of_def)
    then show ?thesis
      using assms None by (auto simp: release_code_def plans_none owned_def)
  next
    case (Some owners)
    then have ow: "owners_of held current = owners" by (simp add: owners_of_def)
    have nn: "owners \<noteq> []"
      using jm_get_in_values [OF Some] assms(2) by (auto simp: held_ok_def)
    show ?thesis
    proof (cases "removeAll ow owners = []")
      case False
      have "held' = jm_set current (removeAll ow owners) held" "es = []"
        using assms(1) Some False by (simp_all add: release_code_def Let_def)
      moreover from this have "down held' = down held"
        using False nn ow by (auto simp: mem_down split: if_splits)
      ultimately show ?thesis
        using assms(2) False ow
        by (auto simp: plans_none held_ok_set owned_def split: if_splits)
    next
      case True
      have h: "held' = jm_delete current held"
        "es = [planned_effect KeyUp current held held' False (current = c)]"
        using assms(1) Some True by (auto simp: release_code_def Let_def)
      have "down held' = down held - {current}" using h(1) by (auto simp: mem_down split: if_splits)
      moreover have "held_ok held'" using h(1) assms(2) by (simp add: held_ok_delete)
      moreover have "owned held' = owned held - {(current, ow)}"
        using h(1) ow True by (auto simp: owned_def removeAll_filter_not_eq filter_empty_conv
            split: if_splits)
      ultimately show ?thesis
        using h(2) plans_one [OF assms(2), of held' _ KeyUp current False "current = c"]
        by (simp add: planned_effect_def apply_edge_def)
    qed
  qed
  then show "plans held held' es" "owned held' = owned held - {(current, ow)}"
    "\<forall>e \<in> set es. phase e = KeyUp \<and> code e = current" by blast+
qed

lemma apply_hold_plans:
  assumes "each_code (hold_code c ow) cs held = (held', es)" and "held_ok held"
  shows "plans held held' es \<and> owned held' = owned held \<union> set cs \<times> {ow} \<and>
    (\<forall>e \<in> set es. phase e = RawKeyDown \<and> code e \<notin> down held)"
  using assms
proof (induction cs arbitrary: held es)
  case Nil
  then show ?case by (simp add: plans_none)
next
  case (Cons x xs)
  obtain h1 e1 where 1: "hold_code c ow x held = (h1, e1)" by fastforce
  obtain e2 where 2: "each_code (hold_code c ow) xs h1 = (held', e2)"
    using Cons.prems(1) 1 by (auto simp: Let_def split: prod.splits)
  note p = hold_code_plans [OF 1 Cons.prems(2)]
  have ok: "held_ok h1" using p(1) by (simp add: plans_def)
  note q = Cons.IH [OF 2 ok]
  have "down held \<subseteq> down h1" using p(2) by (auto simp: down_def)
  moreover have "es = e1 @ e2" using Cons.prems(1) 1 2 by (simp add: Let_def)
  ultimately show ?case using p q plans_append [of held h1 e1 held' e2] by auto
qed

lemma apply_release_plans:
  assumes "each_code (release_code c ow) cs held = (held', es)" and "held_ok held"
  shows "plans held held' es \<and> owned held' = owned held - set cs \<times> {ow} \<and>
    (\<forall>e \<in> set es. phase e = KeyUp)"
  using assms
proof (induction cs arbitrary: held es)
  case Nil
  then show ?case by (simp add: plans_none)
next
  case (Cons x xs)
  obtain h1 e1 where 1: "release_code c ow x held = (h1, e1)" by fastforce
  obtain e2 where 2: "each_code (release_code c ow) xs h1 = (held', e2)"
    using Cons.prems(1) 1 by (auto simp: Let_def split: prod.splits)
  note p = release_code_plans [OF 1 Cons.prems(2)]
  have ok: "held_ok h1" using p(1) by (simp add: plans_def)
  note q = Cons.IH [OF 2 ok]
  have "es = e1 @ e2" using Cons.prems(1) 1 2 by (simp_all add: Let_def)
  then show ?case using p q plans_append [of held h1 e1 held' e2] by auto
qed

text \<open>A tap's own owner is fresh, so the owners end as they began; a key another owner holds is
  repeated, not pressed.\<close>

lemma apply_tap_plans:
  assumes "apply_tap uuid c ms ow held = (held', es)" and "held_ok held"
    and "tap_owner uuid ow \<notin> snd ` owned held"
  shows "plans held held' es" and "owned held' = owned held"
proof -
  let ?t = "tap_owner uuid ow"
  obtain h1 dn where 1: "apply_hold c ms ?t held = (h1, dn)" by fastforce
  obtain h2 up where 2: "apply_release c ms ?t h1 = (h2, up)" by fastforce
  have p: "plans held h1 dn" "owned h1 = owned held \<union> (insert c (set ms)) \<times> {?t}"
    "\<forall>e \<in> set dn. code e \<notin> down held"
    using apply_hold_plans [OF 1 [unfolded apply_hold_def] assms(2)] by auto
  then have ok: "held_ok h1" by (simp add: plans_def)
  have q: "plans h1 h2 up" "owned h2 = owned h1 - (insert c (set ms)) \<times> {?t}"
    using apply_release_plans [OF 2 [unfolded apply_release_def] ok] by auto
  let ?was = "list_ex (\<lambda>x. x \<noteq> ?t) (owners_of h1 c)"
  let ?rep = "planned_effect RawKeyDown c h1 h1 True True"
  have es: "held' = h2"
    "es = (if ?was then filter (\<lambda>e. code e \<noteq> c) dn @ [?rep] else dn) @ up"
    using assms(1) 1 2 by (auto simp: apply_tap_def Let_def)
  have "(x, ?t) \<notin> owned held" for x using assms(3) by (metis image_eqI snd_conv)
  then show "owned held' = owned held" using es(1) q(2) p(2) by blast
  show "plans held held' es"
  proof (cases ?was)
    case True
    then obtain x where "(c, x) \<in> owned h1" "x \<noteq> ?t" by (auto simp: owned_def list_ex_iff)
    then have "(c, x) \<in> owned held" using p(2) by auto
    then have c: "c \<in> down held" "c \<in> down h1" using p(2) by (force simp: down_def)+
    then have "filter (\<lambda>e. code e \<noteq> c) dn = dn" using p(3) by (auto simp: filter_id_conv)
    moreover have "down h1 = apply_edge ?rep (down h1)"
      using c(2) by (auto simp: apply_edge_def planned_effect_def)
    then have rep: "plans h1 h1 [?rep]" using plans_one [OF ok ok, of ?rep] c(2) by simp
    ultimately show ?thesis
      using es True plans_append [OF plans_append [OF p(1) rep] q(1)] by simp
  next
    case False
    then show ?thesis using es plans_append [OF p(1) q(1)] by simp
  qed
qed

section \<open>Reachable states\<close>

text \<open>What a role holds, by owner; a code counts as planned until its transition ended: while one is
  pending, the codes from before it.\<close>

definition role_owned :: "embedded_input \<Rightarrow> string \<Rightarrow> (string \<times> string) set" where
  "role_owned s r = owned (held_of_role s r)"

definition core_inv :: "embedded_input \<Rightarrow> bool" where
  "core_inv s \<longleftrightarrow>
     (\<forall>r. held_ok (held_of_role s r)) \<and>
     (\<forall>r h. jm_get (held_by_role s) r = Some h \<longrightarrow> h \<noteq> []) \<and>
     jm_wf (ei_pending s) \<and>
     (\<forall>t p. jm_get (ei_pending s) t = Some p \<longrightarrow>
        held_ok (pt_before p) \<and> pt_role_id p \<in> set (pending_role_ids s)) \<and>
     (\<forall>t t' p p'. jm_get (ei_pending s) t = Some p \<longrightarrow> jm_get (ei_pending s) t' = Some p' \<longrightarrow>
        pt_role_id p = pt_role_id p' \<longrightarrow> t = t')"

datatype core_op =
  CorePrepare string action_phase string "string list" string string string
| CoreComplete string bool
| CoreClear string
| CoreShutdown

text \<open>The embedded keyboard after an operation; a UUID that collides with a pending transition is not
  drawn.\<close>

fun core_step :: "core_op \<Rightarrow> embedded_input \<Rightarrow> embedded_input" where
  "core_step (CorePrepare r ph c ms ow tap uuid) s =
     (if uuid \<in> fst ` set (ei_pending s) then s else fst (core_key_prepare r ph c ms ow tap uuid s))"
| "core_step (CoreComplete t ok) s = fst (core_key_complete t ok s)"
| "core_step (CoreClear r) s = core_keys_clear r s"
| "core_step CoreShutdown s = core_keys_shutdown s"

lemma held_of_put [simp]: "held_of_role (put_held r h s) q = (if q = r then h else held_of_role s q)"
  by (simp add: put_held_def held_of_role_def)

lemma put_held_simps [simp]:
  "ei_pending (put_held r h s) = ei_pending s"
  "pending_role_ids (put_held r h s) = pending_role_ids s"
  by (simp_all add: put_held_def)

lemma put_held_nonempty:
  "\<forall>r h. jm_get (held_by_role s) r = Some h \<longrightarrow> h \<noteq> [] \<Longrightarrow>
   jm_get (held_by_role (put_held q h' s)) r = Some h \<Longrightarrow> h \<noteq> []"
  by (auto simp: put_held_def split: if_splits)

lemma held_of_update [simp]:
  "held_of_role (s\<lparr>ei_pending := P, pending_role_ids := R\<rparr>) q = held_of_role s q"
  by (simp add: held_of_role_def)

lemma held_of_clear [simp]:
  "held_of_role (core_keys_clear r s) q = (if q = r then [] else held_of_role s q)"
  by (simp add: core_keys_clear_def held_of_role_def)

text \<open>Without freshness of the tap owner the plan is still well formed.\<close>

lemma plan_effects_ok:
  assumes "plan_effects ph tap c ms ow held = (held', es)" and "held_ok held"
  shows "held_ok held'"
proof -
  have hold: "held_ok h" if "apply_hold c ms x held = (h, e)" for x h e
    using apply_hold_plans [OF that [unfolded apply_hold_def] assms(2)] by (simp add: plans_def)
  have rel: "held_ok h'" if "apply_release c ms x h = (h', e)" "held_ok h" for x h h' e
    using apply_release_plans [OF that(1) [unfolded apply_release_def] that(2)]
    by (simp add: plans_def)
  show ?thesis
    using assms(1) hold rel [OF _ assms(2)] rel
    by (cases ph) (auto simp: plan_effects_def apply_tap_def Let_def split: prod.splits)
qed

lemma core_inv_new: "core_inv embedded_input_new"
  by (simp add: core_inv_def embedded_input_new_def held_of_role_def)

lemma core_invD:
  assumes "core_inv s"
  shows "held_ok (held_of_role s r)"
    and "jm_get (held_by_role s) r = Some h \<Longrightarrow> h \<noteq> []"
    and "jm_get (ei_pending s) t = Some p \<Longrightarrow> held_ok (pt_before p)"
    and "jm_get (ei_pending s) t = Some p \<Longrightarrow> pt_role_id p \<in> set (pending_role_ids s)"
    and "jm_get (ei_pending s) t = Some p \<Longrightarrow> jm_get (ei_pending s) t' = Some p' \<Longrightarrow>
           pt_role_id p = pt_role_id p' \<Longrightarrow> t = t'"
    and "jm_wf (ei_pending s)"
  using assms unfolding core_inv_def by blast+

text \<open>What a prepared transition leaves.\<close>

lemma prepareD:
  assumes "core_key_prepare r ph c ms ow tap uuid s = (s', Inr tr)"
  obtains held es where "plan_effects ph tap c ms ow (held_of_role s r) = (held, es)"
    and "r \<notin> set (pending_role_ids s)"
    and "s' = (put_held r (remove_empty_codes held) s)
           \<lparr>ei_pending := jm_set uuid \<lparr>pt_before = held_of_role s r, pt_role_id = r\<rparr> (ei_pending s),
            pending_role_ids := js_add r (pending_role_ids s)\<rparr>"
    and "tr = \<lparr>transitionId = Some uuid, effects = es, hasHeldKeys = (remove_empty_codes held \<noteq> [])\<rparr>"
  using assms
  by (auto simp: core_key_prepare_def admit_transition_def Let_def
      split: option.splits prod.splits sum.splits if_splits)

lemma prepare_inv:
  assumes "core_inv s" and "jm_get (ei_pending s) uuid = None"
    and "core_key_prepare r ph c ms ow tap uuid s = (s', Inr tr)"
  shows "core_inv s'"
proof -
  obtain held es where p: "plan_effects ph tap c ms ow (held_of_role s r) = (held, es)"
    "r \<notin> set (pending_role_ids s)"
    and s': "s' = (put_held r (remove_empty_codes held) s)
           \<lparr>ei_pending := jm_set uuid \<lparr>pt_before = held_of_role s r, pt_role_id = r\<rparr> (ei_pending s),
            pending_role_ids := js_add r (pending_role_ids s)\<rparr>"
    using prepareD [OF assms(3)] by metis
  have ok: "held_ok held" using plan_effects_ok [OF p(1) core_invD(1) [OF assms(1)]] .
  have other: "pt_role_id q \<noteq> r" if "jm_get (ei_pending s) t = Some q" for t q
    using core_invD(4) [OF assms(1) that] p(2) by auto
  have ne: "\<forall>r h. jm_get (held_by_role s) r = Some h \<longrightarrow> h \<noteq> []"
    using core_invD(2) [OF assms(1)] by blast
  show ?thesis
    unfolding core_inv_def s'
    using core_invD(1,3,4,5,6) [OF assms(1)] ok other put_held_nonempty [OF ne]
    by (auto simp: remove_empty_ok split: if_splits dest: other)
qed

lemma complete_inv:
  assumes "core_inv s" shows "core_inv (fst (core_key_complete t b s))"
proof (cases "jm_get (ei_pending s) t")
  case None
  then show ?thesis using assms by (simp add: core_key_complete_def)
next
  case (Some p)
  have ne: "\<forall>r h. jm_get (held_by_role s) r = Some h \<longrightarrow> h \<noteq> []"
    using core_invD(2) [OF assms] by blast
  have other: "pt_role_id q \<noteq> pt_role_id p" if "jm_get (ei_pending s) u = Some q" "u \<noteq> t" for u q
    using core_invD(5) [OF assms that(1) Some] that(2) by blast
  let ?s = "s\<lparr>ei_pending := jm_delete t (ei_pending s),
              pending_role_ids := removeAll (pt_role_id p) (pending_role_ids s)\<rparr>"
  have "core_inv ?s"
    unfolding core_inv_def
    using core_invD [OF assms] other by (auto split: if_splits)
  moreover have "core_inv (put_held (pt_role_id p) (pt_before p) ?s)"
    unfolding core_inv_def
    using core_invD [OF assms] other core_invD(3) [OF assms Some] put_held_nonempty [of ?s] ne
    by (auto split: if_splits)
  ultimately show ?thesis using Some by (simp add: core_key_complete_def Let_def)
qed

lemma jm_get_filter_roles:
  "jm_wf m \<Longrightarrow> jm_get (filter (\<lambda>e. P (snd e)) m) t = Some p \<longleftrightarrow> jm_get m t = Some p \<and> P p"
  by (induction m) (force simp: jm_get_def jm_wf_def dest: map_of_SomeD)+

lemma clear_inv:
  assumes "core_inv s" shows "core_inv (core_keys_clear r s)"
proof -
  have wf: "jm_wf (filter (\<lambda>e. pt_role_id (snd e) \<noteq> r) (ei_pending s))"
    using core_invD(6) [OF assms] by (simp add: jm_wf_def distinct_map_filter)
  note f = jm_get_filter_roles [OF core_invD(6) [OF assms], of "\<lambda>p. pt_role_id p \<noteq> r"]
  show ?thesis
    using core_invD [OF assms] wf f
    by (auto simp: core_inv_def) (auto simp: core_keys_clear_def split: if_splits)
qed

interpretation core: guarded_machine core_step core_inv
proof
  fix s x
  assume inv: "core_inv s"
  show "core_inv (core_step x s)"
  proof (cases x)
    case (CorePrepare r ph c ms ow tap uuid)
    obtain s' res where p: "core_key_prepare r ph c ms ow tap uuid s = (s', res)" by fastforce
    have "s' = s" if "res = Inl e" for e
      using p that by (auto simp: core_key_prepare_def Let_def split: option.splits prod.splits)
    moreover have "core_inv s'" if "uuid \<notin> fst ` set (ei_pending s)" "res = Inr tr" for tr
    proof -
      have "jm_get (ei_pending s) uuid = None"
        using that(1) jm_get_dom [of "ei_pending s"] by (metis domIff image_set)
      then show ?thesis using prepare_inv [OF inv _ p [unfolded that(2)]] by blast
    qed
    ultimately show ?thesis using CorePrepare p inv by (cases res) auto
  qed (use inv complete_inv clear_inv core_inv_new in
      \<open>simp_all add: core_keys_shutdown_def embedded_input_new_def\<close>)
qed

section \<open>Refinement of the owner sets\<close>

text \<open>The specification of an action: owners are added to or removed from the code and its modifiers;
  a tap leaves them.\<close>

definition owner_spec ::
  "action_phase \<Rightarrow> string \<Rightarrow> string list \<Rightarrow> string \<Rightarrow> (string \<times> string) set \<Rightarrow> (string \<times> string) set" where
  "owner_spec ph c ms ow S =
     (case ph of
        Hold \<Rightarrow> S \<union> insert c (set ms) \<times> {ow}
      | ReleaseKey \<Rightarrow> S - insert c (set ms) \<times> {ow}
      | Tap \<Rightarrow> S)"

lemma plan_effects_plans:
  assumes "plan_effects ph tap c ms ow held = (held', es)" and "held_ok held"
    and "ph = Tap \<longrightarrow> tap_owner tap ow \<notin> snd ` owned held"
  shows "plans held held' es \<and> owned held' = owner_spec ph c ms ow (owned held)"
  using assms apply_hold_plans [of c ow "ms @ [c]" held held' es]
    apply_release_plans [of c ow "c # rev ms" held held' es]
    apply_tap_plans [of tap c ms ow held held' es]
  by (cases ph) (auto simp: plan_effects_def owner_spec_def apply_hold_def apply_release_def)

lemma complete_owned:
  assumes "jm_get (ei_pending s) t = Some p"
  shows "role_owned (fst (core_key_complete t b s)) q =
     (if \<not> b \<and> q = pt_role_id p then owned (pt_before p) else role_owned s q)"
  using assms by (simp add: core_key_complete_def Let_def role_owned_def)

lemma prepared_plan:
  assumes inv: "core_inv s" and prep: "core_key_prepare r ph c ms ow tap uuid s = (s', Inr tr)"
    and "ph = Tap \<longrightarrow> tap_owner tap ow \<notin> snd ` role_owned s r"
  shows "role_owned s' q = (if q = r then owner_spec ph c ms ow (role_owned s r) else role_owned s q)"
    and "effect_chain (fst ` role_owned s r) (effects tr)"
    and "fold apply_edge (effects tr) (fst ` role_owned s r) = fst ` role_owned s' r"
    and "hasHeldKeys tr \<longleftrightarrow> role_owned s' r \<noteq> {}"
    and "transitionId tr = Some uuid"
    and "jm_get (ei_pending s') uuid = Some \<lparr>pt_before = held_of_role s r, pt_role_id = r\<rparr>"
proof -
  obtain held es where p: "plan_effects ph tap c ms ow (held_of_role s r) = (held, es)"
    and s': "s' = (put_held r (remove_empty_codes held) s)
           \<lparr>ei_pending := jm_set uuid \<lparr>pt_before = held_of_role s r, pt_role_id = r\<rparr> (ei_pending s),
            pending_role_ids := js_add r (pending_role_ids s)\<rparr>"
    and tr: "tr = \<lparr>transitionId = Some uuid, effects = es, hasHeldKeys = (remove_empty_codes held \<noteq> [])\<rparr>"
    using prepareD [OF prep] by metis
  have ok: "held_ok (held_of_role s r)" by (rule core_invD(1) [OF inv])
  note q = plan_effects_plans [OF p ok assms(3) [unfolded role_owned_def]]
  have hok: "held_ok held" using q by (simp add: plans_def)
  note re = remove_empty_ok [OF hok]
  show "role_owned s' q = (if q = r then owner_spec ph c ms ow (role_owned s r) else role_owned s q)"
    using q re by (simp add: role_owned_def s')
  show "effect_chain (fst ` role_owned s r) (effects tr)"
    "fold apply_edge (effects tr) (fst ` role_owned s r) = fst ` role_owned s' r"
    using q re by (simp_all add: role_owned_def s' tr plans_def down_def)
  show "hasHeldKeys tr \<longleftrightarrow> role_owned s' r \<noteq> {}"
    using re down_empty [OF hok] by (auto simp: role_owned_def s' tr down_def)
  show "transitionId tr = Some uuid" by (simp add: tr)
  show "jm_get (ei_pending s') uuid = Some \<lparr>pt_before = held_of_role s r, pt_role_id = r\<rparr>"
    by (simp add: s')
qed


definition demo_core :: embedded_input where
  "demo_core = fold core_step
     [CorePrepare ''r1'' Hold ''KeyW'' [''ShiftLeft''] ''first'' ''a'' ''t1'', CoreComplete ''t1'' True,
      CorePrepare ''r1'' Hold ''KeyW'' [] ''second'' ''b'' ''t2'', CoreComplete ''t2'' True]
     embedded_input_new"


end
