(* ===== verification/Trusted_Coordinator.thy ===== *)
theory Trusted_Coordinator
  imports Sequence_Bounds Embedded_Input
begin

text \<open>
  The coordinator of automatic input
  (\<open>src/src/electron/main/chromiumTrustedInputCoordinator.ts\<close>).  Every role has a lane whose jobs run
  one after another; a lane remembers the keys it holds, the keys and the click whose delivery is
  uncertain, and whether it is quarantined.

  The state is the coordinator's own fields with the rest of the world, \<open>co_env\<close>.  A port is a function
  of that state: the call and everything that happens until its promise settles.  A job runs whole;
  other calls of the coordinator that interleave with its awaits are part of what a port does.
\<close>

section \<open>State\<close>

datatype input_phase = Open | Draining | Disposed

datatype surface_state = SurfaceActive | SurfaceClosing

record surface_identity =
  si_roleId :: string
  si_surfaceGeneration :: int
  si_documentInstanceId :: string
  si_state :: surface_state

text \<open>A browser action request with the fields only the coordinator reads.\<close>

record browser_request =
  br_action :: action_request
  br_origin :: string
  br_surfaceGeneration :: "int option"
  br_documentInstanceId :: "string option"

record role_lane =
  rl_documentInstanceId :: string
  rl_recoveryParentRequestId :: "string option"
  rl_inputEpoch :: int
  rl_surfaceGeneration :: int
  rl_quarantined :: bool
  rl_hasHeldKeys :: bool
  rl_heldKeyCodes :: "string list"
  rl_uncertainKeyCodes :: "string list"
  rl_uncertainPointer :: "click_action option"

record replacement_lease =
  le_operationId :: string
  le_roleId :: string
  le_surfaceGeneration :: int
  le_documentInstanceId :: string
  le_inputEpoch :: int

text \<open>A retained lease is an object: the number tells it from another lease with the same fields.\<close>

type_synonym retained_lease = "nat \<times> replacement_lease"

record replacement_quarantine =
  qu_operationId :: string
  qu_surfaceGeneration :: int

record recovery_proof =
  rp_requestId :: string
  rp_roleId :: string
  rp_inputEpoch :: int
  rp_surfaceGeneration :: int

datatype retirement_reason = DocumentSuperseded | SurfaceRetired

datatype lane_job =
  ExecuteJob browser_request
| PrepareJob retained_lease
| ConfirmJob replacement_lease
| ResumeJob replacement_lease string
| RetireJob string int
| DestroyJob string int
| ResumeAfterJob string int
| SurfaceJob string int retirement_reason

record 'w input_coordinator =
  co_phase :: input_phase
  co_lanes :: "(string, role_lane) js_map"
  co_leases :: "(string, (string, retained_lease) js_map) js_map"
  co_quarantines :: "(string, replacement_quarantine) js_map"
  co_jobs :: "(nat \<times> lane_job) list"
  co_next :: nat
  co_fence :: nat
  co_env :: 'w

text \<open>What \<open>native.dispatch\<close> resolves with: a receipt with its message, or anything else.\<close>

datatype native_reply = Reply native_receipt "string option" | NotAReceipt

record 'w coordinator_input =
  ci_native :: "native_request \<Rightarrow> 'w input_coordinator \<Rightarrow> 'w input_coordinator \<times> native_reply outcome"
  ci_now :: "'w input_coordinator \<Rightarrow> int"
  ci_surface :: "string \<Rightarrow> 'w input_coordinator \<Rightarrow> surface_identity option"
  ci_preflight :: "(string \<Rightarrow> int \<Rightarrow> 'w input_coordinator \<Rightarrow> 'w input_coordinator \<times> unit outcome) option"
  ci_prepare :: "prepare_input \<Rightarrow> 'w input_coordinator \<Rightarrow> 'w input_coordinator \<times> transition outcome"
  ci_reassert :: "string \<Rightarrow> 'w input_coordinator \<Rightarrow> 'w input_coordinator \<times> transition outcome"
  ci_complete :: "string \<Rightarrow> bool \<Rightarrow> 'w input_coordinator \<Rightarrow> 'w input_coordinator \<times> unit outcome"
  ci_clear :: "string \<Rightarrow> 'w input_coordinator \<Rightarrow> 'w input_coordinator \<times> unit outcome"
  ci_record_failure :: "sequence_failure_record \<Rightarrow> bool \<Rightarrow> 'w input_coordinator \<Rightarrow> 'w input_coordinator"
  ci_platform :: platform
  ci_localeCompare :: "string \<Rightarrow> string \<Rightarrow> int"

section \<open>Validation\<close>

definition input_invalid :: js_error where
  "input_invalid = BridgeError ''ELECTRON_CHROMIUM_INPUT_INVALID''"

definition requireIdentifier :: "string \<Rightarrow> bool" where
  "requireIdentifier s \<longleftrightarrow> s \<noteq> [] \<and> length s \<le> 256 \<and> js_trim s = s \<and> CHR ''/'' \<notin> set s \<and>
     backslash \<notin> set s \<and> list_all (\<lambda>c. (of_char c :: nat) > 31) s"

definition requireSafeInteger :: "int \<Rightarrow> int \<Rightarrow> bool" where
  "requireSafeInteger n minimum \<longleftrightarrow> isSafeInteger n \<and> n \<ge> minimum"

definition CLICK_ANCHORS :: "string option list" where
  "CLICK_ANCHORS = None # map Some [''top-left'', ''top-center'', ''top-right'', ''center-left'',
     ''center'', ''center-right'', ''bottom-left'', ''bottom-center'', ''bottom-right'']"

fun validateAction :: "browser_action \<Rightarrow> bool" where
  "validateAction (KeyAction a) \<longleftrightarrow>
     key_name a \<noteq> [] \<and> length (key_name a) \<le> 128 \<and>
     (case action_code a of None \<Rightarrow> True | Some c \<Rightarrow> length c \<le> 128) \<and>
     distinct (modifiers a) \<and>
     (case exactModifierCodes a of
        None \<Rightarrow> True
      | Some cs \<Rightarrow> length cs \<le> 8 \<and> distinct cs \<and> list_all isChromiumModifierCode cs) \<and>
     ownerId a \<noteq> [] \<and> length (ownerId a) \<le> 256"
| "validateAction (Click c) \<longleftrightarrow>
     click_anchor c \<in> set CLICK_ANCHORS \<and>
     click_unit c \<in> set [''percent'', ''px'', ''reference-px''] \<and>
     click_button c \<in> set [''left'', ''middle'', ''right'']"
| "validateAction _ \<longleftrightarrow> True"

definition validateRequest :: "browser_request \<Rightarrow> unit outcome" where
  "validateRequest rq =
     (let a = br_action rq in
      if requireIdentifier (requestId a) \<and> requireIdentifier (roleId a) \<and> br_origin rq = ''macro'' \<and>
         requireSafeInteger (inputEpoch a) 0 \<and> requireSafeInteger (scheduledAtMs a) 1 \<and>
         requireSafeInteger (deadlineMs a) 1 \<and> scheduledAtMs a \<le> deadlineMs a \<and>
         (case (br_surfaceGeneration rq, br_documentInstanceId rq) of
            (None, None) \<Rightarrow> True
          | (Some g, Some d) \<Rightarrow> requireSafeInteger g 1 \<and> requireIdentifier d
          | _ \<Rightarrow> False) \<and>
         validateAction (action a)
      then Inr () else Inl input_invalid)"

definition validateSurface :: "surface_identity option \<Rightarrow> string \<Rightarrow> intent \<Rightarrow> surface_identity outcome" where
  "validateSurface surface r i =
     (case surface of
        None \<Rightarrow> Inl (BridgeError ''ELECTRON_CHROMIUM_INPUT_ROLE_NOT_FOUND'')
      | Some sf \<Rightarrow>
          if \<not> requireSafeInteger (si_surfaceGeneration sf) 1 \<or> \<not> requireIdentifier (si_documentInstanceId sf)
          then Inl input_invalid
          else if si_roleId sf \<noteq> r then Inl (BridgeError ''ELECTRON_CHROMIUM_INPUT_SURFACE_INVALID'')
          else if i = Normal \<and> si_state sf \<noteq> SurfaceActive
          then Inl (BridgeError ''SYSTEM_TRUSTED_INPUT_QUARANTINED'')
          else Inr sf)"

text \<open>The regular expression \<open>/^[A-Z][A-Z0-9_]{2,95}$/u\<close>, then the rules for the message.\<close>

definition error_code_char :: "char \<Rightarrow> bool" where
  "error_code_char c \<longleftrightarrow> (let n = (of_char c :: nat) in (65 \<le> n \<and> n \<le> 90) \<or> (48 \<le> n \<and> n \<le> 57) \<or> n = 95)"

definition validNativeError :: "string option \<Rightarrow> string option \<Rightarrow> bool" where
  "validNativeError c m \<longleftrightarrow>
     (case c of
        Some (h # t) \<Rightarrow> 65 \<le> (of_char h :: nat) \<and> (of_char h :: nat) \<le> 90 \<and>
          2 \<le> length t \<and> length t \<le> 95 \<and> list_all error_code_char t
      | _ \<Rightarrow> False) \<and>
     (case m of
        Some y \<Rightarrow> y \<noteq> [] \<and> length y \<le> 1024 \<and> js_trim y = y \<and>
          list_all (\<lambda>x. (of_char x :: nat) > 31 \<and> (of_char x :: nat) \<noteq> 127) y
      | None \<Rightarrow> False)"

definition receiptMatches :: "native_reply \<Rightarrow> native_request \<Rightarrow> int \<Rightarrow> bool" where
  "receiptMatches reply rq observedAtMs \<longleftrightarrow>
     (case reply of
        NotAReceipt \<Rightarrow> False
      | Reply rc m \<Rightarrow>
          rec_requestId rc = req_requestId rq \<and> rec_roleId rc = req_roleId rq \<and>
          rec_inputEpoch rc = req_inputEpoch rq \<and>
          rec_surfaceGeneration rc = req_surfaceGeneration rq \<and>
          isSafeInteger (rec_completedAtMs rc) \<and> rec_completedAtMs rc \<ge> req_scheduledAtMs rq \<and>
          rec_completedAtMs rc \<le> observedAtMs \<and>
          (if rec_status rc = Applied
           then rec_errorCode rc = None \<and> m = None \<and> rec_confirmedNeutrality rc = req_neutralAfter rq
           else validNativeError (rec_errorCode rc) m \<and>
             (if rec_status rc = Indeterminate then \<not> rec_confirmedNeutrality rc
              else rec_confirmedNeutrality rc = req_neutralBefore rq)))"

definition input_indeterminate :: js_error where
  "input_indeterminate = BridgeError ''SYSTEM_TRUSTED_INPUT_INDETERMINATE''"

definition input_quarantined :: js_error where
  "input_quarantined = BridgeError ''SYSTEM_TRUSTED_INPUT_QUARANTINED''"

text \<open>\<open>#dispatchNative\<close>: only an exact receipt, in time for a normal request, is returned.\<close>

definition dispatchNative ::
  "'w coordinator_input \<Rightarrow> native_request \<Rightarrow> 'w input_coordinator \<Rightarrow> 'w input_coordinator \<times> native_receipt outcome" where
  "dispatchNative I rq s =
     (case ci_native I rq s of
        (s', Inl e) \<Rightarrow> (s', Inl e)
      | (s', Inr reply) \<Rightarrow>
          (let observedAtMs = ci_now I s'
           in (s', if \<not> requireSafeInteger observedAtMs 1 then Inl input_invalid
                   else if \<not> receiptMatches reply rq observedAtMs then Inl input_indeterminate
                   else if req_intent rq = Normal \<and> observedAtMs \<ge> req_deadlineMs rq
                   then Inl input_indeterminate
                   else (case reply of Reply rc m \<Rightarrow> Inr rc | NotAReceipt \<Rightarrow> Inl input_indeterminate))))"

definition seq_ports :: "'w coordinator_input \<Rightarrow> 'w input_coordinator ports" where
  "seq_ports I =
     \<lparr>dispatch = dispatchNative I, nowMs = ci_now I, core_prepare = ci_prepare I,
      core_reassert = ci_reassert I, core_complete = ci_complete I,
      record_failure = ci_record_failure I\<rparr>"

section \<open>Lanes\<close>

definition lane_of :: "'w input_coordinator \<Rightarrow> string \<Rightarrow> role_lane option" where
  "lane_of s r = jm_get (co_lanes s) r"

definition put_lane :: "string \<Rightarrow> role_lane \<Rightarrow> 'w input_coordinator \<Rightarrow> 'w input_coordinator" where
  "put_lane r l s = s\<lparr>co_lanes := jm_set r l (co_lanes s)\<rparr>"

text \<open>Mutating the lane object a job holds: it stays the lane of its role while the job runs.\<close>

definition on_lane :: "string \<Rightarrow> (role_lane \<Rightarrow> role_lane) \<Rightarrow> 'w input_coordinator \<Rightarrow> 'w input_coordinator" where
  "on_lane r f s = (case lane_of s r of None \<Rightarrow> s | Some l \<Rightarrow> put_lane r (f l) s)"

definition drop_lane :: "string \<Rightarrow> 'w input_coordinator \<Rightarrow> 'w input_coordinator" where
  "drop_lane r s = s\<lparr>co_lanes := jm_delete r (co_lanes s)\<rparr>"

definition fresh_lane :: "string \<Rightarrow> int \<Rightarrow> int \<Rightarrow> role_lane" where
  "fresh_lane d e g =
     \<lparr>rl_documentInstanceId = d, rl_recoveryParentRequestId = None, rl_inputEpoch = e,
      rl_surfaceGeneration = g, rl_quarantined = False, rl_hasHeldKeys = False,
      rl_heldKeyCodes = [], rl_uncertainKeyCodes = [], rl_uncertainPointer = None\<rparr>"

definition certain :: "role_lane \<Rightarrow> bool" where
  "certain l \<longleftrightarrow> rl_uncertainKeyCodes l = [] \<and> rl_uncertainPointer l = None"

definition leases_of :: "'w input_coordinator \<Rightarrow> string \<Rightarrow> (string, retained_lease) js_map" where
  "leases_of s r = (case jm_get (co_leases s) r of None \<Rightarrow> [] | Some m \<Rightarrow> m)"

text \<open>A job's answer: how its promise settles, and the recovery proof it published.\<close>

datatype lane_error = LaneError js_error | SequenceError sequence_failure

datatype answer = Receipt native_receipt | Answer bool | Refused lane_error

type_synonym 'w job_result = "'w input_coordinator \<times> answer \<times> recovery_proof option"

definition refuse :: "js_error \<Rightarrow> 'w input_coordinator \<Rightarrow> 'w job_result" where
  "refuse e s = (s, Refused (LaneError e), None)"

definition cleanup_proof :: "action_request \<Rightarrow> int \<Rightarrow> int \<Rightarrow> recovery_proof" where
  "cleanup_proof a e g = \<lparr>rp_requestId = requestId a, rp_roleId = roleId a, rp_inputEpoch = e,
     rp_surfaceGeneration = g\<rparr>"

section \<open>Key actions\<close>

text \<open>The lane after a completed sequence.\<close>

definition completed_lane :: "execution \<Rightarrow> role_lane \<Rightarrow> role_lane" where
  "completed_lane x l =
     l\<lparr>rl_hasHeldKeys := ex_hasHeldKeys x,
       rl_heldKeyCodes := (if ex_confirmedEffects x \<noteq> [] \<or> \<not> ex_hasHeldKeys x
                           then js_set_of (ex_activeCodes x) else rl_heldKeyCodes l),
       rl_uncertainKeyCodes := filter
         (\<lambda>c. \<not> list_ex (\<lambda>e. phase e = KeyUp \<and> code e = c) (ex_confirmedEffects x))
         (rl_uncertainKeyCodes l)\<rparr>"

definition recovered_lane :: "role_lane \<Rightarrow> role_lane" where
  "recovered_lane l = l\<lparr>rl_quarantined := False, rl_recoveryParentRequestId := None\<rparr>"

definition key_completed ::
  "action_request \<Rightarrow> int \<Rightarrow> execution \<Rightarrow> 'w input_coordinator \<Rightarrow> 'w job_result" where
  "key_completed a g x s =
     (case lane_of s (roleId a) of
        None \<Rightarrow> refuse PlainError s
      | Some l0 \<Rightarrow>
          (let l = completed_lane x l0;
               neutral = (rec_confirmedNeutrality (ex_receipt x) \<and> certain l);
               proven = (request_intent a = Cleanup \<and> neutral);
               l' = (if proven then recovered_lane l else l);
               s' = put_lane (roleId a) l' s
           in if request_intent a = Cleanup \<and> rl_quarantined l' \<and> \<not> neutral
              then refuse input_indeterminate s'
              else (s', Receipt ((ex_receipt x)\<lparr>rec_confirmedNeutrality := neutral\<rparr>),
                    if proven then Some (cleanup_proof a (inputEpoch a) g) else None)))"

text \<open>The lane after a sequence failure: what may be held becomes uncertain, what was released does
  not; a confirmed neutrality counts only when nothing else is uncertain.\<close>

definition key_code_of :: "browser_action \<Rightarrow> string list" where
  "key_code_of act = (case act of
     KeyAction k \<Rightarrow> (case action_code k of Some c \<Rightarrow> if c = [] then [] else [c] | None \<Rightarrow> [])
   | _ \<Rightarrow> [])"

definition pressed_edges :: "sequence_failure \<Rightarrow> string list" where
  "pressed_edges f = map snd (filter (\<lambda>e. fst e = RawKeyDown) (sf_possiblyAppliedEdges f))"

definition failed_lane :: "action_request \<Rightarrow> sequence_failure \<Rightarrow> role_lane \<Rightarrow> role_lane" where
  "failed_lane a f l0 =
     (let l1 = l0\<lparr>rl_quarantined := rl_quarantined l0 \<or> sf_quarantine f\<rparr>;
          l2 = (if sf_quarantine f
                then l1\<lparr>rl_recoveryParentRequestId :=
                          (case rl_recoveryParentRequestId l1 of None \<Rightarrow> Some (requestId a) | x \<Rightarrow> x),
                        rl_uncertainKeyCodes :=
                          fold js_add (rl_heldKeyCodes l1 @ pressed_edges f @ key_code_of (action a))
                            (rl_uncertainKeyCodes l1)\<rparr>
                else l1);
          l3 = l2\<lparr>rl_uncertainKeyCodes :=
                    filter (\<lambda>c. c \<notin> set (sf_confirmedReleaseCodes f)) (rl_uncertainKeyCodes l2)\<rparr>
      in if sf_confirmedInputNeutrality f \<and> certain l3
         then l3\<lparr>rl_hasHeldKeys := False, rl_heldKeyCodes := [], rl_uncertainKeyCodes := []\<rparr>
         else l3)"

definition key_thrown ::
  "action_request \<Rightarrow> int \<Rightarrow> sequence_failure \<Rightarrow> 'w input_coordinator \<Rightarrow> 'w job_result" where
  "key_thrown a g f s =
     (case lane_of s (roleId a) of
        None \<Rightarrow> refuse PlainError s
      | Some l0 \<Rightarrow>
          (let l = failed_lane a f l0; s' = put_lane (roleId a) l s in
           (s', Refused (SequenceError
              (if rl_quarantined l \<and> sf_confirmedInputNeutrality f \<and> \<not> certain l
               then ChromiumTrustedInputSequenceFailure ''SYSTEM_TRUSTED_INPUT_INDETERMINATE''
                      True True [] False []
               else f)),
            if sf_confirmedInputNeutrality f \<and> certain l
            then Some (cleanup_proof a (inputEpoch a + 1) g) else None)))"

definition run_key_action ::
  "'w coordinator_input \<Rightarrow> action_request \<Rightarrow> int \<Rightarrow> 'w input_coordinator \<Rightarrow> 'w job_result" where
  "run_key_action I a g s =
     (case executeChromiumTrustedKeySequence (seq_ports I) a g (ci_platform I) s of
        (s', Completed x) \<Rightarrow> key_completed a g x s'
      | (s', Thrown f) \<Rightarrow> key_thrown a g f s'
      | (s', Rethrown e) \<Rightarrow> refuse e s')"

section \<open>Other actions\<close>

definition plain_request :: "action_request \<Rightarrow> int \<Rightarrow> bool \<Rightarrow> native_request" where
  "plain_request a g neutral =
     \<lparr>req_requestId = requestId a, req_parentRequestId = None, req_roleId = roleId a,
      req_inputEpoch = inputEpoch a, req_intent = request_intent a,
      req_scheduledAtMs = scheduledAtMs a, req_deadlineMs = deadlineMs a,
      req_surfaceGeneration = g, req_neutralBefore = neutral, req_neutralAfter = neutral,
      req_action = action a, req_keyEffect = None, req_physicalModifierCodes = [],
      req_pointerReleaseOnly = False\<rparr>"

definition uncertain_click :: "browser_action \<Rightarrow> role_lane \<Rightarrow> role_lane" where
  "uncertain_click act l =
     (let l' = l\<lparr>rl_quarantined := True\<rparr>
      in case act of Click c \<Rightarrow> l'\<lparr>rl_uncertainPointer := Some c\<rparr> | _ \<Rightarrow> l')"

definition plain_applied ::
  "action_request \<Rightarrow> int \<Rightarrow> native_receipt \<Rightarrow> 'w input_coordinator \<Rightarrow> 'w job_result" where
  "plain_applied a g rc s =
     (case lane_of s (roleId a) of
        None \<Rightarrow> refuse PlainError s
      | Some l \<Rightarrow>
          if request_intent a = Cleanup \<and> rl_quarantined l \<and> \<not> certain l
          then refuse input_indeterminate s
          else if request_intent a = Cleanup \<and> rec_confirmedNeutrality rc \<and> certain l
          then (put_lane (roleId a) (recovered_lane l) s, Receipt rc,
                Some (cleanup_proof a (inputEpoch a) g))
          else (s, Receipt rc, None))"

definition run_plain_action ::
  "'w coordinator_input \<Rightarrow> action_request \<Rightarrow> int \<Rightarrow> 'w input_coordinator \<Rightarrow> 'w job_result" where
  "run_plain_action I a g s =
     (case lane_of s (roleId a) of
        None \<Rightarrow> refuse PlainError s
      | Some l \<Rightarrow>
          (case dispatchNative I (plain_request a g (\<not> rl_hasHeldKeys l)) s of
             (s', Inl e) \<Rightarrow> refuse e (on_lane (roleId a) (uncertain_click (action a)) s')
           | (s', Inr rc) \<Rightarrow>
               if rec_status rc = Applied then plain_applied a g rc s'
               else if rec_status rc = Indeterminate \<or> \<not> rec_confirmedNeutrality rc
               then refuse input_indeterminate (on_lane (roleId a) (uncertain_click (action a)) s')
               else if rec_status rc = Superseded
               then refuse (BridgeError ''BROWSER_ACTION_STALE'') s'
               else refuse (BridgeError (case rec_errorCode rc of Some c \<Rightarrow> c | None \<Rightarrow> [])) s'))"

section \<open>Neutralization\<close>

text \<open>\<open>Array.prototype.sort\<close> is stable: insertion behind the elements that do not compare greater.\<close>

fun insert_by :: "('a \<Rightarrow> 'a \<Rightarrow> int) \<Rightarrow> 'a \<Rightarrow> 'a list \<Rightarrow> 'a list" where
  "insert_by cmp x [] = [x]"
| "insert_by cmp x (y # ys) = (if cmp x y < 0 then x # y # ys else y # insert_by cmp x ys)"

definition sort_by :: "('a \<Rightarrow> 'a \<Rightarrow> int) \<Rightarrow> 'a list \<Rightarrow> 'a list" where
  "sort_by cmp xs = fold (insert_by cmp) xs []"

definition modifier_prefix :: "string \<Rightarrow> bool" where
  "modifier_prefix c \<longleftrightarrow> starts_with ''Alt'' c \<or> starts_with ''Control'' c \<or> starts_with ''Meta'' c \<or>
     starts_with ''Shift'' c"

definition release_order :: "(string \<Rightarrow> string \<Rightarrow> int) \<Rightarrow> string \<Rightarrow> string \<Rightarrow> int" where
  "release_order locale x y =
     (let d = (if modifier_prefix x then 1 else 0) - (if modifier_prefix y then 1 else 0) in
      if d \<noteq> 0 then d else locale x y)"

definition neutralize_codes :: "'w coordinator_input \<Rightarrow> role_lane \<Rightarrow> string list" where
  "neutralize_codes I l =
     sort_by (release_order (ci_localeCompare I)) (js_set_of (rl_heldKeyCodes l @ rl_uncertainKeyCodes l))"

definition release_request :: "action_request \<Rightarrow> int \<Rightarrow> nat \<Rightarrow> string \<Rightarrow> string list \<Rightarrow> role_lane \<Rightarrow> native_request" where
  "release_request a g n c active l =
     (let left = filter (\<lambda>x. x \<noteq> c) active in
     \<lparr>req_requestId = requestId a @ '':key:'' @ nat_string (n + 1),
      req_parentRequestId = rl_recoveryParentRequestId l, req_roleId = roleId a,
      req_inputEpoch = inputEpoch a, req_intent = Cleanup,
      req_scheduledAtMs = scheduledAtMs a, req_deadlineMs = deadlineMs a,
      req_surfaceGeneration = g, req_neutralBefore = (active = []),
      req_neutralAfter = (left = [] \<and> rl_uncertainPointer l = None),
      req_action = KeyAction \<lparr>action_phase = ReleaseKey, key_name = c, action_code = Some c,
        modifiers = [], exactModifierCodes = Some [], modifierOwnership = Synthetic,
        ownerId = ''input-recovery:'' @ requestId a, suppressOverlayShortcut = True\<rparr>,
      req_keyEffect = Some \<lparr>phase = KeyUp, code = c, activeCodesBefore = active,
        activeCodes = left, autoRepeat = False, suppressShortcut = True\<rparr>,
      req_physicalModifierCodes = [], req_pointerReleaseOnly = False\<rparr>)"

definition released_lane :: "string \<Rightarrow> role_lane \<Rightarrow> role_lane" where
  "released_lane c l =
     (let held = removeAll c (rl_heldKeyCodes l) in
      l\<lparr>rl_uncertainKeyCodes := removeAll c (rl_uncertainKeyCodes l), rl_heldKeyCodes := held,
        rl_hasHeldKeys := (held \<noteq> [])\<rparr>)"

text \<open>The loop over the codes: \<open>n\<close> is the index, \<open>active\<close> the codes not yet released.\<close>

fun release_codes ::
  "'w coordinator_input \<Rightarrow> action_request \<Rightarrow> int \<Rightarrow> nat \<Rightarrow> string list \<Rightarrow> string list \<Rightarrow> 'w input_coordinator
     \<Rightarrow> 'w input_coordinator \<times> unit outcome" where
  "release_codes I a g n [] active s = (s, Inr ())"
| "release_codes I a g n (c # cs) active s =
     (case lane_of s (roleId a) of
        None \<Rightarrow> (s, Inl PlainError)
      | Some l \<Rightarrow>
          (case dispatchNative I (release_request a g n c active l) s of
             (s', Inl e) \<Rightarrow> (s', Inl e)
           | (s', Inr rc) \<Rightarrow>
               if rec_status rc \<noteq> Applied then (s', Inl input_indeterminate)
               else release_codes I a g (n + 1) cs (filter (\<lambda>x. x \<noteq> c) active)
                      (on_lane (roleId a) (released_lane c) s')))"

definition pointer_request :: "action_request \<Rightarrow> int \<Rightarrow> click_action \<Rightarrow> native_request" where
  "pointer_request a g c =
     \<lparr>req_requestId = requestId a @ '':pointer-release'', req_parentRequestId = None,
      req_roleId = roleId a, req_inputEpoch = inputEpoch a, req_intent = Cleanup,
      req_scheduledAtMs = scheduledAtMs a, req_deadlineMs = deadlineMs a,
      req_surfaceGeneration = g, req_neutralBefore = False, req_neutralAfter = True,
      req_action = Click c, req_keyEffect = None, req_physicalModifierCodes = [],
      req_pointerReleaseOnly = True\<rparr>"

definition release_pointer ::
  "'w coordinator_input \<Rightarrow> action_request \<Rightarrow> int \<Rightarrow> 'w input_coordinator \<Rightarrow> 'w input_coordinator \<times> unit outcome" where
  "release_pointer I a g s =
     (case lane_of s (roleId a) of
        None \<Rightarrow> (s, Inl PlainError)
      | Some l \<Rightarrow>
          (case rl_uncertainPointer l of
             None \<Rightarrow> (s, Inr ())
           | Some c \<Rightarrow>
               (case dispatchNative I (pointer_request a g c) s of
                  (s', Inl e) \<Rightarrow> (s', Inl e)
                | (s', Inr rc) \<Rightarrow>
                    if rec_status rc \<noteq> Applied \<or> \<not> rec_confirmedNeutrality rc
                    then (s', Inl input_indeterminate)
                    else (on_lane (roleId a) (\<lambda>l. l\<lparr>rl_uncertainPointer := None\<rparr>) s', Inr ()))))"

definition neutral_lane :: "int \<Rightarrow> role_lane \<Rightarrow> role_lane" where
  "neutral_lane e l =
     l\<lparr>rl_recoveryParentRequestId := None, rl_inputEpoch := e, rl_quarantined := False,
       rl_hasHeldKeys := False, rl_heldKeyCodes := [], rl_uncertainKeyCodes := [],
       rl_uncertainPointer := None\<rparr>"

text \<open>\<open>#neutralizeInLane\<close>: any error on the way leaves the lane quarantined.\<close>

definition try_neutralize ::
  "'w coordinator_input \<Rightarrow> action_request \<Rightarrow> int \<Rightarrow> 'w input_coordinator \<Rightarrow> 'w input_coordinator \<times> unit outcome" where
  "try_neutralize I a g s =
     (case lane_of s (roleId a) of
        None \<Rightarrow> (s, Inl PlainError)
      | Some l \<Rightarrow>
          (let codes = neutralize_codes I l in
           case release_codes I a g 0 codes codes s of
             (s1, Inl e) \<Rightarrow> (s1, Inl e)
           | (s1, Inr _) \<Rightarrow>
               (case release_pointer I a g s1 of
                  (s2, Inl e) \<Rightarrow> (s2, Inl e)
                | (s2, Inr _) \<Rightarrow> ci_clear I (roleId a) s2)))"

definition neutralizeInLane ::
  "'w coordinator_input \<Rightarrow> action_request \<Rightarrow> int \<Rightarrow> 'w input_coordinator \<Rightarrow> 'w job_result" where
  "neutralizeInLane I a g s =
     (case try_neutralize I a g s of
        (s', Inl e) \<Rightarrow> refuse e (on_lane (roleId a) (\<lambda>l. l\<lparr>rl_quarantined := True\<rparr>) s')
      | (s', Inr _) \<Rightarrow>
          (on_lane (roleId a) (neutral_lane (inputEpoch a)) s',
           Receipt \<lparr>rec_requestId = requestId a, rec_roleId = roleId a,
             rec_inputEpoch = inputEpoch a, rec_surfaceGeneration = g, rec_status = Applied,
             rec_completedAtMs = ci_now I s', rec_errorCode = None, rec_confirmedNeutrality = True\<rparr>,
           None))"

section \<open>Execution in the lane\<close>

definition dispatch_action ::
  "'w coordinator_input \<Rightarrow> action_request \<Rightarrow> int \<Rightarrow> 'w input_coordinator \<Rightarrow> 'w job_result" where
  "dispatch_action I a g s =
     (case action a of
        NeutralizeInput \<Rightarrow>
          if request_intent a \<noteq> Cleanup then refuse input_invalid s else neutralizeInLane I a g s
      | KeyAction _ \<Rightarrow> run_key_action I a g s
      | ReassertHeldKeys \<Rightarrow> run_key_action I a g s
      | _ \<Rightarrow> run_plain_action I a g s)"

text \<open>From the lane's creation to its document: the epoch only grows, a quarantined lane takes no
  normal input, and another document is adopted only by a lane that holds nothing.\<close>

definition enter_lane ::
  "'w coordinator_input \<Rightarrow> action_request \<Rightarrow> surface_identity \<Rightarrow> 'w input_coordinator \<Rightarrow> 'w job_result" where
  "enter_lane I a sf s =
     (let l = (case lane_of s (roleId a) of
                 Some l \<Rightarrow> l
               | None \<Rightarrow> fresh_lane (si_documentInstanceId sf) 0 (si_surfaceGeneration sf));
          s1 = put_lane (roleId a) l s
      in if rl_surfaceGeneration l \<noteq> si_surfaceGeneration sf \<or> inputEpoch a < rl_inputEpoch l
         then refuse (BridgeError ''BROWSER_ACTION_STALE'') s1
         else
           (let l2 = l\<lparr>rl_inputEpoch := max (rl_inputEpoch l) (inputEpoch a)\<rparr>;
                s2 = put_lane (roleId a) l2 s1
            in if request_intent a = Normal \<and> rl_quarantined l2 then refuse input_quarantined s2
               else if rl_documentInstanceId l2 = si_documentInstanceId sf
               then dispatch_action I a (si_surfaceGeneration sf) s2
               else if rl_quarantined l2 \<or> rl_hasHeldKeys l2 \<or> \<not> certain l2
               then refuse input_quarantined s2
               else dispatch_action I a (si_surfaceGeneration sf)
                      (put_lane (roleId a) (l2\<lparr>rl_documentInstanceId := si_documentInstanceId sf\<rparr>) s2)))"

definition stale_fence :: "browser_request \<Rightarrow> surface_identity \<Rightarrow> bool" where
  "stale_fence rq sf \<longleftrightarrow>
     (case br_surfaceGeneration rq of
        None \<Rightarrow> False
      | Some g \<Rightarrow> g \<noteq> si_surfaceGeneration sf \<or>
          ((request_intent (br_action rq) = Normal \<or> br_documentInstanceId rq \<noteq> None) \<and>
           br_documentInstanceId rq \<noteq> Some (si_documentInstanceId sf)))"

definition executeInLane :: "'w coordinator_input \<Rightarrow> browser_request \<Rightarrow> 'w input_coordinator \<Rightarrow> 'w job_result" where
  "executeInLane I rq s =
     (let a = br_action rq; now = ci_now I s; normal = (request_intent a = Normal) in
      if \<not> requireSafeInteger now 1 then refuse input_invalid s
      else if normal \<and> now \<ge> deadlineMs a then refuse (BridgeError ''BROWSER_ACTION_DEADLINE'') s
      else if normal \<and> (leases_of s (roleId a) \<noteq> [] \<or> jm_has (co_quarantines s) (roleId a))
      then refuse input_quarantined s
      else (case validateSurface (ci_surface I (roleId a) s) (roleId a) (request_intent a) of
              Inl e \<Rightarrow> refuse e s
            | Inr sf \<Rightarrow>
                if stale_fence rq sf then refuse (BridgeError ''BROWSER_ACTION_STALE'') s
                else (case (ci_preflight I, normal) of
                        (Some preflight, True) \<Rightarrow>
                          (case preflight (roleId a) (si_surfaceGeneration sf) s of
                             (s1, Inl e) \<Rightarrow> refuse e s1
                           | (s1, Inr _) \<Rightarrow> enter_lane I a sf s1)
                      | _ \<Rightarrow> enter_lane I a sf s)))"

section \<open>Document replacement leases\<close>

definition put_leases :: "string \<Rightarrow> (string, retained_lease) js_map \<Rightarrow> 'w input_coordinator \<Rightarrow> 'w input_coordinator" where
  "put_leases r m s = s\<lparr>co_leases := jm_set r m (co_leases s)\<rparr>"

definition drop_leases :: "string \<Rightarrow> 'w input_coordinator \<Rightarrow> 'w input_coordinator" where
  "drop_leases r s = s\<lparr>co_leases := jm_delete r (co_leases s)\<rparr>"

text \<open>\<open>supersedeControlledDocumentReplacement\<close>: synchronous, also while a job of the role awaits.\<close>

definition supersede_lease :: "replacement_lease \<Rightarrow> bool \<Rightarrow> 'w input_coordinator \<Rightarrow> 'w input_coordinator \<times> bool" where
  "supersede_lease lease submitted s =
     (let r = le_roleId lease; m = leases_of s r in
      case jm_get m (le_operationId lease) of
        None \<Rightarrow> (s, False)
      | Some (n, current) \<Rightarrow>
          if current \<noteq> lease then (s, False)
          else if submitted
          then ((on_lane r (\<lambda>l. l\<lparr>rl_quarantined := True\<rparr>) s)
                  \<lparr>co_quarantines := jm_set r
                     \<lparr>qu_operationId = le_operationId lease, qu_surfaceGeneration = le_surfaceGeneration lease\<rparr>
                     (co_quarantines s)\<rparr>, True)
          else (let m' = jm_delete (le_operationId lease) m in
                (if m' = [] then drop_leases r s else put_leases r m' s, True)))"

text \<open>The job of \<open>prepareControlledDocumentReplacement\<close>, with its \<open>catch\<close>.\<close>

definition prepare_checks :: "'w coordinator_input \<Rightarrow> retained_lease \<Rightarrow> 'w input_coordinator \<Rightarrow> unit outcome" where
  "prepare_checks I retained s =
     (let (n, lease) = retained; r = le_roleId lease in
      if jm_has (co_quarantines s) r then Inl input_quarantined
      else if map_option fst (jm_get (leases_of s r) (le_operationId lease)) \<noteq> Some n
      then Inl (BridgeError ''ELECTRON_CHROMIUM_INPUT_RELOAD_SUPERSEDED'')
      else (case validateSurface (ci_surface I r s) r Normal of
              Inl e \<Rightarrow> Inl e
            | Inr sf \<Rightarrow>
                if si_surfaceGeneration sf \<noteq> le_surfaceGeneration lease \<or>
                   si_documentInstanceId sf \<noteq> le_documentInstanceId lease
                then Inl (BridgeError ''ELECTRON_CHROMIUM_INPUT_RELOAD_STALE'')
                else (case lane_of s r of
                        Some l \<Rightarrow>
                          if rl_surfaceGeneration l \<noteq> le_surfaceGeneration lease
                          then Inl (BridgeError ''ELECTRON_CHROMIUM_INPUT_RELOAD_STALE'') else Inr ()
                      | None \<Rightarrow> Inr ())))"

definition prepare_job :: "'w coordinator_input \<Rightarrow> retained_lease \<Rightarrow> 'w input_coordinator \<Rightarrow> 'w job_result" where
  "prepare_job I retained s =
     (case prepare_checks I retained s of
        Inr _ \<Rightarrow> (s, Answer True, None)
      | Inl e \<Rightarrow> refuse e (fst (supersede_lease (snd retained) False s)))"

text \<open>The lease is current, the latest of its role, and no submitted replacement is quarantined.\<close>

definition lease_leads :: "replacement_lease \<Rightarrow> 'w input_coordinator \<Rightarrow> bool" where
  "lease_leads lease s \<longleftrightarrow>
     (let r = le_roleId lease; m = leases_of s r in
      case jm_get m (le_operationId lease) of
        None \<Rightarrow> False
      | Some (n, current) \<Rightarrow>
          current = lease \<and> fst (snd (last m)) = n \<and> \<not> jm_has (co_quarantines s) r)"

definition neutral_for_lease :: "replacement_lease \<Rightarrow> role_lane \<Rightarrow> bool" where
  "neutral_for_lease lease l \<longleftrightarrow>
     rl_surfaceGeneration l = le_surfaceGeneration lease \<and> \<not> rl_quarantined l \<and>
     \<not> rl_hasHeldKeys l \<and> rl_inputEpoch l \<le> le_inputEpoch lease"

definition confirm_job :: "'w coordinator_input \<Rightarrow> replacement_lease \<Rightarrow> 'w input_coordinator \<Rightarrow> 'w job_result" where
  "confirm_job I lease s =
     (let r = le_roleId lease in
      if \<not> lease_leads lease s then (s, Answer False, None)
      else (case validateSurface (ci_surface I r s) r Normal of
              Inl e \<Rightarrow> refuse e s
            | Inr sf \<Rightarrow>
                (s, Answer (si_surfaceGeneration sf = le_surfaceGeneration lease \<and>
                            si_documentInstanceId sf = le_documentInstanceId lease \<and>
                            (case lane_of s r of None \<Rightarrow> True | Some l \<Rightarrow> neutral_for_lease lease l)),
                 None)))"

definition resume_job ::
  "'w coordinator_input \<Rightarrow> replacement_lease \<Rightarrow> string \<Rightarrow> 'w input_coordinator \<Rightarrow> 'w job_result" where
  "resume_job I lease document s =
     (let r = le_roleId lease in
      if \<not> lease_leads lease s then (s, Answer False, None)
      else (case validateSurface (ci_surface I r s) r Normal of
              Inl e \<Rightarrow> refuse e s
            | Inr sf \<Rightarrow>
                if si_surfaceGeneration sf \<noteq> le_surfaceGeneration lease \<or>
                   si_documentInstanceId sf \<noteq> document
                then (s, Answer False, None)
                else (let l = (case lane_of s r of
                                 Some l \<Rightarrow> l
                               | None \<Rightarrow> fresh_lane document (le_inputEpoch lease) (le_surfaceGeneration lease));
                          s1 = put_lane r l s
                      in if \<not> neutral_for_lease lease l then (s1, Answer False, None)
                         else (drop_leases r (put_lane r
                                 (l\<lparr>rl_inputEpoch := le_inputEpoch lease,
                                    rl_documentInstanceId := document\<rparr>) s1), Answer True, None))))"

section \<open>Retirement\<close>

definition retire_job :: "'w coordinator_input \<Rightarrow> string \<Rightarrow> int \<Rightarrow> 'w input_coordinator \<Rightarrow> 'w job_result" where
  "retire_job I r g s =
     (case lane_of s r of
        None \<Rightarrow> (s, Answer False, None)
      | Some l \<Rightarrow>
          if rl_surfaceGeneration l \<noteq> g then (s, Answer False, None)
          else if rl_quarantined l \<or> rl_hasHeldKeys l then refuse input_indeterminate s
          else (case ci_clear I r s of
                  (s', Inl e) \<Rightarrow> refuse e s'
                | (s', Inr _) \<Rightarrow> (drop_lane r s', Answer True, None)))"

definition destroy_job :: "string \<Rightarrow> int \<Rightarrow> 'w input_coordinator \<Rightarrow> 'w job_result" where
  "destroy_job r g s =
     (s, Answer ((case lane_of s r of Some l \<Rightarrow> rl_surfaceGeneration l = g | None \<Rightarrow> True) \<and>
                 (case jm_get (co_quarantines s) r of Some q \<Rightarrow> qu_surfaceGeneration q = g | None \<Rightarrow> True)),
      None)"

definition resume_after_job :: "'w coordinator_input \<Rightarrow> string \<Rightarrow> int \<Rightarrow> 'w input_coordinator \<Rightarrow> 'w job_result" where
  "resume_after_job I r g s =
     (case lane_of s r of
        None \<Rightarrow> (s, Answer False, None)
      | Some l \<Rightarrow>
          if rl_surfaceGeneration l \<noteq> g \<or> \<not> rl_quarantined l then (s, Answer False, None)
          else (case validateSurface (ci_surface I r s) r Normal of
                  Inl e \<Rightarrow> refuse e s
                | Inr sf \<Rightarrow>
                    if si_surfaceGeneration sf \<noteq> g \<or> si_documentInstanceId sf = rl_documentInstanceId l
                    then (s, Answer False, None)
                    else (case ci_clear I r s of
                            (s', Inl e) \<Rightarrow> refuse e s'
                          | (s', Inr _) \<Rightarrow>
                              (on_lane r (\<lambda>l. (neutral_lane (rl_inputEpoch l) l)
                                  \<lparr>rl_documentInstanceId := si_documentInstanceId sf\<rparr>) s',
                               Answer True, None))))"

definition retire_leases :: "string \<Rightarrow> int \<Rightarrow> 'w input_coordinator \<Rightarrow> 'w input_coordinator" where
  "retire_leases r g s =
     (let m = filter (\<lambda>e. le_surfaceGeneration (snd (snd e)) \<noteq> g) (leases_of s r);
          s1 = (if \<not> jm_has (co_leases s) r then s
                else if m = [] then drop_leases r s else put_leases r m s)
      in (case jm_get (co_quarantines s1) r of
            Some q \<Rightarrow> if qu_surfaceGeneration q = g
                       then s1\<lparr>co_quarantines := jm_delete r (co_quarantines s1)\<rparr> else s1
          | None \<Rightarrow> s1))"

text \<open>The listener of \<open>subscribeTrustedInputLifecycle\<close>.\<close>

definition surface_job ::
  "'w coordinator_input \<Rightarrow> string \<Rightarrow> int \<Rightarrow> retirement_reason \<Rightarrow> 'w input_coordinator \<Rightarrow> 'w job_result" where
  "surface_job I r g reason s =
     (let finish = (\<lambda>s'. (if reason = SurfaceRetired then retire_leases r g s' else s', Answer True, None)) in
      case lane_of s r of
        None \<Rightarrow> finish s
      | Some l \<Rightarrow>
          if rl_surfaceGeneration l \<noteq> g then finish s
          else if reason = SurfaceRetired
          then (case ci_clear I r s of
                  (s', Inl e) \<Rightarrow> refuse e s'
                | (s', Inr _) \<Rightarrow> finish (drop_lane r s'))
          else finish (if rl_hasHeldKeys l then put_lane r (l\<lparr>rl_quarantined := True\<rparr>) s else s))"

section \<open>The queue of jobs\<close>

text \<open>\<open>#enqueue\<close>: the jobs of a role run in the order they were enqueued.\<close>

fun job_role :: "lane_job \<Rightarrow> string" where
  "job_role (ExecuteJob rq) = roleId (br_action rq)"
| "job_role (PrepareJob retained) = le_roleId (snd retained)"
| "job_role (ConfirmJob lease) = le_roleId lease"
| "job_role (ResumeJob lease _) = le_roleId lease"
| "job_role (RetireJob r _) = r"
| "job_role (DestroyJob r _) = r"
| "job_role (ResumeAfterJob r _) = r"
| "job_role (SurfaceJob r _ _) = r"

definition enqueue_job :: "lane_job \<Rightarrow> 'w input_coordinator \<Rightarrow> 'w input_coordinator" where
  "enqueue_job j s = s\<lparr>co_jobs := co_jobs s @ [(co_next s, j)], co_next := Suc (co_next s)\<rparr>"

definition next_job :: "string \<Rightarrow> 'w input_coordinator \<Rightarrow> (nat \<times> lane_job) option" where
  "next_job r s = find (\<lambda>e. job_role (snd e) = r) (co_jobs s)"

definition take_job :: "nat \<times> lane_job \<Rightarrow> 'w input_coordinator \<Rightarrow> 'w input_coordinator" where
  "take_job e s = s\<lparr>co_jobs := filter (\<lambda>x. fst x \<noteq> fst e) (co_jobs s)\<rparr>"

definition run_job :: "'w coordinator_input \<Rightarrow> nat \<times> lane_job \<Rightarrow> 'w input_coordinator \<Rightarrow> 'w job_result" where
  "run_job I e s0 =
     (let s = take_job e s0 in
      case snd e of
        ExecuteJob rq \<Rightarrow> executeInLane I rq s
      | PrepareJob retained \<Rightarrow> prepare_job I retained s
      | ConfirmJob lease \<Rightarrow> confirm_job I lease s
      | ResumeJob lease d \<Rightarrow> resume_job I lease d s
      | RetireJob r g \<Rightarrow> retire_job I r g s
      | DestroyJob r g \<Rightarrow> destroy_job r g s
      | ResumeAfterJob r g \<Rightarrow> resume_after_job I r g s
      | SurfaceJob r g reason \<Rightarrow> surface_job I r g reason s)"

section \<open>Calls\<close>

definition input_draining :: js_error where
  "input_draining = BridgeError ''ELECTRON_CHROMIUM_INPUT_DRAINING''"

definition execute_call :: "browser_request \<Rightarrow> 'w input_coordinator \<Rightarrow> 'w input_coordinator \<times> unit outcome" where
  "execute_call rq s =
     (if co_phase s \<noteq> Open then (s, Inl input_draining)
      else (case validateRequest rq of Inl e \<Rightarrow> (s, Inl e) | Inr _ \<Rightarrow> (enqueue_job (ExecuteJob rq) s, Inr ())))"

definition observeMacroKey :: "bool option \<Rightarrow> 'w input_coordinator \<Rightarrow> bool" where
  "observeMacroKey native s \<longleftrightarrow> co_phase s = Open \<and> native = Some True"

definition valid_lease :: "replacement_lease \<Rightarrow> bool" where
  "valid_lease lease \<longleftrightarrow> requireIdentifier (le_operationId lease) \<and> requireIdentifier (le_roleId lease) \<and>
     requireIdentifier (le_documentInstanceId lease) \<and> requireSafeInteger (le_surfaceGeneration lease) 1 \<and>
     requireSafeInteger (le_inputEpoch lease) 0"

definition lease_conflict :: "replacement_lease \<Rightarrow> replacement_lease \<Rightarrow> bool" where
  "lease_conflict x y \<longleftrightarrow> le_surfaceGeneration x \<noteq> le_surfaceGeneration y \<or>
     le_documentInstanceId x \<noteq> le_documentInstanceId y \<or> le_inputEpoch x \<noteq> le_inputEpoch y"

definition prepare_call :: "replacement_lease \<Rightarrow> 'w input_coordinator \<Rightarrow> 'w input_coordinator \<times> unit outcome" where
  "prepare_call lease s =
     (if co_phase s \<noteq> Open then (s, Inl input_draining)
      else if \<not> valid_lease lease then (s, Inl input_invalid)
      else (let r = le_roleId lease; m = leases_of s r;
                retained = (case jm_get m (le_operationId lease) of Some x \<Rightarrow> x | None \<Rightarrow> (co_next s, lease))
            in if lease_conflict (snd retained) lease
               then (s, Inl (BridgeError ''ELECTRON_CHROMIUM_INPUT_RELOAD_CONFLICT''))
               else (enqueue_job (PrepareJob retained)
                       (put_leases r (jm_set (le_operationId lease) retained m) s), Inr ())))"

definition confirm_call :: "replacement_lease \<Rightarrow> 'w input_coordinator \<Rightarrow> 'w input_coordinator \<times> unit outcome" where
  "confirm_call lease s = (enqueue_job (ConfirmJob lease) s, Inr ())"

definition resume_call :: "replacement_lease \<Rightarrow> string \<Rightarrow> 'w input_coordinator \<Rightarrow> 'w input_coordinator \<times> unit outcome" where
  "resume_call lease d s =
     (if requireIdentifier d then (enqueue_job (ResumeJob lease d) s, Inr ()) else (s, Inl input_invalid))"

definition surface_call :: "(string \<Rightarrow> int \<Rightarrow> lane_job) \<Rightarrow> string \<Rightarrow> int \<Rightarrow> 'w input_coordinator \<Rightarrow> 'w input_coordinator \<times> unit outcome" where
  "surface_call j r g s =
     (if co_phase s \<noteq> Open then (s, Inl input_draining)
      else if \<not> requireIdentifier r \<or> \<not> requireSafeInteger g 1 then (s, Inl input_invalid)
      else (enqueue_job (j r g) s, Inr ()))"

text \<open>The lifecycle subscription lasts until \<open>dispose\<close>.\<close>

definition surface_event :: "string \<Rightarrow> int \<Rightarrow> retirement_reason \<Rightarrow> 'w input_coordinator \<Rightarrow> 'w input_coordinator" where
  "surface_event r g reason s = (if co_phase s = Open then enqueue_job (SurfaceJob r g reason) s else s)"

definition dispose_call :: "'w input_coordinator \<Rightarrow> 'w input_coordinator" where
  "dispose_call s = (if co_phase s = Open then s\<lparr>co_phase := Draining, co_fence := co_next s\<rparr> else s)"

text \<open>Once the jobs enqueued before \<open>dispose\<close> have run, every lane's held keys are cleared in Core,
  errors ignored, and the maps are emptied.\<close>

definition dispose_ready :: "'w input_coordinator \<Rightarrow> bool" where
  "dispose_ready s \<longleftrightarrow> co_phase s = Draining \<and> (\<forall>e \<in> set (co_jobs s). co_fence s \<le> fst e)"

definition dispose_finish :: "'w coordinator_input \<Rightarrow> 'w input_coordinator \<Rightarrow> 'w input_coordinator" where
  "dispose_finish I s =
     (if dispose_ready s
      then (fold (\<lambda>r s'. fst (ci_clear I r s')) (map fst (co_lanes s)) s)
             \<lparr>co_phase := Disposed, co_lanes := [], co_leases := [], co_quarantines := []\<rparr>
      else s)"

end
