(* ===== verification/Trusted_Safety.thy ===== *)
theory Trusted_Safety
  imports Trusted_Coordinator
begin

text \<open>
  What the trusted input coordinator guarantees about one role \<open>r\<close>: its lane knows every key the page
  can still see as held, whatever failed before, and it declares the input neutral only when it is.
  The contracts of the ports are the locale \<open>trusted_ports\<close>.
\<close>

section \<open>What a job keeps\<close>

text \<open>A predicate of the state that the ports called for role \<open>q\<close> keep, and one that the coordinator's
  own writes for \<open>q\<close> keep: every job of \<open>q\<close> keeps it.\<close>

definition input_keeps :: "'w coordinator_input \<Rightarrow> string \<Rightarrow> string set \<Rightarrow> ('w input_coordinator \<Rightarrow> bool) \<Rightarrow> bool" where
  "input_keeps I q ids Q \<longleftrightarrow> ports_keep (seq_ports I) q ids Q \<and>
     (\<forall>s. Q s \<longrightarrow> Q (fst (ci_clear I q s))) \<and>
     (\<forall>f g s. ci_preflight I = Some f \<longrightarrow> Q s \<longrightarrow> Q (fst (f q g s)))"

text \<open>A relation every port step satisfies carries over a predicate it preserves.\<close>

lemma input_keeps_rel:
  assumes R: "\<And>s0. input_keeps I q ids (R s0)" and refl: "\<And>s. R s s"
    and step: "\<And>s s'. R s s' \<Longrightarrow> Q s \<Longrightarrow> Q s'"
  shows "input_keeps I q ids Q"
proof -
  let ?P = "seq_ports I"
  have p: "ports_keep ?P q ids (R s)" for s using R [of s] by (simp add: input_keeps_def)
  have "sends_keep ?P q Q"
    unfolding sends_keep_def
  proof (intro conjI allI impI)
    show "Q (fst (dispatch ?P rq w))" if "req_roleId rq = q" "Q w" for rq w
      by (rule step [OF _ that(2)])
        (use sends_keepD(1) [OF ports_keepD(1) [OF p [of w]] that(1) refl] prod.collapse in metis)
    show "Q (record_failure ?P f b w)" if "Q w" for f b w
      by (rule step [OF sends_keepD(2) [OF ports_keepD(1) [OF p] refl] that])
  qed
  moreover have "Q (fst (core_prepare ?P i w)) \<and> id_in ids (snd (core_prepare ?P i w))"
    if "prep_roleId i = q" "Q w" for i w
    using ports_keepD(2) [OF p that(1) refl prod.collapse [symmetric]] step [OF _ that(2)] by blast
  moreover have "Q (fst (core_reassert ?P q w)) \<and> id_in ids (snd (core_reassert ?P q w))" if "Q w" for w
    using ports_keepD(3) [OF p refl prod.collapse [symmetric]] step [OF _ that] by blast
  moreover have "Q (fst (core_complete ?P t b w))" if "t \<in> ids" "Q w" for t b w
    using ports_keepD(4) [OF p that(1) refl prod.collapse [symmetric]] step [OF _ that(2)] by blast
  ultimately have "ports_keep ?P q ids Q" by (simp add: ports_keep_def)
  moreover have "Q (fst (ci_clear I q s))" if "Q s" for s
    by (rule step [OF _ that]) (use R [of s] refl [of s] in \<open>simp add: input_keeps_def\<close>)
  moreover have "Q (fst (f q g s))" if "ci_preflight I = Some f" "Q s" for f g s
    by (rule step [OF _ that(2)]) (use R [of s] refl [of s] that(1) in \<open>simp add: input_keeps_def\<close>)
  ultimately show ?thesis by (simp add: input_keeps_def)
qed

definition writes_keep :: "string \<Rightarrow> ('w input_coordinator \<Rightarrow> bool) \<Rightarrow> bool" where
  "writes_keep q Q \<longleftrightarrow>
     (\<forall>s l. Q s \<longrightarrow> Q (put_lane q l s)) \<and> (\<forall>s. Q s \<longrightarrow> Q (drop_lane q s)) \<and>
     (\<forall>s m. Q s \<longrightarrow> Q (s\<lparr>co_leases := m\<rparr>)) \<and> (\<forall>s m. Q s \<longrightarrow> Q (s\<lparr>co_quarantines := m\<rparr>)) \<and>
     (\<forall>s js. Q s \<longrightarrow> Q (s\<lparr>co_jobs := js\<rparr>))"

lemma input_keepsD:
  assumes "input_keeps I q ids Q"
  shows "ports_keep (seq_ports I) q ids Q"
    and "Q s \<Longrightarrow> ci_clear I q s = (s', out) \<Longrightarrow> Q s'"
    and "ci_preflight I = Some f \<Longrightarrow> Q s \<Longrightarrow> f q g s = (s', out) \<Longrightarrow> Q s'"
    and "req_roleId rq = q \<Longrightarrow> Q s \<Longrightarrow> dispatchNative I rq s = (s', out') \<Longrightarrow> Q s'"
proof -
  show "ports_keep (seq_ports I) q ids Q" using assms by (simp add: input_keeps_def)
  then show "req_roleId rq = q \<Longrightarrow> Q s \<Longrightarrow> dispatchNative I rq s = (s', out') \<Longrightarrow> Q s'"
    using sends_keepD(1) [OF ports_keepD(1), of "seq_ports I" q ids Q rq s s' out']
    by (simp add: seq_ports_def)
qed (use assms in \<open>unfold input_keeps_def, metis fst_conv\<close>)+

lemma writes_keepD:
  assumes "writes_keep q Q"
  shows "Q s \<Longrightarrow> Q (put_lane q l s)" and "Q s \<Longrightarrow> Q (drop_lane q s)"
    and "Q s \<Longrightarrow> Q (s\<lparr>co_leases := m\<rparr>)" and "Q s \<Longrightarrow> Q (s\<lparr>co_quarantines := n\<rparr>)"
    and "Q s \<Longrightarrow> Q (s\<lparr>co_jobs := js\<rparr>)"
  using assms unfolding writes_keep_def by blast+

lemma on_lane_keeps: "writes_keep q Q \<Longrightarrow> Q s \<Longrightarrow> Q (on_lane q f s)"
  by (auto simp: on_lane_def writes_keepD split: option.splits)

lemma key_completed_keeps:
  "writes_keep (roleId a) Q \<Longrightarrow> Q s \<Longrightarrow> Q (fst (key_completed a g x s))"
  by (auto simp: key_completed_def refuse_def Let_def writes_keepD split: option.splits)

lemma key_thrown_keeps:
  "writes_keep (roleId a) Q \<Longrightarrow> Q s \<Longrightarrow> Q (fst (key_thrown a g f s))"
  by (auto simp: key_thrown_def refuse_def Let_def writes_keepD split: option.splits)

lemma run_key_keeps:
  assumes "input_keeps I (roleId a) ids Q" "writes_keep (roleId a) Q" "Q s"
  shows "Q (fst (run_key_action I a g s))"
proof -
  obtain s' x where x: "executeChromiumTrustedKeySequence (seq_ports I) a g (ci_platform I) s = (s', x)"
    by fastforce
  have "Q s'" using execute_keeps [OF x input_keepsD(1) [OF assms(1)] assms(3)] .
  then show ?thesis
    using x key_completed_keeps [OF assms(2)] key_thrown_keeps [OF assms(2)]
    by (cases x) (simp_all add: run_key_action_def refuse_def)
qed

lemma plain_request_role [simp]: "req_roleId (plain_request a g b) = roleId a"
  "req_roleId (release_request a g n c cs l) = roleId a"
  "req_roleId (pointer_request a g k) = roleId a"
  by (simp_all add: plain_request_def release_request_def pointer_request_def Let_def)

lemma run_plain_keeps:
  assumes "input_keeps I (roleId a) ids Q" "writes_keep (roleId a) Q" "Q s"
  shows "Q (fst (run_plain_action I a g s))"
proof (cases "lane_of s (roleId a)")
  case (Some l)
  obtain s' out where d: "dispatchNative I (plain_request a g (\<not> rl_hasHeldKeys l)) s = (s', out)"
    by fastforce
  have "Q s'" using input_keepsD(4) [OF assms(1) _ assms(3) d] by simp
  then show ?thesis
    using d Some assms(2)
    by (cases out) (auto simp: run_plain_action_def plain_applied_def refuse_def on_lane_keeps
        writes_keepD split: option.splits)
qed (use assms(3) in \<open>simp add: run_plain_action_def refuse_def\<close>)

lemma release_codes_keeps:
  assumes "release_codes I a g n cs active s = (s', out)"
    and "input_keeps I (roleId a) ids Q" "writes_keep (roleId a) Q" "Q s"
  shows "Q s'"
  using assms(1,4)
proof (induction cs arbitrary: n active s)
  case (Cons c cs)
  show ?case
  proof (cases "lane_of s (roleId a)")
    case (Some l)
    obtain s1 o1 where d: "dispatchNative I (release_request a g n c active l) s = (s1, o1)" by fastforce
    have "Q s1" using input_keepsD(4) [OF assms(2) _ Cons.prems(2) d] by simp
    then show ?thesis
      using Cons.prems(1) d Some Cons.IH on_lane_keeps [OF assms(3)]
      by (cases o1) (auto split: if_splits)
  qed (use Cons.prems in simp)
qed simp

lemma release_pointer_keeps:
  assumes "release_pointer I a g s = (s', out)"
    and "input_keeps I (roleId a) ids Q" "writes_keep (roleId a) Q" "Q s"
  shows "Q s'"
proof (cases "lane_of s (roleId a)")
  case (Some l)
  show ?thesis
  proof (cases "rl_uncertainPointer l")
    case None
    then show ?thesis using assms(1,4) Some by (simp add: release_pointer_def)
  next
    case p: (Some c)
    obtain s1 o1 where d: "dispatchNative I (pointer_request a g c) s = (s1, o1)" by fastforce
    have "Q s1" using input_keepsD(4) [OF assms(2) _ assms(4) d] by simp
    then show ?thesis
      using assms(1) d Some p on_lane_keeps [OF assms(3)]
      by (cases o1) (auto simp: release_pointer_def split: if_splits)
  qed
qed (use assms in \<open>simp add: release_pointer_def\<close>)

lemma neutralize_keeps:
  assumes "input_keeps I (roleId a) ids Q" "writes_keep (roleId a) Q" "Q s"
  shows "Q (fst (neutralizeInLane I a g s))"
proof -
  obtain s' out where t: "try_neutralize I a g s = (s', out)" by fastforce
  have "Q s'"
    using t assms(3)
    by (auto simp: try_neutralize_def Let_def split: option.splits prod.splits sum.splits
        dest: release_codes_keeps [OF _ assms(1,2)] release_pointer_keeps [OF _ assms(1,2)]
          input_keepsD(2) [OF assms(1), rotated])
  then show ?thesis
    using t on_lane_keeps [OF assms(2)] by (cases out) (simp_all add: neutralizeInLane_def refuse_def)
qed

lemma enter_lane_keeps:
  assumes "input_keeps I (roleId a) ids Q" "writes_keep (roleId a) Q" "Q s"
  shows "Q (fst (enter_lane I a sf s))"
proof -
  have "Q (fst (dispatch_action I a g s'))" if "Q s'" for g s'
    using run_key_keeps [OF assms(1,2) that] run_plain_keeps [OF assms(1,2) that]
      neutralize_keeps [OF assms(1,2) that] that
    by (cases "action a") (simp_all add: dispatch_action_def refuse_def)
  then show ?thesis
    using assms(3) writes_keepD(1) [OF assms(2)]
    by (simp add: enter_lane_def Let_def refuse_def)
qed

lemma execute_keeps_job:
  assumes "input_keeps I (roleId (br_action rq)) ids Q" "writes_keep (roleId (br_action rq)) Q" "Q s"
  shows "Q (fst (executeInLane I rq s))"
proof -
  note enter = enter_lane_keeps [OF assms(1,2)]
  have pre: "Q (fst (case f (roleId (br_action rq)) (si_surfaceGeneration sf) s of
      (s1, Inl e) \<Rightarrow> refuse e s1 | (s1, Inr _) \<Rightarrow> enter_lane I (br_action rq) sf s1))"
    if "ci_preflight I = Some f" for f sf
  proof -
    obtain s1 out where f: "f (roleId (br_action rq)) (si_surfaceGeneration sf) s = (s1, out)" by fastforce
    have "Q s1" using input_keepsD(3) [OF assms(1) that assms(3) f] .
    then show ?thesis using f enter by (cases out) (simp_all add: refuse_def)
  qed
  then show ?thesis
    using assms(3) enter [OF assms(3)] pre [unfolded refuse_def]
    by (auto simp: executeInLane_def refuse_def Let_def split: sum.split option.split bool.split)
qed

lemma supersede_keeps:
  "writes_keep (le_roleId lease) Q \<Longrightarrow> Q s \<Longrightarrow> Q (fst (supersede_lease lease b s))"
  by (auto simp: supersede_lease_def Let_def drop_leases_def put_leases_def writes_keepD on_lane_keeps
      split: option.splits)

lemma prepare_job_keeps:
  "writes_keep (le_roleId (snd retained)) Q \<Longrightarrow> Q s \<Longrightarrow> Q (fst (prepare_job I retained s))"
  by (auto simp: prepare_job_def refuse_def supersede_keeps split: sum.splits)

lemma confirm_job_state [simp]: "fst (confirm_job I lease s) = s"
  by (simp add: confirm_job_def Let_def refuse_def split: sum.split)

lemma destroy_job_state [simp]: "fst (destroy_job r g s) = s"
  by (simp add: destroy_job_def)

lemma resume_job_keeps:
  "writes_keep (le_roleId lease) Q \<Longrightarrow> Q s \<Longrightarrow> Q (fst (resume_job I lease d s))"
  by (auto simp: resume_job_def Let_def refuse_def drop_leases_def writes_keepD split: sum.split)

lemma retire_job_keeps:
  assumes "input_keeps I r ids Q" "writes_keep r Q" "Q s"
  shows "Q (fst (retire_job I r g s))"
proof -
  obtain s' out where c: "ci_clear I r s = (s', out)" by fastforce
  have "Q s'" using input_keepsD(2) [OF assms(1,3) c] .
  then show ?thesis
    using c assms(3) writes_keepD(2) [OF assms(2)]
    by (cases out) (simp_all add: retire_job_def refuse_def split: option.split)
qed

lemma resume_after_keeps:
  assumes "input_keeps I r ids Q" "writes_keep r Q" "Q s"
  shows "Q (fst (resume_after_job I r g s))"
proof -
  obtain s' out where c: "ci_clear I r s = (s', out)" by fastforce
  have "Q s'" using input_keepsD(2) [OF assms(1,3) c] .
  then show ?thesis
    using c assms(3) on_lane_keeps [OF assms(2)]
    by (cases out) (simp_all add: resume_after_job_def refuse_def split: option.split sum.split)
qed

lemma retire_leases_keeps: "writes_keep r Q \<Longrightarrow> Q s \<Longrightarrow> Q (retire_leases r g s)"
  by (auto simp: retire_leases_def Let_def drop_leases_def put_leases_def writes_keepD split: option.splits)

lemma surface_job_keeps:
  assumes "input_keeps I r ids Q" "writes_keep r Q" "Q s"
  shows "Q (fst (surface_job I r g reason s))"
proof -
  obtain s' out where c: "ci_clear I r s = (s', out)" by fastforce
  have "Q s'" using input_keepsD(2) [OF assms(1,3) c] .
  then show ?thesis
    using c assms(3) writes_keepD(1,2) [OF assms(2)] retire_leases_keeps [OF assms(2)]
    by (cases out) (simp_all add: surface_job_def refuse_def Let_def split: option.split)
qed

lemma run_job_keeps:
  assumes "input_keeps I (job_role (snd e)) ids Q" "writes_keep (job_role (snd e)) Q" "Q s"
  shows "Q (fst (run_job I e s))"
proof -
  have s: "Q (take_job e s)" unfolding take_job_def using writes_keepD(5) [OF assms(2,3)] .
  show ?thesis
    using assms(1,2) s
    by (cases "snd e")
      (simp_all add: run_job_def Let_def execute_keeps_job prepare_job_keeps resume_job_keeps
        retire_job_keeps resume_after_keeps surface_job_keeps)
qed

section \<open>The contracts of the ports\<close>

text \<open>While a job of \<open>r\<close> awaits, other calls may only quarantine its lane
  (\<open>supersedeControlledDocumentReplacement\<close>), and \<open>dispose\<close> waits for the job.\<close>

definition lane_kept :: "string \<Rightarrow> 'w input_coordinator \<Rightarrow> 'w input_coordinator \<Rightarrow> bool" where
  "lane_kept r s s' \<longleftrightarrow> (co_phase s' = Disposed \<longleftrightarrow> co_phase s = Disposed) \<and>
     (lane_of s' r = lane_of s r \<or>
      (\<exists>l. lane_of s r = Some l \<and> lane_of s' r = Some (l\<lparr>rl_quarantined := True\<rparr>)))"

lemma lane_kept_refl [simp]: "lane_kept r s s"
  by (simp add: lane_kept_def)

lemma lane_kept_trans: "lane_kept r s s' \<Longrightarrow> lane_kept r s' s'' \<Longrightarrow> lane_kept r s s''"
  by (cases "lane_of s r"; cases "lane_of s' r") (auto simp: lane_kept_def)

text \<open>What the native owner may have done to the keys of the page when its promise settles.\<close>

definition reply_allows :: "native_reply outcome \<Rightarrow> key_effect \<Rightarrow> string set \<Rightarrow> string set \<Rightarrow> bool" where
  "reply_allows out e h h' \<longleftrightarrow>
     (case out of
        Inr (Reply rc _) \<Rightarrow> outcome_allows (Inr rc) e h h'
      | _ \<Rightarrow> h' = h \<or> h' = apply_edge e h)"

definition native_law :: "'w coordinator_input \<Rightarrow> string \<Rightarrow> ('w \<Rightarrow> string set) \<Rightarrow> bool" where
  "native_law I r held \<longleftrightarrow>
     (\<forall>rq s s' out. req_roleId rq = r \<longrightarrow> ci_native I rq s = (s', out) \<longrightarrow>
        (case req_keyEffect rq of
           None \<Rightarrow> held (co_env s') = held (co_env s)
         | Some e \<Rightarrow> reply_allows out e (held (co_env s)) (held (co_env s'))))"

text \<open>The other ports press nothing; the preflight plans nothing.\<close>

definition quiet_law :: "'w coordinator_input \<Rightarrow> string \<Rightarrow> ('w \<Rightarrow> string set) \<Rightarrow> ('w \<Rightarrow> string set) \<Rightarrow> bool" where
  "quiet_law I r held planned \<longleftrightarrow>
     (\<forall>i s. held (co_env (fst (ci_prepare I i s))) = held (co_env s)) \<and>
     (\<forall>s. held (co_env (fst (ci_reassert I r s))) = held (co_env s)) \<and>
     (\<forall>t b s. held (co_env (fst (ci_complete I t b s))) = held (co_env s)) \<and>
     (\<forall>f b s. held (co_env (ci_record_failure I f b s)) = held (co_env s)) \<and>
     (\<forall>s. held (co_env (fst (ci_clear I r s))) = held (co_env s)) \<and>
     (\<forall>f g s. ci_preflight I = Some f \<longrightarrow> held (co_env (fst (f r g s))) = held (co_env s) \<and>
        planned (co_env (fst (f r g s))) = planned (co_env s))"

text \<open>Calls for another role leave this one alone, if they complete only their own transitions.\<close>

definition role_kept ::
  "string \<Rightarrow> ('w \<Rightarrow> string set) \<Rightarrow> ('w \<Rightarrow> string set) \<Rightarrow> 'w input_coordinator \<Rightarrow> 'w input_coordinator \<Rightarrow> bool" where
  "role_kept r held planned s s' \<longleftrightarrow> lane_kept r s s' \<and> held (co_env s') = held (co_env s) \<and>
     planned (co_env s') = planned (co_env s)"

locale trusted_ports =
  fixes I :: "'w coordinator_input"
    and r :: string
    and ok :: "'w \<Rightarrow> bool"
    and held planned :: "'w \<Rightarrow> string set"
    and pend :: "'w \<Rightarrow> string \<Rightarrow> string set option"
    and ids :: "string \<Rightarrow> string set"
  assumes native: "native_law I r held"
    and quiet: "quiet_law I r held planned"
    and core: "plans_keys (seq_ports I) r (\<lambda>s. ok (co_env s)) (\<lambda>s. planned (co_env s))
                 (\<lambda>s. pend (co_env s))"
    and keeps_ok: "input_keeps I q UNIV (\<lambda>s. ok (co_env s))"
    and awaits: "input_keeps I r UNIV (lane_kept r s0)"
    and others: "q \<noteq> r \<Longrightarrow> input_keeps I q (ids q) (\<lambda>s. ok (co_env s) \<and> role_kept r held planned s0 s)"

section \<open>What a lane knows\<close>

text \<open>Every held key is recorded by the lane, and is planned by Core or uncertain; a lane out of
  quarantine is certain, and a lane that holds nothing has no held codes.\<close>

definition knows :: "role_lane \<Rightarrow> string set \<Rightarrow> string set \<Rightarrow> bool" where
  "knows l h p \<longleftrightarrow>
     h \<subseteq> set (rl_heldKeyCodes l) \<union> set (rl_uncertainKeyCodes l) \<and>
     h \<subseteq> p \<union> set (rl_uncertainKeyCodes l) \<and>
     (\<not> rl_quarantined l \<longrightarrow> certain l) \<and> (\<not> rl_hasHeldKeys l \<longrightarrow> rl_heldKeyCodes l = [])"

definition lane_knows ::
  "string \<Rightarrow> ('w \<Rightarrow> string set) \<Rightarrow> ('w \<Rightarrow> string set) \<Rightarrow> 'w input_coordinator \<Rightarrow> bool" where
  "lane_knows r held planned s \<longleftrightarrow>
     (case lane_of s r of
        None \<Rightarrow> held (co_env s) = {}
      | Some l \<Rightarrow> knows l (held (co_env s)) (planned (co_env s)))"

lemma knows_quarantined: "knows l h p \<Longrightarrow> knows (l\<lparr>rl_quarantined := True\<rparr>) h p"
  by (simp add: knows_def)

lemma knows_fewer: "knows l h p \<Longrightarrow> h' \<subseteq> h \<Longrightarrow> knows l h' p"
  by (auto simp: knows_def)

text \<open>A lane out of quarantine that holds nothing, and a certain lane without held codes, know that no
  key is held.\<close>

lemma knows_nothing: "knows l h p \<Longrightarrow> \<not> rl_quarantined l \<Longrightarrow> \<not> rl_hasHeldKeys l \<Longrightarrow> h = {}"
  "knows l h p \<Longrightarrow> certain l \<Longrightarrow> \<not> rl_hasHeldKeys l \<Longrightarrow> h = {}"
  by (auto simp: knows_def certain_def)

lemma fold_edges_uncertain:
  assumes "h \<subseteq> p \<union> U"
  shows "fold apply_edge es h \<subseteq>
    fold apply_edge es p \<union> {c \<in> U. \<not> list_ex (\<lambda>e. phase e = KeyUp \<and> code e = c) es}"
  using assms
proof (induction es arbitrary: h p U)
  case (Cons e es)
  show ?case
  proof (cases "phase e")
    case KeyUp
    then have "apply_edge e h \<subseteq> apply_edge e p \<union> (U - {code e})"
      using Cons.prems by (auto simp: apply_edge_def)
    from Cons.IH [OF this] KeyUp show ?thesis by auto
  next
    case RawKeyDown
    then have "apply_edge e h \<subseteq> apply_edge e p \<union> U"
      using Cons.prems by (auto simp: apply_edge_def)
    from Cons.IH [OF this] RawKeyDown show ?thesis by auto
  qed
qed simp

lemma completed_knows:
  assumes "knows l h p" and "plan_ok p tr"
    and "ex_hasHeldKeys x = hasHeldKeys tr" and "ex_confirmedEffects x = effects tr"
    and "ex_activeCodes x = (if effects tr = [] then [] else activeCodes (last (effects tr)))"
  shows "knows (completed_lane x l) (fold apply_edge (effects tr) h) (fold apply_edge (effects tr) p)"
proof -
  let ?es = "effects tr" let ?l = "completed_lane x l"
  have up: "fold apply_edge ?es h \<subseteq> fold apply_edge ?es p \<union> set (rl_uncertainKeyCodes ?l)"
    using fold_edges_uncertain [of h p "set (rl_uncertainKeyCodes l)" ?es] assms(1,4)
    by (auto simp: knows_def completed_lane_def)
  have active: "set (ex_activeCodes x) = fold apply_edge ?es p" if "?es \<noteq> []"
    using effect_chain_last [of p ?es] assms(2,5) that by (simp add: plan_ok_def)
  have left: "hasHeldKeys tr \<longleftrightarrow> fold apply_edge ?es p \<noteq> {}" using assms(2) by (simp add: plan_ok_def)
  have held: "fold apply_edge ?es h \<subseteq> set (rl_heldKeyCodes ?l) \<union> set (rl_uncertainKeyCodes ?l)"
  proof (cases "?es = []")
    case True
    then show ?thesis using assms(1,3,4,5) left up by (auto simp: knows_def completed_lane_def)
  next
    case False
    then show ?thesis using up active assms(4) by (simp add: completed_lane_def)
  qed
  have none: "rl_heldKeyCodes ?l = []" if "\<not> rl_hasHeldKeys ?l"
  proof -
    have "\<not> hasHeldKeys tr" using that assms(3) by (simp add: completed_lane_def)
    then have "set (ex_activeCodes x) = {}" using left active assms(5) by (cases "?es = []") auto
    then have "ex_activeCodes x = []" by (simp only: set_empty)
    then show ?thesis using \<open>\<not> hasHeldKeys tr\<close> assms(3) by (simp add: completed_lane_def js_set_of_def)
  qed
  show ?thesis
    using up held none assms(1) by (auto simp: knows_def certain_def completed_lane_def)
qed

lemma pressed_edges_set: "set (pressed_edges f) = left_behind f"
  by (auto simp: pressed_edges_def left_behind_def image_iff)

text \<open>After a failure everything held is uncertain, unless nothing was dispatched.\<close>

definition doubted_lane :: "action_request \<Rightarrow> sequence_failure \<Rightarrow> role_lane \<Rightarrow> role_lane" where
  "doubted_lane a f l0 =
     (let l1 = l0\<lparr>rl_quarantined := rl_quarantined l0 \<or> sf_quarantine f\<rparr>;
          l2 = (if sf_quarantine f
                then l1\<lparr>rl_recoveryParentRequestId :=
                          (case rl_recoveryParentRequestId l1 of None \<Rightarrow> Some (requestId a) | x \<Rightarrow> x),
                        rl_uncertainKeyCodes :=
                          fold js_add (rl_heldKeyCodes l1 @ pressed_edges f @ key_code_of (action a))
                            (rl_uncertainKeyCodes l1)\<rparr>
                else l1)
      in l2\<lparr>rl_uncertainKeyCodes :=
              filter (\<lambda>c. c \<notin> set (sf_confirmedReleaseCodes f)) (rl_uncertainKeyCodes l2)\<rparr>)"

lemma failed_lane_doubted:
  "failed_lane a f l =
     (let d = doubted_lane a f l in
      if sf_confirmedInputNeutrality f \<and> certain d
      then d\<lparr>rl_hasHeldKeys := False, rl_heldKeyCodes := [], rl_uncertainKeyCodes := []\<rparr> else d)"
  by (simp add: failed_lane_def doubted_lane_def Let_def)

lemma doubted_simps:
  "rl_quarantined (doubted_lane a f l) = (rl_quarantined l \<or> sf_quarantine f)"
  "rl_hasHeldKeys (doubted_lane a f l) = rl_hasHeldKeys l"
  "rl_heldKeyCodes (doubted_lane a f l) = rl_heldKeyCodes l"
  "rl_uncertainPointer (doubted_lane a f l) = rl_uncertainPointer l"
  "set (rl_uncertainKeyCodes (doubted_lane a f l)) =
     (if sf_quarantine f
      then set (rl_heldKeyCodes l) \<union> left_behind f \<union> set (key_code_of (action a)) \<union>
             set (rl_uncertainKeyCodes l)
      else set (rl_uncertainKeyCodes l)) - set (sf_confirmedReleaseCodes f)"
  by (auto simp: doubted_lane_def Let_def set_fold_js_add pressed_edges_set)

lemma failed_knows:
  assumes k: "knows l h p"
    and h': "h' \<subseteq> h \<union> left_behind f" "set (sf_confirmedReleaseCodes f) \<inter> h' = {}"
    and calm: "\<not> sf_quarantine f \<Longrightarrow> \<not> sf_confirmedInputNeutrality f \<Longrightarrow>
                 h' = h \<and> p' = p \<and> sf_confirmedReleaseCodes f = []"
    and neutral: "sf_confirmedInputNeutrality f \<Longrightarrow> h' \<subseteq> h \<and> p = {}"
  shows "knows (failed_lane a f l) h' p'"
    and "sf_confirmedInputNeutrality f \<Longrightarrow> certain (failed_lane a f l) \<Longrightarrow> h' = {}"
proof -
  let ?d = "doubted_lane a f l" let ?U = "set (rl_uncertainKeyCodes (doubted_lane a f l))"
  have doubted: "h' \<subseteq> ?U" if "sf_quarantine f \<or> sf_confirmedInputNeutrality f"
    using that k h' neutral by (auto simp: knows_def doubted_simps)
  have certain: "certain ?d" if "\<not> rl_quarantined ?d"
  proof -
    from that have "\<not> rl_quarantined l" by (simp add: doubted_simps)
    with k have "certain l" by (simp add: knows_def)
    moreover from that have "?U = {}"
      using \<open>certain l\<close> by (simp add: doubted_simps certain_def)
    then have "rl_uncertainKeyCodes ?d = []" by (simp only: set_empty)
    ultimately show ?thesis by (simp add: certain_def doubted_simps)
  qed
  have d: "knows ?d h' p'"
  proof (cases "sf_quarantine f \<or> sf_confirmedInputNeutrality f")
    case True
    then show ?thesis using doubted certain k by (auto simp: knows_def doubted_simps(2,3))
  next
    case False
    then show ?thesis using calm certain k by (auto simp: knows_def doubted_simps(1-4)) (auto simp: doubted_simps)
  qed
  have none: "h' = {}" if "sf_confirmedInputNeutrality f" "certain ?d"
    using doubted that by (simp add: certain_def)
  show "knows (failed_lane a f l) h' p'"
    using d none by (simp add: failed_lane_doubted Let_def) (simp add: knows_def certain_def)
  have "certain (failed_lane a f l) \<Longrightarrow> sf_confirmedInputNeutrality f \<Longrightarrow> certain ?d"
    by (cases "certain ?d") (simp_all add: failed_lane_doubted)
  then show "sf_confirmedInputNeutrality f \<Longrightarrow> certain (failed_lane a f l) \<Longrightarrow> h' = {}"
    using none by blast
qed

definition recorded :: "role_lane \<Rightarrow> string set" where
  "recorded l = set (rl_heldKeyCodes l) \<union> set (rl_uncertainKeyCodes l)"

lemma set_insert_by [simp]: "set (insert_by cmp x ys) = insert x (set ys)"
  by (induction ys) auto

lemma set_sort_by [simp]: "set (sort_by cmp xs) = set xs"
proof -
  have "set (fold (insert_by cmp) xs ys) = set xs \<union> set ys" for ys
    by (induction xs arbitrary: ys) auto
  then show ?thesis by (simp add: sort_by_def)
qed

lemma neutralize_codes_recorded: "set (neutralize_codes I l) = recorded l"
  by (simp add: neutralize_codes_def recorded_def)

section \<open>Jobs of the role\<close>

context trusted_ports begin

lemma tracks: "tracks_held (seq_ports I) r (\<lambda>s. held (co_env s))"
proof -
  have "outcome_allows out e (held (co_env s)) (held (co_env s'))"
    if d: "dispatchNative I rq s = (s', out)" and rq: "req_roleId rq = r" "req_keyEffect rq = Some e"
    for rq s s' out e
  proof -
    obtain raw where n: "ci_native I rq s = (s', raw)"
      using d by (auto simp: dispatchNative_def Let_def split: prod.splits sum.splits)
    have a: "reply_allows raw e (held (co_env s)) (held (co_env s'))"
      using native n rq by (fastforce simp: native_law_def)
    have either: "held (co_env s') = held (co_env s) \<or> held (co_env s') = apply_edge e (held (co_env s))"
      using a by (auto simp: reply_allows_def outcome_allows_def
          split: sum.splits native_reply.splits receipt_status.splits)
    show ?thesis
    proof (cases out)
      case (Inl e')
      then show ?thesis using either by (simp add: outcome_allows_def)
    next
      case (Inr rc)
      then obtain m where "raw = Inr (Reply rc m)"
        using d n by (auto simp: dispatchNative_def Let_def split: sum.splits native_reply.splits if_splits)
      then show ?thesis using a Inr by (simp add: reply_allows_def)
    qed
  qed
  then show ?thesis
    using quiet by (simp add: tracks_held_def seq_ports_def quiet_law_def)
qed

text \<open>A dispatch for the role.\<close>

lemma sent:
  assumes "dispatchNative I rq s = (s', out)" "req_roleId rq = r" "ok (co_env s)"
  shows "ok (co_env s')" and "planned (co_env s') = planned (co_env s)" and "lane_kept r s s'"
    and "req_keyEffect rq = None \<Longrightarrow> held (co_env s') = held (co_env s)"
    and "req_keyEffect rq = Some e \<Longrightarrow>
      outcome_allows out e (held (co_env s)) (held (co_env s'))"
proof -
  show "ok (co_env s')" using input_keepsD(4) [OF keeps_ok assms(2,3,1)] .
  show "lane_kept r s s'" using input_keepsD(4) [OF awaits assms(2) _ assms(1), of s] by simp
  show "planned (co_env s') = planned (co_env s)"
    using sends_keepD(1) [OF plans_keysD(5) [OF core, of "planned (co_env s)" "pend (co_env s)"],
        of rq s s' out] assms by (simp add: seq_ports_def)
  show "held (co_env s') = held (co_env s)" if "req_keyEffect rq = None"
    using assms that native
    by (fastforce simp: dispatchNative_def native_law_def Let_def split: prod.splits sum.splits)
  show "outcome_allows out e (held (co_env s)) (held (co_env s'))" if "req_keyEffect rq = Some e"
    using tracks_heldD(1) [OF tracks assms(2) that, of s s' out] assms(1) by (simp add: seq_ports_def)
qed

lemma kept_lane:
  assumes "lane_kept r s s'" "lane_of s r = Some l" "knows l h p"
  obtains l' where "lane_of s' r = Some l'" "knows l' h p" "l' = l \<or> l' = l\<lparr>rl_quarantined := True\<rparr>"
  using assms knows_quarantined [OF assms(3)] by (auto simp: lane_kept_def)

lemma lane_of_put [simp]: "lane_of (put_lane q l s) q' = (if q' = q then Some l else lane_of s q')"
  by (simp add: lane_of_def put_lane_def)

lemma env_put [simp]: "co_env (put_lane q l s) = co_env s"
  by (simp add: put_lane_def)

lemma key_action_job:
  assumes a: "roleId a = r" and l: "lane_of s r = Some l"
    and k: "knows l (held (co_env s)) (planned (co_env s))" and ok: "ok (co_env s)"
    and run: "run_key_action I a g s = (s', ans, pf)"
  shows "lane_knows r held planned s'"
    and "pf = Some x \<Longrightarrow> held (co_env s') = {} \<and> (\<exists>l'. lane_of s' r = Some l' \<and> certain l')"
proof -
  obtain s1 out where e: "executeChromiumTrustedKeySequence (seq_ports I) a g (ci_platform I) s = (s1, out)"
    by fastforce
  have "lane_kept r s s1"
    using execute_keeps [OF e, of UNIV "lane_kept r s"] input_keepsD(1) [OF awaits] a by simp
  then obtain l1 where l1: "lane_of s1 r = Some l1" "knows l1 (held (co_env s)) (planned (co_env s))"
    using kept_lane l k by blast
  note ex = tracks [folded a] core [folded a] ok
  have "lane_knows r held planned s' \<and>
    (pf \<noteq> None \<longrightarrow> held (co_env s') = {} \<and> (\<exists>l'. lane_of s' r = Some l' \<and> certain l'))"
  proof (cases out)
    case (Completed x)
    obtain tr where tr: "plan_ok (planned (co_env s)) tr"
      "held (co_env s1) = fold apply_edge (effects tr) (held (co_env s))"
      "planned (co_env s1) = fold apply_edge (effects tr) (planned (co_env s))"
      "ex_hasHeldKeys x = hasHeldKeys tr" "ex_confirmedEffects x = effects tr"
      "ex_activeCodes x = (if effects tr = [] then [] else activeCodes (last (effects tr)))"
      "rec_confirmedNeutrality (ex_receipt x) = (\<not> hasHeldKeys tr)"
      by (rule execute_completed [OF e [unfolded Completed] ex])
    let ?l = "completed_lane x l1"
    have k1: "knows ?l (held (co_env s1)) (planned (co_env s1))"
      using completed_knows [OF l1(2) tr(1,4,5,6)] tr(2,3) by simp
    have none: "held (co_env s1) = {}" if "rec_confirmedNeutrality (ex_receipt x)" "certain ?l"
      using knows_nothing(2) [OF k1 that(2)] that(1) tr(4,7) by (simp add: completed_lane_def)
    have run': "key_completed a g x s1 = (s', ans, pf)"
      using run e Completed by (simp add: run_key_action_def)
    have "lane_of s' r = Some ?l \<or>
        (lane_of s' r = Some (recovered_lane ?l) \<and> rec_confirmedNeutrality (ex_receipt x) \<and> certain ?l)"
      "co_env s' = co_env s1"
      "pf \<noteq> None \<longrightarrow> rec_confirmedNeutrality (ex_receipt x) \<and> certain ?l"
      using run' l1(1) a by (auto simp: key_completed_def refuse_def Let_def split: if_splits)
    moreover have "certain (recovered_lane ?l) = certain ?l"
      by (simp add: recovered_lane_def certain_def)
    moreover have "knows (recovered_lane ?l) (held (co_env s1)) (planned (co_env s1))" if "certain ?l"
      using k1 that by (auto simp: knows_def recovered_lane_def certain_def)
    ultimately show ?thesis using k1 none by (auto simp: lane_knows_def)
  next
    case (Thrown f)
    note t = e [unfolded Thrown]
    let ?l = "failed_lane a f l1"
    have calm: "\<not> sf_quarantine f \<Longrightarrow> \<not> sf_confirmedInputNeutrality f \<Longrightarrow>
       held (co_env s1) = held (co_env s) \<and> planned (co_env s1) = planned (co_env s) \<and>
       sf_confirmedReleaseCodes f = []"
      using execute_thrown_calm [OF t ex] by simp
    have neutral: "sf_confirmedInputNeutrality f \<Longrightarrow>
        held (co_env s1) \<subseteq> held (co_env s) \<and> planned (co_env s) = {}"
      using execute_thrown_neutral [OF t ex] by simp
    note fk = failed_knows [OF l1(2) execute_thrown_bound [OF t ex] calm neutral, of a]
    have "lane_of s' r = Some ?l" "co_env s' = co_env s1"
      "pf \<noteq> None \<longrightarrow> sf_confirmedInputNeutrality f \<and> certain ?l"
      using run e Thrown l1(1) a by (auto simp: run_key_action_def key_thrown_def Let_def split: if_splits)
    then show ?thesis using fk by (auto simp: lane_knows_def)
  next
    case (Rethrown x)
    have "s' = s1" "pf = None" using run e Rethrown by (simp_all add: run_key_action_def refuse_def)
    then show ?thesis
      using execute_rethrown [OF e [unfolded Rethrown] ex] l1 by (simp add: lane_knows_def)
  qed
  then show "lane_knows r held planned s'"
    and "pf = Some x \<Longrightarrow> held (co_env s') = {} \<and> (\<exists>l'. lane_of s' r = Some l' \<and> certain l')"
    by auto
qed

lemma lane_knows_put:
  "knows l (held (co_env s)) (planned (co_env s)) \<Longrightarrow> lane_knows r held planned (put_lane r l s)"
  by (simp add: lane_knows_def)

lemma on_lane_Some: "lane_of s q = Some l \<Longrightarrow> on_lane q f s = put_lane q (f l) s"
  by (simp add: on_lane_def)

lemma knows_click: "knows l h p \<Longrightarrow> knows (uncertain_click act l) h p"
  by (auto simp: knows_def uncertain_click_def Let_def split: browser_action.split)

lemma applied_neutrality:
  assumes "dispatchNative I rq s = (s', Inr rc)" and "rec_status rc = Applied"
  shows "rec_confirmedNeutrality rc = req_neutralAfter rq"
  using assms
  by (auto simp: dispatchNative_def receiptMatches_def Let_def
      split: prod.splits sum.splits native_reply.splits if_splits)

lemma plain_action:
  assumes a: "roleId a = r" and l: "lane_of s r = Some l"
    and k: "knows l (held (co_env s)) (planned (co_env s))" and ok: "ok (co_env s)"
    and run: "run_plain_action I a g s = (s', ans, pf)"
  shows "lane_knows r held planned s'"
    and "pf = Some x \<Longrightarrow> held (co_env s') = {} \<and> (\<exists>l'. lane_of s' r = Some l' \<and> certain l')"
proof -
  let ?rq = "plain_request a g (\<not> rl_hasHeldKeys l)"
  obtain s1 out where d: "dispatchNative I ?rq s = (s1, out)" by fastforce
  have rq: "req_roleId ?rq = r" "req_keyEffect ?rq = None" "req_neutralAfter ?rq = (\<not> rl_hasHeldKeys l)"
    using a by (simp_all add: plain_request_def)
  note sent = sent [OF d rq(1) ok]
  obtain l1 where l1: "lane_of s1 r = Some l1" "knows l1 (held (co_env s)) (planned (co_env s))"
    "l1 = l \<or> l1 = l\<lparr>rl_quarantined := True\<rparr>"
    using kept_lane [OF sent(3) l k] by blast
  have k1: "knows l1 (held (co_env s1)) (planned (co_env s1))" using l1(2) sent(2,4) rq(2) by simp
  note click = knows_click [OF k1, of "action a"]
  have "lane_knows r held planned s' \<and>
    (pf \<noteq> None \<longrightarrow> held (co_env s') = {} \<and> (\<exists>l'. lane_of s' r = Some l' \<and> certain l'))"
  proof (cases "\<exists>rc. out = Inr rc \<and> rec_status rc = Applied")
    case True
    then obtain rc where rc: "out = Inr rc" "rec_status rc = Applied" by blast
    then have run': "plain_applied a g rc s1 = (s', ans, pf)"
      using run d l a by (simp add: run_plain_action_def)
    have n: "rec_confirmedNeutrality rc \<longleftrightarrow> \<not> rl_hasHeldKeys l1"
      using applied_neutrality [OF d [unfolded rc(1)] rc(2)] rq(3) l1(3) by auto
    have none: "held (co_env s1) = {}" if "rec_confirmedNeutrality rc" "certain l1"
      using knows_nothing(2) [OF k1 that(2)] n that(1) by simp
    have "s' = s1 \<and> pf = None \<or> (s' = put_lane r (recovered_lane l1) s1 \<and>
        rec_confirmedNeutrality rc \<and> certain l1)"
      using run' l1(1) a by (auto simp: plain_applied_def refuse_def split: if_splits)
    moreover have "certain (recovered_lane l1) = certain l1"
      "knows (recovered_lane l1) (held (co_env s1)) (planned (co_env s1))" if "certain l1"
      using k1 that by (auto simp: knows_def recovered_lane_def certain_def)
    ultimately show ?thesis using k1 l1(1) none by (auto simp: lane_knows_def)
  next
    case False
    then have "pf = None \<and> (s' = s1 \<or> s' = put_lane r (uncertain_click (action a) l1) s1)"
      using run d l l1(1) a
      by (auto simp: run_plain_action_def refuse_def on_lane_Some split: sum.splits if_splits)
    then show ?thesis using k1 click l1(1) by (auto simp: lane_knows_def)
  qed
  then show "lane_knows r held planned s'"
    and "pf = Some x \<Longrightarrow> held (co_env s') = {} \<and> (\<exists>l'. lane_of s' r = Some l' \<and> certain l')"
    by auto
qed

subsection \<open>Neutralization\<close>

lemma knows_released:
  assumes "knows l h p" and "h' \<subseteq> h - {c}"
  shows "knows (released_lane c l) h' p"
  using assms by (auto simp: knows_def released_lane_def Let_def certain_def)

lemma released_sets:
  "set (rl_heldKeyCodes (released_lane c l)) = set (rl_heldKeyCodes l) - {c}"
  "set (rl_uncertainKeyCodes (released_lane c l)) = set (rl_uncertainKeyCodes l) - {c}"
  by (auto simp: released_lane_def Let_def)

lemma release_loop:
  assumes "release_codes I a g n cs active s = (s', out)" and a: "roleId a = r"
    and "lane_of s r = Some l" "knows l (held (co_env s)) (planned (co_env s))" "ok (co_env s)"
  shows "\<exists>l'. lane_of s' r = Some l' \<and> knows l' (held (co_env s')) (planned (co_env s')) \<and>
    ok (co_env s') \<and> (out = Inr () \<longrightarrow> recorded l' \<subseteq> recorded l - set cs)"
  using assms(1,3-)
proof (induction cs arbitrary: n active s l)
  case Nil
  then show ?case by simp
next
  case (Cons c cs)
  let ?rq = "release_request a g n c active l"
  obtain s1 o1 where d: "dispatchNative I ?rq s = (s1, o1)" by fastforce
  have rq: "req_roleId ?rq = r" using a by simp
  obtain e where e: "req_keyEffect ?rq = Some e" "phase e = KeyUp" "code e = c"
    by (simp add: release_request_def Let_def)
  note sent = sent [OF d rq Cons.prems(4)]
  note up = outcome_up [OF sent(5) [OF e(1)] e(2)]
  obtain l1 where l1: "lane_of s1 r = Some l1" "knows l1 (held (co_env s)) (planned (co_env s))"
    "l1 = l \<or> l1 = l\<lparr>rl_quarantined := True\<rparr>"
    using kept_lane [OF sent(3) Cons.prems(2,3)] by blast
  have k1: "knows l1 (held (co_env s1)) (planned (co_env s1))"
    using knows_fewer [OF l1(2) up(1)] sent(2) by simp
  show ?case
  proof (cases "\<exists>rc. o1 = Inr rc \<and> rec_status rc = Applied")
    case True
    then obtain rc where rc: "o1 = Inr rc" "rec_status rc = Applied" by blast
    let ?s = "put_lane r (released_lane c l1) s1"
    have "held (co_env s1) \<subseteq> held (co_env s) - {c}" using up(2) [OF rc] e(3) by simp
    then have k2: "knows (released_lane c l1) (held (co_env ?s)) (planned (co_env ?s))"
      using knows_released [OF l1(2)] sent(2) by simp
    have "release_codes I a g (n + 1) cs (filter (\<lambda>x. x \<noteq> c) active) ?s = (s', out)"
      using Cons.prems(1,2) d rc a l1(1) by (simp add: on_lane_Some)
    then obtain l' where l': "lane_of s' r = Some l'" "knows l' (held (co_env s')) (planned (co_env s'))"
      "ok (co_env s')" "out = Inr () \<longrightarrow> recorded l' \<subseteq> recorded (released_lane c l1) - set cs"
      using Cons.IH [of "n + 1" _ ?s "released_lane c l1"] k2 sent(1) by auto
    have "recorded (released_lane c l1) = recorded l - {c}"
      using l1(3) by (auto simp: recorded_def released_sets)
    then show ?thesis using l' by auto
  next
    case False
    then have "s' = s1" "out \<noteq> Inr ()"
      using Cons.prems(1,2) d a by (auto split: sum.splits if_splits)
    then show ?thesis using l1(1) k1 sent(1) by auto
  qed
qed

lemma pointer_release:
  assumes "release_pointer I a g s = (s', out)" and a: "roleId a = r"
    and l: "lane_of s r = Some l" and k: "knows l (held (co_env s)) (planned (co_env s))"
    and ok: "ok (co_env s)"
  shows "\<exists>l'. lane_of s' r = Some l' \<and> knows l' (held (co_env s')) (planned (co_env s')) \<and>
    ok (co_env s') \<and> recorded l' = recorded l"
proof (cases "rl_uncertainPointer l")
  case None
  then show ?thesis using assms by (simp add: release_pointer_def)
next
  case (Some c)
  let ?rq = "pointer_request a g c"
  obtain s1 o1 where d: "dispatchNative I ?rq s = (s1, o1)" by fastforce
  have rq: "req_roleId ?rq = r" "req_keyEffect ?rq = None" using a by (simp_all add: pointer_request_def)
  note sent = sent [OF d rq(1) ok]
  obtain l1 where l1: "lane_of s1 r = Some l1" "knows l1 (held (co_env s)) (planned (co_env s))"
    "l1 = l \<or> l1 = l\<lparr>rl_quarantined := True\<rparr>"
    using kept_lane [OF sent(3) l k] by blast
  have k1: "knows l1 (held (co_env s1)) (planned (co_env s1))" using l1(2) sent(2,4) rq(2) by simp
  have "recorded l1 = recorded l" using l1(3) by (auto simp: recorded_def)
  moreover have "s' = s1 \<or> s' = put_lane r (l1\<lparr>rl_uncertainPointer := None\<rparr>) s1"
    using assms(1) d l Some a l1(1)
    by (auto simp: release_pointer_def on_lane_Some split: sum.splits if_splits)
  moreover have "knows (l1\<lparr>rl_uncertainPointer := None\<rparr>) (held (co_env s1)) (planned (co_env s1))"
    using k1 by (auto simp: knows_def certain_def)
  ultimately show ?thesis using l1(1) k1 sent(1) by (auto simp: recorded_def)
qed

lemma cleared:
  assumes "ci_clear I r s = (s', out)" and "ok (co_env s)"
  shows "held (co_env s') = held (co_env s)" and "lane_kept r s s'" and "ok (co_env s')"
proof -
  show "held (co_env s') = held (co_env s)" using quiet assms(1) by (metis fst_conv quiet_law_def)
  show "lane_kept r s s'" using input_keepsD(2) [OF awaits _ assms(1), of s] by simp
  show "ok (co_env s')" using input_keepsD(2) [OF keeps_ok assms(2,1)] .
qed

lemma neutralize:
  assumes a: "roleId a = r" and l: "lane_of s r = Some l"
    and k: "knows l (held (co_env s)) (planned (co_env s))" and ok: "ok (co_env s)"
    and run: "neutralizeInLane I a g s = (s', ans, pf)"
  shows "lane_knows r held planned s'" and "pf = None"
    and "ans = Receipt rc \<Longrightarrow> held (co_env s') = {}"
proof -
  let ?cs = "neutralize_codes I l"
  obtain s0 out where t: "try_neutralize I a g s = (s0, out)" by fastforce
  obtain s1 o1 where 1: "release_codes I a g 0 ?cs ?cs s = (s1, o1)" by fastforce
  obtain l1 where l1: "lane_of s1 r = Some l1" "knows l1 (held (co_env s1)) (planned (co_env s1))"
    "ok (co_env s1)" "o1 = Inr () \<longrightarrow> recorded l1 = {}"
    using release_loop [OF 1 a l k ok] neutralize_codes_recorded [of I l] by auto
  obtain s2 o2 where 2: "release_pointer I a g s1 = (s2, o2)" by fastforce
  obtain l2 where l2: "lane_of s2 r = Some l2" "knows l2 (held (co_env s2)) (planned (co_env s2))"
    "ok (co_env s2)" "recorded l2 = recorded l1"
    using pointer_release [OF 2 a l1(1-3)] by auto
  obtain s3 o3 where 3: "ci_clear I r s2 = (s3, o3)" by fastforce
  note c = cleared [OF 3 l2(3)]
  have none: "held (co_env s3) = {}" if "o1 = Inr ()"
    using that l1(4) l2(2,4) c(1) by (simp add: knows_def recorded_def)
  obtain l3 where l3: "lane_of s3 r = Some l3" "knows l3 (held (co_env s2)) (planned (co_env s2))"
    "l3 = l2 \<or> l3 = l2\<lparr>rl_quarantined := True\<rparr>"
    using kept_lane [OF c(2) l2(1,2)] by blast
  have k3: "knows l3 (held (co_env s3)) (planned (co_env s3))" if "o1 = Inr ()"
    using l3(2) none [OF that] by (simp add: knows_def)
  have cases: "(\<exists>e. out = Inl e) \<and> (s0 = s1 \<or> (s0 = s2 \<and> o1 = Inr ())) \<or> s0 = s3 \<and> o1 = Inr ()"
    using t 1 2 3 a l by (auto simp: try_neutralize_def Let_def split: sum.splits)
  have q: "lane_knows r held planned (on_lane r (\<lambda>l. l\<lparr>rl_quarantined := True\<rparr>) s0)"
    using cases l1 l2 l3 k3 knows_quarantined
    by (auto simp: on_lane_Some lane_knows_def)
  have n: "knows (neutral_lane (inputEpoch a) l3) (held (co_env s3)) (planned (co_env s3))"
    if "o1 = Inr ()"
    using none [OF that] by (simp add: knows_def neutral_lane_def certain_def)
  show "lane_knows r held planned s'"
    using run t cases q n l3(1) a
    by (cases out) (auto simp: neutralizeInLane_def refuse_def on_lane_Some lane_knows_def)
  show "pf = None" using run t by (cases out) (auto simp: neutralizeInLane_def refuse_def)
  show "held (co_env s') = {}" if "ans = Receipt rc"
    using run t cases none l3(1) a that
    by (cases out) (auto simp: neutralizeInLane_def refuse_def on_lane_Some)
qed

subsection \<open>Entering the lane\<close>

lemma dispatched_job:
  assumes a: "roleId a = r" and l: "lane_of s r = Some l"
    and k: "knows l (held (co_env s)) (planned (co_env s))" and ok: "ok (co_env s)"
    and run: "dispatch_action I a g s = (s', ans, pf)"
  shows "lane_knows r held planned s'"
    and "pf = Some x \<Longrightarrow> held (co_env s') = {} \<and> (\<exists>l'. lane_of s' r = Some l' \<and> certain l')"
    and "action a = NeutralizeInput \<Longrightarrow> ans = Receipt rc \<Longrightarrow> held (co_env s') = {}"
proof -
  have refused: "lane_knows r held planned s" using l k by (simp add: lane_knows_def)
  have "lane_knows r held planned s' \<and>
    (pf \<noteq> None \<longrightarrow> held (co_env s') = {} \<and> (\<exists>l'. lane_of s' r = Some l' \<and> certain l')) \<and>
    (action a = NeutralizeInput \<longrightarrow> ans = Receipt rc \<longrightarrow> held (co_env s') = {})"
  proof (cases "action a")
    case Focus
    then show ?thesis using plain_action [OF a l k ok] run by (auto simp: dispatch_action_def)
  next
    case (KeyAction y)
    then show ?thesis using key_action_job [OF a l k ok] run by (auto simp: dispatch_action_def)
  next
    case ReassertHeldKeys
    then show ?thesis using key_action_job [OF a l k ok] run by (auto simp: dispatch_action_def)
  next
    case NeutralizeInput
    show ?thesis
    proof (cases "request_intent a = Cleanup")
      case True
      then have "neutralizeInLane I a g s = (s', ans, pf)"
        using run NeutralizeInput by (simp add: dispatch_action_def)
      then show ?thesis using neutralize [OF a l k ok] by auto
    next
      case False
      then show ?thesis using refused run NeutralizeInput by (auto simp: dispatch_action_def refuse_def)
    qed
  next
    case (Click y)
    then show ?thesis using plain_action [OF a l k ok] run by (auto simp: dispatch_action_def)
  qed
  then show "lane_knows r held planned s'"
    and "pf = Some x \<Longrightarrow> held (co_env s') = {} \<and> (\<exists>l'. lane_of s' r = Some l' \<and> certain l')"
    and "action a = NeutralizeInput \<Longrightarrow> ans = Receipt rc \<Longrightarrow> held (co_env s') = {}"
    by auto
qed

lemma enter:
  assumes a: "roleId a = r" and k: "lane_knows r held planned s" and ok: "ok (co_env s)"
    and run: "enter_lane I a sf s = (s', ans, pf)"
  shows "lane_knows r held planned s'"
    and "pf = Some x \<Longrightarrow> held (co_env s') = {} \<and> (\<exists>l'. lane_of s' r = Some l' \<and> certain l')"
    and "action a = NeutralizeInput \<Longrightarrow> ans = Receipt rc \<Longrightarrow> held (co_env s') = {}"
proof -
  let ?l = "case lane_of s r of Some l \<Rightarrow> l
    | None \<Rightarrow> fresh_lane (si_documentInstanceId sf) 0 (si_surfaceGeneration sf)"
  have kl: "knows ?l (held (co_env s)) (planned (co_env s))"
    using k by (auto simp: lane_knows_def knows_def fresh_lane_def certain_def split: option.split)
  have same: "knows (?l\<lparr>rl_inputEpoch := n\<rparr>) h p = knows ?l h p"
    "knows (?l\<lparr>rl_inputEpoch := n, rl_documentInstanceId := d\<rparr>) h p = knows ?l h p" for n d h p
    by (simp_all add: knows_def certain_def)
  define l where "l = ?l"
  note kl = kl [folded l_def] and same = same [folded l_def]
  let ?P = "\<lambda>t b c. lane_knows r held planned t \<and>
    (c \<noteq> None \<longrightarrow> held (co_env t) = {} \<and> (\<exists>l'. lane_of t r = Some l' \<and> certain l')) \<and>
    (action a = NeutralizeInput \<longrightarrow> b = Receipt rc \<longrightarrow> held (co_env t) = {})"
  have stop: "?P t b c"
    if "(t, b, c) = refuse e u" "lane_of u r = Some l'" "knows l' (held (co_env u)) (planned (co_env u))"
    for t b c e u l'
    using that by (simp add: refuse_def lane_knows_def)
  have go: "?P t b c"
    if "dispatch_action I a g u = (t, b, c)" "lane_of u r = Some l'"
      "knows l' (held (co_env u)) (planned (co_env u))" "ok (co_env u)" for u t b c l' g
    using dispatched_job [OF a that(2-4,1)] by auto
  let ?s2 = "put_lane r (l\<lparr>rl_inputEpoch := max (rl_inputEpoch l) (inputEpoch a)\<rparr>) (put_lane r l s)"
  have eq: "enter_lane I a sf s =
     (if rl_surfaceGeneration l \<noteq> si_surfaceGeneration sf \<or> inputEpoch a < rl_inputEpoch l
      then refuse (BridgeError ''BROWSER_ACTION_STALE'') (put_lane r l s)
      else if request_intent a = Normal \<and> rl_quarantined l then refuse input_quarantined ?s2
      else if rl_documentInstanceId l = si_documentInstanceId sf
      then dispatch_action I a (si_surfaceGeneration sf) ?s2
      else if rl_quarantined l \<or> rl_hasHeldKeys l \<or> \<not> certain l then refuse input_quarantined ?s2
      else dispatch_action I a (si_surfaceGeneration sf)
        (put_lane r (l\<lparr>rl_inputEpoch := max (rl_inputEpoch l) (inputEpoch a),
                       rl_documentInstanceId := si_documentInstanceId sf\<rparr>) ?s2))"
    unfolding enter_lane_def Let_def a l_def [symmetric] by (simp add: certain_def)
  have "?P s' ans pf"
  proof (cases "rl_surfaceGeneration l \<noteq> si_surfaceGeneration sf \<or> inputEpoch a < rl_inputEpoch l")
    case True
    show ?thesis by (rule stop [of s' ans pf "BridgeError ''BROWSER_ACTION_STALE''" "put_lane r l s" l]) (use True run eq kl in simp_all)
  next
    case live: False
    show ?thesis
    proof (cases "request_intent a = Normal \<and> rl_quarantined l \<or>
        rl_documentInstanceId l \<noteq> si_documentInstanceId sf \<and>
        (rl_quarantined l \<or> rl_hasHeldKeys l \<or> \<not> certain l)")
      case True
      show ?thesis
        by (rule stop [of s' ans pf input_quarantined ?s2
              "l\<lparr>rl_inputEpoch := max (rl_inputEpoch l) (inputEpoch a)\<rparr>"])
          (use True live run eq kl same in \<open>auto split: if_splits\<close>)
    next
      case False
      show ?thesis
      proof (cases "rl_documentInstanceId l = si_documentInstanceId sf")
        case True
        show ?thesis
          by (rule go [of "si_surfaceGeneration sf" ?s2 s' ans pf
              "l\<lparr>rl_inputEpoch := max (rl_inputEpoch l) (inputEpoch a)\<rparr>"])
            (use True False live run eq kl same ok in \<open>auto split: if_splits\<close>)
      next
        case other: False
        show ?thesis
          by (rule go [of "si_surfaceGeneration sf" "put_lane r (l\<lparr>rl_inputEpoch :=
                max (rl_inputEpoch l) (inputEpoch a), rl_documentInstanceId := si_documentInstanceId sf\<rparr>) ?s2"
              s' ans pf "l\<lparr>rl_inputEpoch := max (rl_inputEpoch l) (inputEpoch a),
                rl_documentInstanceId := si_documentInstanceId sf\<rparr>"])
            (use other False live run eq kl same ok in \<open>auto split: if_splits\<close>)
      qed
    qed
  qed
  then show "lane_knows r held planned s'"
    and "pf = Some x \<Longrightarrow> held (co_env s') = {} \<and> (\<exists>l'. lane_of s' r = Some l' \<and> certain l')"
    and "action a = NeutralizeInput \<Longrightarrow> ans = Receipt rc \<Longrightarrow> held (co_env s') = {}"
    by auto
qed

lemma execute_job:
  assumes a: "roleId (br_action rq) = r" and k: "lane_knows r held planned s" and ok: "ok (co_env s)"
    and run: "executeInLane I rq s = (s', ans, pf)"
  shows "lane_knows r held planned s'"
    and "pf = Some x \<Longrightarrow> held (co_env s') = {} \<and> (\<exists>l'. lane_of s' r = Some l' \<and> certain l')"
    and "action (br_action rq) = NeutralizeInput \<Longrightarrow> ans = Receipt rc \<Longrightarrow> held (co_env s') = {}"
proof -
  let ?P = "lane_knows r held planned s' \<and>
    (pf \<noteq> None \<longrightarrow> held (co_env s') = {} \<and> (\<exists>l'. lane_of s' r = Some l' \<and> certain l')) \<and>
    (action (br_action rq) = NeutralizeInput \<longrightarrow> ans = Receipt rc \<longrightarrow> held (co_env s') = {})"
  have go: ?P if "enter_lane I (br_action rq) sf t = (s', ans, pf)" "lane_knows r held planned t"
      "ok (co_env t)" for sf t
    using enter [OF a that(2,3,1)] by auto
  have pre: "lane_knows r held planned t \<and> ok (co_env t)"
    if "ci_preflight I = Some f" "f r g s = (t, y)" for f g t y
  proof -
    have e: "held (co_env t) = held (co_env s)" "planned (co_env t) = planned (co_env s)"
      using quiet that by (metis fst_conv quiet_law_def)+
    have "lane_kept r s t" using input_keepsD(3) [OF awaits that(1) _ that(2), of s] by simp
    moreover have "ok (co_env t)" using input_keepsD(3) [OF keeps_ok that(1) ok that(2)] .
    ultimately show ?thesis
      using k e knows_quarantined by (auto simp: lane_kept_def lane_knows_def split: option.splits)
  qed
  have "(pf = None \<and> (\<exists>e. ans = Refused e) \<and> (s' = s \<or> (\<exists>f g y. ci_preflight I = Some f \<and> f r g s = (s', y)))) \<or>
      (\<exists>sf t. enter_lane I (br_action rq) sf t = (s', ans, pf) \<and>
         (t = s \<or> (\<exists>f g y. ci_preflight I = Some f \<and> f r g s = (t, y))))"
    using run a
    by (auto simp: executeInLane_def Let_def refuse_def split: if_splits sum.splits option.splits
        bool.splits prod.splits)
  then have ?P using go pre k ok by (elim disjE exE conjE) auto
  then show "lane_knows r held planned s'"
    and "pf = Some x \<Longrightarrow> held (co_env s') = {} \<and> (\<exists>l'. lane_of s' r = Some l' \<and> certain l')"
    and "action (br_action rq) = NeutralizeInput \<Longrightarrow> ans = Receipt rc \<Longrightarrow> held (co_env s') = {}"
    by auto
qed

end

section \<open>Jobs that only write the lane\<close>

lemma supersede_lane:
  "lane_of (fst (supersede_lease lease b s)) q = lane_of s q \<or>
   (\<exists>l. lane_of s q = Some l \<and> lane_of (fst (supersede_lease lease b s)) q = Some (l\<lparr>rl_quarantined := True\<rparr>))"
  by (auto simp: supersede_lease_def Let_def on_lane_def put_lane_def lane_of_def drop_leases_def
      put_leases_def split: option.splits)

lemma on_lane_phase [simp]: "co_phase (on_lane q f s) = co_phase s" "co_env (on_lane q f s) = co_env s"
  by (simp_all add: on_lane_def put_lane_def split: option.split)

lemma supersede_simps [simp]:
  "co_phase (fst (supersede_lease lease b s)) = co_phase s"
  "co_env (fst (supersede_lease lease b s)) = co_env s"
  by (auto simp: supersede_lease_def Let_def drop_leases_def put_leases_def split: option.split)

text \<open>A synchronous \<open>supersede\<close> does to a lane only what the contract of the awaits allows.\<close>

lemma supersede_kept: "lane_kept q s (fst (supersede_lease lease b s))"
  using supersede_lane [of lease b s q] by (simp add: lane_kept_def)

lemma retire_leases_simps [simp]:
  "lane_of (retire_leases q g s) q' = lane_of s q'" "co_env (retire_leases q g s) = co_env s"
  "co_phase (retire_leases q g s) = co_phase s"
  by (auto simp: retire_leases_def Let_def lane_of_def drop_leases_def put_leases_def split: option.split)

lemma lane_of_drop [simp]: "lane_of (drop_lane q s) q' = (if q' = q then None else lane_of s q')"
  "co_env (drop_lane q s) = co_env s"
  by (simp_all add: lane_of_def drop_lane_def)

lemma lane_of_fields [simp]:
  "lane_of (drop_leases q s) q' = lane_of s q'" "co_env (drop_leases q s) = co_env s"
  "lane_of (put_leases q m s) q' = lane_of s q'" "co_env (put_leases q m s) = co_env s"
  "lane_of (s\<lparr>co_jobs := js\<rparr>) q' = lane_of s q'"
  by (simp_all add: lane_of_def drop_leases_def put_leases_def)

end
