(* ===== verification/Trusted_Lane.thy ===== *)
theory Trusted_Lane
  imports Trusted_Safety
begin

text \<open>
  Runs of the trusted input coordinator: synchronous calls, jobs of any role, changes of the world
  outside, and the disposal.  The invariant of the lane of a role holds in every reachable state, and
  the properties of neutrality and quarantine follow from it.
\<close>

section \<open>Runs\<close>

datatype coordinator_call =
  ExecuteCall browser_request
| PrepareCall replacement_lease
| ConfirmCall replacement_lease
| ResumeCall replacement_lease string
| SupersedeCall replacement_lease bool
| RetireCall string int
| DestroyCall string int
| ResumeAfterCall string int
| SurfaceEvent string int retirement_reason
| DisposeCall

fun call_step :: "coordinator_call \<Rightarrow> 'w input_coordinator \<Rightarrow> 'w input_coordinator" where
  "call_step (ExecuteCall rq) s = fst (execute_call rq s)"
| "call_step (PrepareCall lease) s = fst (prepare_call lease s)"
| "call_step (ConfirmCall lease) s = fst (confirm_call lease s)"
| "call_step (ResumeCall lease d) s = fst (resume_call lease d s)"
| "call_step (SupersedeCall lease b) s = fst (supersede_lease lease b s)"
| "call_step (RetireCall q g) s = fst (surface_call RetireJob q g s)"
| "call_step (DestroyCall q g) s = fst (surface_call DestroyJob q g s)"
| "call_step (ResumeAfterCall q g) s = fst (surface_call ResumeAfterJob q g s)"
| "call_step (SurfaceEvent q g reason) s = surface_event q g reason s"
| "call_step DisposeCall s = dispose_call s"

text \<open>The keys the page sees as held are those of the lane's surface and document: there is none once
  the surface is retired, or while another document of it is current.\<close>

definition page_law :: "'w coordinator_input \<Rightarrow> ('w \<Rightarrow> string set) \<Rightarrow> lane_job \<Rightarrow> 'w input_coordinator \<Rightarrow> bool" where
  "page_law I held j s \<longleftrightarrow>
     (case (j, lane_of s (job_role j)) of
        (SurfaceJob q g SurfaceRetired, Some l) \<Rightarrow> rl_surfaceGeneration l = g \<longrightarrow> held (co_env s) = {}
      | (ResumeAfterJob q g, Some l) \<Rightarrow>
          (case ci_surface I q s of
             Some sf \<Rightarrow> si_surfaceGeneration sf = rl_surfaceGeneration l \<longrightarrow>
               si_documentInstanceId sf \<noteq> rl_documentInstanceId l \<longrightarrow> held (co_env s) = {}
           | None \<Rightarrow> True)
      | _ \<Rightarrow> True)"

definition fresh_input :: "'w \<Rightarrow> 'w input_coordinator" where
  "fresh_input e = \<lparr>co_phase = Open, co_lanes = [], co_leases = [], co_quarantines = [],
     co_jobs = [], co_next = 0, co_fence = 0, co_env = e\<rparr>"

inductive coordinator_reach ::
  "'w coordinator_input \<Rightarrow> string \<Rightarrow> ('w \<Rightarrow> bool) \<Rightarrow> ('w \<Rightarrow> string set) \<Rightarrow> ('w \<Rightarrow> string set) \<Rightarrow> 'w input_coordinator \<Rightarrow> bool"
  for I :: "'w coordinator_input" and r :: string and ok :: "'w \<Rightarrow> bool"
    and held :: "'w \<Rightarrow> string set" and planned :: "'w \<Rightarrow> string set" where
  fresh: "ok e \<Longrightarrow> held e = {} \<Longrightarrow> coordinator_reach I r ok held planned (fresh_input e)"
| call: "coordinator_reach I r ok held planned s \<Longrightarrow>
    coordinator_reach I r ok held planned (call_step c s)"
| job: "coordinator_reach I r ok held planned s \<Longrightarrow> next_job q s = Some e \<Longrightarrow>
    (q = r \<Longrightarrow> page_law I held (snd e) (take_job e s)) \<Longrightarrow>
    coordinator_reach I r ok held planned (fst (run_job I e s))"
| world: "coordinator_reach I r ok held planned s \<Longrightarrow> ok e \<Longrightarrow> held e \<subseteq> held (co_env s) \<Longrightarrow>
    planned e = planned (co_env s) \<Longrightarrow> coordinator_reach I r ok held planned (s\<lparr>co_env := e\<rparr>)"
| disposed: "coordinator_reach I r ok held planned s \<Longrightarrow>
    coordinator_reach I r ok held planned (dispose_finish I s)"

section \<open>Declared neutrality\<close>

text \<open>The answers that tell Core or the caller that the role's input is neutral.\<close>

fun declares_neutral :: "lane_job \<Rightarrow> answer \<Rightarrow> bool" where
  "declares_neutral (ExecuteJob rq) (Receipt rc) \<longleftrightarrow> action (br_action rq) = NeutralizeInput"
| "declares_neutral (ConfirmJob _) (Answer b) \<longleftrightarrow> b"
| "declares_neutral (ResumeJob _ _) (Answer b) \<longleftrightarrow> b"
| "declares_neutral (RetireJob _ _) (Answer b) \<longleftrightarrow> b"
| "declares_neutral (ResumeAfterJob _ _) (Answer b) \<longleftrightarrow> b"
| "declares_neutral _ _ \<longleftrightarrow> False"

lemma next_job_role: "next_job q s = Some e \<Longrightarrow> job_role (snd e) = q"
  by (auto simp: next_job_def find_Some_iff)

text \<open>The synchronous calls touch a lane only to quarantine it.\<close>

lemma lane_kept_enqueue: "lane_kept r s t \<Longrightarrow> lane_kept r s (enqueue_job j t)"
  by (simp add: lane_kept_def enqueue_job_def lane_of_def)

lemma lane_kept_leases: "lane_kept r s (put_leases q m s)"
  by (simp add: lane_kept_def put_leases_def lane_of_def)

lemma call_lane_kept: "lane_kept r s (call_step c s)"
proof (cases c)
  case (SupersedeCall lease b)
  then show ?thesis using supersede_kept by simp
next
  case DisposeCall
  then show ?thesis by (simp add: dispose_call_def lane_kept_def lane_of_def)
qed (auto simp: execute_call_def prepare_call_def confirm_call_def resume_call_def
        surface_call_def surface_event_def Let_def split: sum.split
      intro: lane_kept_enqueue lane_kept_leases)

lemma call_env: "co_env (call_step c s) = co_env s"
proof (cases c)
  case (SupersedeCall lease b)
  then show ?thesis
    by (simp add: supersede_lease_def on_lane_def drop_leases_def put_leases_def put_lane_def Let_def
        split: option.split)
qed (simp_all add: execute_call_def prepare_call_def confirm_call_def resume_call_def put_leases_def
        surface_call_def surface_event_def dispose_call_def enqueue_job_def Let_def split: sum.split)

context trusted_ports begin

lemma kept_knows:
  assumes "lane_knows r held planned s" "lane_kept r s s'" "held (co_env s') \<subseteq> held (co_env s)"
    "planned (co_env s') = planned (co_env s)"
  shows "lane_knows r held planned s'"
  using assms knows_quarantined knows_fewer
  by (auto simp: lane_kept_def lane_knows_def split: option.splits)

lemma knows_lane_fields:
  "knows l h p \<Longrightarrow> rl_heldKeyCodes l' = rl_heldKeyCodes l \<Longrightarrow>
   rl_uncertainKeyCodes l' = rl_uncertainKeyCodes l \<Longrightarrow> rl_uncertainPointer l' = rl_uncertainPointer l \<Longrightarrow>
   rl_hasHeldKeys l' = rl_hasHeldKeys l \<Longrightarrow> rl_quarantined l' = rl_quarantined l \<Longrightarrow> knows l' h p"
  by (simp add: knows_def certain_def)

lemma prepare_knows:
  "lane_knows r held planned s \<Longrightarrow> lane_knows r held planned (fst (prepare_job I retained s))"
  by (auto simp: prepare_job_def refuse_def split: sum.split intro: kept_knows supersede_kept)

lemma confirm_neutral:
  assumes "le_roleId lease = r" "lane_knows r held planned s" "confirm_job I lease s = (s', Answer True, pf)"
  shows "held (co_env s) = {}"
  using assms knows_nothing(1)
  by (auto simp: confirm_job_def neutral_for_lease_def lane_knows_def refuse_def Let_def
      split: if_splits sum.splits option.splits)

lemma resume_knows:
  assumes "le_roleId lease = r" "lane_knows r held planned s" "resume_job I lease d s = (s', ans, pf)"
  shows "lane_knows r held planned s' \<and> pf = None \<and> (ans = Answer True \<longrightarrow> held (co_env s') = {})"
proof -
  let ?l = "case lane_of s r of Some l \<Rightarrow> l
    | None \<Rightarrow> fresh_lane d (le_inputEpoch lease) (le_surfaceGeneration lease)"
  have k: "knows ?l (held (co_env s)) (planned (co_env s))"
    using assms(2) by (auto simp: lane_knows_def knows_def fresh_lane_def certain_def split: option.split)
  define l where "l = ?l"
  have n: "held (co_env s) = {}" if "neutral_for_lease lease l"
    using knows_nothing(1) [OF k [folded l_def]] that by (simp add: neutral_for_lease_def)
  have k': "knows (l\<lparr>rl_inputEpoch := e, rl_documentInstanceId := d\<rparr>) (held (co_env s)) (planned (co_env s))" for e
    using k [folded l_def] by (simp add: knows_def certain_def)
  have "pf = None \<and> ((s' = s \<or> s' = put_lane r l s) \<and> ans \<noteq> Answer True \<or>
      (neutral_for_lease lease l \<and> s' = drop_leases r (put_lane r
        (l\<lparr>rl_inputEpoch := le_inputEpoch lease, rl_documentInstanceId := d\<rparr>) (put_lane r l s))))"
    using assms(3) unfolding resume_job_def Let_def assms(1) l_def [symmetric]
    by (auto simp: refuse_def split: if_splits sum.splits)
  then show ?thesis
    using n k' k [folded l_def] assms(2) by (auto simp: lane_knows_def)
qed

lemma retire_knows:
  assumes "lane_knows r held planned s" "ok (co_env s)" "retire_job I r g s = (s', ans, pf)"
  shows "lane_knows r held planned s' \<and> pf = None \<and> (ans = Answer True \<longrightarrow> held (co_env s') = {})"
proof (cases "\<exists>l. lane_of s r = Some l \<and> rl_surfaceGeneration l = g \<and> \<not> rl_quarantined l \<and> \<not> rl_hasHeldKeys l")
  case False
  then show ?thesis
    using assms by (auto simp: retire_job_def refuse_def split: option.splits if_splits)
next
  case True
  then obtain l where l: "lane_of s r = Some l" "rl_surfaceGeneration l = g" "\<not> rl_quarantined l"
    "\<not> rl_hasHeldKeys l" by blast
  have k: "knows l (held (co_env s)) (planned (co_env s))" using assms(1) l(1) by (simp add: lane_knows_def)
  have none: "held (co_env s) = {}" using knows_nothing(1) [OF k] l by blast
  obtain t out where c: "ci_clear I r s = (t, out)" by fastforce
  note c' = cleared [OF c assms(2)]
  obtain l' where l': "lane_of t r = Some l'" "knows l' (held (co_env s)) (planned (co_env s))"
    "l' = l \<or> l' = l\<lparr>rl_quarantined := True\<rparr>"
    using kept_lane [OF c'(2) l(1) k] by blast
  have "lane_knows r held planned t"
    using l' none c'(1) by (auto simp: lane_knows_def knows_def)
  then show ?thesis
    using assms(3) c l none c'(1) by (cases out) (auto simp: retire_job_def refuse_def lane_knows_def)
qed

lemma resume_after_knows:
  assumes "lane_knows r held planned s" "ok (co_env s)" "page_law I held (ResumeAfterJob r g) s"
    and "resume_after_job I r g s = (s', ans, pf)"
  shows "lane_knows r held planned s' \<and> pf = None \<and> (ans = Answer True \<longrightarrow> held (co_env s') = {})"
proof (cases "\<exists>l sf. lane_of s r = Some l \<and> rl_surfaceGeneration l = g \<and> rl_quarantined l \<and>
    validateSurface (ci_surface I r s) r Normal = Inr sf \<and> si_surfaceGeneration sf = g \<and>
    si_documentInstanceId sf \<noteq> rl_documentInstanceId l")
  case False
  then show ?thesis
    using assms(1,4) by (auto simp: resume_after_job_def refuse_def split: option.splits if_splits sum.splits)
next
  case True
  then obtain l sf where l: "lane_of s r = Some l" "rl_surfaceGeneration l = g" "rl_quarantined l"
    and sf: "validateSurface (ci_surface I r s) r Normal = Inr sf" "si_surfaceGeneration sf = g"
      "si_documentInstanceId sf \<noteq> rl_documentInstanceId l" by blast
  have "ci_surface I r s = Some sf" using sf(1) by (auto simp: validateSurface_def split: option.splits if_splits)
  then have none: "held (co_env s) = {}" using assms(3) l sf by (simp add: page_law_def)
  have k: "knows l (held (co_env s)) (planned (co_env s))" using assms(1) l(1) by (simp add: lane_knows_def)
  obtain t out where c: "ci_clear I r s = (t, out)" by fastforce
  note c' = cleared [OF c assms(2)]
  obtain l' where l': "lane_of t r = Some l'" "knows l' (held (co_env s)) (planned (co_env s))"
    "l' = l \<or> l' = l\<lparr>rl_quarantined := True\<rparr>"
    using kept_lane [OF c'(2) l(1) k] by blast
  have t: "lane_knows r held planned t" using l' none c'(1) by (auto simp: lane_knows_def knows_def)
  have fin: "knows (neutral_lane e l'\<lparr>rl_documentInstanceId := d\<rparr>) {} p" for e d p
    by (simp add: knows_def neutral_lane_def certain_def)
  show ?thesis
    using assms(4) c l sf none c'(1) l'(1) t fin
    by (cases out) (auto simp: resume_after_job_def refuse_def on_lane_Some lane_knows_def)
qed

lemma surface_knows:
  assumes "lane_knows r held planned s" "ok (co_env s)" "page_law I held (SurfaceJob r g reason) s"
    and "surface_job I r g reason s = (s', ans, pf)"
  shows "lane_knows r held planned s' \<and> pf = None"
proof -
  obtain t out where c: "ci_clear I r s = (t, out)" by fastforce
  note c' = cleared [OF c assms(2)]
  have leases: "lane_knows r held planned (retire_leases r g u) = lane_knows r held planned u" for u
    by (simp add: lane_knows_def split: option.split)
  show ?thesis
  proof (cases "\<exists>l. lane_of s r = Some l \<and> rl_surfaceGeneration l = g")
    case False
    then show ?thesis
      using assms(1,4) leases
      by (auto simp: surface_job_def Let_def split: option.splits if_splits)
  next
    case True
    then obtain l where l: "lane_of s r = Some l" "rl_surfaceGeneration l = g" by blast
    have k: "knows l (held (co_env s)) (planned (co_env s))" using assms(1) l(1) by (simp add: lane_knows_def)
    show ?thesis
    proof (cases reason)
      case SurfaceRetired
      then have none: "held (co_env t) = {}" using assms(3) l c'(1) by (simp add: page_law_def)
      obtain l' where l': "lane_of t r = Some l'" "knows l' (held (co_env s)) (planned (co_env s))"
        "l' = l \<or> l' = l\<lparr>rl_quarantined := True\<rparr>"
        using kept_lane [OF c'(2) l(1) k] by blast
      have "lane_knows r held planned t" using l' none by (auto simp: lane_knows_def knows_def)
      moreover have "lane_knows r held planned (drop_lane r t)" using none by (simp add: lane_knows_def)
      ultimately show ?thesis
        using assms(4) c l SurfaceRetired leases [of "drop_lane r t"]
        by (cases out) (auto simp: surface_job_def Let_def refuse_def)
    next
      case DocumentSuperseded
      then show ?thesis
        using assms(1,4) l k knows_quarantined
        by (auto simp: surface_job_def Let_def lane_knows_def split: if_splits)
    qed
  qed
qed

text \<open>A job of the role keeps what its lane knows, and declares neutrality only when nothing is held.\<close>

lemma own_job:
  assumes "job_role (snd e) = r" and k: "lane_knows r held planned s" and ok: "ok (co_env s)"
    and page: "page_law I held (snd e) (take_job e s)" and run: "run_job I e s = (s', ans, pf)"
  shows "lane_knows r held planned s'"
    and "pf \<noteq> None \<Longrightarrow> held (co_env s') = {} \<and> (\<exists>l. lane_of s' r = Some l \<and> certain l)"
    and "declares_neutral (snd e) ans \<Longrightarrow> held (co_env s') = {}"
proof -
  let ?s = "take_job e s"
  have k': "lane_knows r held planned ?s" using k by (auto simp: lane_knows_def take_job_def split: option.splits)
  have ok': "ok (co_env ?s)" using ok by (simp add: take_job_def)
  have "lane_knows r held planned s' \<and>
    (pf \<noteq> None \<longrightarrow> held (co_env s') = {} \<and> (\<exists>l. lane_of s' r = Some l \<and> certain l)) \<and>
    (declares_neutral (snd e) ans \<longrightarrow> held (co_env s') = {})"
  proof (cases "snd e")
    case (ExecuteJob rq)
    then show ?thesis
      using execute_job [OF _ k' ok', of rq s' ans pf] assms(1) run
      by (cases ans) (auto simp: run_job_def Let_def)
  next
    case (PrepareJob retained)
    then show ?thesis
      using prepare_knows [OF k', of retained] run
      by (auto simp: run_job_def Let_def prepare_job_def refuse_def split: sum.splits)
  next
    case (ConfirmJob lease)
    have st: "s' = ?s" "pf = None"
      using run ConfirmJob confirm_job_state [of I lease ?s]
      by (auto simp: run_job_def Let_def confirm_job_def refuse_def split: if_splits sum.splits)
    show ?thesis
      using confirm_neutral [OF _ k', of lease s' pf] assms(1) run ConfirmJob st k'
      by (cases ans) (auto simp: run_job_def Let_def)
  next
    case (ResumeJob lease d)
    then show ?thesis
      using resume_knows [OF _ k', of lease d s' ans pf] assms(1) run
      by (cases ans) (auto simp: run_job_def Let_def)
  next
    case (RetireJob q g)
    then show ?thesis
      using retire_knows [OF k' ok', of g s' ans pf] assms(1) run
      by (cases ans) (auto simp: run_job_def Let_def)
  next
    case (DestroyJob q g)
    then show ?thesis using run k' by (auto simp: run_job_def Let_def destroy_job_def)
  next
    case (ResumeAfterJob q g)
    then show ?thesis
      using resume_after_knows [OF k' ok', of g s' ans pf] assms(1) run page
      by (cases ans) (auto simp: run_job_def Let_def)
  next
    case (SurfaceJob q g reason)
    then show ?thesis
      using surface_knows [OF k' ok', of g reason s' ans pf] assms(1) run page
      by (auto simp: run_job_def Let_def)
  qed
  then show "lane_knows r held planned s'"
    and "pf \<noteq> None \<Longrightarrow> held (co_env s') = {} \<and> (\<exists>l. lane_of s' r = Some l \<and> certain l)"
    and "declares_neutral (snd e) ans \<Longrightarrow> held (co_env s') = {}"
    by auto
qed

text \<open>A job of another role leaves this one alone.\<close>

lemma foreign_job:
  assumes "job_role (snd e) \<noteq> r" and "ok (co_env s)"
  shows "role_kept r held planned s (fst (run_job I e s))"
proof -
  let ?q = "job_role (snd e)"
  have w: "writes_keep ?q (\<lambda>t. ok (co_env t) \<and> role_kept r held planned s t)"
    using assms(1) unfolding writes_keep_def role_kept_def lane_kept_def
    by (auto simp: drop_lane_def put_lane_def lane_of_def)
  show ?thesis
    using run_job_keeps [OF others [OF assms(1)] w] assms(2) by (simp add: role_kept_def)
qed

lemma job_ok:
  assumes "ok (co_env s)" shows "ok (co_env (fst (run_job I e s)))"
  by (rule run_job_keeps [OF keeps_ok])
    (use assms in \<open>simp_all add: writes_keep_def put_lane_def drop_lane_def\<close>)

lemma job_phase:
  assumes "job_role (snd e) = r"
  shows "co_phase (fst (run_job I e s)) = Disposed \<longleftrightarrow> co_phase s = Disposed"
proof -
  let ?Q = "\<lambda>t. co_phase t = Disposed \<longleftrightarrow> co_phase s = Disposed"
  have w: "writes_keep r ?Q" by (simp add: writes_keep_def put_lane_def drop_lane_def)
  have "input_keeps I r UNIV ?Q"
    by (rule input_keeps_rel [where R = "lane_kept r"]) (use awaits in \<open>simp_all add: lane_kept_def\<close>)
  then show ?thesis using run_job_keeps [of I e UNIV ?Q s] w assms by simp
qed

lemma clear_all_ok: "ok (co_env s) \<Longrightarrow> ok (co_env (fold (\<lambda>q s'. fst (ci_clear I q s')) qs s))"
proof (induction qs arbitrary: s)
  case (Cons q qs)
  have "ok (co_env (fst (ci_clear I q s)))"
    using input_keepsD(2) [OF keeps_ok Cons.prems, of q "fst (ci_clear I q s)" "snd (ci_clear I q s)"]
    by simp
  then show ?case using Cons.IH by simp
qed simp

text \<open>The invariant of every reachable state.\<close>

lemma reach_knows:
  assumes "coordinator_reach I r ok held planned s"
  shows "ok (co_env s) \<and> (co_phase s \<noteq> Disposed \<longrightarrow> lane_knows r held planned s)"
  using assms
proof (induction rule: coordinator_reach.induct)
  case (fresh e)
  then show ?case by (simp add: fresh_input_def lane_knows_def lane_of_def)
next
  case (call s c)
  have "lane_knows r held planned s \<Longrightarrow> lane_knows r held planned (call_step c s)"
    using kept_knows [OF _ call_lane_kept] call_env [of c s] by simp
  then show ?case using call.IH call_env [of c s] call_lane_kept [of r s c] by (auto simp: lane_kept_def)
next
  case (job s q e)
  have role: "job_role (snd e) = q" using next_job_role [OF job.hyps(2)] .
  show ?case
  proof (cases "q = r")
    case True
    obtain s' ans pf where run: "run_job I e s = (s', ans, pf)" by (metis prod_cases3)
    have own: "lane_knows r held planned s \<Longrightarrow> lane_knows r held planned s'"
      using own_job(1) [of e s s' ans pf] role True job run by simp
    have "co_phase s' = Disposed \<longleftrightarrow> co_phase s = Disposed"
      using job_phase [of e s] role True run by simp
    then show ?thesis using own job.IH job_ok [of s e] run by auto
  next
    case False
    have f: "role_kept r held planned s (fst (run_job I e s))"
      using foreign_job [of e s] role False job.IH by simp
    then have "co_phase (fst (run_job I e s)) \<noteq> Disposed \<longrightarrow> co_phase s \<noteq> Disposed"
      by (simp add: role_kept_def lane_kept_def)
    moreover have "lane_knows r held planned s \<Longrightarrow> lane_knows r held planned (fst (run_job I e s))"
      using f kept_knows [of s "fst (run_job I e s)"] by (simp add: role_kept_def)
    ultimately show ?thesis using job_ok [of s e] job.IH by auto
  qed
next
  case (world s e)
  then show ?case
    using knows_fewer by (auto simp: lane_knows_def lane_of_def split: option.splits)
next
  case (disposed s)
  then show ?case
    using clear_all_ok [of s] by (auto simp: dispose_finish_def)
qed

end

end
