(* ===== verification/Trusted_World.thy ===== *)
theory Trusted_World
  imports Trusted_Lane
begin

text \<open>
  The trusted input coordinator on Core's embedded keyboard, as the bootstrap wires them
  (\<open>embeddedInput\<close> in \<open>src/src/electron/main/chromiumRuntimeBootstrap.ts\<close>): the contract of
  \<open>trusted_ports\<close> about Core is discharged on the model of \<open>embedded_input.rs\<close>, what is left is the
  contract of the native adapter, the locale \<open>page_contract\<close>.  It has a model, a page whose adapter
  may lose its replies.
\<close>

section \<open>The wiring\<close>

record 'x world =
  wd_core :: embedded_input
  wd_rest :: 'x

record 'x adapter_ports =
  pp_native :: "native_request \<Rightarrow> 'x world input_coordinator \<Rightarrow> 'x world input_coordinator \<times> native_reply outcome"
  pp_now :: "'x world input_coordinator \<Rightarrow> int"
  pp_surface :: "string \<Rightarrow> 'x world input_coordinator \<Rightarrow> surface_identity option"
  pp_preflight :: "(string \<Rightarrow> int \<Rightarrow> 'x world input_coordinator \<Rightarrow> 'x world input_coordinator \<times> unit outcome) option"
  pp_record_failure :: "sequence_failure_record \<Rightarrow> bool \<Rightarrow> 'x world input_coordinator \<Rightarrow> 'x world input_coordinator"
  pp_platform :: platform
  pp_localeCompare :: "string \<Rightarrow> string \<Rightarrow> int"
  pp_tap :: "'x world \<Rightarrow> string"
  pp_uuid :: "string \<Rightarrow> 'x world \<Rightarrow> string"

text \<open>\<open>CoreError::code\<close> is the code of the error the main process sees.\<close>

fun core_outcome :: "core_error + 'a \<Rightarrow> 'a outcome" where
  "core_outcome (Inl InvalidInput) = Inl (BridgeError ''CORE_INPUT_INVALID'')"
| "core_outcome (Inl (Domain c)) = Inl (BridgeError c)"
| "core_outcome (Inr x) = Inr x"

definition with_core :: "embedded_input \<Rightarrow> 'x world input_coordinator \<Rightarrow> 'x world input_coordinator" where
  "with_core c s = s\<lparr>co_env := (co_env s)\<lparr>wd_core := c\<rparr>\<rparr>"

abbreviation core_of :: "'x world input_coordinator \<Rightarrow> embedded_input" where
  "core_of s \<equiv> wd_core (co_env s)"

definition embedded_prepare ::
  "'x adapter_ports \<Rightarrow> prepare_input \<Rightarrow> 'x world input_coordinator \<Rightarrow> 'x world input_coordinator \<times> transition outcome" where
  "embedded_prepare N i s =
     (let (c, out) = core_key_prepare (prep_roleId i) (prep_phase i) (prep_code i)
            (prep_modifierCodes i) (prep_ownerId i) (pp_tap N (co_env s))
            (pp_uuid N (prep_roleId i) (co_env s)) (core_of s)
      in (with_core c s, core_outcome out))"

definition embedded_complete ::
  "string \<Rightarrow> bool \<Rightarrow> 'x world input_coordinator \<Rightarrow> 'x world input_coordinator \<times> unit outcome" where
  "embedded_complete t succeeded s =
     (let (c, out) = core_key_complete t succeeded (core_of s) in (with_core c s, core_outcome out))"

definition embedded_reassert :: "string \<Rightarrow> 'x world input_coordinator \<Rightarrow> 'x world input_coordinator \<times> transition outcome" where
  "embedded_reassert r s = (s, core_outcome (core_key_reassert r (core_of s)))"

definition embedded_clear :: "string \<Rightarrow> 'x world input_coordinator \<Rightarrow> 'x world input_coordinator \<times> unit outcome" where
  "embedded_clear r s = (with_core (core_keys_clear r (core_of s)) s, Inr ())"

definition core_backed :: "'x adapter_ports \<Rightarrow> 'x world coordinator_input" where
  "core_backed N =
     \<lparr>ci_native = pp_native N, ci_now = pp_now N, ci_surface = pp_surface N,
      ci_preflight = pp_preflight N, ci_prepare = embedded_prepare N,
      ci_reassert = embedded_reassert, ci_complete = embedded_complete, ci_clear = embedded_clear,
      ci_record_failure = pp_record_failure N, ci_platform = pp_platform N,
      ci_localeCompare = pp_localeCompare N\<rparr>"

section \<open>What Core counts as planned\<close>

text \<open>The codes of a role: those from before its pending transition, if it has one.\<close>

definition settled :: "embedded_input \<Rightarrow> string \<Rightarrow> held_codes" where
  "settled c r =
     (case find (\<lambda>e. pt_role_id (snd e) = r) (ei_pending c) of
        Some e \<Rightarrow> pt_before (snd e)
      | None \<Rightarrow> held_of_role c r)"

definition planned_codes :: "string \<Rightarrow> 'x world \<Rightarrow> string set" where
  "planned_codes r w = down (settled (wd_core w) r)"

definition pending_codes :: "string \<Rightarrow> 'x world \<Rightarrow> string \<Rightarrow> string set option" where
  "pending_codes r w t =
     (case jm_get (ei_pending (wd_core w)) t of
        None \<Rightarrow> None
      | Some p \<Rightarrow> if pt_role_id p = r then Some (down (held_of_role (wd_core w) r)) else None)"

text \<open>No owner that outlives its operation looks like the owner of a tap, which starts with NUL, and
  pending transitions carry the identities of their roles.\<close>

definition plain_owners :: "held_codes \<Rightarrow> bool" where
  "plain_owners held \<longleftrightarrow> (\<forall>(c, ow) \<in> owned held. CHR 0x00 \<notin> set ow)"

definition world_ok :: "(string \<Rightarrow> string set) \<Rightarrow> 'x world \<Rightarrow> bool" where
  "world_ok ids w \<longleftrightarrow> core_inv (wd_core w) \<and>
     (\<forall>r. plain_owners (held_of_role (wd_core w) r)) \<and>
     (\<forall>t p. jm_get (ei_pending (wd_core w)) t = Some p \<longrightarrow>
        plain_owners (pt_before p) \<and> t \<in> ids (pt_role_id p))"

lemma settled_pending:
  assumes "core_inv c" "jm_get (ei_pending c) t = Some p" "pt_role_id p = r"
  shows "settled c r = pt_before p"
proof -
  have wf: "jm_wf (ei_pending c)" using core_invD(6) [OF assms(1)] .
  have "(t, p) \<in> set (ei_pending c)" using assms(2) by (simp add: jm_get_def map_of_SomeD)
  then obtain e where e: "find (\<lambda>e. pt_role_id (snd e) = r) (ei_pending c) = Some e"
    using assms(3) by (cases "find (\<lambda>e. pt_role_id (snd e) = r) (ei_pending c)") (auto simp: find_None_iff)
  then have e': "e \<in> set (ei_pending c)" "pt_role_id (snd e) = r" by (auto simp: find_Some_iff)
  then have "jm_get (ei_pending c) (fst e) = Some (snd e)"
    using wf by (simp add: jm_get_def jm_wf_def)
  then have "fst e = t" using core_invD(5) [OF assms(1)] assms(2,3) e'(2) by blast
  then show ?thesis using \<open>jm_get (ei_pending c) (fst e) = Some (snd e)\<close> assms(2) e by (simp add: settled_def)
qed

lemma settled_idle:
  assumes "jm_wf (ei_pending c)" "\<And>t p. jm_get (ei_pending c) t = Some p \<Longrightarrow> pt_role_id p \<noteq> r"
  shows "settled c r = held_of_role c r"
proof (cases "find (\<lambda>e. pt_role_id (snd e) = r) (ei_pending c)")
  case (Some e)
  then have "e \<in> set (ei_pending c)" "pt_role_id (snd e) = r" by (auto simp: find_Some_iff)
  then show ?thesis using assms(2) [of "fst e" "snd e"] assms(1) by (simp add: jm_get_def jm_wf_def)
qed (simp add: settled_def)

lemma settled_cong:
  assumes "core_inv c" "core_inv c'" "held_of_role c' r = held_of_role c r"
    and "\<And>t p. pt_role_id p = r \<Longrightarrow> jm_get (ei_pending c') t = Some p \<longleftrightarrow> jm_get (ei_pending c) t = Some p"
  shows "settled c' r = settled c r"
proof (cases "\<exists>t p. jm_get (ei_pending c) t = Some p \<and> pt_role_id p = r")
  case True
  then show ?thesis using settled_pending [OF assms(1)] settled_pending [OF assms(2)] assms(4) by metis
next
  case False
  then show ?thesis
    using settled_idle [OF core_invD(6) [OF assms(1)]] settled_idle [OF core_invD(6) [OF assms(2)]] assms(3,4)
    by metis
qed

lemma settled_ok: "core_inv c \<Longrightarrow> held_ok (settled c r)"
  by (cases "\<exists>t p. jm_get (ei_pending c) t = Some p \<and> pt_role_id p = r")
    (metis settled_pending core_invD(3), metis settled_idle core_invD(1,6))

section \<open>Core's operations\<close>

lemma world_okD:
  assumes "world_ok ids w"
  shows "core_inv (wd_core w)" and "plain_owners (held_of_role (wd_core w) r)"
    and "jm_get (ei_pending (wd_core w)) t = Some p \<Longrightarrow> plain_owners (pt_before p)"
    and "jm_get (ei_pending (wd_core w)) t = Some p \<Longrightarrow> t \<in> ids (pt_role_id p)"
  using assms by (auto simp: world_ok_def)

lemma plain_fresh: "plain_owners held \<Longrightarrow> tap_owner uuid ow \<notin> snd ` owned held"
  by (auto simp: plain_owners_def tap_owner_def)

lemma admit_plain: "admit_transition r c ms ow s = None \<Longrightarrow> CHR 0x00 \<notin> set ow"
  by (auto simp: admit_transition_def validate_identifier_def rust_control_def Let_def list_ex_iff
      split: sum.splits if_splits)

lemma prepare_refused:
  "core_key_prepare r ph c ms ow tap uuid s = (s', Inl e) \<Longrightarrow> s' = s"
  by (auto simp: core_key_prepare_def Let_def split: option.splits prod.splits)

text \<open>A preparation keeps every settled code and touches the transitions of its own role only.\<close>

lemma prepare_world:
  assumes ok: "world_ok ids w" and prep: "core_key_prepare q ph c ms ow tap uuid (wd_core w) = (c', out)"
    and fresh: "uuid \<in> ids q" "jm_get (ei_pending (wd_core w)) uuid = None"
  shows "world_ok ids (w\<lparr>wd_core := c'\<rparr>)" and "settled c' r = settled (wd_core w) r"
    and "q \<noteq> r \<Longrightarrow> pending_codes r (w\<lparr>wd_core := c'\<rparr>) = pending_codes r w"
proof -
  note inv = world_okD(1) [OF ok]
  have "world_ok ids (w\<lparr>wd_core := c'\<rparr>) \<and> settled c' r = settled (wd_core w) r \<and>
    (q \<noteq> r \<longrightarrow> pending_codes r (w\<lparr>wd_core := c'\<rparr>) = pending_codes r w)"
  proof (cases out)
    case (Inl e)
    then show ?thesis using prepare_refused [OF prep [unfolded Inl]] ok by simp
  next
    case (Inr tr)
    note prep' = prep [unfolded Inr]
    have plain: "CHR 0x00 \<notin> set ow"
      using prep' admit_plain [of q c ms ow "wd_core w"]
      by (auto simp: core_key_prepare_def split: option.splits)
    note pl = prepared_plan [OF inv prep', OF impI [OF plain_fresh [OF world_okD(2) [OF ok], folded role_owned_def]]]
    have inv': "core_inv c'" by (rule prepare_inv [OF inv fresh(2) prep'])
    obtain held where idle: "q \<notin> set (pending_role_ids (wd_core w))"
      and c': "c' = (put_held q (remove_empty_codes held) (wd_core w))
           \<lparr>ei_pending := jm_set uuid \<lparr>pt_before = held_of_role (wd_core w) q, pt_role_id = q\<rparr> (ei_pending (wd_core w)),
            pending_role_ids := js_add q (pending_role_ids (wd_core w))\<rparr>"
      using prepareD [OF prep'] by metis
    have pend: "ei_pending c' = jm_set uuid \<lparr>pt_before = held_of_role (wd_core w) q, pt_role_id = q\<rparr> (ei_pending (wd_core w))"
      and other: "q' \<noteq> q \<Longrightarrow> held_of_role c' q' = held_of_role (wd_core w) q'" for q'
      by (simp_all add: c')
    have none: "pt_role_id p \<noteq> q" if "jm_get (ei_pending (wd_core w)) t = Some p" for t p
      using core_invD(4) [OF inv that] idle by auto
    have "plain_owners (held_of_role c' q')" for q'
      using pl(1) [of q'] world_okD(2) [OF ok, of q'] plain
      by (auto simp: plain_owners_def role_owned_def owner_spec_def split: if_splits action_phase.splits)
    then have world_sound: "world_ok ids (w\<lparr>wd_core := c'\<rparr>)"
      using inv' world_okD [OF ok] fresh by (auto simp: world_ok_def pend split: if_splits)
    have set: "settled c' r = settled (wd_core w) r"
    proof (cases "q = r")
      case True
      then show ?thesis
        using settled_pending [OF inv', of uuid] settled_idle [OF core_invD(6) [OF inv] none] by (simp add: pend)
    next
      case False
      then show ?thesis
        using fresh(2) by (intro settled_cong [OF inv inv' other]) (auto simp: pend)
    qed
    have "pending_codes r (w\<lparr>wd_core := c'\<rparr>) = pending_codes r w" if "q \<noteq> r"
      using that other [of r] fresh(2)
      by (auto simp: pending_codes_def pend fun_eq_iff split: option.split)
    then show ?thesis using world_sound set by blast
  qed
  then show "world_ok ids (w\<lparr>wd_core := c'\<rparr>)" and "settled c' r = settled (wd_core w) r"
    and "q \<noteq> r \<Longrightarrow> pending_codes r (w\<lparr>wd_core := c'\<rparr>) = pending_codes r w" by blast+
qed

lemma complete_missing:
  "jm_get (ei_pending s) t = None \<Longrightarrow> core_key_complete t b s = (s, Inl (Domain ''BROWSER_KEY_TRANSITION_NOT_FOUND''))"
  by (simp add: core_key_complete_def)

lemma complete_parts:
  assumes "jm_get (ei_pending s) t = Some p"
  shows "ei_pending (fst (core_key_complete t b s)) = jm_delete t (ei_pending s)"
    and "held_of_role (fst (core_key_complete t b s)) q =
      (if \<not> b \<and> q = pt_role_id p then pt_before p else held_of_role s q)"
    and "snd (core_key_complete t b s) = Inr ()"
  using assms by (simp_all add: core_key_complete_def Let_def)

lemma complete_world:
  assumes ok: "world_ok ids w"
  shows "world_ok ids (w\<lparr>wd_core := fst (core_key_complete t b (wd_core w))\<rparr>)"
proof (cases "jm_get (ei_pending (wd_core w)) t")
  case None
  then show ?thesis using ok by (simp add: complete_missing)
next
  case (Some p)
  then show ?thesis
    using ok complete_inv [OF world_okD(1) [OF ok]] world_okD [OF ok]
    by (auto simp: world_ok_def complete_parts [OF Some] split: if_splits)
qed

text \<open>Completing a role's transition settles what it planned, or what there was before.\<close>

lemma complete_settles:
  assumes ok: "world_ok ids w" and p: "jm_get (ei_pending (wd_core w)) t = Some p"
  shows "settled (fst (core_key_complete t b (wd_core w))) q =
    (if q = pt_role_id p then if b then held_of_role (wd_core w) q else settled (wd_core w) q
     else settled (wd_core w) q)"
proof -
  let ?c = "fst (core_key_complete t b (wd_core w))"
  note inv = world_okD(1) [OF ok]
  note inv' = complete_inv [OF inv, of t b]
  show ?thesis
  proof (cases "q = pt_role_id p")
    case True
    have "pt_role_id p' \<noteq> q" if "jm_get (ei_pending ?c) t' = Some p'" for t' p'
      using that core_invD(5) [OF inv _ p] True by (auto simp: complete_parts [OF p] split: if_splits)
    then have "settled ?c q = held_of_role ?c q" by (rule settled_idle [OF core_invD(6) [OF inv']])
    then show ?thesis using True settled_pending [OF inv p] by (simp add: complete_parts [OF p])
  next
    case False
    have "settled ?c q = settled (wd_core w) q"
      by (rule settled_cong [OF inv inv']) (use False p in \<open>auto simp: complete_parts [OF p]\<close>)
    then show ?thesis using False by simp
  qed
qed

lemma option_eqI: "(\<And>p. x = Some p \<longleftrightarrow> y = Some p) \<Longrightarrow> x = y"
  by (cases x; cases y) auto

lemma clear_parts [simp]: "ei_pending (core_keys_clear q s) = filter (\<lambda>e. pt_role_id (snd e) \<noteq> q) (ei_pending s)"
  by (simp add: core_keys_clear_def)

lemma clear_world:
  assumes ok: "world_ok ids w"
  shows "world_ok ids (w\<lparr>wd_core := core_keys_clear q (wd_core w)\<rparr>)"
    and "q \<noteq> r \<Longrightarrow> settled (core_keys_clear q (wd_core w)) r = settled (wd_core w) r"
    and "q \<noteq> r \<Longrightarrow> pending_codes r (w\<lparr>wd_core := core_keys_clear q (wd_core w)\<rparr>) = pending_codes r w"
proof -
  note inv = world_okD(1) [OF ok]
  note inv' = clear_inv [OF inv, of q]
  note f = jm_get_filter_roles [OF core_invD(6) [OF inv], of "\<lambda>p. pt_role_id p \<noteq> q"]
  have plain: "plain_owners []" by (simp add: plain_owners_def owned_def owners_of_def)
  show "world_ok ids (w\<lparr>wd_core := core_keys_clear q (wd_core w)\<rparr>)"
    using inv' plain world_okD [OF ok] by (auto simp: world_ok_def f)
  show "settled (core_keys_clear q (wd_core w)) r = settled (wd_core w) r" if "q \<noteq> r"
    by (rule settled_cong [OF inv inv']) (use that in \<open>auto simp: f\<close>)
  show "pending_codes r (w\<lparr>wd_core := core_keys_clear q (wd_core w)\<rparr>) = pending_codes r w" if "q \<noteq> r"
  proof
    fix t
    have "jm_get (filter (\<lambda>e. pt_role_id (snd e) \<noteq> q) (ei_pending (wd_core w))) t =
      (case jm_get (ei_pending (wd_core w)) t of
         None \<Rightarrow> None | Some p \<Rightarrow> if pt_role_id p \<noteq> q then Some p else None)"
      by (rule option_eqI) (auto simp: f split: option.splits)
    then show "pending_codes r (w\<lparr>wd_core := core_keys_clear q (wd_core w)\<rparr>) t = pending_codes r w t"
      using that by (auto simp: pending_codes_def split: option.split)
  qed
qed

text \<open>A reassertion presses again what is held, and changes nothing.\<close>

lemma repeated_chain:
  assumes "\<forall>e \<in> set es. phase e = RawKeyDown \<and> code e \<in> A \<and> set (activeCodesBefore e) = A \<and> set (activeCodes e) = A"
  shows "effect_chain A es \<and> fold apply_edge es A = A"
  using assms by (induction es) (auto simp: apply_edge_def insert_absorb)

lemma reassert_plan:
  assumes inv: "core_inv c" and tr: "core_key_reassert r c = Inr tr"
  shows "plan_ok (down (settled c r)) tr \<and> transitionId tr = None \<and>
    fold apply_edge (effects tr) (down (settled c r)) = down (settled c r)"
proof -
  have idle: "r \<notin> set (pending_role_ids c)"
    using tr by (auto simp: core_key_reassert_def split: sum.splits if_splits)
  have "settled c r = held_of_role c r"
    by (rule settled_idle [OF core_invD(6) [OF inv]]) (use core_invD(4) [OF inv] idle in auto)
  moreover have "plan_ok (down (held_of_role c r)) tr \<and> transitionId tr = None \<and>
    fold apply_edge (effects tr) (down (held_of_role c r)) = down (held_of_role c r)"
  proof (cases "jm_get (held_by_role c) r")
    case None
    then show ?thesis
      using tr idle by (auto simp: core_key_reassert_def plan_ok_def held_of_role_def down_def owned_def
          owners_of_def split: sum.splits)
  next
    case (Some held)
    have held: "held_of_role c r = held" using Some by (simp add: held_of_role_def)
    have ok: "held_ok held" using core_invD(1) [OF inv, of r] held by simp
    have "held \<noteq> []" using core_invD(2) [OF inv Some] .
    then have ne: "down held \<noteq> {}" using down_empty [OF ok] by simp
    let ?e = "\<lambda>c. planned_effect RawKeyDown c held held False (\<not> is_modifier_code c)"
    have "tr = \<lparr>transitionId = None, effects = map ?e (filter is_modifier_code (sort (map fst held))
        @ filter (\<lambda>c. \<not> is_modifier_code c) (sort (map fst held))), hasHeldKeys = True\<rparr>"
      using tr idle Some by (auto simp: core_key_reassert_def Let_def split: sum.splits)
    then have "transitionId tr = None" "hasHeldKeys tr"
      "\<forall>e \<in> set (effects tr). phase e = RawKeyDown \<and> code e \<in> set (map fst held) \<and>
         activeCodesBefore e = sorted_active_codes held \<and> activeCodes e = sorted_active_codes held"
      by (simp_all add: planned_effect_def ball_Un)
    then show ?thesis
      using repeated_chain [of "effects tr" "down held"] sorted_active_down [OF ok] down_keys [OF ok] ne
      by (simp add: plan_ok_def held)
  qed
  ultimately show ?thesis by simp
qed

section \<open>The contract of the native adapter\<close>

text \<open>What another call may have done by the time a promise of the adapter settles: Core's planned
  codes and pending transition of \<open>r\<close> are untouched, its lane is at most quarantined.\<close>

definition undisturbed ::
  "(string \<Rightarrow> string set) \<Rightarrow> string \<Rightarrow> 'x world input_coordinator \<Rightarrow> 'x world input_coordinator \<Rightarrow> bool" where
  "undisturbed ids r s s' \<longleftrightarrow> lane_kept r s s' \<and> (world_ok ids (co_env s) \<longrightarrow> world_ok ids (co_env s')) \<and>
     planned_codes r (co_env s') = planned_codes r (co_env s) \<and>
     pending_codes r (co_env s') = pending_codes r (co_env s)"

locale page_contract =
  fixes N :: "'x adapter_ports"
    and r :: string
    and held :: "'x world \<Rightarrow> string set"
    and ids :: "string \<Rightarrow> string set"
  assumes adapter: "native_law (core_backed N) r held"
    and native_quiet: "undisturbed ids r s (fst (pp_native N rq s)) \<and>
      (req_roleId rq \<noteq> r \<longrightarrow> held (co_env (fst (pp_native N rq s))) = held (co_env s))"
    and preflight_quiet: "pp_preflight N = Some f \<Longrightarrow> undisturbed ids r s (fst (f q g s)) \<and>
      held (co_env (fst (f q g s))) = held (co_env s)"
    and record_quiet: "undisturbed ids r s (pp_record_failure N e b s) \<and>
      held (co_env (pp_record_failure N e b s)) = held (co_env s)"
    and page_only: "held (w\<lparr>wd_core := c\<rparr>) = held w"
    and identity: "pp_uuid N q w \<in> ids q \<and> jm_get (ei_pending (wd_core w)) (pp_uuid N q w) = None"
    and disjoint: "q \<noteq> r \<Longrightarrow> ids q \<inter> ids r = {}"

lemma with_core_simps [simp]:
  "co_env (with_core c s) = (co_env s)\<lparr>wd_core := c\<rparr>" "lane_of (with_core c s) q = lane_of s q"
  "co_phase (with_core c s) = co_phase s"
  by (simp_all add: with_core_def lane_of_def)

lemma lane_kept_with_core [simp]: "lane_kept r s (with_core c t) = lane_kept r s t"
  by (simp add: lane_kept_def)

lemma core_outcome_Inr: "core_outcome x = Inr y \<longleftrightarrow> x = Inr y"
  by (cases x rule: core_outcome.cases) auto

lemma undisturbedD:
  assumes "undisturbed ids r s s'"
  shows "lane_kept r s0 s \<Longrightarrow> lane_kept r s0 s'" and "world_ok ids (co_env s) \<Longrightarrow> world_ok ids (co_env s')"
    and "planned_codes r (co_env s') = planned_codes r (co_env s)"
    and "pending_codes r (co_env s') = pending_codes r (co_env s)"
  using assms lane_kept_trans [of r s0 s s'] by (simp_all add: undisturbed_def)

context page_contract begin

abbreviation I where "I \<equiv> core_backed N"
abbreviation world_sound where "world_sound \<equiv> \<lambda>s. world_ok ids (co_env s)"

lemma backed_simps:
  "ci_native I = pp_native N" "ci_clear I = embedded_clear" "ci_preflight I = pp_preflight N"
  "ci_prepare I = embedded_prepare N" "ci_reassert I = embedded_reassert"
  "ci_complete I = embedded_complete" "ci_record_failure I = pp_record_failure N"
  by (simp_all add: core_backed_def)

lemma seq_simps:
  "dispatch (seq_ports I) = dispatchNative I" "core_prepare (seq_ports I) = embedded_prepare N"
  "core_reassert (seq_ports I) = embedded_reassert" "core_complete (seq_ports I) = embedded_complete"
  "record_failure (seq_ports I) = pp_record_failure N"
  by (simp_all add: seq_ports_def backed_simps)

lemma dispatch_state: "fst (dispatchNative I rq s) = fst (pp_native N rq s)"
  by (auto simp: dispatchNative_def backed_simps Let_def split: prod.split sum.split)

text \<open>Whatever the adapter and Core's operations keep for a role, every port does.\<close>

lemma backed_keeps:
  assumes "\<And>rq s. req_roleId rq = q \<Longrightarrow> Q s \<Longrightarrow> Q (fst (pp_native N rq s))"
    and "\<And>f b s. Q s \<Longrightarrow> Q (pp_record_failure N f b s)"
    and "\<And>f g s. pp_preflight N = Some f \<Longrightarrow> Q s \<Longrightarrow> Q (fst (f q g s))"
    and "\<And>i s. prep_roleId i = q \<Longrightarrow> Q s \<Longrightarrow> Q (fst (embedded_prepare N i s))"
    and "\<And>t b s. t \<in> T \<Longrightarrow> Q s \<Longrightarrow> Q (fst (embedded_complete t b s))"
    and "\<And>s. Q s \<Longrightarrow> Q (fst (embedded_clear q s))"
    and "ids q \<subseteq> T"
  shows "input_keeps I q T Q"
proof -
  have "id_in T (snd (embedded_prepare N i s))" if "prep_roleId i = q" for i s
    using identity [of q "co_env s"] assms(7) that
    by (auto simp: embedded_prepare_def id_in_def Let_def core_outcome_Inr elim!: prepareD split: prod.splits)
  moreover have "Q (fst (embedded_reassert q s)) \<and> id_in T (snd (embedded_reassert q s))" if "Q s" for s
    using that by (auto simp: embedded_reassert_def id_in_def core_outcome_Inr core_key_reassert_def Let_def
        split: sum.splits if_splits option.splits)
  ultimately show ?thesis
    using assms(1-6)
    by (simp add: input_keeps_def ports_keep_def sends_keep_def seq_simps backed_simps dispatch_state)
qed

lemma held_core [simp]: "held ((co_env s)\<lparr>wd_core := c\<rparr>) = held (co_env s)"
  by (rule page_only)

lemma embedded_parts:
  "fst (embedded_complete t b s) = with_core (fst (core_key_complete t b (core_of s))) s"
  "fst (embedded_clear q s) = with_core (core_keys_clear q (core_of s)) s"
  by (simp_all add: embedded_complete_def embedded_clear_def Let_def split: prod.split)

lemma prepare_state:
  assumes "world_sound s"
  obtains c where "fst (embedded_prepare N i s) = with_core c s"
    and "world_ok ids ((co_env s)\<lparr>wd_core := c\<rparr>)" and "settled c r = settled (core_of s) r"
    and "prep_roleId i \<noteq> r \<Longrightarrow> pending_codes r ((co_env s)\<lparr>wd_core := c\<rparr>) = pending_codes r (co_env s)"
proof -
  obtain c out where p: "core_key_prepare (prep_roleId i) (prep_phase i) (prep_code i) (prep_modifierCodes i)
      (prep_ownerId i) (pp_tap N (co_env s)) (pp_uuid N (prep_roleId i) (co_env s)) (core_of s) = (c, out)"
    by fastforce
  have st: "fst (embedded_prepare N i s) = with_core c s" using p by (simp add: embedded_prepare_def)
  note w = prepare_world [OF assms p conjunct1 [OF identity] conjunct2 [OF identity]]
  show ?thesis by (rule that [OF st w(1,2)]) (rule w(3))
qed

lemmas quiet_steps = conjunct1 [OF native_quiet] conjunct1 [OF preflight_quiet] conjunct1 [OF record_quiet]

lemma backed_keeps_ok: "input_keeps I q UNIV world_sound"
proof (rule backed_keeps)
  fix s :: "'x world input_coordinator"
  assume ok: "world_sound s"
  show "world_sound (fst (embedded_prepare N i s))" for i
    by (rule prepare_state [OF ok, of i]) simp
  show "world_sound (fst (pp_native N rq s))" for rq
    by (rule undisturbedD(2) [OF quiet_steps(1) ok])
  show "world_sound (pp_record_failure N f b s)" for f b
    by (rule undisturbedD(2) [OF quiet_steps(3) ok])
  show "world_sound (fst (f q g s))" if "pp_preflight N = Some f" for f g
    by (rule undisturbedD(2) [OF quiet_steps(2) [OF that] ok])
qed (use complete_world clear_world(1) in \<open>simp_all add: embedded_parts\<close>)

lemma backed_awaits: "input_keeps I r UNIV (lane_kept r s0)"
proof (rule backed_keeps)
  fix s :: "'x world input_coordinator"
  assume k: "lane_kept r s0 s"
  show "lane_kept r s0 (fst (embedded_prepare N i s))" for i
    using k by (simp add: embedded_prepare_def Let_def split: prod.split)
  show "lane_kept r s0 (fst (pp_native N rq s))" for rq
    by (rule undisturbedD(1) [OF quiet_steps(1) k])
  show "lane_kept r s0 (pp_record_failure N f b s)" for f b
    by (rule undisturbedD(1) [OF quiet_steps(3) k])
  show "lane_kept r s0 (fst (f r g s))" if "pp_preflight N = Some f" for f g
    by (rule undisturbedD(1) [OF quiet_steps(2) [OF that] k])
qed (simp_all add: embedded_parts)

text \<open>What another role's calls keep.\<close>

abbreviation apart where "apart s0 s \<equiv> world_sound s \<and> role_kept r held (planned_codes r) s0 s"

lemma apart_undisturbed:
  assumes "apart s0 s" "undisturbed ids r s s'" "held (co_env s') = held (co_env s)"
  shows "apart s0 s'"
  using assms undisturbedD [OF assms(2)] by (simp add: role_kept_def)

lemma apart_core:
  assumes "apart s0 s" "world_ok ids ((co_env s)\<lparr>wd_core := c\<rparr>)" "settled c r = settled (core_of s) r"
  shows "apart s0 (with_core c s)"
  using assms by (simp add: role_kept_def planned_codes_def)

lemma backed_others:
  assumes "q \<noteq> r"
  shows "input_keeps I q (ids q) (apart s0)"
proof (rule backed_keeps)
  fix s :: "'x world input_coordinator"
  assume a: "apart s0 s"
  then have ok: "world_sound s" by simp
  show "apart s0 (fst (pp_native N rq s))" if "req_roleId rq = q" for rq
    using apart_undisturbed [OF a] native_quiet [where rq = rq and s = s] that assms by blast
  show "apart s0 (pp_record_failure N f b s)" for f b
    using apart_undisturbed [OF a] record_quiet [where e = f and b = b and s = s] by blast
  show "apart s0 (fst (f q g s))" if "pp_preflight N = Some f" for f g
    using apart_undisturbed [OF a] preflight_quiet [OF that, where q = q and g = g and s = s] by blast
  show "apart s0 (fst (embedded_prepare N i s))" if "prep_roleId i = q" for i
    by (rule prepare_state [OF ok, of i]) (simp add: apart_core [OF a])
  show "apart s0 (fst (embedded_clear q s))"
    using apart_core [OF a clear_world(1,2) [OF ok]] assms by (simp add: embedded_parts)
  show "apart s0 (fst (embedded_complete t b s))" if "t \<in> ids q" for t b
  proof (cases "jm_get (ei_pending (core_of s)) t")
    case None
    then show ?thesis using apart_core [OF a, of "core_of s"] ok by (simp add: embedded_parts complete_missing)
  next
    case (Some p)
    have "t \<notin> ids r" using disjoint [OF assms] that by blast
    then have "pt_role_id p \<noteq> r" using world_okD(4) [OF ok Some] by auto
    then have "settled (fst (core_key_complete t b (core_of s))) r = settled (core_of s) r"
      using complete_settles [OF ok Some] by simp
    then show ?thesis using apart_core [OF a complete_world [OF ok]] by (simp add: embedded_parts)
  qed
qed simp

lemma backed_quiet: "quiet_law I r held (planned_codes r)"
  unfolding quiet_law_def backed_simps
proof (intro conjI allI impI)
  show "held (co_env (fst (embedded_prepare N i s))) = held (co_env s)" for i s
    by (simp add: embedded_prepare_def Let_def split: prod.split)
qed (use preflight_quiet record_quiet in
  \<open>simp_all add: embedded_parts embedded_reassert_def undisturbed_def\<close>)

text \<open>The model of \<open>embedded_input.rs\<close> meets the contract of Core.\<close>

lemma backed_core: "plans_keys (seq_ports I) r world_sound (\<lambda>s. planned_codes r (co_env s)) (\<lambda>s. pending_codes r (co_env s))"
  unfolding plans_keys_def
proof (intro conjI allI)
  show "ports_keep (seq_ports I) r UNIV world_sound" by (rule input_keepsD(1) [OF backed_keeps_ok])
  show "sends_keep (seq_ports I) r (\<lambda>s. world_sound s \<and> planned_codes r (co_env s) = A \<and> pending_codes r (co_env s) = B)"
    for A B
    using undisturbedD(2-4) [OF quiet_steps(1)] undisturbedD(2-4) [OF quiet_steps(3)]
    by (simp add: sends_keep_def seq_simps dispatch_state)
  show "complete_law (seq_ports I) world_sound (\<lambda>s. planned_codes r (co_env s)) (\<lambda>s. pending_codes r (co_env s))"
    unfolding complete_law_def seq_simps
  proof (intro allI impI)
    fix t b X and s :: "'x world input_coordinator"
    assume ok: "world_sound s" and X: "pending_codes r (co_env s) t = Some X"
    then obtain p where p: "jm_get (ei_pending (core_of s)) t = Some p" "pt_role_id p = r"
      and X': "X = down (held_of_role (core_of s) r)"
      by (auto simp: pending_codes_def split: option.splits if_splits)
    show "case embedded_complete t b s of
        (w', Inl y) \<Rightarrow> True
      | (w', Inr y) \<Rightarrow> planned_codes r (co_env w') = (if b then X else planned_codes r (co_env s))"
      using complete_settles [OF ok p(1), of b r] p(2) X'
      by (auto simp: embedded_complete_def Let_def planned_codes_def split: prod.split sum.split)
  qed
  show "reassert_law (seq_ports I) r world_sound (\<lambda>s. planned_codes r (co_env s))"
    using reassert_plan [OF world_okD(1)]
    by (auto simp: reassert_law_def seq_simps embedded_reassert_def planned_codes_def core_outcome_Inr
        split: sum.split)
  show "prepare_law (seq_ports I) r world_sound (\<lambda>s. planned_codes r (co_env s)) (\<lambda>s. pending_codes r (co_env s))"
    unfolding prepare_law_def seq_simps
  proof (intro allI impI)
    fix i :: prepare_input and s :: "'x world input_coordinator"
    assume ok: "world_sound s" and role: "prep_roleId i = r"
    obtain c out where p: "core_key_prepare r (prep_phase i) (prep_code i) (prep_modifierCodes i)
        (prep_ownerId i) (pp_tap N (co_env s)) (pp_uuid N r (co_env s)) (core_of s) = (c, out)"
      by fastforce
    note w = prepare_world [OF ok p conjunct1 [OF identity] conjunct2 [OF identity]]
    have pl: "planned_codes r ((co_env s)\<lparr>wd_core := c\<rparr>) = planned_codes r (co_env s)"
      using w(2) [of r] by (simp add: planned_codes_def)
    have new: "plan_ok (planned_codes r (co_env s)) tr \<and> (\<forall>t. transitionId tr = Some t \<longrightarrow>
        pending_codes r ((co_env s)\<lparr>wd_core := c\<rparr>) t =
          Some (fold apply_edge (effects tr) (planned_codes r (co_env s))))" if "out = Inr tr" for tr
    proof -
      note p' = p [unfolded that]
      note q = prepared_plan [OF world_okD(1) [OF ok] p'
          impI [OF plain_fresh [OF world_okD(2) [OF ok], folded role_owned_def]]]
      have "down (held_of_role (core_of s) r) = planned_codes r (co_env s)"
        using w(2) [of r] settled_pending [OF world_okD(1) [OF w(1)], of _ _ r] q(6)
        by (simp add: planned_codes_def)
      then show ?thesis
        using q(2-6) by (auto simp: plan_ok_def pending_codes_def down_def role_owned_def)
    qed
    show "case embedded_prepare N i s of
        (w', Inl x) \<Rightarrow> planned_codes r (co_env w') = planned_codes r (co_env s)
      | (w', Inr tr) \<Rightarrow> plan_ok (planned_codes r (co_env s)) tr \<and>
          planned_codes r (co_env w') = planned_codes r (co_env s) \<and>
          (\<forall>t. transitionId tr = Some t \<longrightarrow> pending_codes r (co_env w') t =
             Some (fold apply_edge (effects tr) (planned_codes r (co_env s))))"
      using p role pl new by (simp add: embedded_prepare_def core_outcome_Inr split: sum.split)
  qed
qed

end

text \<open>With the adapter's contract every contract of the coordinator holds.\<close>

sublocale page_contract \<subseteq> trusted_ports "core_backed N" r "world_ok ids" held "planned_codes r"
  "pending_codes r" ids
  by unfold_locales (use adapter backed_quiet backed_core backed_keeps_ok backed_awaits backed_others in blast)+

context page_contract begin

lemmas trusted = trusted_ports_axioms

end

section \<open>A page whose adapter may lose its replies\<close>

text \<open>The fate of a dispatch: it is applied and acknowledged, applied with its reply lost, or not sent.\<close>

datatype dispatch_fate = Acknowledged | ReplyLost | Unsent

record page =
  pg_keys :: "(string \<times> string) list"
  pg_fates :: "dispatch_fate list"
  pg_now :: int
  pg_surface :: surface_identity

definition press_page :: "native_request \<Rightarrow> page \<Rightarrow> page" where
  "press_page rq p =
     (case req_keyEffect rq of
        None \<Rightarrow> p
      | Some e \<Rightarrow> p\<lparr>pg_keys := (if phase e = KeyUp then removeAll (req_roleId rq, code e) (pg_keys p)
                                else (req_roleId rq, code e) # pg_keys p)\<rparr>)"

definition exact_receipt :: "native_request \<Rightarrow> int \<Rightarrow> native_receipt" where
  "exact_receipt rq now =
     \<lparr>rec_requestId = req_requestId rq, rec_roleId = req_roleId rq, rec_inputEpoch = req_inputEpoch rq,
      rec_surfaceGeneration = req_surfaceGeneration rq, rec_status = Applied, rec_completedAtMs = now,
      rec_errorCode = None, rec_confirmedNeutrality = req_neutralAfter rq\<rparr>"

definition page_dispatch :: "native_request \<Rightarrow> page \<Rightarrow> page \<times> native_reply outcome" where
  "page_dispatch rq p =
     (let p' = p\<lparr>pg_fates := tl (pg_fates p)\<rparr> in
      case pg_fates p of
        Unsent # _ \<Rightarrow> (p', Inl (BridgeError ''NATIVE_NOT_SENT''))
      | ReplyLost # _ \<Rightarrow> (press_page rq p', Inl (BridgeError ''NATIVE_REPLY_LOST''))
      | _ \<Rightarrow> (press_page rq p', Inr (Reply (exact_receipt rq (pg_now p)) None)))"

definition page_native ::
  "native_request \<Rightarrow> page world input_coordinator \<Rightarrow> page world input_coordinator \<times> native_reply outcome" where
  "page_native rq s =
     (let (p, out) = page_dispatch rq (wd_rest (co_env s))
      in (s\<lparr>co_env := (co_env s)\<lparr>wd_rest := p\<rparr>\<rparr>, out))"

definition page_held :: "string \<Rightarrow> page world \<Rightarrow> string set" where
  "page_held r w = {c. (r, c) \<in> set (pg_keys (wd_rest w))}"

text \<open>Identities that name their role and are longer than every pending one.\<close>

definition page_ids :: "string \<Rightarrow> string set" where
  "page_ids q = {q @ CHR 0x00 # replicate n CHR ''u'' | n. True}"

definition page_uuid :: "string \<Rightarrow> page world \<Rightarrow> string" where
  "page_uuid q w = q @ CHR 0x00 # replicate (sum_list (map (length \<circ> fst) (ei_pending (wd_core w)))) CHR ''u''"

definition page_ports :: "page adapter_ports" where
  "page_ports =
     \<lparr>pp_native = page_native, pp_now = (\<lambda>s. pg_now (wd_rest (co_env s))),
      pp_surface = (\<lambda>q s. if si_roleId (pg_surface (wd_rest (co_env s))) = q
                           then Some (pg_surface (wd_rest (co_env s))) else None),
      pp_preflight = None, pp_record_failure = (\<lambda>_ _ s. s), pp_platform = Win32,
      pp_localeCompare = (\<lambda>x y. if x < y then - 1 else if x = y then 0 else 1),
      pp_tap = (\<lambda>_. ''tap''), pp_uuid = page_uuid\<rparr>"

lemma page_uuid_fresh: "jm_get (ei_pending (wd_core w)) (page_uuid q w) = None"
proof (rule ccontr)
  let ?m = "ei_pending (wd_core w)"
  assume "jm_get ?m (page_uuid q w) \<noteq> None"
  then obtain p where "(page_uuid q w, p) \<in> set ?m" by (auto simp: jm_get_def dest: map_of_SomeD)
  then have "length (page_uuid q w) \<in> set (map (length \<circ> fst) ?m)" by force
  then have "length (page_uuid q w) \<le> sum_list (map (length \<circ> fst) ?m)" by (rule member_le_sum_list) simp_all
  then show False by (simp add: page_uuid_def)
qed

lemma page_id_role:
  assumes "q @ CHR 0x00 # replicate n CHR ''u'' = r @ CHR 0x00 # replicate m CHR ''u''"
  shows "q = r"
proof -
  have drop: "dropWhile (\<lambda>c. c = CHR ''u'') (replicate k CHR ''u'' @ CHR 0x00 # y) = CHR 0x00 # y" for y k
    by (induction k) simp_all
  have strip: "dropWhile (\<lambda>c. c = CHR ''u'') (rev (x @ CHR 0x00 # replicate k CHR ''u'')) = CHR 0x00 # rev x" for x k
    using drop by simp
  show ?thesis using arg_cong [OF assms, of "\<lambda>x. dropWhile (\<lambda>c. c = CHR ''u'') (rev x)"] by (simp only: strip) simp
qed

lemma press_page_held:
  "page_held r (w\<lparr>wd_rest := press_page rq p\<rparr>) =
     (case req_keyEffect rq of
        Some e \<Rightarrow> if req_roleId rq = r then apply_edge e (page_held r (w\<lparr>wd_rest := p\<rparr>))
                  else page_held r (w\<lparr>wd_rest := p\<rparr>)
      | None \<Rightarrow> page_held r (w\<lparr>wd_rest := p\<rparr>))"
  by (cases "req_keyEffect rq"; cases "phase (the (req_keyEffect rq))")
    (auto simp: press_page_def page_held_def apply_edge_def)

lemma fates_held [simp]: "page_held r (w\<lparr>wd_rest := p\<lparr>pg_fates := fs\<rparr>\<rparr>) = page_held r (w\<lparr>wd_rest := p\<rparr>)"
  by (simp add: page_held_def)

lemma undisturbed_same_core:
  assumes "wd_core (co_env s') = wd_core (co_env s)" "lane_kept r s s'"
  shows "undisturbed ids r s s'"
  unfolding undisturbed_def world_ok_def planned_codes_def pending_codes_def fun_eq_iff assms(1)
  using assms(2) by simp

interpretation page: page_contract page_ports r "page_held r" page_ids for r
proof
  fix rq s
  have st: "wd_core (co_env (fst (page_native rq s))) = wd_core (co_env s)"
    "lane_kept r s (fst (page_native rq s))"
    by (simp_all add: page_native_def lane_kept_def lane_of_def Let_def split: prod.split)
  have "page_held r (co_env (fst (page_native rq s))) = page_held r (co_env s)" if "req_roleId rq \<noteq> r"
    using that by (auto simp: page_native_def page_dispatch_def press_page_held Let_def
        split: prod.split list.split dispatch_fate.split option.split)
  then show "undisturbed page_ids r s (fst (pp_native page_ports rq s)) \<and>
      (req_roleId rq \<noteq> r \<longrightarrow>
        page_held r (co_env (fst (pp_native page_ports rq s))) = page_held r (co_env s))"
    using undisturbed_same_core [OF st] by (simp add: page_ports_def)
next
  show "native_law (core_backed page_ports) r (page_held r)"
    by (auto simp: native_law_def core_backed_def page_ports_def page_native_def page_dispatch_def
        press_page_held reply_allows_def outcome_allows_def exact_receipt_def Let_def
        split: prod.splits list.splits dispatch_fate.splits option.splits)
next
  fix q w
  show "pp_uuid page_ports q w \<in> page_ids q \<and> jm_get (ei_pending (wd_core w)) (pp_uuid page_ports q w) = None"
    using page_uuid_fresh [of w q] by (auto simp: page_ports_def page_ids_def page_uuid_def)
next
  fix q
  assume "q \<noteq> r"
  then show "page_ids q \<inter> page_ids r = {}" using page_id_role by (auto simp: page_ids_def)
qed (simp_all add: page_ports_def undisturbed_def page_held_def)

end
