(* ===== verification/Trusted_Properties.thy ===== *)
theory Trusted_Properties
  imports Trusted_World
begin

text \<open>
  What the trusted input coordinator on Core's embedded keyboard guarantees in every reachable state,
  whatever the native adapter loses or refuses: the keys a page may see as held are known, a declared
  neutrality is real, and a quarantined role gets no normal input.
\<close>

section \<open>A run with a lost reply\<close>

text \<open>The press reaches the page, its reply is lost, and the compensating release is not sent.\<close>

definition lost_world :: "page world" where
  "lost_world = \<lparr>wd_core = embedded_input_new,
     wd_rest = \<lparr>pg_keys = [], pg_fates = [ReplyLost, Unsent], pg_now = 50,
       pg_surface = \<lparr>si_roleId = ''x'', si_surfaceGeneration = 1, si_documentInstanceId = ''doc'',
         si_state = SurfaceActive\<rparr>\<rparr>\<rparr>"

definition press_request :: browser_request where
  "press_request = \<lparr>br_action = demo_request, br_origin = ''macro'', br_surfaceGeneration = None,
     br_documentInstanceId = None\<rparr>"

definition neutral_request :: browser_request where
  "neutral_request = press_request\<lparr>br_action := demo_request\<lparr>request_intent := Cleanup,
     inputEpoch := 2, action := NeutralizeInput\<rparr>\<rparr>"

abbreviation page_input :: "page world coordinator_input" where
  "page_input \<equiv> core_backed page_ports"

definition queued_press :: "page world input_coordinator" where
  "queued_press = call_step (ExecuteCall press_request) (fresh_input lost_world)"

definition lost_press :: "page world input_coordinator" where
  "lost_press = fst (run_job page_input (0, ExecuteJob press_request) queued_press)"

definition queued_neutral :: "page world input_coordinator" where
  "queued_neutral = call_step (ExecuteCall neutral_request) lost_press"

definition queued_second :: "page world input_coordinator" where
  "queued_second = call_step (ExecuteCall press_request) lost_press"

lemma lost_press_state:
  "queued_press = (fresh_input lost_world)\<lparr>co_jobs := [(0, ExecuteJob press_request)], co_next := 1\<rparr>"
  "lost_press = \<lparr>co_phase = Open,
     co_lanes = [(''x'', \<lparr>rl_documentInstanceId = ''doc'', rl_recoveryParentRequestId = Some ''r'',
       rl_inputEpoch = 1, rl_surfaceGeneration = 1, rl_quarantined = True, rl_hasHeldKeys = False,
       rl_heldKeyCodes = [], rl_uncertainKeyCodes = [''ShiftLeft'', ''KeyA''], rl_uncertainPointer = None\<rparr>)],
     co_leases = [], co_quarantines = [], co_jobs = [], co_next = 1, co_fence = 0,
     co_env = lost_world\<lparr>wd_rest := (wd_rest lost_world)\<lparr>pg_keys := [(''x'', ''ShiftLeft'')], pg_fates := []\<rparr>\<rparr>\<rparr>"
  by code_simp+

lemma lost_press_reach:
  "coordinator_reach page_input ''x'' (world_ok page_ids) (page_held ''x'') (planned_codes ''x'') lost_press"
proof -
  have "coordinator_reach page_input ''x'' (world_ok page_ids) (page_held ''x'') (planned_codes ''x'')
    (fresh_input lost_world)"
    by (rule coordinator_reach.fresh)
      (simp_all add: lost_world_def world_ok_def core_inv_new page_held_def, simp add: embedded_input_new_def
        held_of_role_def plain_owners_def owned_def owners_of_def)
  then have "coordinator_reach page_input ''x'' (world_ok page_ids) (page_held ''x'') (planned_codes ''x'')
    queued_press"
    unfolding queued_press_def by (rule coordinator_reach.call)
  then show ?thesis
    unfolding lost_press_def
    by (rule coordinator_reach.job [of _ _ _ _ _ _ "''x''"])
      (simp_all add: next_job_def lost_press_state(1) press_request_def demo_request_def page_law_def)
qed

lemma next_press_reach:
  "coordinator_reach page_input ''x'' (world_ok page_ids) (page_held ''x'') (planned_codes ''x'') queued_neutral"
  "coordinator_reach page_input ''x'' (world_ok page_ids) (page_held ''x'') (planned_codes ''x'') queued_second"
  unfolding queued_neutral_def queued_second_def by (rule coordinator_reach.call [OF lost_press_reach])+

section \<open>The keys a page sees are known\<close>

text \<open>
  C2. In every reachable state of the coordinator, whatever was lost, refused, superseded or retired
  before, the lane of a role knows every key its page may still see as held: it is among the lane's
  held or uncertain codes, and among the codes Core counts as planned or the uncertain ones.  A lane
  out of quarantine has no uncertain input, and when it also reports no held keys the page holds none;
  a role without a lane holds none.
\<close>

theorem held_keys_known:
  assumes "page_contract N r held ids"
    and "coordinator_reach (core_backed N) r (world_ok ids) held (planned_codes r) s"
    and "co_phase s \<noteq> Disposed"
  shows "case lane_of s r of
      None \<Rightarrow> held (co_env s) = {}
    | Some l \<Rightarrow>
        held (co_env s) \<subseteq> set (rl_heldKeyCodes l) \<union> set (rl_uncertainKeyCodes l) \<and>
        held (co_env s) \<subseteq> planned_codes r (co_env s) \<union> set (rl_uncertainKeyCodes l) \<and>
        (\<not> rl_quarantined l \<longrightarrow> rl_uncertainKeyCodes l = [] \<and> rl_uncertainPointer l = None) \<and>
        (\<not> rl_quarantined l \<and> \<not> rl_hasHeldKeys l \<longrightarrow> held (co_env s) = {})"
proof -
  have "lane_knows r held (planned_codes r) s"
    using trusted_ports.reach_knows [OF page_contract.trusted [OF assms(1)] assms(2)] assms(3) by blast
  then show ?thesis
    using knows_nothing(1) by (auto simp: lane_knows_def knows_def certain_def split: option.split)
qed

text \<open>The lost press: the page holds the modifier, and the lane knows it is uncertain.\<close>

theorem held_keys_known_witness:
  "page_held ''x'' (co_env lost_press) = {''ShiftLeft''} \<and>
   (\<exists>l. lane_of lost_press ''x'' = Some l \<and> rl_quarantined l \<and> ''ShiftLeft'' \<in> set (rl_uncertainKeyCodes l))"
proof -
  have h: "page_held ''x'' (co_env lost_press) = {''ShiftLeft''}"
    by (simp add: lost_press_state(2) page_held_def)
  have "co_phase lost_press \<noteq> Disposed" by (simp add: lost_press_state(2))
  from held_keys_known [OF page.page_contract_axioms lost_press_reach this] h
  show ?thesis by (auto simp: lost_press_state(2) lane_of_def jm_get_def)
qed

section \<open>Declared neutrality\<close>

text \<open>
  C1. When a job of a role ends by declaring the role's input neutral - a receipt for
  \<open>neutralizeInput\<close>, a confirmed or resumed document replacement, a retired surface, a surface resumed
  after its document was replaced - or by publishing a recovery proof, the page holds no key.
\<close>

theorem neutrality_declared_sound:
  assumes "page_contract N r held ids"
    and "coordinator_reach (core_backed N) r (world_ok ids) held (planned_codes r) s"
    and "co_phase s \<noteq> Disposed"
    and "next_job r s = Some e" and "page_law (core_backed N) held (snd e) (take_job e s)"
    and "run_job (core_backed N) e s = (s', ans, proven)"
    and "declares_neutral (snd e) ans \<or> proven \<noteq> None"
  shows "held (co_env s') = {}"
proof -
  note ports = page_contract.trusted [OF assms(1)]
  note k = trusted_ports.reach_knows [OF ports assms(2)]
  then have "lane_knows r held (planned_codes r) s" "world_ok ids (co_env s)" using assms(3) by blast+
  note own = trusted_ports.own_job [OF ports next_job_role [OF assms(4)] this assms(5,6)]
  show ?thesis using own(2,3) assms(7) by blast
qed

text \<open>After the lost press a neutralization releases the keys, and says so.\<close>

theorem neutrality_declared_sound_witness:
  "\<exists>rc. fst (snd (run_job page_input (1, ExecuteJob neutral_request) queued_neutral)) = Receipt rc \<and>
     page_held ''x'' (co_env (fst (run_job page_input (1, ExecuteJob neutral_request) queued_neutral))) = {}"
proof -
  let ?e = "(1, ExecuteJob neutral_request)"
  obtain s' ans pf where run: "run_job page_input ?e queued_neutral = (s', ans, pf)" by (metis prod_cases3)
  have "case fst (snd (run_job page_input ?e queued_neutral)) of Receipt _ \<Rightarrow> True | _ \<Rightarrow> False" by code_simp
  then obtain rc where rc: "ans = Receipt rc" using run by (auto split: answer.splits)
  have q: "queued_neutral = lost_press\<lparr>co_jobs := [?e], co_next := 2\<rparr>" by code_simp
  have "co_phase queued_neutral \<noteq> Disposed" by (simp add: q lost_press_state(2))
  moreover have "next_job ''x'' queued_neutral = Some ?e"
    by (simp add: next_job_def q neutral_request_def demo_request_def)
  moreover have "declares_neutral (snd ?e) ans" by (simp add: rc neutral_request_def)
  ultimately have "page_held ''x'' (co_env s') = {}"
    using neutrality_declared_sound [OF page.page_contract_axioms next_press_reach(1) _ _ _ run]
    by (simp add: page_law_def)
  then show ?thesis using run rc by simp
qed

section \<open>Quarantine\<close>

text \<open>
  C14. A normal request for a role whose input is blocked - a document replacement holds a lease on it
  or was submitted, or its lane is quarantined - is refused without a proof and without a dispatch: the
  world is as it was, or as the preflight of the surface left it.
\<close>

theorem quarantine_blocks_normal:
  assumes "page_contract N r held ids"
    and "roleId (br_action rq) = r" and "request_intent (br_action rq) = Normal"
    and "leases_of s r \<noteq> [] \<or> jm_has (co_quarantines s) r \<or> (\<exists>l. lane_of s r = Some l \<and> rl_quarantined l)"
    and "run_job (core_backed N) (n, ExecuteJob rq) s = (s', ans, proven)"
  shows "(\<exists>e. ans = Refused e) \<and> proven = None \<and>
    (co_env s' = co_env s \<or>
     (\<exists>f g. pp_preflight N = Some f \<and> co_env s' = co_env (fst (f r g (take_job (n, ExecuteJob rq) s)))))"
proof -
  let ?I = "core_backed N" and ?s = "take_job (n, ExecuteJob rq) s" and ?a = "br_action rq"
  have run: "executeInLane ?I rq ?s = (s', ans, proven)" using assms(5) by (simp add: run_job_def)
  have same: "co_env ?s = co_env s" "lane_of ?s r = lane_of s r" "leases_of ?s r = leases_of s r"
    "co_quarantines ?s = co_quarantines s"
    by (simp_all add: take_job_def lane_of_def leases_of_def)
  define calm where "calm t x \<longleftrightarrow> co_env (fst x) = co_env t \<and> (\<exists>e. fst (snd x) = Refused e) \<and> snd (snd x) = None"
    for t :: "'a world input_coordinator" and x :: "'a world job_result"
  have refuse: "calm t (refuse e t)" for e and t :: "'a world input_coordinator" by (simp add: calm_def refuse_def)
  have enter: "calm t (enter_lane ?I ?a sf t)" if "\<exists>l. lane_of t r = Some l \<and> rl_quarantined l"
    for sf and t :: "'a world input_coordinator"
    using that assms(2,3) by (auto simp: calm_def enter_lane_def Let_def refuse_def put_lane_def)
  have "calm ?s (executeInLane ?I rq ?s) \<or>
    (\<exists>f g. pp_preflight N = Some f \<and> calm (fst (f r g ?s)) (executeInLane ?I rq ?s))"
  proof (cases "leases_of s r \<noteq> [] \<or> jm_has (co_quarantines s) r")
    case True
    then show ?thesis
      using assms(2,3) same refuse [of ?s] by (auto simp: executeInLane_def Let_def)
  next
    case False
    then have q: "\<exists>l. lane_of ?s r = Some l \<and> rl_quarantined l" using assms(4) same(2) by auto
    show ?thesis
    proof (cases "pp_preflight N")
      case None
      then have "ci_preflight ?I = None" by (simp add: core_backed_def)
      then show ?thesis
        using assms(2,3) refuse [of ?s] enter [OF q]
        by (simp add: executeInLane_def Let_def split: sum.split)
    next
      case (Some f)
      have pre: "calm (fst (f r g ?s)) (case f r g ?s of (t, Inl e) \<Rightarrow> refuse e t | (t, Inr _) \<Rightarrow> enter_lane ?I ?a sf t)"
        for g sf
      proof -
        have "lane_kept r ?s (fst (f r g ?s))"
          using page_contract.preflight_quiet [OF assms(1) Some] by (simp add: undisturbed_def)
        then have "\<exists>l. lane_of (fst (f r g ?s)) r = Some l \<and> rl_quarantined l"
          using q by (auto simp: lane_kept_def)
        then show ?thesis using refuse enter by (auto split: prod.split sum.split)
      qed
      have "ci_preflight ?I = Some f" using Some by (simp add: core_backed_def)
      then have "calm ?s (executeInLane ?I rq ?s) \<or> (\<exists>g. calm (fst (f r g ?s)) (executeInLane ?I rq ?s))"
        using assms(2,3) refuse [of ?s] pre
        by (simp add: executeInLane_def Let_def split: sum.split) blast
      then show ?thesis using Some by blast
    qed
  qed
  then show ?thesis using run same(1) by (auto simp: calm_def)
qed

text \<open>After the lost press a second press is refused, and the page is untouched.\<close>

theorem quarantine_blocks_normal_witness:
  "\<exists>e. fst (snd (run_job page_input (1, ExecuteJob press_request) queued_second)) = Refused e \<and>
     co_env (fst (run_job page_input (1, ExecuteJob press_request) queued_second)) = co_env lost_press"
proof -
  obtain s' ans pf where run: "run_job page_input (1, ExecuteJob press_request) queued_second = (s', ans, pf)"
    by (metis prod_cases3)
  have q: "queued_second = lost_press\<lparr>co_jobs := [(1, ExecuteJob press_request)], co_next := 2\<rparr>" by code_simp
  have lane: "\<exists>l. lane_of queued_second ''x'' = Some l \<and> rl_quarantined l"
    by (simp add: q lost_press_state(2) lane_of_def jm_get_def)
  have "(\<exists>e. ans = Refused e) \<and> co_env s' = co_env queued_second"
    using quarantine_blocks_normal [OF page.page_contract_axioms _ _ disjI2 [OF disjI2 [OF lane]] run]
    by (simp add: press_request_def demo_request_def page_ports_def)
  then show ?thesis using run by (simp add: q)
qed

end
