(* ===== verification/Input_Recovery.thy ===== *)
theory Input_Recovery
  imports Trusted_Coordinator Effect_Contract
begin

text \<open>
  Recovery of automatic input
  (\<open>src/src/electron/main/chromiumAutomaticInputContextCoordinator.ts\<close>): the coordinator keeps the
  input context every main frame reports, and when an action's input was blocked or its outcome is
  unknown it joins Core's recovery ticket until the input is proven neutral again.

  An asynchronous method is cut where it awaits.  A role runs one job at a time (\<open>#enqueue\<close>); between
  two steps of a job any call, any surface event and any step of another role may happen.  \<open>ir_log\<close>
  is a ghost: what was asked of the ports, what they answered and whom the coordinator answered,
  newest first.
\<close>

section \<open>Data\<close>

datatype input_target = DocumentTarget | EmbeddedFrame | GameTarget

record overlay_frame =
  fi_roleId :: string
  fi_generation :: int
  fi_frameToken :: string
  fi_documentInstanceId :: string

record input_context =
  ic_roleId :: string
  ic_surfaceGeneration :: int
  ic_documentInstanceId :: string
  ic_revision :: int
  ic_target :: input_target

record context_identity =
  cd_roleId :: string
  cd_surfaceGeneration :: int
  cd_documentInstanceId :: string

record recovery_identity =
  ri_recoveryId :: string
  ri_roleId :: string
  ri_expectedInputEpoch :: int

datatype recovery_cause = ContextBlocked | NativeIndeterminate

record active_recovery =
  ar_context :: input_context
  ar_identity :: recovery_identity
  ar_cause :: recovery_cause

record recovery_ticket =
  tk_recoveryId :: string
  tk_roleId :: string
  tk_inputEpoch :: int

record input_epoch =
  ep_roleId :: string
  ep_inputEpoch :: int
  ep_current :: bool

record completion_receipt =
  cr_ticket :: recovery_ticket
  cr_terminal :: bool
  cr_deferredCount :: nat

record neutralization_receipt =
  nr_ticket :: recovery_ticket
  nr_neutralized :: bool
  nr_requestIds :: "string list"

record failure_receipt =
  fr_ticket :: recovery_ticket
  fr_failed :: bool
  fr_restartRequired :: bool

section \<open>Parsing an observation\<close>

text \<open>The payload is untrusted: an object with these values, or anything else.\<close>

datatype raw_value = RawString string | RawInt int | RawOther

datatype raw_payload = RawObject "(string, raw_value) js_map" | NotAnObject

definition context_invalid :: js_error where
  "context_invalid = BridgeError ''ELECTRON_AUTOMATIC_INPUT_CONTEXT_INVALID''"

definition exactKeys :: "(string, raw_value) js_map \<Rightarrow> string list \<Rightarrow> bool" where
  "exactKeys r expected \<longleftrightarrow> sort (map fst r) = sort expected"

fun target_of :: "raw_value \<Rightarrow> input_target option" where
  "target_of (RawString s) =
     (if s = ''document'' then Some DocumentTarget else if s = ''embedded-frame'' then Some EmbeddedFrame
      else if s = ''game'' then Some GameTarget else None)"
| "target_of _ = None"

definition parseContext :: "overlay_frame \<Rightarrow> raw_payload \<Rightarrow> input_context outcome" where
  "parseContext i raw =
     (case raw of
        NotAnObject \<Rightarrow> Inl context_invalid
      | RawObject r \<Rightarrow>
          (case (exactKeys r [''documentInstanceId'', ''revision'', ''target'', ''type''],
                 jm_get r ''type'', jm_get r ''documentInstanceId'', jm_get r ''revision'',
                 map_option target_of (jm_get r ''target'')) of
             (True, Some (RawString t), Some (RawString d), Some (RawInt n), Some (Some tg)) \<Rightarrow>
               if t = ''game-input-context'' \<and> d = fi_frameToken i \<and> isSafeInteger n \<and> n \<ge> 1
               then Inr \<lparr>ic_roleId = fi_roleId i, ic_surfaceGeneration = fi_generation i,
                     ic_documentInstanceId = fi_documentInstanceId i, ic_revision = n, ic_target = tg\<rparr>
               else Inl context_invalid
           | _ \<Rightarrow> Inl context_invalid))"

definition isRecoveryFailure :: "effect_result \<Rightarrow> bool" where
  "isRecoveryFailure res \<longleftrightarrow> \<not> er_ok res \<and>
     (er_error res = Some ''SYSTEM_AUTOMATIC_INPUT_CONTEXT_BLOCKED'' \<or>
      er_error res = Some ''SYSTEM_TRUSTED_INPUT_INDETERMINATE'')"

text \<open>A receipt's identity is the expected one (\<open>exactRecoveryReceipt\<close> and its inlined copies).\<close>

definition exact_ticket :: "recovery_ticket \<Rightarrow> recovery_identity \<Rightarrow> bool" where
  "exact_ticket t i \<longleftrightarrow> tk_recoveryId t = ri_recoveryId i \<and> tk_roleId t = ri_roleId i \<and>
     tk_inputEpoch t = ri_expectedInputEpoch i"

definition exact_epoch :: "input_epoch \<Rightarrow> recovery_identity \<Rightarrow> bool" where
  "exact_epoch d i \<longleftrightarrow> ep_roleId d = ri_roleId i \<and> ep_inputEpoch d = ri_expectedInputEpoch i \<and> ep_current d"

definition exact_neutralization :: "neutralization_receipt \<Rightarrow> recovery_identity \<Rightarrow> bool" where
  "exact_neutralization n i \<longleftrightarrow> exact_ticket (nr_ticket n) i \<and> nr_neutralized n \<and> nr_requestIds n \<noteq> []"

definition exact_completion :: "completion_receipt \<Rightarrow> recovery_identity \<Rightarrow> bool" where
  "exact_completion c i \<longleftrightarrow> exact_ticket (cr_ticket c) i \<and>
     (if cr_terminal c then cr_deferredCount c = 0 else cr_deferredCount c > 0)"

definition exact_failure :: "failure_receipt \<Rightarrow> recovery_identity \<Rightarrow> bool" where
  "exact_failure f i \<longleftrightarrow> exact_ticket (fr_ticket f) i \<and> fr_failed f \<and> fr_restartRequired f"

text \<open>A neutrality proof fits a recovery: it was issued for the action or for the epoch after it.\<close>

definition proof_fits :: "recovery_proof \<Rightarrow> active_recovery \<Rightarrow> bool" where
  "proof_fits p rv \<longleftrightarrow> rp_requestId p = ri_recoveryId (ar_identity rv) \<and>
     rp_surfaceGeneration p = ic_surfaceGeneration (ar_context rv) \<and>
     (rp_inputEpoch p = ri_expectedInputEpoch (ar_identity rv) \<or>
      rp_inputEpoch p + 1 = ri_expectedInputEpoch (ar_identity rv))"

section \<open>State\<close>

datatype recovery_job =
  ChallengeJob overlay_frame "(string, raw_value) js_map"
| ObserveJob input_context
| ProofJob recovery_proof
| EstablishJob bool recovery_identity recovery_cause  \<comment> \<open>whether a scheduled dispatch reports its error\<close>
| FailJob active_recovery

text \<open>Where a job continues after \<open>#complete\<close>, and after \<open>#fail\<close>.\<close>

datatype after_complete = ThenAccept input_context | ThenDone | ThenEstablished bool recovery_identity

datatype after_fail = RejectWith js_error | CatchWith bool recovery_identity js_error | ReportWith bool js_error | EndQuietly

datatype recovery_stage =
  Resuming active_recovery input_context
| Inspecting bool recovery_identity recovery_cause "input_context option"
| DrainingInput bool recovery_identity recovery_cause input_context
| RetiringShortcuts bool recovery_identity input_context
| Neutralizing bool active_recovery
| Completing active_recovery after_complete
| Failing recovery_identity after_fail

record context_waiter =
  wt_number :: nat
  wt_identity :: context_identity

datatype job_answer = Accepted input_context | Superseded_by input_context | JobDone | JobRejected js_error

datatype recovery_event =
  ContextAccepted input_context
| Challenged context_identity
| ProofSeen recovery_proof
| Inspected recovery_identity recovery_ticket
| Drained recovery_identity input_epoch
| ShortcutsRetired string int
| Neutralized active_recovery neutralization_receipt
| Resumed string int bool
| CompleteAsked active_recovery
| FailAsked recovery_identity
| WaiterResolved nat context_identity
| WaiterRejected nat string
| JobAnswered string job_answer
| Reported string

record recovery_state =
  ir_phase :: input_phase
  ir_contexts :: "(string, input_context) js_map"
  ir_recoveries :: "(string, active_recovery) js_map"
  ir_proofs :: "(string, recovery_proof) js_map"
  ir_navigation :: "string list"
  ir_waiters :: "(string, context_waiter list) js_map"
  ir_challenges :: "(string, context_identity) js_map"
  ir_queue :: "(string \<times> recovery_job) list"
  ir_running :: "(string, recovery_stage) js_map"
  ir_next :: nat
  ir_log :: "recovery_event list"

definition new_recovery :: recovery_state where
  "new_recovery = \<lparr>ir_phase = Open, ir_contexts = [], ir_recoveries = [], ir_proofs = [],
     ir_navigation = [], ir_waiters = [], ir_challenges = [], ir_queue = [], ir_running = [],
     ir_next = 0, ir_log = []\<rparr>"

definition noted :: "recovery_event \<Rightarrow> recovery_state \<Rightarrow> recovery_state" where
  "noted e s = s\<lparr>ir_log := e # ir_log s\<rparr>"

definition identity_of :: "input_context \<Rightarrow> context_identity" where
  "identity_of c = \<lparr>cd_roleId = ic_roleId c, cd_surfaceGeneration = ic_surfaceGeneration c,
     cd_documentInstanceId = ic_documentInstanceId c\<rparr>"

definition enqueue_recovery :: "string \<Rightarrow> recovery_job \<Rightarrow> recovery_state \<Rightarrow> recovery_state" where
  "enqueue_recovery q j s = s\<lparr>ir_queue := ir_queue s @ [(q, j)]\<rparr>"

text \<open>A job ends: its promise settles, and the next job of the role may start.\<close>

definition end_job :: "string \<Rightarrow> job_answer \<Rightarrow> recovery_state \<Rightarrow> recovery_state" where
  "end_job q a s = noted (JobAnswered q a) (s\<lparr>ir_running := jm_delete q (ir_running s)\<rparr>)"

definition await :: "string \<Rightarrow> recovery_stage \<Rightarrow> recovery_state \<Rightarrow> recovery_state" where
  "await q st s = s\<lparr>ir_running := jm_set q st (ir_running s)\<rparr>"

section \<open>Waiters\<close>

definition matchesGameContext :: "input_context \<Rightarrow> context_identity \<Rightarrow> bool" where
  "matchesGameContext c i \<longleftrightarrow> ic_roleId c = cd_roleId i \<and> ic_surfaceGeneration c = cd_surfaceGeneration i \<and>
     ic_documentInstanceId c = cd_documentInstanceId i \<and> ic_target c = GameTarget"

definition matchesChallenge :: "context_identity \<Rightarrow> recovery_state \<Rightarrow> bool" where
  "matchesChallenge i s \<longleftrightarrow>
     (case jm_get (ir_challenges s) (cd_roleId i) of
        None \<Rightarrow> False
      | Some ch \<Rightarrow> cd_surfaceGeneration ch = cd_surfaceGeneration i \<and>
          cd_documentInstanceId ch = cd_documentInstanceId i)"

definition waiters_of :: "recovery_state \<Rightarrow> string \<Rightarrow> context_waiter list" where
  "waiters_of s q = (case jm_get (ir_waiters s) q of None \<Rightarrow> [] | Some ws \<Rightarrow> ws)"

text \<open>The waiters of a role that an event answers leave the set; an empty set is dropped.\<close>

definition answer_waiters ::
  "string \<Rightarrow> (context_waiter \<Rightarrow> bool) \<Rightarrow> (context_waiter \<Rightarrow> recovery_event) \<Rightarrow> recovery_state \<Rightarrow> recovery_state" where
  "answer_waiters q P f s =
     (case jm_get (ir_waiters s) q of
        None \<Rightarrow> s
      | Some ws \<Rightarrow>
          (let left = filter (\<lambda>w. \<not> P w) ws
           in s\<lparr>ir_waiters := (if left = [] then jm_delete q (ir_waiters s) else jm_set q left (ir_waiters s)),
                ir_log := rev (map f (filter P ws)) @ ir_log s\<rparr>))"

definition waiter_resolved :: "context_waiter \<Rightarrow> recovery_event" where
  "waiter_resolved w = WaiterResolved (wt_number w) (wt_identity w)"

definition waiter_rejected :: "string \<Rightarrow> context_waiter \<Rightarrow> recovery_event" where
  "waiter_rejected c w = WaiterRejected (wt_number w) c"

definition resolveGameContextWaiters :: "input_context \<Rightarrow> recovery_state \<Rightarrow> recovery_state" where
  "resolveGameContextWaiters c s =
     (if ic_target c \<noteq> GameTarget \<or> \<not> matchesChallenge (identity_of c) s then s
      else answer_waiters (ic_roleId c) (\<lambda>w. matchesGameContext c (wt_identity w)) waiter_resolved s)"

definition accept_context :: "input_context \<Rightarrow> recovery_state \<Rightarrow> recovery_state" where
  "accept_context c s =
     resolveGameContextWaiters c (noted (ContextAccepted c)
       (s\<lparr>ir_contexts := jm_set (ic_roleId c) c (ir_contexts s)\<rparr>))"

section \<open>Failing and completing a recovery\<close>

definition recovery_failed :: string where
  "recovery_failed = ''ELECTRON_AUTOMATIC_INPUT_RECOVERY_FAILED''"

definition recovery_stale :: string where "recovery_stale = ''MACRO_INPUT_RECOVERY_STALE''"

definition recovery_role :: "active_recovery \<Rightarrow> string" where
  "recovery_role rv = ri_roleId (ar_identity rv)"

definition start_fail :: "string \<Rightarrow> recovery_identity \<Rightarrow> after_fail \<Rightarrow> recovery_state \<Rightarrow> recovery_state" where
  "start_fail q i k s = await q (Failing i k) (noted (FailAsked i) s)"

definition start_complete :: "string \<Rightarrow> active_recovery \<Rightarrow> after_complete \<Rightarrow> recovery_state \<Rightarrow> recovery_state" where
  "start_complete q rv k s = await q (Completing rv k) (noted (CompleteAsked rv) s)"

text \<open>The end of the job of a dispatch: a scheduled one reports its error.\<close>

definition reject_job :: "string \<Rightarrow> bool \<Rightarrow> js_error \<Rightarrow> recovery_state \<Rightarrow> recovery_state" where
  "reject_job q reports e s =
     (let s' = end_job q (JobRejected e) s
      in if reports then noted (Reported (normalizeRionBridgeError recovery_failed e)) s' else s')"

text \<open>The \<open>catch\<close> of \<open>#establish\<close>: a stale ticket was cancelled by Core, anything else fails it.\<close>

definition catch_establish ::
  "string \<Rightarrow> bool \<Rightarrow> recovery_identity \<Rightarrow> js_error \<Rightarrow> recovery_state \<Rightarrow> recovery_state" where
  "catch_establish q reports i e s =
     (if normalizeRionBridgeError recovery_failed e = recovery_stale then end_job q JobDone s
      else start_fail q i (ReportWith reports e) s)"

text \<open>After \<open>#fail\<close>: the error is rethrown, through the \<open>catch\<close> of \<open>#establish\<close> where that called
  \<open>#complete\<close>.\<close>

definition after_failing :: "string \<Rightarrow> after_fail \<Rightarrow> recovery_state \<Rightarrow> recovery_state" where
  "after_failing q k s =
     (case k of
        RejectWith e \<Rightarrow> end_job q (JobRejected e) s
      | CatchWith reports i e \<Rightarrow> catch_establish q reports i e s
      | ReportWith reports e \<Rightarrow> reject_job q reports e s
      | EndQuietly \<Rightarrow> end_job q JobDone s)"

definition settle_fail :: "string \<Rightarrow> recovery_identity \<Rightarrow> after_fail \<Rightarrow> failure_receipt outcome \<Rightarrow> recovery_state \<Rightarrow> recovery_state" where
  "settle_fail q i k out s =
     (let failure = (\<lambda>c. if c = recovery_stale then s else noted (Reported c) s)
      in after_failing q k
           (case out of
              Inr f \<Rightarrow> if exact_failure f i then s\<lparr>ir_recoveries := jm_delete (ri_roleId i) (ir_recoveries s)\<rparr>
                       else failure ''ELECTRON_AUTOMATIC_INPUT_RECOVERY_FAILURE_REJECTED''
            | Inl e \<Rightarrow> failure (normalizeRionBridgeError
                       ''ELECTRON_AUTOMATIC_INPUT_RECOVERY_FAILURE_UNKNOWN'' e)))"

text \<open>After \<open>#complete\<close>: on an error the recovery was failed and the error rethrown.\<close>

definition complete_failed :: "after_complete \<Rightarrow> js_error \<Rightarrow> after_fail" where
  "complete_failed k e =
     (case k of ThenAccept _ \<Rightarrow> RejectWith e | ThenDone \<Rightarrow> RejectWith e | ThenEstablished reports i \<Rightarrow> CatchWith reports i e)"

definition after_completing :: "string \<Rightarrow> after_complete \<Rightarrow> recovery_state \<Rightarrow> recovery_state" where
  "after_completing q k s = end_job q (case k of ThenAccept c \<Rightarrow> Accepted c | _ \<Rightarrow> JobDone) s"

definition settle_complete ::
  "string \<Rightarrow> active_recovery \<Rightarrow> after_complete \<Rightarrow> completion_receipt outcome \<Rightarrow> recovery_state \<Rightarrow> recovery_state" where
  "settle_complete q rv k out s =
     (let failing = (\<lambda>e. start_fail q (ar_identity rv) (complete_failed k e) s)
      in case out of
           Inl e \<Rightarrow> failing e
         | Inr c \<Rightarrow>
             if exact_completion c (ar_identity rv)
             then after_completing q k (s\<lparr>ir_recoveries := jm_delete (recovery_role rv) (ir_recoveries s)\<rparr>)
             else failing (BridgeError ''ELECTRON_AUTOMATIC_INPUT_RECOVERY_COMPLETION_REJECTED''))"

section \<open>Observing a context\<close>

definition exact_replacement :: "input_context \<Rightarrow> recovery_state \<Rightarrow> active_recovery option" where
  "exact_replacement c s =
     (case jm_get (ir_recoveries s) (ic_roleId c) of
        None \<Rightarrow> None
      | Some rv \<Rightarrow>
          if ar_cause rv = NativeIndeterminate \<and> ic_roleId c \<in> set (ir_navigation s) \<and>
             ic_surfaceGeneration (ar_context rv) = ic_surfaceGeneration c \<and>
             ic_documentInstanceId (ar_context rv) \<noteq> ic_documentInstanceId c
          then Some rv else None)"

definition supersedes :: "input_context \<Rightarrow> bool \<Rightarrow> input_context \<Rightarrow> bool" where
  "supersedes previous exactReplacement c \<longleftrightarrow>
     ic_surfaceGeneration previous > ic_surfaceGeneration c \<or>
     (\<not> exactReplacement \<and> ic_surfaceGeneration previous = ic_surfaceGeneration c \<and>
      ic_documentInstanceId previous \<noteq> ic_documentInstanceId c) \<or>
     (ic_surfaceGeneration previous = ic_surfaceGeneration c \<and>
      ic_documentInstanceId previous = ic_documentInstanceId c \<and> ic_revision previous \<ge> ic_revision c)"

definition start_observe :: "string \<Rightarrow> input_context \<Rightarrow> recovery_state \<Rightarrow> recovery_state" where
  "start_observe q c s =
     (let replaced = exact_replacement c s in
      if (case jm_get (ir_contexts s) (ic_roleId c) of
            None \<Rightarrow> False | Some previous \<Rightarrow> supersedes previous (replaced \<noteq> None) c)
      then end_job q (Superseded_by c) s
      else (let s1 = accept_context c s in
            case replaced of
              Some rv \<Rightarrow> await q (Resuming rv c) s1
            | None \<Rightarrow>
                (case jm_get (ir_recoveries s) (ic_roleId c) of
                   Some rv \<Rightarrow>
                     if ic_target c = GameTarget \<and> ar_cause rv = ContextBlocked \<and>
                        ic_surfaceGeneration (ar_context rv) = ic_surfaceGeneration c \<and>
                        ic_documentInstanceId (ar_context rv) = ic_documentInstanceId c
                     then start_complete q rv (ThenAccept c) s1
                     else end_job q (Accepted c) s1
                 | None \<Rightarrow> end_job q (Accepted c) s1)))"

definition resume_rejected :: js_error where
  "resume_rejected = BridgeError ''ELECTRON_AUTOMATIC_INPUT_RECOVERY_NATIVE_RESUME_REJECTED''"

definition settle_resume ::
  "string \<Rightarrow> active_recovery \<Rightarrow> input_context \<Rightarrow> bool outcome \<Rightarrow> recovery_state \<Rightarrow> recovery_state" where
  "settle_resume q rv c out s =
     (case out of
        Inl e \<Rightarrow> end_job q (JobRejected e) s
      | Inr b \<Rightarrow>
          (let s1 = noted (Resumed (recovery_role rv) (ic_surfaceGeneration (ar_context rv)) b) s in
           if \<not> b then start_fail q (ar_identity rv) (RejectWith resume_rejected) s1
           else start_complete q rv (ThenAccept c)
                  (s1\<lparr>ir_navigation := removeAll (ic_roleId c) (ir_navigation s1)\<rparr>)))"

section \<open>Neutrality proofs\<close>

definition start_proof :: "string \<Rightarrow> recovery_proof \<Rightarrow> recovery_state \<Rightarrow> recovery_state" where
  "start_proof q p s0 =
     (let s = noted (ProofSeen p) s0 in
      case jm_get (ir_recoveries s) (rp_roleId p) of
        None \<Rightarrow> end_job q JobDone (s\<lparr>ir_proofs := jm_set (rp_roleId p) p (ir_proofs s)\<rparr>)
      | Some rv \<Rightarrow>
          if ar_cause rv \<noteq> NativeIndeterminate \<or> \<not> proof_fits p rv then end_job q JobDone s
          else start_complete q rv ThenDone (s\<lparr>ir_proofs := jm_delete (rp_roleId p) (ir_proofs s)\<rparr>))"

section \<open>Establishing a recovery\<close>

definition start_establish ::
  "string \<Rightarrow> bool \<Rightarrow> recovery_identity \<Rightarrow> recovery_cause \<Rightarrow> recovery_state \<Rightarrow> recovery_state" where
  "start_establish q reports i cause s =
     await q (Inspecting reports i cause (jm_get (ir_contexts s) (ri_roleId i))) s"

definition settle_inspect ::
  "string \<Rightarrow> bool \<Rightarrow> recovery_identity \<Rightarrow> recovery_cause \<Rightarrow> input_context option \<Rightarrow> recovery_ticket outcome
     \<Rightarrow> recovery_state \<Rightarrow> recovery_state" where
  "settle_inspect q reports i cause context out s =
     (case out of
        Inl e \<Rightarrow> catch_establish q reports i e s
      | Inr t \<Rightarrow>
          (case (exact_ticket t i, context) of
             (True, Some c) \<Rightarrow> await q (DrainingInput reports i cause c) (noted (Inspected i t) s)
           | _ \<Rightarrow> catch_establish q reports i
                   (BridgeError ''ELECTRON_AUTOMATIC_INPUT_RECOVERY_IDENTITY_MISMATCH'') (noted (Inspected i t) s)))"

text \<open>The recovery is recorded; an unknown native outcome is then proven neutral, by a proof that came
  before or by Core.\<close>

definition establish_recovery ::
  "string \<Rightarrow> bool \<Rightarrow> recovery_identity \<Rightarrow> recovery_cause \<Rightarrow> input_context \<Rightarrow> recovery_state \<Rightarrow> recovery_state" where
  "establish_recovery q reports i cause c s0 =
     (let rv = \<lparr>ar_context = c, ar_identity = i, ar_cause = cause\<rparr>;
          s = s0\<lparr>ir_recoveries := jm_set (ri_roleId i) rv (ir_recoveries s0)\<rparr>
      in if cause = ContextBlocked then end_job q JobDone s
         else (case jm_get (ir_proofs s) (ri_roleId i) of
                 Some p \<Rightarrow>
                   if proof_fits p rv
                   then start_complete q rv (ThenEstablished reports i)
                          (s\<lparr>ir_proofs := jm_delete (ri_roleId i) (ir_proofs s)\<rparr>)
                   else await q (Neutralizing reports rv) s
               | None \<Rightarrow> await q (Neutralizing reports rv) s))"

definition settle_drain ::
  "string \<Rightarrow> bool \<Rightarrow> recovery_identity \<Rightarrow> recovery_cause \<Rightarrow> input_context \<Rightarrow> input_epoch outcome
     \<Rightarrow> recovery_state \<Rightarrow> recovery_state" where
  "settle_drain q reports i cause c out s =
     (case out of
        Inl e \<Rightarrow> catch_establish q reports i e s
      | Inr d \<Rightarrow>
          (let s1 = noted (Drained i d) s in
           if \<not> exact_epoch d i
           then catch_establish q reports i
                  (BridgeError ''ELECTRON_AUTOMATIC_INPUT_RECOVERY_DRAIN_REJECTED'') s1
           else if cause = NativeIndeterminate then await q (RetiringShortcuts reports i c) s1
           else establish_recovery q reports i cause c s1))"

definition settle_retire ::
  "string \<Rightarrow> bool \<Rightarrow> recovery_identity \<Rightarrow> input_context \<Rightarrow> unit outcome \<Rightarrow> recovery_state \<Rightarrow> recovery_state" where
  "settle_retire q reports i c out s =
     (case out of
        Inl e \<Rightarrow> catch_establish q reports i e s
      | Inr _ \<Rightarrow> establish_recovery q reports i NativeIndeterminate c
                  (noted (ShortcutsRetired (ri_roleId i) (ic_surfaceGeneration c)) s))"

definition settle_neutralize ::
  "string \<Rightarrow> bool \<Rightarrow> active_recovery \<Rightarrow> neutralization_receipt outcome \<Rightarrow> recovery_state \<Rightarrow> recovery_state" where
  "settle_neutralize q reports rv out s =
     (let i = ar_identity rv in
      case out of
        Inl e \<Rightarrow> catch_establish q reports i e s
      | Inr n \<Rightarrow>
          (let s1 = noted (Neutralized rv n) s in
           if exact_neutralization n i then start_complete q rv (ThenEstablished reports i) s1
           else catch_establish q reports i
                  (BridgeError ''ELECTRON_AUTOMATIC_INPUT_RECOVERY_NEUTRALIZATION_REJECTED'') s1))"

section \<open>Jobs\<close>

definition start_challenge :: "string \<Rightarrow> overlay_frame \<Rightarrow> (string, raw_value) js_map \<Rightarrow> recovery_state \<Rightarrow> recovery_state" where
  "start_challenge q i raw s =
     (case parseContext i (RawObject (jm_set ''type'' (RawString ''game-input-context'') raw)) of
        Inl e \<Rightarrow> end_job q (JobRejected e) s
      | Inr c \<Rightarrow> end_job q (Accepted c) (accept_context c (noted (Challenged (identity_of c))
                  (s\<lparr>ir_challenges := jm_set (ic_roleId c) (identity_of c) (ir_challenges s)\<rparr>))))"

definition start_job :: "string \<Rightarrow> recovery_state \<Rightarrow> recovery_state" where
  "start_job q s0 =
     (if jm_has (ir_running s0) q then s0
      else (case next_of_role q (ir_queue s0) of
              None \<Rightarrow> s0
            | Some j \<Rightarrow>
                (let s = s0\<lparr>ir_queue := drop_of_role q (ir_queue s0)\<rparr> in
                 case j of
                   ChallengeJob i raw \<Rightarrow> start_challenge q i raw s
                 | ObserveJob c \<Rightarrow> start_observe q c s
                 | ProofJob p \<Rightarrow> start_proof q p s
                 | EstablishJob reports i cause \<Rightarrow> start_establish q reports i cause s
                 | FailJob rv \<Rightarrow> start_fail q (ar_identity rv) EndQuietly s)))"

text \<open>What the port a job awaits may settle with; an answer to another question settles nothing.\<close>

datatype port_answer =
  InspectAnswer "recovery_ticket outcome"
| DrainAnswer "input_epoch outcome"
| RetireAnswer "unit outcome"
| NeutralizeAnswer "neutralization_receipt outcome"
| ResumeAnswer "bool outcome"
| CompleteAnswer "completion_receipt outcome"
| FailAnswer "failure_receipt outcome"

definition settle :: "string \<Rightarrow> port_answer \<Rightarrow> recovery_state \<Rightarrow> recovery_state" where
  "settle q a s =
     (case (jm_get (ir_running s) q, a) of
        (Some (Resuming rv c), ResumeAnswer out) \<Rightarrow> settle_resume q rv c out s
      | (Some (Inspecting reports i cause c), InspectAnswer out) \<Rightarrow> settle_inspect q reports i cause c out s
      | (Some (DrainingInput reports i cause c), DrainAnswer out) \<Rightarrow> settle_drain q reports i cause c out s
      | (Some (RetiringShortcuts reports i c), RetireAnswer out) \<Rightarrow> settle_retire q reports i c out s
      | (Some (Neutralizing reports rv), NeutralizeAnswer out) \<Rightarrow> settle_neutralize q reports rv out s
      | (Some (Completing rv k), CompleteAnswer out) \<Rightarrow> settle_complete q rv k out s
      | (Some (Failing i k), FailAnswer out) \<Rightarrow> settle_fail q i k out s
      | _ \<Rightarrow> s)"

section \<open>Calls and events\<close>

definition preflight :: "string \<Rightarrow> int \<Rightarrow> recovery_state \<Rightarrow> unit outcome" where
  "preflight q g s =
     (case jm_get (ir_contexts s) q of
        Some c \<Rightarrow> if ic_surfaceGeneration c = g \<and> ic_target c = EmbeddedFrame
                  then Inl (BridgeError ''SYSTEM_AUTOMATIC_INPUT_CONTEXT_BLOCKED'') else Inr ()
      | None \<Rightarrow> Inr ())"

definition context_disposed :: string where
  "context_disposed = ''ELECTRON_AUTOMATIC_INPUT_CONTEXT_DISPOSED''"

text \<open>Every call of \<open>waitForExactGameContext\<close> has a number: it is answered at once, or waits.\<close>

definition waitForExactGameContext :: "context_identity \<Rightarrow> recovery_state \<Rightarrow> recovery_state" where
  "waitForExactGameContext i s0 =
     (let n = ir_next s0; s = s0\<lparr>ir_next := Suc n\<rparr> in
      if ir_phase s \<noteq> Open then noted (WaiterRejected n context_disposed) s
      else if (case jm_get (ir_contexts s) (cd_roleId i) of
                 None \<Rightarrow> False | Some c \<Rightarrow> matchesGameContext c i \<and> matchesChallenge i s)
      then noted (WaiterResolved n i) s
      else s\<lparr>ir_waiters := jm_set (cd_roleId i) (waiters_of s (cd_roleId i) @ [\<lparr>wt_number = n, wt_identity = i\<rparr>])
                 (ir_waiters s)\<rparr>)"

definition establishReloadDocumentChallenge ::
  "overlay_frame \<Rightarrow> (string, raw_value) js_map \<Rightarrow> recovery_state \<Rightarrow> recovery_state \<times> unit outcome" where
  "establishReloadDocumentChallenge i raw s =
     (if ir_phase s \<noteq> Open then (s, Inl (BridgeError context_disposed))
      else (enqueue_recovery (fi_roleId i) (ChallengeJob i raw) s, Inr ()))"

text \<open>The listeners of \<open>subscribeContextObservations\<close> change nothing here, and their errors are ignored.\<close>

definition observe :: "overlay_frame \<Rightarrow> raw_payload \<Rightarrow> recovery_state \<Rightarrow> recovery_state \<times> unit outcome" where
  "observe i raw s =
     (if ir_phase s \<noteq> Open then (s, Inl (BridgeError context_disposed))
      else (case parseContext i raw of
              Inl e \<Rightarrow> (s, Inl e)
            | Inr c \<Rightarrow> (enqueue_recovery (fi_roleId i) (ObserveJob c) s, Inr ())))"

definition observeNeutralityProof :: "recovery_proof \<Rightarrow> recovery_state \<Rightarrow> recovery_state" where
  "observeNeutralityProof p s =
     (if ir_phase s \<noteq> Open then s else enqueue_recovery (rp_roleId p) (ProofJob p) s)"

definition afterEffectDispatch ::
  "bool \<Rightarrow> string \<Rightarrow> action_request option \<Rightarrow> effect_result \<Rightarrow> dispatch_report \<Rightarrow> recovery_state \<Rightarrow> recovery_state" where
  "afterEffectDispatch reports effect_id requested res rep s =
     (case requested of
        None \<Rightarrow> s
      | Some rq \<Rightarrow>
          if ir_phase s \<noteq> Open \<or>
             \<not> (effect_id \<in> set (dp_accepted rep) \<and> isRecoveryFailure res) \<and> effect_id \<notin> set (dp_late rep)
          then s
          else enqueue_recovery (roleId rq)
                 (EstablishJob reports
                    \<lparr>ri_recoveryId = requestId rq, ri_roleId = roleId rq, ri_expectedInputEpoch = inputEpoch rq + 1\<rparr>
                    (if er_error res = Some ''SYSTEM_AUTOMATIC_INPUT_CONTEXT_BLOCKED''
                     then ContextBlocked else NativeIndeterminate)) s)"

text \<open>\<open>#onSurfaceLifecycle\<close>, subscribed until the coordinator closes.\<close>

definition reject_generation :: "string \<Rightarrow> int \<Rightarrow> retirement_reason \<Rightarrow> recovery_state \<Rightarrow> recovery_state" where
  "reject_generation q g reason s =
     answer_waiters q (\<lambda>w. cd_surfaceGeneration (wt_identity w) = g)
       (waiter_rejected (if reason = SurfaceRetired then ''ELECTRON_AUTOMATIC_INPUT_SURFACE_RETIRED''
                  else ''ELECTRON_AUTOMATIC_INPUT_DOCUMENT_SUPERSEDED'')) s"

definition forget_context :: "string \<Rightarrow> int \<Rightarrow> recovery_state \<Rightarrow> recovery_state" where
  "forget_context q g s =
     (case jm_get (ir_contexts s) q of
        Some c \<Rightarrow> if ic_surfaceGeneration c = g then s\<lparr>ir_contexts := jm_delete q (ir_contexts s)\<rparr> else s
      | None \<Rightarrow> s)"

definition forget_challenge :: "string \<Rightarrow> int \<Rightarrow> recovery_state \<Rightarrow> recovery_state" where
  "forget_challenge q g s =
     (case jm_get (ir_challenges s) q of
        Some ch \<Rightarrow> if cd_surfaceGeneration ch = g then s\<lparr>ir_challenges := jm_delete q (ir_challenges s)\<rparr> else s
      | None \<Rightarrow> s)"

definition retire_recovery :: "string \<Rightarrow> int \<Rightarrow> retirement_reason \<Rightarrow> recovery_state \<Rightarrow> recovery_state" where
  "retire_recovery q g reason s =
     (case jm_get (ir_recoveries s) q of
        None \<Rightarrow> s
      | Some rv \<Rightarrow>
          if ic_surfaceGeneration (ar_context rv) \<noteq> g then s
          else if ar_cause rv = NativeIndeterminate \<and> reason = DocumentSuperseded
          then s\<lparr>ir_navigation := js_add q (ir_navigation s)\<rparr>
          else enqueue_recovery q (FailJob rv)
                 (s\<lparr>ir_recoveries := jm_delete q (ir_recoveries s), ir_proofs := jm_delete q (ir_proofs s),
                    ir_navigation := removeAll q (ir_navigation s)\<rparr>))"

definition onSurfaceLifecycle :: "string \<Rightarrow> int \<Rightarrow> retirement_reason \<Rightarrow> recovery_state \<Rightarrow> recovery_state" where
  "onSurfaceLifecycle q g reason s =
     (if ir_phase s \<noteq> Open then s
      else retire_recovery q g reason
             (forget_challenge q g (forget_context q g (reject_generation q g reason s))))"

text \<open>\<open>closeAndDrain\<close>: no more calls, then, once no job is left, everything is cleared.\<close>

definition close_recovery :: "recovery_state \<Rightarrow> recovery_state" where
  "close_recovery s = (if ir_phase s = Open then s\<lparr>ir_phase := Draining\<rparr> else s)"

definition drain_recovery :: "recovery_state \<Rightarrow> recovery_state" where
  "drain_recovery s =
     (if ir_phase s \<noteq> Draining \<or> ir_queue s \<noteq> [] \<or> ir_running s \<noteq> [] then s
      else s\<lparr>ir_phase := Disposed, ir_contexts := [], ir_recoveries := [], ir_proofs := [],
             ir_navigation := [], ir_challenges := [], ir_waiters := [],
             ir_log := rev (map (waiter_rejected context_disposed) (concat (map snd (ir_waiters s)))) @ ir_log s\<rparr>)"

datatype recovery_step =
  Wait context_identity
| Challenge overlay_frame "(string, raw_value) js_map"
| Observe overlay_frame raw_payload
| Prove recovery_proof
| Dispatched bool string "action_request option" effect_result dispatch_report
| Lifecycle string int retirement_reason
| StartJob string
| Settle string port_answer
| CloseRecovery
| DrainRecovery

fun recovery_run :: "recovery_step \<Rightarrow> recovery_state \<Rightarrow> recovery_state" where
  "recovery_run (Wait i) s = waitForExactGameContext i s"
| "recovery_run (Challenge i raw) s = fst (establishReloadDocumentChallenge i raw s)"
| "recovery_run (Observe i raw) s = fst (observe i raw s)"
| "recovery_run (Prove p) s = observeNeutralityProof p s"
| "recovery_run (Dispatched b e a res rep) s = afterEffectDispatch b e a res rep s"
| "recovery_run (Lifecycle q g reason) s = onSurfaceLifecycle q g reason s"
| "recovery_run (StartJob q) s = start_job q s"
| "recovery_run (Settle q a) s = settle q a s"
| "recovery_run CloseRecovery s = close_recovery s"
| "recovery_run DrainRecovery s = drain_recovery s"

end
