(* ===== verification/Recovery_Safety.thy ===== *)
theory Recovery_Safety
  imports Input_Recovery
begin

text \<open>
  What the recovery of automatic input guarantees over every interleaving of its calls, events and
  port answers: a recovery is completed only on evidence of neutrality that came after Core drained
  it, waiters are answered exactly once, and no ticket the coordinator took up is forgotten.
\<close>

section \<open>Evidence\<close>

text \<open>Core inspected and drained exactly this recovery.\<close>

definition inspected :: "recovery_identity \<Rightarrow> recovery_event list \<Rightarrow> bool" where
  "inspected i l \<longleftrightarrow> list_ex (\<lambda>e. case e of Inspected j t \<Rightarrow> j = i \<and> exact_ticket t i | _ \<Rightarrow> False) l"

definition core_drained :: "recovery_identity \<Rightarrow> recovery_event list \<Rightarrow> bool" where
  "core_drained i l \<longleftrightarrow> inspected i l \<and>
     list_ex (\<lambda>e. case e of Drained j d \<Rightarrow> j = i \<and> exact_epoch d i | _ \<Rightarrow> False) l"

text \<open>An event that happened after that.\<close>

fun after_drain :: "recovery_identity \<Rightarrow> (recovery_event \<Rightarrow> bool) \<Rightarrow> recovery_event list \<Rightarrow> bool" where
  "after_drain i P [] \<longleftrightarrow> False"
| "after_drain i P (e # l) \<longleftrightarrow> (P e \<and> core_drained i l) \<or> after_drain i P l"

definition accepted_game :: "context_identity \<Rightarrow> recovery_event \<Rightarrow> bool" where
  "accepted_game i e \<longleftrightarrow> (case e of ContextAccepted c \<Rightarrow> matchesGameContext c i | _ \<Rightarrow> False)"

definition game_context_of :: "active_recovery \<Rightarrow> recovery_event \<Rightarrow> bool" where
  "game_context_of rv e \<longleftrightarrow>
     accepted_game (identity_of (ar_context rv)) e"

definition replacement_of :: "active_recovery \<Rightarrow> recovery_event \<Rightarrow> bool" where
  "replacement_of rv e \<longleftrightarrow>
     (case e of
        ContextAccepted c \<Rightarrow> ic_roleId c = recovery_role rv \<and>
          ic_surfaceGeneration c = ic_surfaceGeneration (ar_context rv) \<and>
          ic_documentInstanceId c \<noteq> ic_documentInstanceId (ar_context rv)
      | _ \<Rightarrow> False)"

definition resumed_for :: "active_recovery \<Rightarrow> recovery_event \<Rightarrow> bool" where
  "resumed_for rv e \<longleftrightarrow>
     (case e of Resumed q g b \<Rightarrow> b \<and> q = recovery_role rv \<and> g = ic_surfaceGeneration (ar_context rv) | _ \<Rightarrow> False)"

definition proof_for :: "active_recovery \<Rightarrow> recovery_event \<Rightarrow> bool" where
  "proof_for rv e \<longleftrightarrow> (case e of ProofSeen p \<Rightarrow> rp_roleId p = recovery_role rv \<and> proof_fits p rv | _ \<Rightarrow> False)"

definition neutralized_for :: "active_recovery \<Rightarrow> recovery_event \<Rightarrow> bool" where
  "neutralized_for rv e \<longleftrightarrow>
     (case e of Neutralized rv' n \<Rightarrow> rv' = rv \<and> exact_neutralization n (ar_identity rv) | _ \<Rightarrow> False)"

definition evidence :: "active_recovery \<Rightarrow> recovery_event list \<Rightarrow> bool" where
  "evidence rv l \<longleftrightarrow> core_drained (ar_identity rv) l \<and>
     (case ar_cause rv of
        ContextBlocked \<Rightarrow> after_drain (ar_identity rv) (game_context_of rv) l
      | NativeIndeterminate \<Rightarrow>
          list_ex (proof_for rv) l \<or> after_drain (ar_identity rv) (neutralized_for rv) l \<or>
          (after_drain (ar_identity rv) (resumed_for rv) l \<and> after_drain (ar_identity rv) (replacement_of rv) l))"

definition waiter_evidence :: "context_identity \<Rightarrow> recovery_event list \<Rightarrow> bool" where
  "waiter_evidence i l \<longleftrightarrow> Challenged i \<in> set l \<and>
     list_ex (accepted_game i) l"

fun event_ok :: "recovery_event \<Rightarrow> recovery_event list \<Rightarrow> bool" where
  "event_ok (CompleteAsked rv) l \<longleftrightarrow> evidence rv l"
| "event_ok (WaiterResolved n i) l \<longleftrightarrow> waiter_evidence i l"
| "event_ok _ l \<longleftrightarrow> True"

fun sound_log :: "recovery_event list \<Rightarrow> bool" where
  "sound_log [] \<longleftrightarrow> True"
| "sound_log (e # l) \<longleftrightarrow> event_ok e l \<and> sound_log l"

lemma inspected_mono [simp]: "inspected i l \<Longrightarrow> inspected i (e # l)"
  by (simp add: inspected_def)

lemma drained_mono [simp]: "core_drained i l \<Longrightarrow> core_drained i (e # l)"
  by (simp add: core_drained_def)

lemma drained_inspected: "core_drained i l \<Longrightarrow> inspected i l"
  by (simp add: core_drained_def)

lemma after_drain_drained: "after_drain i P l \<Longrightarrow> core_drained i l"
  by (induction l) auto

lemma sound_split: "sound_log (l' @ e # l) \<Longrightarrow> event_ok e l"
  by (induction l') auto

section \<open>The invariant\<close>

definition recovery_ok :: "string \<Rightarrow> active_recovery \<Rightarrow> recovery_event list \<Rightarrow> bool" where
  "recovery_ok q rv l \<longleftrightarrow> recovery_role rv = q \<and> ic_roleId (ar_context rv) = q \<and> core_drained (ar_identity rv) l"

fun job_ok :: "string \<Rightarrow> recovery_job \<Rightarrow> bool" where
  "job_ok q (ChallengeJob i raw) \<longleftrightarrow> fi_roleId i = q"
| "job_ok q (ObserveJob c) \<longleftrightarrow> ic_roleId c = q"
| "job_ok q (ProofJob p) \<longleftrightarrow> rp_roleId p = q"
| "job_ok q (EstablishJob reports i cause) \<longleftrightarrow> ri_roleId i = q"
| "job_ok q (FailJob rv) \<longleftrightarrow> recovery_role rv = q"

fun stage_ok :: "string \<Rightarrow> recovery_stage \<Rightarrow> recovery_event list \<Rightarrow> bool" where
  "stage_ok q (Resuming rv c) l \<longleftrightarrow> recovery_ok q rv l \<and> ar_cause rv = NativeIndeterminate \<and>
     after_drain (ar_identity rv) (replacement_of rv) l"
| "stage_ok q (Inspecting reports i cause c) l \<longleftrightarrow> ri_roleId i = q \<and> (\<forall>x. c = Some x \<longrightarrow> ic_roleId x = q)"
| "stage_ok q (DrainingInput reports i cause c) l \<longleftrightarrow> ri_roleId i = q \<and> ic_roleId c = q \<and> inspected i l"
| "stage_ok q (RetiringShortcuts reports i c) l \<longleftrightarrow> ri_roleId i = q \<and> ic_roleId c = q \<and> core_drained i l"
| "stage_ok q (Neutralizing reports rv) l \<longleftrightarrow> recovery_ok q rv l \<and> ar_cause rv = NativeIndeterminate"
| "stage_ok q (Completing rv k) l \<longleftrightarrow> True"
| "stage_ok q (Failing i k) l \<longleftrightarrow> True"

definition recovery_inv :: "recovery_state \<Rightarrow> bool" where
  "recovery_inv s \<longleftrightarrow> sound_log (ir_log s) \<and>
     (\<forall>q c. jm_get (ir_contexts s) q = Some c \<longrightarrow> ic_roleId c = q \<and> ContextAccepted c \<in> set (ir_log s)) \<and>
     (\<forall>q ch. jm_get (ir_challenges s) q = Some ch \<longrightarrow> cd_roleId ch = q \<and> Challenged ch \<in> set (ir_log s)) \<and>
     (\<forall>q rv. jm_get (ir_recoveries s) q = Some rv \<longrightarrow> recovery_ok q rv (ir_log s)) \<and>
     (\<forall>q p. jm_get (ir_proofs s) q = Some p \<longrightarrow> rp_roleId p = q \<and> ProofSeen p \<in> set (ir_log s)) \<and>
     (\<forall>e \<in> set (ir_queue s). job_ok (fst e) (snd e)) \<and>
     (\<forall>q st. jm_get (ir_running s) q = Some st \<longrightarrow> stage_ok q st (ir_log s))"

lemma recovery_ok_mono: "recovery_ok q rv l \<Longrightarrow> recovery_ok q rv (e # l)"
  by (simp add: recovery_ok_def)

lemma stage_ok_mono: "stage_ok q st l \<Longrightarrow> stage_ok q st (e # l)"
  by (cases st) (auto simp: recovery_ok_mono)

lemma recovery_invD:
  assumes "recovery_inv s"
  shows "sound_log (ir_log s)"
    and "jm_get (ir_contexts s) q = Some c \<Longrightarrow> ic_roleId c = q \<and> ContextAccepted c \<in> set (ir_log s)"
    and "jm_get (ir_challenges s) q = Some ch \<Longrightarrow> cd_roleId ch = q \<and> Challenged ch \<in> set (ir_log s)"
    and "jm_get (ir_recoveries s) q = Some rv \<Longrightarrow> recovery_ok q rv (ir_log s)"
    and "jm_get (ir_proofs s) q = Some p \<Longrightarrow> rp_roleId p = q \<and> ProofSeen p \<in> set (ir_log s)"
    and "e \<in> set (ir_queue s) \<Longrightarrow> job_ok (fst e) (snd e)"
    and "jm_get (ir_running s) q = Some st \<Longrightarrow> stage_ok q st (ir_log s)"
  using assms unfolding recovery_inv_def by blast+

lemma inv_new: "recovery_inv new_recovery"
  by (simp add: recovery_inv_def new_recovery_def)

lemma noted_simps [simp]:
  "ir_log (noted e s) = e # ir_log s" "ir_contexts (noted e s) = ir_contexts s"
  "ir_challenges (noted e s) = ir_challenges s" "ir_recoveries (noted e s) = ir_recoveries s"
  "ir_proofs (noted e s) = ir_proofs s" "ir_queue (noted e s) = ir_queue s"
  "ir_running (noted e s) = ir_running s" "ir_navigation (noted e s) = ir_navigation s"
  "ir_waiters (noted e s) = ir_waiters s" "ir_phase (noted e s) = ir_phase s" "ir_next (noted e s) = ir_next s"
  by (simp_all add: noted_def)

lemma inv_noted:
  assumes "recovery_inv s" "event_ok e (ir_log s)"
  shows "recovery_inv (noted e s)"
  using assms recovery_ok_mono stage_ok_mono unfolding recovery_inv_def by simp

text \<open>The setters.\<close>

lemma inv_running:
  assumes "recovery_inv s" "m = ir_running s"
  shows "recovery_inv (s\<lparr>ir_running := jm_delete q m\<rparr>)"
    and "stage_ok q st (ir_log s) \<Longrightarrow> recovery_inv (s\<lparr>ir_running := jm_set q st m\<rparr>)"
  using assms unfolding recovery_inv_def by (auto split: if_splits)

lemma inv_recoveries:
  assumes "recovery_inv s" "m = ir_recoveries s"
  shows "recovery_inv (s\<lparr>ir_recoveries := jm_delete q m\<rparr>)"
    and "recovery_ok q rv (ir_log s) \<Longrightarrow> recovery_inv (s\<lparr>ir_recoveries := jm_set q rv m\<rparr>)"
  using assms unfolding recovery_inv_def by (auto split: if_splits)

lemma inv_proofs:
  assumes "recovery_inv s" "m = ir_proofs s"
  shows "recovery_inv (s\<lparr>ir_proofs := jm_delete q m\<rparr>)"
    and "ProofSeen p \<in> set (ir_log s) \<Longrightarrow> recovery_inv (s\<lparr>ir_proofs := jm_set (rp_roleId p) p m\<rparr>)"
  using assms unfolding recovery_inv_def by (auto split: if_splits)

lemma inv_contexts:
  assumes "recovery_inv s" "m = ir_contexts s"
  shows "recovery_inv (s\<lparr>ir_contexts := jm_delete q m\<rparr>)"
    and "recovery_inv (noted (ContextAccepted c) (s\<lparr>ir_contexts := jm_set (ic_roleId c) c m\<rparr>))"
  using assms recovery_ok_mono stage_ok_mono unfolding recovery_inv_def by (auto split: if_splits)

lemma inv_challenges:
  assumes "recovery_inv s" "m = ir_challenges s"
  shows "recovery_inv (s\<lparr>ir_challenges := jm_delete q m\<rparr>)"
    and "recovery_inv (noted (Challenged i) (s\<lparr>ir_challenges := jm_set (cd_roleId i) i m\<rparr>))"
  using assms recovery_ok_mono stage_ok_mono unfolding recovery_inv_def by (auto split: if_splits)

lemma inv_others:
  assumes "recovery_inv s"
  shows "recovery_inv (s\<lparr>ir_navigation := ns\<rparr>)" "recovery_inv (s\<lparr>ir_waiters := ws\<rparr>)"
    "recovery_inv (s\<lparr>ir_next := n\<rparr>)" "recovery_inv (s\<lparr>ir_phase := p\<rparr>)"
    "\<forall>e \<in> set js. job_ok (fst e) (snd e) \<Longrightarrow> recovery_inv (s\<lparr>ir_queue := js\<rparr>)"
  using assms unfolding recovery_inv_def by simp_all

section \<open>Every step keeps it\<close>

lemma inv_log_only:
  assumes "recovery_inv s" "sound_log (es @ ir_log s)"
  shows "recovery_inv (s\<lparr>ir_log := es @ ir_log s\<rparr>)"
  using assms(2)
proof (induction es)
  case (Cons e es)
  then have "recovery_inv (noted e (s\<lparr>ir_log := es @ ir_log s\<rparr>))" by (intro inv_noted) simp_all
  then show ?case by (simp add: noted_def)
qed (use assms(1) in simp)

lemma inv_answer_waiters:
  assumes "recovery_inv s"
    and "\<And>w ws l. jm_get (ir_waiters s) q = Some ws \<Longrightarrow> w \<in> set ws \<Longrightarrow> P w \<Longrightarrow>
      set (ir_log s) \<subseteq> set l \<Longrightarrow> event_ok (f w) l"
  shows "recovery_inv (answer_waiters q P f s)"
proof (cases "jm_get (ir_waiters s) q")
  case None
  then show ?thesis using assms(1) by (simp add: answer_waiters_def)
next
  case (Some ws)
  have "sound_log (rev (map f (filter P ws')) @ ir_log s)" if "set ws' \<subseteq> set ws" for ws'
    using that
  proof (induction ws' rule: rev_induct)
    case Nil
    then show ?case using recovery_invD(1) [OF assms(1)] by simp
  next
    case (snoc w xs)
    then show ?case using assms(2) [OF Some, of w "rev (map f (filter P xs)) @ ir_log s"] by auto
  qed
  then have "recovery_inv (s\<lparr>ir_log := rev (map f (filter P ws)) @ ir_log s\<rparr>)"
    using inv_log_only [OF assms(1)] by simp
  note inv = inv_others(2) [OF this]
  have "\<exists>ws'. answer_waiters q P f s = (s\<lparr>ir_log := rev (map f (filter P ws)) @ ir_log s\<rparr>)\<lparr>ir_waiters := ws'\<rparr>"
    using Some by (cases s) (simp add: answer_waiters_def Let_def)
  then show ?thesis using inv by auto
qed

lemma inv_accept_context:
  assumes "recovery_inv s"
  shows "recovery_inv (accept_context c s)"
proof -
  let ?s = "noted (ContextAccepted c) (s\<lparr>ir_contexts := jm_set (ic_roleId c) c (ir_contexts s)\<rparr>)"
  have inv: "recovery_inv ?s" by (rule inv_contexts(2) [OF assms refl])
  show ?thesis
  proof (cases "ic_target c \<noteq> GameTarget \<or> \<not> matchesChallenge (identity_of c) ?s")
    case True
    then show ?thesis using inv by (simp add: accept_context_def resolveGameContextWaiters_def)
  next
    case False
    then obtain ch where ch: "jm_get (ir_challenges ?s) (ic_roleId c) = Some ch"
      "cd_surfaceGeneration ch = ic_surfaceGeneration c" "cd_documentInstanceId ch = ic_documentInstanceId c"
      by (auto simp: matchesChallenge_def identity_of_def split: option.splits)
    have "ch = identity_of c" using recovery_invD(3) [OF inv ch(1)] ch(2,3) by (simp add: identity_of_def)
    then have chal: "Challenged (identity_of c) \<in> set (ir_log ?s)" using recovery_invD(3) [OF inv ch(1)] by simp
    have "event_ok (waiter_resolved w) l" if "matchesGameContext c (wt_identity w)" "set (ir_log ?s) \<subseteq> set l" for w l
    proof -
      have "wt_identity w = identity_of c" using that(1) by (simp add: matchesGameContext_def identity_of_def)
      moreover have "ContextAccepted c \<in> set l" "Challenged (identity_of c) \<in> set l" using that(2) chal by auto
      moreover from this have "list_ex (accepted_game (wt_identity w)) l"
        unfolding list_ex_iff by (intro bexI [of _ "ContextAccepted c"]) (simp_all add: accepted_game_def that(1))
      ultimately show ?thesis by (simp add: waiter_resolved_def waiter_evidence_def)
    qed
    then have "recovery_inv (answer_waiters (ic_roleId c) (\<lambda>w. matchesGameContext c (wt_identity w)) waiter_resolved ?s)"
      by (intro inv_answer_waiters [OF inv])
    then show ?thesis using False by (simp add: accept_context_def resolveGameContextWaiters_def)
  qed
qed

lemma inv_end_job: "recovery_inv s \<Longrightarrow> recovery_inv (end_job q a s)"
  unfolding end_job_def by (intro inv_noted inv_running(1)) simp_all

lemma inv_await: "recovery_inv s \<Longrightarrow> stage_ok q st (ir_log s) \<Longrightarrow> recovery_inv (await q st s)"
  unfolding await_def by (rule inv_running(2) [OF _ refl])

lemma inv_start_fail: "recovery_inv s \<Longrightarrow> recovery_inv (start_fail q i k s)"
  unfolding start_fail_def by (intro inv_await inv_noted) simp_all

lemma inv_start_complete: "recovery_inv s \<Longrightarrow> evidence rv (ir_log s) \<Longrightarrow> recovery_inv (start_complete q rv k s)"
  unfolding start_complete_def by (intro inv_await inv_noted) simp_all

lemma inv_catch: "recovery_inv s \<Longrightarrow> recovery_inv (catch_establish q reports i e s)"
  by (simp add: catch_establish_def inv_end_job inv_start_fail)

lemma inv_settle_fail:
  assumes "recovery_inv s" shows "recovery_inv (settle_fail q i k out s)"
proof -
  have "recovery_inv (after_failing q k s')" if "recovery_inv s'" for s'
    using that by (simp add: after_failing_def reject_job_def Let_def inv_end_job inv_catch inv_noted split: after_fail.split)
  then show ?thesis
    using assms by (simp add: settle_fail_def Let_def inv_recoveries(1) inv_noted split: sum.split)
qed

lemma inv_settle_complete: "recovery_inv s \<Longrightarrow> recovery_inv (settle_complete q rv k out s)"
  by (simp add: settle_complete_def Let_def after_completing_def inv_start_fail inv_end_job inv_recoveries(1)
      split: sum.split)

lemma inv_start_proof:
  assumes "recovery_inv s"
  shows "recovery_inv (start_proof q p s)"
proof -
  let ?s = "noted (ProofSeen p) s"
  have inv: "recovery_inv ?s" using assms by (simp add: inv_noted)
  have "evidence rv (ir_log ?s)"
    if "jm_get (ir_recoveries ?s) (rp_roleId p) = Some rv" "ar_cause rv = NativeIndeterminate" "proof_fits p rv" for rv
    using recovery_invD(4) [OF inv that(1)] that(2,3) by (simp add: evidence_def recovery_ok_def proof_for_def)
  then show ?thesis
    using inv by (simp add: start_proof_def Let_def inv_end_job inv_proofs inv_start_complete split: option.split)
qed

text \<open>An observation: the context is accepted after the recovery it belongs to was drained.\<close>

lemma answer_waiters_parts [simp]:
  "ir_recoveries (answer_waiters q P f s) = ir_recoveries s" "ir_proofs (answer_waiters q P f s) = ir_proofs s"
  "ir_contexts (answer_waiters q P f s) = ir_contexts s" "ir_challenges (answer_waiters q P f s) = ir_challenges s"
  "ir_queue (answer_waiters q P f s) = ir_queue s" "ir_running (answer_waiters q P f s) = ir_running s"
  "ir_navigation (answer_waiters q P f s) = ir_navigation s" "ir_phase (answer_waiters q P f s) = ir_phase s"
  by (simp_all add: answer_waiters_def Let_def split: option.split)

lemma answer_waiters_log: "\<exists>es. ir_log (answer_waiters q P f s) = es @ ir_log s"
  by (cases "jm_get (ir_waiters s) q") (auto simp: answer_waiters_def Let_def)

lemma accept_context_parts [simp]:
  "ir_recoveries (accept_context c s) = ir_recoveries s" "ir_queue (accept_context c s) = ir_queue s"
  "ir_running (accept_context c s) = ir_running s" "ir_navigation (accept_context c s) = ir_navigation s"
  by (simp_all add: accept_context_def resolveGameContextWaiters_def)

lemma accept_context_log: "\<exists>es. ir_log (accept_context c s) = es @ ContextAccepted c # ir_log s"
  using answer_waiters_log [of "ic_roleId c" "\<lambda>w. matchesGameContext c (wt_identity w)" waiter_resolved
      "noted (ContextAccepted c) (s\<lparr>ir_contexts := jm_set (ic_roleId c) c (ir_contexts s)\<rparr>)"]
  by (auto simp: accept_context_def resolveGameContextWaiters_def)

lemma drained_append: "core_drained i l \<Longrightarrow> core_drained i (es @ l)"
  by (induction es) simp_all

lemma after_drain_append: "after_drain i P l \<Longrightarrow> after_drain i P (es @ l)"
  by (induction es) simp_all

lemma accepted_after_drain:
  assumes "core_drained i (ir_log s)" "P (ContextAccepted c)"
  shows "after_drain i P (ir_log (accept_context c s))"
proof -
  obtain es where "ir_log (accept_context c s) = es @ ContextAccepted c # ir_log s"
    using accept_context_log by blast
  then show ?thesis using assms after_drain_append [of i P "ContextAccepted c # ir_log s" es] by simp
qed

lemma accepted_keeps: "recovery_ok q rv (ir_log s) \<Longrightarrow> recovery_ok q rv (ir_log (accept_context c s))"
  using accept_context_log [of c s] drained_append
  by (auto simp: recovery_ok_def)

lemma inv_start_observe:
  assumes inv: "recovery_inv s" and c: "ic_roleId c = q"
  shows "recovery_inv (start_observe q c s)"
proof -
  let ?s1 = "accept_context c s"
  have inv1: "recovery_inv ?s1" by (rule inv_accept_context [OF inv])
  have rep: "recovery_inv (await q (Resuming rv c) ?s1)" if "exact_replacement c s = Some rv" for rv
  proof -
    have rv: "jm_get (ir_recoveries s) q = Some rv" "ar_cause rv = NativeIndeterminate"
      "ic_surfaceGeneration (ar_context rv) = ic_surfaceGeneration c"
      "ic_documentInstanceId (ar_context rv) \<noteq> ic_documentInstanceId c"
      using that c by (auto simp: exact_replacement_def split: option.splits if_splits)
    note ok = recovery_invD(4) [OF inv rv(1)]
    then have "after_drain (ar_identity rv) (replacement_of rv) (ir_log ?s1)"
      using rv c by (intro accepted_after_drain) (auto simp: recovery_ok_def replacement_of_def)
    then show ?thesis using accepted_keeps [OF ok] rv(2) by (intro inv_await [OF inv1]) simp
  qed
  have game: "recovery_inv (start_complete q rv (ThenAccept c) ?s1)"
    if "jm_get (ir_recoveries s) (ic_roleId c) = Some rv" "ic_target c = GameTarget" "ar_cause rv = ContextBlocked"
      "ic_surfaceGeneration (ar_context rv) = ic_surfaceGeneration c"
      "ic_documentInstanceId (ar_context rv) = ic_documentInstanceId c" for rv
  proof -
    have ok: "recovery_ok q rv (ir_log s)" using recovery_invD(4) [OF inv that(1)] c by simp
    then have "after_drain (ar_identity rv) (game_context_of rv) (ir_log ?s1)"
      using that c by (intro accepted_after_drain)
        (auto simp: recovery_ok_def game_context_of_def accepted_game_def matchesGameContext_def identity_of_def)
    then show ?thesis
      using accepted_keeps [OF ok] that(3)
      by (intro inv_start_complete [OF inv1]) (simp add: evidence_def recovery_ok_def)
  qed
  show ?thesis
    using inv_end_job [OF inv] inv_end_job [OF inv1] rep game
    by (simp add: start_observe_def Let_def split: option.split)
qed

lemma inv_settle_resume:
  assumes inv: "recovery_inv s" and st: "stage_ok q (Resuming rv c) (ir_log s)"
  shows "recovery_inv (settle_resume q rv c out s)"
proof (cases out)
  case (Inr b)
  let ?s1 = "noted (Resumed (recovery_role rv) (ic_surfaceGeneration (ar_context rv)) b) s"
  have inv1: "recovery_inv ?s1" by (rule inv_noted [OF inv]) simp
  have "evidence rv (ir_log ?s1)" if b
    using st that by (simp add: evidence_def recovery_ok_def resumed_for_def)
  then show ?thesis
    using Inr inv1
    by (cases b) (simp_all add: settle_resume_def Let_def inv_start_fail inv_start_complete inv_others)
qed (simp add: settle_resume_def inv_end_job inv)

section \<open>Establishing\<close>

lemma inv_start_establish:
  assumes "recovery_inv s" "ri_roleId i = q"
  shows "recovery_inv (start_establish q reports i cause s)"
  unfolding start_establish_def
  by (rule inv_await [OF assms(1)]) (use recovery_invD(2) [OF assms(1)] assms(2) in auto)

lemma inv_settle_inspect:
  assumes "recovery_inv s" "stage_ok q (Inspecting reports i cause c) (ir_log s)"
  shows "recovery_inv (settle_inspect q reports i cause c out s)"
proof (cases out)
  case (Inr t)
  let ?s1 = "noted (Inspected i t) s"
  have inv1: "recovery_inv ?s1" by (rule inv_noted [OF assms(1)]) simp
  show ?thesis
    using assms(2) Inr inv_catch [OF inv1]
    by (auto simp: settle_inspect_def inspected_def split: bool.split option.split intro!: inv_await [OF inv1])
qed (simp add: settle_inspect_def inv_catch assms(1))

lemma inv_establish:
  assumes inv: "recovery_inv s" and i: "ri_roleId i = q" "ic_roleId c = q" "core_drained i (ir_log s)"
  shows "recovery_inv (establish_recovery q reports i cause c s)"
proof -
  let ?rv = "\<lparr>ar_context = c, ar_identity = i, ar_cause = cause\<rparr>"
  let ?s = "s\<lparr>ir_recoveries := jm_set (ri_roleId i) ?rv (ir_recoveries s)\<rparr>"
  have ok: "recovery_ok q ?rv (ir_log s)" using i by (simp add: recovery_ok_def recovery_role_def)
  have inv1: "recovery_inv ?s" by (rule inv_recoveries(2) [OF inv refl]) (use ok i in simp)
  have "evidence ?rv (ir_log s)" if "jm_get (ir_proofs s) (ri_roleId i) = Some p" "proof_fits p ?rv" "cause \<noteq> ContextBlocked" for p
    using recovery_invD(5) [OF inv that(1)] that(2,3) i
    by (cases cause) (auto simp: evidence_def list_ex_iff proof_for_def recovery_role_def intro!: bexI [of _ "ProofSeen p"])
  then show ?thesis
    using inv1 ok
    by (auto simp: establish_recovery_def Let_def split: option.split
        intro!: inv_end_job inv_start_complete inv_proofs(1) inv_await) (cases cause, simp_all)+
qed

lemma inv_settle_drain:
  assumes "recovery_inv s" "stage_ok q (DrainingInput reports i cause c) (ir_log s)"
  shows "recovery_inv (settle_drain q reports i cause c out s)"
proof (cases out)
  case (Inr d)
  let ?s1 = "noted (Drained i d) s"
  have inv1: "recovery_inv ?s1" by (rule inv_noted [OF assms(1)]) simp
  have "core_drained i (ir_log ?s1)" if "exact_epoch d i"
    using that assms(2) by (simp add: core_drained_def)
  then show ?thesis
    using assms(2) Inr inv1
    by (auto simp: settle_drain_def Let_def inv_catch intro!: inv_await inv_establish)
qed (simp add: settle_drain_def inv_catch assms(1))

lemma inv_settle_retire:
  assumes "recovery_inv s" "stage_ok q (RetiringShortcuts reports i c) (ir_log s)"
  shows "recovery_inv (settle_retire q reports i c out s)"
  using assms by (auto simp: settle_retire_def inv_catch split: sum.split intro!: inv_establish inv_noted)

lemma inv_settle_neutralize:
  assumes "recovery_inv s" "stage_ok q (Neutralizing reports rv) (ir_log s)"
  shows "recovery_inv (settle_neutralize q reports rv out s)"
proof (cases out)
  case (Inr n)
  let ?s1 = "noted (Neutralized rv n) s"
  have inv1: "recovery_inv ?s1" by (rule inv_noted [OF assms(1)]) simp
  have "evidence rv (ir_log ?s1)" if "exact_neutralization n (ar_identity rv)"
    using assms(2) that by (simp add: evidence_def recovery_ok_def neutralized_for_def)
  then show ?thesis using Inr inv1 by (simp add: settle_neutralize_def Let_def inv_catch inv_start_complete)
qed (simp add: settle_neutralize_def Let_def inv_catch assms(1))

section \<open>Jobs, answers and calls\<close>

lemma inv_start_challenge:
  assumes "recovery_inv s"
  shows "recovery_inv (start_challenge q i raw s)"
  using inv_challenges(2) [OF assms refl, where i = "identity_of c" for c]
  by (auto simp: start_challenge_def identity_of_def split: sum.split
      intro!: inv_end_job inv_accept_context assms)

lemma inv_start_job:
  assumes inv: "recovery_inv s"
  shows "recovery_inv (start_job q s)"
proof (cases "jm_has (ir_running s) q \<or> next_of_role q (ir_queue s) = None")
  case False
  then obtain j where j: "next_of_role q (ir_queue s) = Some j" by auto
  let ?s = "s\<lparr>ir_queue := drop_of_role q (ir_queue s)\<rparr>"
  have inv1: "recovery_inv ?s"
    by (rule inv_others(5) [OF inv]) (use recovery_invD(6) [OF inv] drop_of_role_subset in blast)
  have ok: "job_ok q j" using recovery_invD(6) [OF inv next_of_role_mem [OF j]] by simp
  show ?thesis
    using False j ok inv1
    by (cases j) (simp_all add: start_job_def Let_def inv_start_challenge inv_start_observe inv_start_proof
        inv_start_establish inv_start_fail)
qed (use inv in \<open>auto simp: start_job_def\<close>)

lemma inv_settle:
  assumes inv: "recovery_inv s"
  shows "recovery_inv (settle q a s)"
proof (cases "jm_get (ir_running s) q")
  case (Some st)
  note ok = recovery_invD(7) [OF inv Some]
  show ?thesis
    using Some ok inv_settle_resume [OF inv] inv_settle_inspect [OF inv] inv_settle_drain [OF inv]
      inv_settle_retire [OF inv] inv_settle_neutralize [OF inv] inv_settle_complete [OF inv]
      inv_settle_fail [OF inv] inv
    by (cases st; cases a) (simp_all add: settle_def del: stage_ok.simps)
qed (use inv in \<open>simp add: settle_def\<close>)

lemma inv_enqueue: "recovery_inv s \<Longrightarrow> job_ok q j \<Longrightarrow> recovery_inv (enqueue_recovery q j s)"
  unfolding enqueue_recovery_def by (rule inv_others(5)) (use recovery_invD(6) in auto)

lemma parse_role: "parseContext i raw = Inr c \<Longrightarrow> ic_roleId c = fi_roleId i"
  by (auto simp: parseContext_def split: raw_payload.splits prod.splits option.splits bool.splits
      raw_value.splits if_splits)

lemma inv_wait:
  assumes inv: "recovery_inv s"
  shows "recovery_inv (waitForExactGameContext i s)"
proof -
  let ?s = "s\<lparr>ir_next := Suc (ir_next s)\<rparr>"
  have inv1: "recovery_inv ?s" by (rule inv_others(3) [OF inv])
  have "waiter_evidence i (ir_log s)"
    if c: "jm_get (ir_contexts s) (cd_roleId i) = Some c" and m: "matchesGameContext c i" "matchesChallenge i ?s" for c
  proof -
    obtain ch where ch: "jm_get (ir_challenges s) (cd_roleId i) = Some ch"
      "cd_surfaceGeneration ch = cd_surfaceGeneration i" "cd_documentInstanceId ch = cd_documentInstanceId i"
      using m(2) by (auto simp: matchesChallenge_def split: option.splits)
    have "ch = i" using recovery_invD(3) [OF inv ch(1)] ch(2,3) by simp
    then have "Challenged i \<in> set (ir_log s)" using recovery_invD(3) [OF inv ch(1)] by simp
    moreover have "list_ex (accepted_game i) (ir_log s)"
      unfolding list_ex_iff
      by (rule bexI [of _ "ContextAccepted c"])
        (use recovery_invD(2) [OF inv c] m(1) in \<open>simp_all add: accepted_game_def\<close>)
    ultimately show ?thesis by (simp add: waiter_evidence_def)
  qed
  then show ?thesis
    using inv1 by (auto simp: waitForExactGameContext_def Let_def inv_others intro!: inv_noted split: option.splits)
qed

lemma inv_lifecycle:
  assumes inv: "recovery_inv s"
  shows "recovery_inv (onSurfaceLifecycle q g reason s)"
proof -
  have 1: "recovery_inv (reject_generation q g reason s)"
    unfolding reject_generation_def by (rule inv_answer_waiters [OF inv]) (simp add: waiter_rejected_def)
  have fail: "recovery_inv (enqueue_recovery q (FailJob rv)
      (t\<lparr>ir_recoveries := jm_delete q (ir_recoveries t), ir_proofs := jm_delete q (ir_proofs t), ir_navigation := ns\<rparr>))"
    if "recovery_inv t" "jm_get (ir_recoveries t) q = Some rv" for t rv ns
  proof (rule inv_enqueue)
    show "recovery_inv (t\<lparr>ir_recoveries := jm_delete q (ir_recoveries t), ir_proofs := jm_delete q (ir_proofs t), ir_navigation := ns\<rparr>)"
      using inv_others(1) [OF inv_proofs(1) [OF inv_recoveries(1) [OF that(1) refl]], of "ir_proofs t"] by simp
    show "job_ok q (FailJob rv)" using recovery_invD(4) [OF that] by (simp add: recovery_ok_def)
  qed
  have 2: "recovery_inv (forget_context q g t)" "recovery_inv (forget_challenge q g t)" if "recovery_inv t" for t
    using that by (simp_all add: forget_context_def forget_challenge_def inv_contexts(1) inv_challenges(1) split: option.split)
  have "recovery_inv (retire_recovery q g reason t)" if "recovery_inv t" for t
    using that fail by (simp add: retire_recovery_def inv_others split: option.split)
  then show ?thesis using inv 1 2 by (simp add: onSurfaceLifecycle_def)
qed

lemma inv_drain:
  assumes inv: "recovery_inv s"
  shows "recovery_inv (drain_recovery s)"
proof -
  let ?es = "rev (map (waiter_rejected context_disposed) (concat (map snd (ir_waiters s))))"
  have "sound_log (rev (map (waiter_rejected c) ws) @ ir_log s)" for c ws
    using recovery_invD(1) [OF inv] by (induction ws rule: rev_induct) (simp_all add: waiter_rejected_def)
  then have "recovery_inv (s\<lparr>ir_log := ?es @ ir_log s\<rparr>)" by (rule inv_log_only [OF inv])
  then have "sound_log (?es @ ir_log s)" by (simp add: recovery_inv_def)
  then show ?thesis using inv by (auto simp: drain_recovery_def recovery_inv_def)
qed

lemma recovery_step_inv:
  assumes "recovery_inv s"
  shows "recovery_inv (recovery_run x s)"
proof (cases x)
  case (Observe i raw)
  then show ?thesis
    using assms parse_role by (auto simp: observe_def intro!: inv_enqueue split: sum.split)
next
  case (Dispatched b e a res rep)
  then show ?thesis using assms by (auto simp: afterEffectDispatch_def intro!: inv_enqueue split: option.split)
next
  case DrainRecovery
  then show ?thesis using inv_drain [OF assms] by simp
qed (use assms in \<open>simp_all add: inv_wait inv_lifecycle inv_start_job inv_settle establishReloadDocumentChallenge_def
    observeNeutralityProof_def close_recovery_def inv_enqueue inv_others\<close>)

interpretation recovery: guarded_machine recovery_run recovery_inv
  by unfold_locales (rule recovery_step_inv)

end
