(* ===== verification/Recovery_Properties.thy ===== *)
theory Recovery_Properties
  imports Recovery_Safety "HOL-Library.Multiset"
begin

text \<open>
  The properties of the recovery of automatic input: completion on evidence, waiters answered exactly
  once, and the end of the drain.
\<close>

section \<open>Waiters\<close>

fun answered :: "recovery_event list \<Rightarrow> nat list" where
  "answered [] = []"
| "answered (WaiterResolved n i # l) = n # answered l"
| "answered (WaiterRejected n c # l) = n # answered l"
| "answered (_ # l) = answered l"

definition waiting :: "(string, context_waiter list) js_map \<Rightarrow> nat list" where
  "waiting m = map wt_number (concat (map snd m))"

text \<open>Every call was answered once or waits, under the role it asked for.\<close>

definition waiters_inv :: "recovery_state \<Rightarrow> bool" where
  "waiters_inv s \<longleftrightarrow> jm_wf (ir_waiters s) \<and>
     mset (answered (ir_log s)) + mset (waiting (ir_waiters s)) = mset [0..<ir_next s] \<and>
     (ir_phase s = Disposed \<longrightarrow> ir_waiters s = [])"

lemma answered_append: "answered (l @ l') = answered l @ answered l'"
  by (induction l rule: answered.induct) auto

lemma waiting_Cons: "waiting (e # m) = map wt_number (snd e) @ waiting m"
  by (simp add: waiting_def)

lemma waiting_sum: "mset (waiting m) = (\<Sum>e\<leftarrow>m. mset (map wt_number (snd e)))"
  by (induction m) (simp_all add: waiting_Cons, simp add: waiting_def)

lemma waiting_delete:
  "jm_wf m \<Longrightarrow> mset (waiting m) =
     mset (waiting (jm_delete q m)) + mset (case jm_get m q of None \<Rightarrow> [] | Some ws \<Rightarrow> map wt_number ws)"
  unfolding waiting_sum by (subst jm_sum_delete [of m _ q]) (simp_all split: option.split)

lemma waiting_set:
  "jm_wf m \<Longrightarrow> mset (waiting (jm_set q ws m)) = mset (waiting (jm_delete q m)) + mset (map wt_number ws)"
  unfolding waiting_sum by (simp add: jm_sum_set)

lemma answered_map:
  assumes "\<And>w. answered [f w] = [wt_number w]"
  shows "answered (map f ws) = map wt_number ws"
proof (induction ws)
  case (Cons w ws)
  then show ?case using assms [of w] answered_append [of "[f w]" "map f ws"] by simp
qed simp

lemma answered_rev: "mset (answered (rev l)) = mset (answered l)"
proof (induction l)
  case (Cons e l)
  then show ?case using answered_append [of "[e]" l] by (simp add: answered_append)
qed simp

lemma resolved_answered [simp]: "answered [waiter_resolved w] = [wt_number w]" "answered [waiter_rejected c w] = [wt_number w]"
  by (simp_all add: waiter_resolved_def waiter_rejected_def)

lemma waiters_answer:
  assumes inv: "waiters_inv s" and f: "\<And>w. answered [f w] = [wt_number w]"
  shows "waiters_inv (answer_waiters q P f s)"
proof (cases "jm_get (ir_waiters s) q")
  case None
  then show ?thesis using inv by (simp add: answer_waiters_def)
next
  case (Some ws)
  let ?left = "filter (\<lambda>w. \<not> P w) ws" and ?m = "ir_waiters s"
  let ?m' = "if ?left = [] then jm_delete q ?m else jm_set q ?left ?m"
  have wf: "jm_wf ?m" using inv by (simp add: waiters_inv_def)
  have "mset (waiting ?m') + mset (map wt_number (filter P ws)) = mset (waiting ?m)"
  proof -
    have "mset (map wt_number ws) = mset (map wt_number (filter P ws)) + mset (map wt_number ?left)"
      by (induction ws) auto
    then show ?thesis
      using waiting_delete [OF wf, of q] waiting_set [OF wf, of q ?left] Some
      by (cases "?left = []") (simp_all add: ac_simps del: mset_map mset_filter)
  qed
  moreover have "mset (answered (rev (map f (filter P ws)))) = mset (map wt_number (filter P ws))"
    by (simp only: answered_rev answered_map [OF f])
  ultimately show ?thesis
    using inv Some wf by (auto simp: answer_waiters_def Let_def waiters_inv_def answered_append ac_simps)
qed

text \<open>Nothing else touches the waiters.\<close>

definition same_waiters :: "recovery_state \<Rightarrow> recovery_state \<Rightarrow> bool" where
  "same_waiters s s' \<longleftrightarrow> ir_waiters s' = ir_waiters s \<and> ir_next s' = ir_next s \<and>
     answered (ir_log s') = answered (ir_log s) \<and> (ir_phase s' = Disposed \<longleftrightarrow> ir_phase s = Disposed)"

lemma same_waiters_inv: "waiters_inv s \<Longrightarrow> same_waiters s s' \<Longrightarrow> waiters_inv s'"
  by (simp add: waiters_inv_def same_waiters_def)

lemma same_waiters_refl [simp]: "same_waiters s s"
  by (simp add: same_waiters_def)

lemmas stage_defs = end_job_def await_def start_fail_def start_complete_def catch_establish_def
  reject_job_def after_failing_def after_completing_def complete_failed_def noted_def Let_def

lemma fail_same: "same_waiters s (settle_fail q i k out s)"
  by (cases k; cases out) (simp_all add: same_waiters_def settle_fail_def stage_defs)

lemma complete_same: "same_waiters s (settle_complete q rv k out s)"
  by (cases out) (simp_all add: same_waiters_def settle_complete_def stage_defs)

lemma resume_same: "same_waiters s (settle_resume q rv c out s)"
  by (cases out) (simp_all add: same_waiters_def settle_resume_def stage_defs)

lemma establish_same: "same_waiters s (establish_recovery q reports i cause c s)"
  by (simp add: same_waiters_def establish_recovery_def stage_defs split: option.split)

lemma same_waiters_trans: "same_waiters s s' \<Longrightarrow> same_waiters s' s'' \<Longrightarrow> same_waiters s s''"
  by (simp add: same_waiters_def)

lemma inspect_same: "same_waiters s (settle_inspect q reports i cause c out s)"
  by (simp add: same_waiters_def settle_inspect_def stage_defs split: sum.split option.split bool.split)

lemma note_same: "answered [e] = [] \<Longrightarrow> same_waiters s (noted e s)"
  using answered_append [of "[e]" "ir_log s"] by (simp add: same_waiters_def)

lemma catch_same: "same_waiters s (catch_establish q reports i e s)"
  by (simp add: same_waiters_def stage_defs)

lemma drain_same: "same_waiters s (settle_drain q reports i cause c out s)"
proof (cases out)
  case (Inr d)
  have "same_waiters s (noted (Drained i d) s)" by (rule note_same) simp
  then show ?thesis
    using Inr same_waiters_trans [OF _ establish_same] same_waiters_trans [OF _ catch_same]
    by (auto simp: settle_drain_def Let_def) (simp add: same_waiters_def await_def)
qed (simp add: settle_drain_def catch_same)

lemma retire_same: "same_waiters s (settle_retire q reports i c out s)"
proof (cases out)
  case (Inr u)
  have "same_waiters s (noted (ShortcutsRetired (ri_roleId i) (ic_surfaceGeneration c)) s)" by (rule note_same) simp
  then show ?thesis using Inr same_waiters_trans [OF _ establish_same] by (simp add: settle_retire_def)
qed (simp add: settle_retire_def catch_same)

lemma neutralize_same: "same_waiters s (settle_neutralize q reports rv out s)"
  by (cases out) (simp_all add: same_waiters_def settle_neutralize_def stage_defs)

lemma proof_same: "same_waiters s (start_proof q p s)"
  by (simp add: same_waiters_def start_proof_def stage_defs split: option.split)

lemma settle_same: "same_waiters s (settle q a s)"
  by (auto simp: settle_def resume_same inspect_same drain_same retire_same neutralize_same complete_same
      fail_same split: option.split recovery_stage.split port_answer.split)

lemma enqueue_same: "same_waiters s (enqueue_recovery q j s)"
  by (simp add: same_waiters_def enqueue_recovery_def)

lemma accept_waiters:
  assumes "waiters_inv s"
  shows "waiters_inv (accept_context c s)"
proof -
  have "waiters_inv (noted (ContextAccepted c) (s\<lparr>ir_contexts := m\<rparr>))" for m
    using assms by (simp add: waiters_inv_def)
  then show ?thesis
    by (simp add: accept_context_def resolveGameContextWaiters_def waiters_answer)
qed

lemma observe_waiters:
  assumes "waiters_inv s"
  shows "waiters_inv (start_observe q c s)"
proof -
  have fin: "waiters_inv (end_job q a t)" "waiters_inv (await q st t)" "waiters_inv (start_complete q rv k t)"
    if "waiters_inv t" for t a st rv k
    using that by (simp_all add: waiters_inv_def stage_defs)
  show ?thesis
    using assms accept_waiters [OF assms] fin by (simp add: start_observe_def Let_def split: option.split)
qed

lemma challenge_waiters:
  assumes "waiters_inv s"
  shows "waiters_inv (start_challenge q i raw s)"
proof -
  have "waiters_inv (noted (Challenged j) (s\<lparr>ir_challenges := m\<rparr>))" for j m
    using assms by (simp add: waiters_inv_def)
  moreover have "waiters_inv (end_job q a t)" if "waiters_inv t" for a t
    using that by (simp add: waiters_inv_def stage_defs)
  ultimately show ?thesis using assms accept_waiters by (simp add: start_challenge_def split: sum.split)
qed

lemma start_waiters:
  assumes "waiters_inv s"
  shows "waiters_inv (start_job q s)"
proof -
  let ?s = "s\<lparr>ir_queue := drop_of_role q (ir_queue s)\<rparr>"
  have 1: "waiters_inv ?s" using assms by (simp add: waiters_inv_def)
  have "same_waiters t (start_establish q reports i cause t)" "same_waiters t (start_fail q i k t)" for t reports i cause k
    by (simp_all add: same_waiters_def start_establish_def stage_defs)
  then show ?thesis
    using assms same_waiters_inv [OF 1] 1
    by (auto simp: start_job_def Let_def challenge_waiters observe_waiters proof_same
        split: option.split recovery_job.split)
qed

lemma wait_waiters:
  assumes "waiters_inv s"
  shows "waiters_inv (waitForExactGameContext i s)"
proof -
  let ?n = "ir_next s" and ?q = "cd_roleId i" and ?m = "ir_waiters s"
  have wf: "jm_wf ?m" and eq: "mset (answered (ir_log s)) + mset (waiting ?m) = mset [0..<?n]"
    using assms by (simp_all add: waiters_inv_def)
  let ?ws = "waiters_of s ?q @ [\<lparr>wt_number = ?n, wt_identity = i\<rparr>]"
  have "mset (waiting (jm_set ?q ?ws ?m)) = mset (waiting ?m) + {#?n#}"
    using waiting_set [OF wf, of ?q ?ws] waiting_delete [OF wf, of ?q]
    by (cases "jm_get ?m ?q") (simp_all add: waiters_of_def)
  moreover have "mset_set {0..<Suc ?n} = add_mset ?n (mset_set {0..<?n})" by (simp add: atLeast0_lessThan_Suc)
  ultimately show ?thesis
    using assms eq wf by (auto simp: waitForExactGameContext_def Let_def waiters_inv_def waiters_of_def)
qed

lemma lifecycle_waiters:
  assumes "waiters_inv s"
  shows "waiters_inv (onSurfaceLifecycle q g reason s)"
proof -
  have 1: "waiters_inv (reject_generation q g reason s)"
    unfolding reject_generation_def by (rule waiters_answer [OF assms]) simp
  have "same_waiters t (retire_recovery q g reason t)" "same_waiters t (forget_context q g t)"
    "same_waiters t (forget_challenge q g t)" for t
    by (simp_all add: same_waiters_def retire_recovery_def forget_context_def forget_challenge_def
        enqueue_recovery_def split: option.split)
  note parts = this
  have "waiters_inv (retire_recovery q g reason (forget_challenge q g (forget_context q g (reject_generation q g reason s))))"
    by (rule same_waiters_inv [OF same_waiters_inv [OF same_waiters_inv [OF 1 parts(2)] parts(3)] parts(1)])
  then show ?thesis using assms by (simp add: onSurfaceLifecycle_def)
qed

lemma drain_waiters:
  assumes "waiters_inv s"
  shows "waiters_inv (drain_recovery s)"
  using assms answered_map [of "waiter_rejected context_disposed" "concat (map snd (ir_waiters s))"]
  by (auto simp: drain_recovery_def waiters_inv_def answered_append answered_rev waiting_def ac_simps)

lemma waiters_step:
  assumes inv: "waiters_inv s"
  shows "waiters_inv (recovery_run x s)"
proof -
  note same = same_waiters_inv [OF inv]
  show ?thesis
  proof (cases x)
    case (Observe i raw)
    then show ?thesis using inv same [OF enqueue_same] by (simp add: observe_def split: sum.split)
  next
    case (Dispatched b e a res rep)
    then show ?thesis using inv same [OF enqueue_same] by (simp add: afterEffectDispatch_def split: option.split)
  next
    case CloseRecovery
    then show ?thesis using inv by (simp add: close_recovery_def waiters_inv_def)
  qed (simp_all add: inv same enqueue_same settle_same wait_waiters start_waiters lifecycle_waiters drain_waiters
      establishReloadDocumentChallenge_def observeNeutralityProof_def)
qed

interpretation waiters: guarded_machine recovery_run waiters_inv
  by unfold_locales (rule waiters_step)

section \<open>The work left\<close>

text \<open>At most so many answers end a job from where it is.\<close>

fun fail_work :: "after_fail \<Rightarrow> nat" where
  "fail_work (CatchWith reports i e) = 2"
| "fail_work _ = 1"

fun complete_work :: "after_complete \<Rightarrow> nat" where
  "complete_work (ThenEstablished reports i) = 3"
| "complete_work _ = 2"

fun stage_work :: "recovery_stage \<Rightarrow> nat" where
  "stage_work (Failing i k) = fail_work k"
| "stage_work (Completing rv k) = complete_work k"
| "stage_work (Neutralizing reports rv) = 4"
| "stage_work (RetiringShortcuts reports i c) = 5"
| "stage_work (DrainingInput reports i cause c) = 6"
| "stage_work (Inspecting reports i cause c) = 7"
| "stage_work (Resuming rv c) = 3"

definition recovery_work :: "recovery_state \<Rightarrow> nat" where
  "recovery_work s = (\<Sum>e\<leftarrow>ir_running s. stage_work (snd e)) + 8 * length (ir_queue s)"

text \<open>The answers a stage waits for.\<close>

fun answers :: "recovery_stage \<Rightarrow> port_answer \<Rightarrow> bool" where
  "answers (Resuming rv c) (ResumeAnswer out) \<longleftrightarrow> True"
| "answers (Inspecting reports i cause c) (InspectAnswer out) \<longleftrightarrow> True"
| "answers (DrainingInput reports i cause c) (DrainAnswer out) \<longleftrightarrow> True"
| "answers (RetiringShortcuts reports i c) (RetireAnswer out) \<longleftrightarrow> True"
| "answers (Neutralizing reports rv) (NeutralizeAnswer out) \<longleftrightarrow> True"
| "answers (Completing rv k) (CompleteAnswer out) \<longleftrightarrow> True"
| "answers (Failing i k) (FailAnswer out) \<longleftrightarrow> True"
| "answers _ _ \<longleftrightarrow> False"

text \<open>A step of the job of \<open>q\<close> leaves at most so much work for it, and the other jobs alone.\<close>

definition job_left :: "string \<Rightarrow> nat \<Rightarrow> recovery_state \<Rightarrow> recovery_state \<Rightarrow> bool" where
  "job_left q n s s' \<longleftrightarrow> ir_queue s' = ir_queue s \<and> ir_phase s' = ir_phase s \<and>
     (ir_running s' = jm_delete q (ir_running s) \<or>
      (\<exists>st. ir_running s' = jm_set q st (ir_running s) \<and> stage_work st \<le> n))"

lemma job_left_work:
  assumes "job_left q n s s'" "jm_wf (ir_running s)"
  shows "recovery_work s' + (case jm_get (ir_running s) q of None \<Rightarrow> 0 | Some st \<Rightarrow> stage_work st)
    \<le> recovery_work s + n" "jm_wf (ir_running s')"
  using assms jm_sum_delete [OF assms(2), of "\<lambda>e. stage_work (snd e)" q]
    jm_sum_set [OF assms(2), of "\<lambda>e. stage_work (snd e)" q]
  by (auto simp: job_left_def recovery_work_def split: option.splits)

lemma fail_left: "job_left q (fail_work k - 1) s (settle_fail q i k out s)"
  by (cases k; cases out) (auto simp: job_left_def settle_fail_def stage_defs)

lemma complete_left: "job_left q (complete_work k - 1) s (settle_complete q rv k out s)"
  by (cases k; cases out) (auto simp: job_left_def settle_complete_def stage_defs)

lemma resume_left: "job_left q 2 s (settle_resume q rv c out s)"
  by (cases out) (auto simp: job_left_def settle_resume_def stage_defs)

lemma neutralize_left: "job_left q 3 s (settle_neutralize q reports rv out s)"
  by (cases out) (auto simp: job_left_def settle_neutralize_def stage_defs)

lemma establish_left: "job_left q 4 s (establish_recovery q reports i cause c s)"
  by (auto simp: job_left_def establish_recovery_def stage_defs split: option.split)

lemma retire_left: "job_left q 4 s (settle_retire q reports i c out s)"
  by (cases out) (auto simp: job_left_def settle_retire_def establish_recovery_def stage_defs split: option.split)

lemma drain_left: "job_left q 5 s (settle_drain q reports i cause c out s)"
  by (cases out) (auto simp: job_left_def settle_drain_def establish_recovery_def stage_defs split: option.split)

lemma inspect_left: "job_left q 6 s (settle_inspect q reports i cause c out s)"
  by (auto simp: job_left_def settle_inspect_def stage_defs split: sum.split option.split bool.split)

lemma settle_left:
  assumes "jm_get (ir_running s) q = Some st" "answers st a"
  shows "job_left q (stage_work st - 1) s (settle q a s)"
  using assms(2,1) fail_left complete_left resume_left neutralize_left retire_left drain_left inspect_left
  by (cases st; cases a) (simp_all add: settle_def)

lemma settle_other:
  assumes "\<And>st. jm_get (ir_running s) q = Some st \<Longrightarrow> \<not> answers st a"
  shows "settle q a s = s"
proof (cases "jm_get (ir_running s) q")
  case (Some st)
  then show ?thesis using assms [OF Some] by (cases st; cases a) (simp_all add: settle_def)
qed (simp add: settle_def)

lemma start_left:
  assumes "\<not> jm_has (ir_running s) q" "next_of_role q (ir_queue s) = Some j"
  shows "job_left q 7 (s\<lparr>ir_queue := drop_of_role q (ir_queue s)\<rparr>) (start_job q s)"
  using assms
  by (cases j) (auto simp: start_job_def Let_def job_left_def start_challenge_def start_observe_def
      start_proof_def start_establish_def stage_defs accept_context_def resolveGameContextWaiters_def
      split: option.splits sum.splits)

lemma start_less:
  assumes "\<not> jm_has (ir_running s) q" "next_of_role q (ir_queue s) = Some j" "jm_wf (ir_running s)"
  shows "recovery_work (start_job q s) < recovery_work s" "jm_wf (ir_running (start_job q s))"
  using job_left_work [OF start_left [OF assms(1,2)]] assms(1,3) drop_of_role_length [OF assms(2)]
  by (simp_all add: jm_has_def recovery_work_def)

lemma start_none:
  "jm_has (ir_running s) q \<or> next_of_role q (ir_queue s) = None \<Longrightarrow> start_job q s = s"
  by (auto simp: start_job_def)

lemma settle_less:
  assumes "jm_get (ir_running s) q = Some st" "answers st a" "jm_wf (ir_running s)"
  shows "recovery_work (settle q a s) < recovery_work s" "jm_wf (ir_running (settle q a s))"
proof -
  have "fail_work k > 0" "complete_work k' > 0" for k k' by (cases k, auto) (cases k', auto)
  then have "stage_work st > 0" by (cases st) simp_all
  then show "recovery_work (settle q a s) < recovery_work s" "jm_wf (ir_running (settle q a s))"
    using job_left_work [OF settle_left [OF assms(1,2)] assms(3)] assms(1) by simp_all
qed

text \<open>The calls start no job and end none.\<close>

lemma enqueue_parts [simp]:
  "ir_running (enqueue_recovery q j s) = ir_running s" "ir_phase (enqueue_recovery q j s) = ir_phase s"
  by (simp_all add: enqueue_recovery_def)

lemma retire_parts:
  "ir_running (retire_recovery q g reason s) = ir_running s" "ir_phase (retire_recovery q g reason s) = ir_phase s"
  by (simp_all add: retire_recovery_def split: option.split)

lemma forget_parts:
  "ir_running (forget_context q g s) = ir_running s" "ir_phase (forget_context q g s) = ir_phase s"
  "ir_running (forget_challenge q g s) = ir_running s" "ir_phase (forget_challenge q g s) = ir_phase s"
  by (simp_all add: forget_context_def forget_challenge_def split: option.split)

lemma lifecycle_running: "ir_running (onSurfaceLifecycle q g reason s) = ir_running s"
  by (simp add: onSurfaceLifecycle_def retire_parts forget_parts reject_generation_def)

lemma wait_parts:
  "ir_running (waitForExactGameContext i s) = ir_running s" "ir_queue (waitForExactGameContext i s) = ir_queue s"
  "ir_phase (waitForExactGameContext i s) = ir_phase s"
  by (simp_all add: waitForExactGameContext_def Let_def)

lemma running_wf_step:
  assumes "jm_wf (ir_running s)"
  shows "jm_wf (ir_running (recovery_run x s))"
proof (cases x)
  case (StartJob q)
  show ?thesis
  proof (cases "jm_has (ir_running s) q \<or> next_of_role q (ir_queue s) = None")
    case True
    then show ?thesis using StartJob assms start_none [OF True] by simp
  next
    case False
    then obtain j where "next_of_role q (ir_queue s) = Some j" by blast
    then show ?thesis using StartJob False start_less(2) [OF _ _ assms] by simp
  qed
next
  case (Settle q a)
  show ?thesis
  proof (cases "\<exists>st. jm_get (ir_running s) q = Some st \<and> answers st a")
    case True
    then show ?thesis using Settle settle_less(2) [OF _ _ assms] by auto
  next
    case False
    then have "settle q a s = s" by (intro settle_other) blast
    then show ?thesis using Settle assms by simp
  qed
next
  case (Observe i raw)
  then show ?thesis using assms by (simp add: observe_def split: sum.split)
next
  case (Dispatched b e a res rep)
  then show ?thesis using assms by (simp add: afterEffectDispatch_def split: option.split)
qed (simp_all add: assms wait_parts lifecycle_running establishReloadDocumentChallenge_def observeNeutralityProof_def
    close_recovery_def drain_recovery_def)

interpretation running: guarded_machine recovery_run "\<lambda>s. jm_wf (ir_running s)"
  by unfold_locales (rule running_wf_step)

section \<open>Completion on evidence\<close>

text \<open>
  C3. In every run of the coordinator, whenever it asks Core to complete a recovery, Core had inspected
  and drained exactly that recovery before, and the input was shown to be neutral: a blocked context by a
  game context of the same document accepted after the drain; an unknown native outcome by a
  neutrality proof for the same action and surface, by an exact neutralization receipt after the drain,
  or by a resumed surface and a replacing document, both after the drain.
\<close>

theorem completed_on_evidence:
  assumes "ir_log (fold recovery_run xs new_recovery) = newer @ CompleteAsked rv # older"
  shows "evidence rv older"
  using sound_split [of newer "CompleteAsked rv" older] assms recovery_invD(1) [OF recovery.run_inv [OF inv_new, of xs]]
  by simp

text \<open>An action blocked by an embedded frame; the game takes the focus back.\<close>

definition frame_x :: overlay_frame where
  "frame_x = \<lparr>fi_roleId = ''x'', fi_generation = 1, fi_frameToken = ''t'', fi_documentInstanceId = ''d''\<rparr>"

definition seen :: "string \<Rightarrow> int \<Rightarrow> raw_payload" where
  "seen target n = RawObject [(''type'', RawString ''game-input-context''), (''documentInstanceId'', RawString ''t''),
     (''revision'', RawInt n), (''target'', RawString target)]"

definition press_x :: action_request where
  "press_x = \<lparr>requestId = ''r'', roleId = ''x'', inputEpoch = 4, request_intent = Normal,
     scheduledAtMs = 0, deadlineMs = 9, action = Focus\<rparr>"

definition blocked_x :: effect_result where
  "blocked_x = \<lparr>er_effectId = ''e'', er_operationId = ''o'', er_ok = False, er_valueJson = None,
     er_error = Some ''SYSTEM_AUTOMATIC_INPUT_CONTEXT_BLOCKED''\<rparr>"

definition accepted_x :: dispatch_report where
  "accepted_x = \<lparr>dp_accepted = [''e''], dp_duplicate = [], dp_late = [], dp_unknown = [], dp_operationMismatch = []\<rparr>"

definition ticket_x :: recovery_ticket where
  "ticket_x = \<lparr>tk_recoveryId = ''r'', tk_roleId = ''x'', tk_inputEpoch = 5\<rparr>"

definition blocked_run :: "recovery_step list" where
  "blocked_run =
     [Observe frame_x (seen ''embedded-frame'' 1), StartJob ''x'',
      Dispatched True ''e'' (Some press_x) blocked_x accepted_x, StartJob ''x'',
      Settle ''x'' (InspectAnswer (Inr ticket_x)),
      Settle ''x'' (DrainAnswer (Inr \<lparr>ep_roleId = ''x'', ep_inputEpoch = 5, ep_current = True\<rparr>)),
      Observe frame_x (seen ''game'' 2), StartJob ''x'']"

definition recovery_x :: active_recovery where
  "recovery_x = \<lparr>ar_context = \<lparr>ic_roleId = ''x'', ic_surfaceGeneration = 1, ic_documentInstanceId = ''d'',
       ic_revision = 1, ic_target = EmbeddedFrame\<rparr>,
     ar_identity = \<lparr>ri_recoveryId = ''r'', ri_roleId = ''x'', ri_expectedInputEpoch = 5\<rparr>, ar_cause = ContextBlocked\<rparr>"

theorem completed_on_evidence_witness:
  "evidence recovery_x (tl (ir_log (fold recovery_run blocked_run new_recovery)))"
proof -
  have "ir_log (fold recovery_run blocked_run new_recovery) =
      [] @ CompleteAsked recovery_x # tl (ir_log (fold recovery_run blocked_run new_recovery))"
    by code_simp
  then show ?thesis by (rule completed_on_evidence)
qed

section \<open>Waiters are answered once\<close>

text \<open>
  C12. In every run, each call of \<open>waitForExactGameContext\<close> is answered exactly once or still waits - the
  numbers answered and the numbers waiting are together the calls made so far, each once; one resolved
  was challenged and its game context accepted before; and after disposal nobody waits.
\<close>

theorem waiters_answered_once:
  assumes run: "s = fold recovery_run xs new_recovery"
  shows "mset (answered (ir_log s)) + mset (waiting (ir_waiters s)) = mset [0..<ir_next s] \<and>
    (\<forall>newer n i older. ir_log s = newer @ WaiterResolved n i # older \<longrightarrow> waiter_evidence i older) \<and>
    (ir_phase s = Disposed \<longrightarrow> waiting (ir_waiters s) = [])"
proof (intro conjI allI impI)
  have "waiters_inv new_recovery" by (simp add: waiters_inv_def new_recovery_def waiting_def)
  then have inv: "waiters_inv s" unfolding run by (rule waiters.run_inv)
  then show "mset (answered (ir_log s)) + mset (waiting (ir_waiters s)) = mset [0..<ir_next s]"
    and "ir_phase s = Disposed \<Longrightarrow> waiting (ir_waiters s) = []"
    by (simp_all add: waiters_inv_def waiting_def)
  show "waiter_evidence i older" if "ir_log s = newer @ WaiterResolved n i # older" for newer n i older
    using sound_split [of newer "WaiterResolved n i" older] that recovery_invD(1) [OF recovery.run_inv [OF inv_new, of xs]]
    by (simp add: run)
qed

definition waiting_run :: "recovery_step list" where
  "waiting_run =
     [Wait \<lparr>cd_roleId = ''x'', cd_surfaceGeneration = 1, cd_documentInstanceId = ''d''\<rparr>,
      Wait \<lparr>cd_roleId = ''x'', cd_surfaceGeneration = 2, cd_documentInstanceId = ''c''\<rparr>,
      Challenge frame_x [(''documentInstanceId'', RawString ''t''), (''revision'', RawInt 1), (''target'', RawString ''game'')],
      StartJob ''x'', CloseRecovery, DrainRecovery]"

theorem waiters_answered_once_witness:
  "mset (answered (ir_log (fold recovery_run waiting_run new_recovery))) = mset [0, 1] \<and>
   waiting (ir_waiters (fold recovery_run waiting_run new_recovery)) = []"
proof -
  let ?s = "fold recovery_run waiting_run new_recovery"
  have next2: "ir_next ?s = 2" by code_simp
  have done_: "ir_phase ?s = Disposed" by code_simp
  have up: "[0..<2] = [0, 1::nat]" by code_simp
  from waiters_answered_once [OF refl, of waiting_run] show ?thesis
    unfolding next2 up using done_ by auto
qed

section \<open>The drain ends\<close>

text \<open>A step that starts a job or answers what one awaits.\<close>

fun productive :: "recovery_step \<Rightarrow> recovery_state \<Rightarrow> bool" where
  "productive (StartJob q) s \<longleftrightarrow> \<not> jm_has (ir_running s) q \<and> next_of_role q (ir_queue s) \<noteq> None"
| "productive (Settle q a) s \<longleftrightarrow> (case jm_get (ir_running s) q of None \<Rightarrow> False | Some st \<Rightarrow> answers st a)"
| "productive _ s \<longleftrightarrow> False"

fun productive_steps :: "recovery_step list \<Rightarrow> recovery_state \<Rightarrow> nat" where
  "productive_steps [] s = 0"
| "productive_steps (x # xs) s = (if productive x s then 1 else 0) + productive_steps xs (recovery_run x s)"

lemma productive_work:
  assumes "productive x s" "jm_wf (ir_running s)"
  shows "recovery_work (recovery_run x s) < recovery_work s"
  using assms start_less(1) [OF _ _ assms(2)] settle_less(1) [OF _ _ assms(2)]
  by (cases x) (auto split: option.splits)

lemma start_settle_phase:
  "ir_phase (start_job q s) = ir_phase s" "ir_phase (settle q a s) = ir_phase s"
proof -
  show "ir_phase (start_job q s) = ir_phase s"
  proof (cases "jm_has (ir_running s) q \<or> next_of_role q (ir_queue s) = None")
    case False
    then obtain j where "next_of_role q (ir_queue s) = Some j" by blast
    then show ?thesis using start_left [of s q j] False by (simp add: job_left_def)
  qed (simp add: start_none)
  show "ir_phase (settle q a s) = ir_phase s"
  proof (cases "\<exists>st. jm_get (ir_running s) q = Some st \<and> answers st a")
    case True
    then show ?thesis using settle_left by (auto simp: job_left_def)
  next
    case False
    then have "settle q a s = s" by (intro settle_other) blast
    then show ?thesis by simp
  qed
qed

lemma closed_step:
  assumes "ir_phase s \<noteq> Open" "jm_wf (ir_running s)"
  shows "ir_phase (recovery_run x s) \<noteq> Open"
    and "recovery_work (recovery_run x s) + (if productive x s then 1 else 0) \<le> recovery_work s"
proof -
  show "ir_phase (recovery_run x s) \<noteq> Open"
    using assms(1)
    by (cases x) (simp_all add: start_settle_phase wait_parts establishReloadDocumentChallenge_def observe_def
        observeNeutralityProof_def afterEffectDispatch_def onSurfaceLifecycle_def close_recovery_def
        drain_recovery_def split: option.split)
  show "recovery_work (recovery_run x s) + (if productive x s then 1 else 0) \<le> recovery_work s"
  proof (cases "productive x s")
    case True
    then show ?thesis using productive_work [OF True assms(2)] by simp
  next
    case False
    show ?thesis
    proof (cases x)
      case (StartJob q)
      then show ?thesis using False start_none [of s q] by auto
    next
      case (Settle q a)
      then have "settle q a s = s" using False by (intro settle_other) simp
      then show ?thesis using Settle False by simp
    qed (use assms(1) False in \<open>simp_all add: wait_parts recovery_work_def establishReloadDocumentChallenge_def
        observe_def observeNeutralityProof_def afterEffectDispatch_def onSurfaceLifecycle_def close_recovery_def
        drain_recovery_def split: option.split\<close>)
  qed
qed

lemma closed_steps:
  assumes "ir_phase s \<noteq> Open" "jm_wf (ir_running s)"
  shows "productive_steps ys s \<le> recovery_work s"
  using assms
proof (induction ys arbitrary: s)
  case (Cons y ys)
  note step = closed_step [OF Cons.prems, of y]
  have "productive_steps ys (recovery_run y s) \<le> recovery_work (recovery_run y s)"
    by (rule Cons.IH [OF step(1) running_wf_step [OF Cons.prems(2)]])
  then show ?case using step(2) by simp
qed simp

lemma answerable: "\<exists>a. answers st a"
proof (cases st)
  case (Resuming rv c)
  then show ?thesis by (intro exI [of _ "ResumeAnswer (Inr True)"]) simp
next
  case (Inspecting reports i cause c)
  then show ?thesis by (intro exI [of _ "InspectAnswer (Inl PlainError)"]) simp
next
  case (DrainingInput reports i cause c)
  then show ?thesis by (intro exI [of _ "DrainAnswer (Inl PlainError)"]) simp
next
  case (RetiringShortcuts reports i c)
  then show ?thesis by (intro exI [of _ "RetireAnswer (Inl PlainError)"]) simp
next
  case (Neutralizing reports rv)
  then show ?thesis by (intro exI [of _ "NeutralizeAnswer (Inl PlainError)"]) simp
next
  case (Completing rv k)
  then show ?thesis by (intro exI [of _ "CompleteAnswer (Inl PlainError)"]) simp
next
  case (Failing i k)
  then show ?thesis by (intro exI [of _ "FailAnswer (Inl PlainError)"]) simp
qed

lemma work_startable:
  assumes "ir_queue s \<noteq> [] \<or> ir_running s \<noteq> []"
  shows "\<exists>x. productive x s"
proof -
  have settle: "\<exists>x. productive x s" if has: "jm_has (ir_running s) q" for q
  proof -
    obtain st where st: "jm_get (ir_running s) q = Some st" using has by (cases "jm_get (ir_running s) q") (simp_all add: jm_has_def)
    obtain a where "answers st a" using answerable by blast
    then have "productive (Settle q a) s" using st by simp
    then show ?thesis by blast
  qed
  show ?thesis
  proof (cases "ir_running s")
    case Nil
    then obtain q j js where "ir_queue s = (q, j) # js" using assms by (cases "ir_queue s") auto
    then have "productive (StartJob q) s" using Nil by (simp add: jm_has_def jm_get_def next_of_role_def)
    then show ?thesis by blast
  next
    case (Cons e m)
    then have "jm_has (ir_running s) (fst e)" by (cases e) (simp add: jm_has_def jm_get_def)
    then show ?thesis by (rule settle)
  qed
qed

text \<open>
  C13. Once the coordinator is closed its drain ends: however the following steps interleave, at most
  \<open>recovery_work\<close> of them start a job or answer one; as long as a job is queued or runs such a step exists;
  and when none is left, \<open>drain_recovery\<close> disposes the coordinator, with nobody left waiting.
\<close>

theorem recovery_drain_ends:
  assumes run: "s = fold recovery_run xs new_recovery" and closed: "ir_phase s = Draining"
  shows "productive_steps ys s \<le> recovery_work s \<and>
    (let t = fold recovery_run ys s
     in (\<exists>x. productive x t) \<or> ir_phase (drain_recovery t) = Disposed \<and> ir_waiters (drain_recovery t) = [])"
proof -
  have "jm_wf (ir_running new_recovery)" by (simp add: new_recovery_def)
  then have wf: "jm_wf (ir_running s)" unfolding run by (rule running.run_inv)
  let ?t = "fold recovery_run ys s"
  have open_: "ir_phase ?t \<noteq> Open"
    using running.run_stable [OF wf, of "\<lambda>s. ir_phase s \<noteq> Open" ys] closed closed_step(1) by simp
  have "waiters_inv new_recovery" by (simp add: waiters_inv_def new_recovery_def waiting_def)
  then have inv: "waiters_inv ?t" unfolding run by (intro waiters.run_inv)
  have "ir_phase (drain_recovery ?t) = Disposed \<and> ir_waiters (drain_recovery ?t) = []" if "\<nexists>x. productive x ?t"
  proof -
    have "ir_queue ?t = []" "ir_running ?t = []" using work_startable that by blast+
    then show ?thesis
      using open_ inv by (cases "ir_phase ?t") (simp_all add: drain_recovery_def waiters_inv_def)
  qed
  then show ?thesis using closed_steps [OF _ wf] closed by (auto simp: Let_def)
qed

theorem recovery_drain_ends_witness:
  "productive_steps [Settle ''x'' (CompleteAnswer (Inl PlainError)), Settle ''x'' (FailAnswer (Inl PlainError))]
     (fold recovery_run (blocked_run @ [CloseRecovery]) new_recovery) \<le> 2"
proof -
  let ?s = "fold recovery_run (blocked_run @ [CloseRecovery]) new_recovery"
  have "ir_phase ?s = Draining" by code_simp
  moreover have "recovery_work ?s = 2" by code_simp
  ultimately show ?thesis
    using recovery_drain_ends [of ?s "blocked_run @ [CloseRecovery]"] by simp
qed

end
