(* ===== verification/Window_Transition.thy ===== *)
theory Window_Transition
  imports Effect_Contract
begin

text \<open>
  Reveal, hide and focus work on runtime windows
  (\<open>src/src/electron/main/chromiumRuntimeOwnershipTransitionCoordinator.ts\<close>): a Core effect names the
  windows it wants shown, hidden or focused; the coordinator submits the native calls and completes the
  effect when the native hosts published exact observations of the wanted state.

  A host or binding is an object compared by reference, so it carries its number.  The effects ever
  begun are a list, an effect is its index, and the promise of its continuation is \<open>pe_outcome\<close>.  A native
  call may publish observations before it returns or throws: the environment says which, by the number
  of the call.  \<open>wt_calls\<close> is a ghost: the native calls made, with the effect and the window they were for.
\<close>

section \<open>Data\<close>

datatype host_platform = Macos | Windows

datatype observation_source =
  OnBlur | OnClosed | OnFailed | OnFocus | OnHide | OnInitial | OnMinimize | OnRestore | OnShow

datatype transition_mode = FocusMode | HideMode | RevealMode

record appkit_identity =
  ak_logicalWindowId :: string
  ak_launchGeneration :: string
  ak_nativeGeneration :: int

record window_observation =
  ob_platform :: host_platform
  ob_source :: observation_source
  ob_sequence :: int
  ob_lifecycleEpoch :: int
  ob_logicalWindowId :: string
  ob_nativeHostId :: int
  ob_nativeGeneration :: int
  ob_windowGeneration :: int
  ob_topologyRevision :: int
  ob_visible :: bool
  ob_minimized :: bool
  ob_focused :: bool
  ob_foreground :: bool
  ob_appKitIdentity :: "appkit_identity option"
  ob_failureCode :: "string option"

record runtime_host =
  ho_object :: nat
  ho_id :: int
  ho_logicalWindowId :: string
  ho_appKitIdentity :: "appkit_identity option"
  ho_windowState :: bool  \<comment> \<open>\<open>bindRuntimeWindowState\<close> and \<open>readRuntimeWindowState\<close> exist\<close>
  ho_showInactive :: bool  \<comment> \<open>\<open>showInactive\<close> exists\<close>

record transition_window =
  tw_host :: runtime_host
  tw_mode :: transition_mode
  tw_topologyRevision :: int
  tw_windowGeneration :: int

record host_binding =
  bd_object :: nat
  bd_host :: runtime_host
  bd_last :: window_observation

record pending_window =
  pw_binding :: nat
  pw_host :: runtime_host
  pw_initialSequence :: int
  pw_mode :: transition_mode
  pw_topologyRevision :: int
  pw_windowGeneration :: int
  pw_applied :: "window_observation option"
  pw_submitted :: bool

datatype transition_status = AppliedStatus | SupersededStatus

record transition_receipt =
  tr_effectId :: string
  tr_lifecycleEpoch :: int
  tr_operationId :: string
  tr_status :: transition_status
  tr_windows :: "window_observation list"

record window_effect =
  pe_effectId :: string
  pe_operationId :: string
  pe_lifecycleEpoch :: int
  pe_windows :: "pending_window list"
  pe_outcome :: "transition_receipt outcome option"

datatype native_call = ShowInactive | FocusCall | HideCall

record transitions =
  wt_bindings :: "(string, host_binding) js_map"
  wt_effects :: "window_effect list"
  wt_pending :: "(string, nat) js_map"
  wt_pendingByWindow :: "(string, nat list) js_map"
  wt_retiredFocus :: "(string, int \<times> int) js_map"  \<comment> \<open>lifecycle epoch and minimum sequence\<close>
  wt_focusEffect :: "nat option"
  wt_closed :: bool
  wt_nextObject :: nat
  wt_errors :: "string list"
  wt_calls :: "(nat \<times> nat \<times> native_call) list"

definition no_transitions :: transitions where
  "no_transitions = \<lparr>wt_bindings = [], wt_effects = [], wt_pending = [], wt_pendingByWindow = [],
     wt_retiredFocus = [], wt_focusEffect = None, wt_closed = False, wt_nextObject = 0, wt_errors = [],
     wt_calls = []\<rparr>"

abbreviation effect_at :: "nat \<Rightarrow> transitions \<Rightarrow> window_effect" where
  "effect_at n s \<equiv> wt_effects s ! n"

definition effect_settled :: "nat \<Rightarrow> transitions \<Rightarrow> bool" where
  "effect_settled n s \<longleftrightarrow> pe_outcome (effect_at n s) \<noteq> None"

definition update_effect :: "nat \<Rightarrow> (window_effect \<Rightarrow> window_effect) \<Rightarrow> transitions \<Rightarrow> transitions" where
  "update_effect n f s = s\<lparr>wt_effects := (wt_effects s)[n := f (effect_at n s)]\<rparr>"

definition window_id :: "pending_window \<Rightarrow> string" where
  "window_id w = ho_logicalWindowId (pw_host w)"

section \<open>Observations\<close>

definition validFence :: "int \<Rightarrow> bool" where
  "validFence n \<longleftrightarrow> isSafeInteger n \<and> n \<ge> 1"

text \<open>The flags are booleans by type.\<close>

definition validObservation :: "window_observation \<Rightarrow> bool" where
  "validObservation ob \<longleftrightarrow>
     validFence (ob_sequence ob) \<and> validFence (ob_lifecycleEpoch ob) \<and> validFence (ob_nativeHostId ob) \<and>
     validFence (ob_nativeGeneration ob) \<and> validFence (ob_windowGeneration ob) \<and>
     validFence (ob_topologyRevision ob) \<and>
     ob_logicalWindowId ob \<noteq> [] \<and> ob_logicalWindowId ob = js_trim (ob_logicalWindowId ob)"

definition observation_invalid :: js_error where
  "observation_invalid = BridgeError ''ELECTRON_CHROMIUM_WINDOW_OBSERVATION_INVALID''"

definition validateObservation :: "runtime_host \<Rightarrow> window_observation \<Rightarrow> unit outcome" where
  "validateObservation h ob =
     (if \<not> validObservation ob \<or>
         ob_logicalWindowId ob \<noteq> ho_logicalWindowId h \<or>
         ob_nativeHostId ob \<noteq> ho_id h \<or>
         (ob_platform ob = Macos) \<noteq> (ho_appKitIdentity h \<noteq> None) \<or>
         (ho_appKitIdentity h \<noteq> None \<and> ob_appKitIdentity ob \<noteq> ho_appKitIdentity h)
      then Inl observation_invalid else Inr ())"

fun satisfies :: "transition_mode \<Rightarrow> window_observation \<Rightarrow> bool" where
  "satisfies FocusMode ob \<longleftrightarrow> ob_visible ob \<and> \<not> ob_minimized ob \<and> ob_focused ob \<and> ob_foreground ob"
| "satisfies HideMode ob \<longleftrightarrow> \<not> ob_visible ob"
| "satisfies RevealMode ob \<longleftrightarrow> ob_visible ob \<and> \<not> ob_minimized ob"

section \<open>Settling an effect\<close>

definition drop_owner :: "nat \<Rightarrow> string \<Rightarrow> (string, nat list) js_map \<Rightarrow> (string, nat list) js_map" where
  "drop_owner n q m =
     (case jm_get m q of
        None \<Rightarrow> m
      | Some ns \<Rightarrow> if removeAll n ns = [] then jm_delete q m else jm_set q (removeAll n ns) m)"

definition settle_effect :: "nat \<Rightarrow> transition_receipt outcome \<Rightarrow> transitions \<Rightarrow> transitions" where
  "settle_effect n out s0 =
     (let e = effect_at n s0; s = update_effect n (\<lambda>e. e\<lparr>pe_outcome := Some out\<rparr>) s0
      in s\<lparr>wt_pending := jm_delete (pe_effectId e) (wt_pending s),
           wt_focusEffect := (if wt_focusEffect s = Some n then None else wt_focusEffect s),
           wt_pendingByWindow := fold (\<lambda>w. drop_owner n (window_id w)) (pe_windows e) (wt_pendingByWindow s)\<rparr>)"

definition transition_receipt_of :: "transition_status \<Rightarrow> window_effect \<Rightarrow> transition_receipt" where
  "transition_receipt_of st e = \<lparr>tr_effectId = pe_effectId e, tr_lifecycleEpoch = pe_lifecycleEpoch e,
     tr_operationId = pe_operationId e, tr_status = st, tr_windows = List.map_filter pw_applied (pe_windows e)\<rparr>"

definition remember_window :: "int \<Rightarrow> pending_window \<Rightarrow> (string, int \<times> int) js_map \<Rightarrow> (string, int \<times> int) js_map" where
  "remember_window epoch w m =
     (if pw_mode w = FocusMode \<and> pw_submitted w \<and> pw_applied w = None
      then jm_set (window_id w) (epoch, pw_initialSequence w) m else m)"

definition rememberRetiredFocusSubmission :: "nat \<Rightarrow> transitions \<Rightarrow> transitions" where
  "rememberRetiredFocusSubmission n s =
     s\<lparr>wt_retiredFocus := fold (remember_window (pe_lifecycleEpoch (effect_at n s)))
         (pe_windows (effect_at n s)) (wt_retiredFocus s)\<rparr>"

definition supersede :: "nat \<Rightarrow> transitions \<Rightarrow> transitions" where
  "supersede n s =
     (if effect_settled n s then s
      else settle_effect n (Inr (transition_receipt_of SupersededStatus (effect_at n s))) (rememberRetiredFocusSubmission n s))"

definition completeIfApplied :: "nat \<Rightarrow> transitions \<Rightarrow> transitions" where
  "completeIfApplied n s =
     (if effect_settled n s \<or> list_ex (\<lambda>w. pw_applied w = None) (pe_windows (effect_at n s)) then s
      else settle_effect n (Inr (transition_receipt_of AppliedStatus (effect_at n s))) s)"

definition fail_effect :: "nat \<Rightarrow> js_error \<Rightarrow> transitions \<Rightarrow> transitions" where
  "fail_effect n e s = (if effect_settled n s then s else settle_effect n (Inl e) s)"

definition indeterminate :: js_error where
  "indeterminate = BridgeError ''CHROMIUM_RUNTIME_WINDOW_TRANSITION_INDETERMINATE''"

definition failFromUnknownTerminal :: "js_error \<Rightarrow> nat \<Rightarrow> transitions \<Rightarrow> transitions" where
  "failFromUnknownTerminal e n s =
     (if list_ex pw_submitted (pe_windows (effect_at n s))
      then fail_effect n indeterminate (rememberRetiredFocusSubmission n s)
      else fail_effect n e s)"

fun cancellationCode :: "cancel_reason \<Rightarrow> string" where
  "cancellationCode ActorStop = ''ELECTRON_CHROMIUM_WINDOW_TRANSITION_ACTOR_STOPPED''"
| "cancellationCode CoreCancelled = ''ELECTRON_CHROMIUM_WINDOW_TRANSITION_CORE_CANCELLED''"
| "cancellationCode DeadlineElapsed = ''ELECTRON_CHROMIUM_WINDOW_TRANSITION_DEADLINE_ELAPSED''"
| "cancellationCode EventStreamFailure = ''ELECTRON_CHROMIUM_WINDOW_TRANSITION_EVENT_STREAM_FAILED''"
| "cancellationCode FocusSuperseded = ''ELECTRON_CHROMIUM_WINDOW_TRANSITION_FOCUS_SUPERSEDED''"
| "cancellationCode LifecycleSuperseded = ''ELECTRON_CHROMIUM_WINDOW_TRANSITION_LIFECYCLE_SUPERSEDED''"

definition cancel_transition :: "string \<Rightarrow> string \<Rightarrow> cancel_reason \<Rightarrow> transitions \<Rightarrow> transitions" where
  "cancel_transition effect_id operation_id reason s =
     (case jm_get (wt_pending s) effect_id of
        None \<Rightarrow> s
      | Some n \<Rightarrow>
          if pe_operationId (effect_at n s) \<noteq> operation_id \<or> effect_settled n s then s
          else if reason = FocusSuperseded \<or> reason = LifecycleSuperseded then supersede n s
          else failFromUnknownTerminal (BridgeError (cancellationCode reason)) n s)"

section \<open>Taking in an observation\<close>

definition window_owners :: "string \<Rightarrow> transitions \<Rightarrow> nat list" where
  "window_owners q s = (case jm_get (wt_pendingByWindow s) q of None \<Rightarrow> [] | Some ns \<Rightarrow> ns)"

definition stream_failed :: string where
  "stream_failed = ''ELECTRON_CHROMIUM_WINDOW_EVENT_STREAM_FAILED''"

definition failBinding :: "runtime_host \<Rightarrow> js_error \<Rightarrow> transitions \<Rightarrow> transitions" where
  "failBinding h e s0 =
     (let s = fold (failFromUnknownTerminal e) (window_owners (ho_logicalWindowId h) s0) s0
      in s\<lparr>wt_errors := wt_errors s @ [normalizeRionBridgeError stream_failed e]\<rparr>)"

text \<open>The focus effect exists and claims another host.\<close>

definition focus_elsewhere :: "runtime_host \<Rightarrow> transitions \<Rightarrow> bool" where
  "focus_elsewhere h s =
     (case wt_focusEffect s of
        None \<Rightarrow> False
      | Some f \<Rightarrow> list_all (\<lambda>w. pw_host w \<noteq> h) (pe_windows (effect_at f s)))"

definition retired_observation :: "runtime_host \<Rightarrow> window_observation \<Rightarrow> transitions \<Rightarrow> bool" where
  "retired_observation h ob s =
     (case jm_get (wt_retiredFocus s) (ob_logicalWindowId ob) of
        None \<Rightarrow> False
      | Some (epoch, minimum) \<Rightarrow>
          ob_lifecycleEpoch ob = epoch \<and> ob_sequence ob > minimum \<and> satisfies FocusMode ob \<and> focus_elsewhere h s)"

definition observe_focus :: "runtime_host \<Rightarrow> window_observation \<Rightarrow> transitions \<Rightarrow> transitions" where
  "observe_focus h ob s =
     (if retired_observation h ob s
      then s\<lparr>wt_retiredFocus := jm_delete (ob_logicalWindowId ob) (wt_retiredFocus s)\<rparr>
      else if ob_focused ob \<and> ob_foreground ob \<and> focus_elsewhere h s
      then (case wt_focusEffect s of None \<Rightarrow> s | Some f \<Rightarrow> supersede f s)
      else s)"

fun apply_window :: "nat \<Rightarrow> window_observation \<Rightarrow> pending_window list \<Rightarrow> pending_window list" where
  "apply_window b ob [] = []"
| "apply_window b ob (w # ws) =
     (if pw_binding w = b then w\<lparr>pw_applied := Some ob\<rparr> # ws else w # apply_window b ob ws)"

definition observe_owner :: "nat \<Rightarrow> window_observation \<Rightarrow> nat \<Rightarrow> transitions \<Rightarrow> transitions" where
  "observe_owner b ob n s =
     (if effect_settled n s then s
      else (case find (\<lambda>w. pw_binding w = b) (pe_windows (effect_at n s)) of
              None \<Rightarrow> s
            | Some w \<Rightarrow>
                if ob_sequence ob \<le> pw_initialSequence w then s
                else if ob_lifecycleEpoch ob \<noteq> pe_lifecycleEpoch (effect_at n s) \<or>
                        ob_windowGeneration ob \<noteq> pw_windowGeneration w \<or>
                        ob_topologyRevision ob \<noteq> pw_topologyRevision w
                then supersede n s
                else if satisfies (pw_mode w) ob
                then completeIfApplied n (update_effect n (\<lambda>e. e\<lparr>pe_windows := apply_window b ob (pe_windows e)\<rparr>) s)
                else s))"

definition take_in :: "host_binding \<Rightarrow> window_observation \<Rightarrow> transitions \<Rightarrow> transitions" where
  "take_in b ob s = s\<lparr>wt_bindings := jm_set (ho_logicalWindowId (bd_host b)) (b\<lparr>bd_last := ob\<rparr>) (wt_bindings s)\<rparr>"

definition react_to :: "host_binding \<Rightarrow> window_observation \<Rightarrow> transitions \<Rightarrow> transitions" where
  "react_to b ob s =
     (case ob_source ob of
        OnClosed \<Rightarrow> fold supersede (window_owners (ob_logicalWindowId ob) s) s
      | OnFailed \<Rightarrow> failBinding (bd_host b)
          (BridgeError (case ob_failureCode ob of None \<Rightarrow> stream_failed | Some c \<Rightarrow> c)) s
      | _ \<Rightarrow> (let s1 = observe_focus (bd_host b) ob s
              in fold (observe_owner (bd_object b) ob) (window_owners (ob_logicalWindowId ob) s1) s1))"

text \<open>\<open>#observe\<close> for the binding object \<open>b\<close>; a retired binding is not in the map any more.\<close>

definition bound_object :: "nat \<Rightarrow> transitions \<Rightarrow> host_binding option" where
  "bound_object b s = map_option snd (find (\<lambda>e. bd_object (snd e) = b) (wt_bindings s))"

definition observe_state :: "nat \<Rightarrow> window_observation \<Rightarrow> transitions \<Rightarrow> transitions \<times> unit outcome" where
  "observe_state i ob s =
     (case (wt_closed s, bound_object i s) of
        (False, Some b) \<Rightarrow>
          (case validateObservation (bd_host b) ob of
             Inl e \<Rightarrow> (s, Inl e)
           | Inr _ \<Rightarrow> if ob_sequence ob \<le> ob_sequence (bd_last b) then (s, Inr ())
                      else (react_to b ob (take_in b ob s), Inr ()))
      | _ \<Rightarrow> (s, Inr ()))"

text \<open>The observer a host was given catches what \<open>#observe\<close> throws.\<close>

definition deliver :: "nat \<times> window_observation \<Rightarrow> transitions \<Rightarrow> transitions" where
  "deliver ev s =
     (case observe_state (fst ev) (snd ev) s of
        (s', Inl e) \<Rightarrow> (case bound_object (fst ev) s' of None \<Rightarrow> s' | Some b \<Rightarrow> failBinding (bd_host b) e s')
      | (s', Inr _) \<Rightarrow> s')"

section \<open>Binding hosts\<close>

definition transition_closed :: js_error where
  "transition_closed = BridgeError ''ELECTRON_CHROMIUM_WINDOW_TRANSITION_CLOSED''"

definition state_unavailable :: js_error where
  "state_unavailable = BridgeError ''ELECTRON_CHROMIUM_WINDOW_STATE_UNAVAILABLE''"

definition retireBinding :: "string \<Rightarrow> nat \<Rightarrow> transitions \<Rightarrow> transitions" where
  "retireBinding q i s0 =
     (let s = fold supersede (window_owners q s0) s0
      in (case jm_get (wt_bindings s) q of
            None \<Rightarrow> s
          | Some b \<Rightarrow> if bd_object b = i then s\<lparr>wt_bindings := jm_delete q (wt_bindings s)\<rparr> else s))"

text \<open>What a host answers while it is bound: the first read, the observations published by
  \<open>bindRuntimeWindowState\<close>, whether it returned an unsubscriber, and the second read.\<close>

record bind_answers =
  ba_initial :: "window_observation outcome"
  ba_events :: "window_observation list"
  ba_subscribed :: "unit outcome"
  ba_current :: "window_observation outcome"

definition subscribe_host :: "bind_answers \<Rightarrow> nat \<Rightarrow> transitions \<Rightarrow> transitions \<times> unit outcome" where
  "subscribe_host a i s0 =
     (let s = fold (\<lambda>ob. deliver (i, ob)) (ba_events a) s0
      in case and_then (ba_subscribed a) (\<lambda>_. ba_current a) of
           Inl e \<Rightarrow> (s, Inl e)
         | Inr ob \<Rightarrow> observe_state i ob s)"

definition unbind_object :: "string \<Rightarrow> nat \<Rightarrow> transitions \<Rightarrow> transitions" where
  "unbind_object q i s =
     (case jm_get (wt_bindings s) q of
        None \<Rightarrow> s
      | Some b \<Rightarrow> if bd_object b = i then s\<lparr>wt_bindings := jm_delete q (wt_bindings s)\<rparr> else s)"

definition new_binding :: "runtime_host \<Rightarrow> window_observation \<Rightarrow> transitions \<Rightarrow> transitions" where
  "new_binding h ob s =
     s\<lparr>wt_bindings := jm_set (ho_logicalWindowId h) \<lparr>bd_object = wt_nextObject s, bd_host = h, bd_last = ob\<rparr> (wt_bindings s),
       wt_nextObject := Suc (wt_nextObject s)\<rparr>"

definition bind_new :: "bind_answers \<Rightarrow> runtime_host \<Rightarrow> transitions \<Rightarrow> transitions \<times> unit outcome" where
  "bind_new a h s =
     (if \<not> ho_windowState h then (s, Inl state_unavailable)
      else (case ba_initial a of
              Inl e \<Rightarrow> (s, Inl e)
            | Inr ob \<Rightarrow>
                (case validateObservation h ob of
                   Inl e \<Rightarrow> (s, Inl e)
                 | Inr _ \<Rightarrow>
                     (case subscribe_host a (wt_nextObject s) (new_binding h ob s) of
                        (s', Inl e) \<Rightarrow> (unbind_object (ho_logicalWindowId h) (wt_nextObject s) s', Inl e)
                      | (s', Inr _) \<Rightarrow> (s', Inr ())))))"

definition bind_host :: "(runtime_host \<Rightarrow> bind_answers) \<Rightarrow> runtime_host \<Rightarrow> transitions \<Rightarrow> transitions \<times> unit outcome" where
  "bind_host ans h s =
     (case jm_get (wt_bindings s) (ho_logicalWindowId h) of
        Some b \<Rightarrow> if bd_host b = h then (s, Inr ())
                   else bind_new (ans h) h (retireBinding (ho_logicalWindowId h) (bd_object b) s)
      | None \<Rightarrow> bind_new (ans h) h s)"

fun bind_hosts :: "(runtime_host \<Rightarrow> bind_answers) \<Rightarrow> runtime_host list \<Rightarrow> transitions \<Rightarrow> transitions \<times> unit outcome" where
  "bind_hosts ans [] s = (s, Inr ())"
| "bind_hosts ans (h # hs) s =
     (case bind_host ans h s of
        (s', Inl e) \<Rightarrow> (s', Inl e)
      | (s', Inr _) \<Rightarrow> bind_hosts ans hs s')"

definition retire_missing :: "runtime_host list \<Rightarrow> string \<times> host_binding \<Rightarrow> transitions \<Rightarrow> transitions" where
  "retire_missing hosts e s =
     (if bd_host (snd e) \<notin> set hosts then retireBinding (fst e) (bd_object (snd e)) s else s)"

definition synchronize :: "(runtime_host \<Rightarrow> bind_answers) \<Rightarrow> runtime_host list \<Rightarrow> transitions \<Rightarrow> transitions \<times> unit outcome" where
  "synchronize ans hosts s =
     (if wt_closed s then (s, Inl transition_closed)
      else bind_hosts ans hosts (fold (retire_missing hosts) (wt_bindings s) s))"

section \<open>Beginning an effect\<close>

definition transition_invalid :: js_error where
  "transition_invalid = BridgeError ''ELECTRON_CHROMIUM_WINDOW_TRANSITION_INVALID''"

definition validateFence :: "window_observation \<Rightarrow> int \<Rightarrow> transition_window \<Rightarrow> unit outcome" where
  "validateFence ob epoch w =
     (if ob_lifecycleEpoch ob \<noteq> epoch \<or> ob_windowGeneration ob \<noteq> tw_windowGeneration w \<or>
         ob_topologyRevision ob \<noteq> tw_topologyRevision w
      then Inl (BridgeError ''ELECTRON_CHROMIUM_WINDOW_TRANSITION_FENCE_STALE'') else Inr ())"

definition read_initial :: "(string \<Rightarrow> window_observation outcome) \<Rightarrow> host_binding \<Rightarrow> window_observation outcome" where
  "read_initial reads b =
     (if \<not> ho_windowState (bd_host b) then Inl state_unavailable
      else and_then (reads (ho_logicalWindowId (bd_host b))) (\<lambda>ob.
             and_then (validateObservation (bd_host b) ob) (\<lambda>_. Inr (ob\<lparr>ob_source := OnInitial\<rparr>))))"

definition plan_window ::
  "(string \<Rightarrow> window_observation outcome) \<Rightarrow> int \<Rightarrow> string list \<Rightarrow> transition_window \<Rightarrow> transitions \<Rightarrow> pending_window outcome" where
  "plan_window reads epoch visited w s =
     (let q = ho_logicalWindowId (tw_host w) in
      if q \<in> set visited \<or> \<not> validFence (tw_windowGeneration w) \<or> \<not> validFence (tw_topologyRevision w)
      then Inl transition_invalid
      else (case jm_get (wt_bindings s) q of
              None \<Rightarrow> Inl (BridgeError ''ELECTRON_CHROMIUM_WINDOW_TRANSITION_HOST_STALE'')
            | Some b \<Rightarrow>
                if bd_host b \<noteq> tw_host w
                then Inl (BridgeError ''ELECTRON_CHROMIUM_WINDOW_TRANSITION_HOST_STALE'')
                else and_then (read_initial reads b) (\<lambda>ob.
                       and_then (validateFence ob epoch w) (\<lambda>_.
                         Inr \<lparr>pw_binding = bd_object b, pw_host = tw_host w, pw_initialSequence = ob_sequence ob,
                              pw_mode = tw_mode w, pw_topologyRevision = tw_topologyRevision w,
                              pw_windowGeneration = tw_windowGeneration w,
                              pw_applied = (if satisfies (tw_mode w) ob then Some ob else None),
                              pw_submitted = False\<rparr>))))"

fun plan_windows ::
  "(string \<Rightarrow> window_observation outcome) \<Rightarrow> int \<Rightarrow> string list \<Rightarrow> transition_window list \<Rightarrow> transitions
     \<Rightarrow> pending_window list outcome" where
  "plan_windows reads epoch visited [] s = Inr []"
| "plan_windows reads epoch visited (w # ws) s =
     and_then (plan_window reads epoch visited w s) (\<lambda>p.
       and_then (plan_windows reads epoch (visited @ [window_id p]) ws s) (\<lambda>ps. Inr (p # ps)))"

definition validateSubmissionCapability :: "pending_window \<Rightarrow> bool" where
  "validateSubmissionCapability w \<longleftrightarrow>
     pw_applied w \<noteq> None \<or> pw_mode w = HideMode \<or> ho_showInactive (pw_host w)"

definition conflicting :: "pending_window \<Rightarrow> pending_window \<Rightarrow> bool" where
  "conflicting w prior \<longleftrightarrow>
     pw_mode w = HideMode \<or> pw_mode w = FocusMode \<or> (pw_mode w = RevealMode \<and> pw_mode prior \<noteq> FocusMode)"

definition supersede_owner :: "pending_window \<Rightarrow> nat \<Rightarrow> transitions \<Rightarrow> transitions" where
  "supersede_owner w n s =
     (case find (\<lambda>c. pw_binding c = pw_binding w) (pe_windows (effect_at n s)) of
        None \<Rightarrow> s
      | Some prior \<Rightarrow> if conflicting w prior then supersede n s else s)"

definition supersedeConflicts :: "pending_window \<Rightarrow> transitions \<Rightarrow> transitions" where
  "supersedeConflicts w s = fold (supersede_owner w) (window_owners (window_id w) s) s"

definition supersede_focus :: "pending_window list \<Rightarrow> transitions \<Rightarrow> transitions" where
  "supersede_focus ps s =
     (case wt_focusEffect s of
        None \<Rightarrow> s
      | Some f \<Rightarrow> if list_ex (\<lambda>w. pw_mode w = FocusMode) ps then supersede f s else s)"

definition add_owner :: "nat \<Rightarrow> pending_window \<Rightarrow> (string, nat list) js_map \<Rightarrow> (string, nat list) js_map" where
  "add_owner n w m =
     jm_set (window_id w) (js_add n (case jm_get m (window_id w) of None \<Rightarrow> [] | Some ns \<Rightarrow> ns)) m"

definition register_effect :: "window_effect \<Rightarrow> transitions \<Rightarrow> transitions" where
  "register_effect e s =
     (let n = length (wt_effects s)
      in s\<lparr>wt_effects := wt_effects s @ [e],
           wt_pending := jm_set (pe_effectId e) n (wt_pending s),
           wt_pendingByWindow := fold (add_owner n) (pe_windows e) (wt_pendingByWindow s),
           wt_focusEffect := (if list_ex (\<lambda>w. pw_mode w = FocusMode) (pe_windows e) then Some n else wt_focusEffect s)\<rparr>)"

text \<open>A native call, and the observations the hosts publish before it returns or throws.\<close>

type_synonym reactions = "nat \<Rightarrow> (nat \<times> window_observation) list \<times> unit outcome"

definition native_call_at :: "reactions \<Rightarrow> nat \<Rightarrow> nat \<Rightarrow> native_call \<Rightarrow> transitions \<Rightarrow> transitions \<times> unit outcome" where
  "native_call_at react n i c s =
     (let r = react (length (wt_calls s))
      in (fold deliver (fst r) (s\<lparr>wt_calls := wt_calls s @ [(n, i, c)]\<rparr>), snd r))"

definition mark_submitted :: "nat \<Rightarrow> nat \<Rightarrow> transitions \<Rightarrow> transitions" where
  "mark_submitted n i s =
     update_effect n (\<lambda>e. e\<lparr>pe_windows := (pe_windows e)[i := (pe_windows e ! i)\<lparr>pw_submitted := True\<rparr>]\<rparr>) s"

definition claim_focus :: "reactions \<Rightarrow> nat \<Rightarrow> nat \<Rightarrow> transitions \<Rightarrow> transitions \<times> unit outcome" where
  "claim_focus react n i s =
     (if pw_applied (pe_windows (effect_at n s) ! i) \<noteq> None then native_call_at react n i FocusCall s
      else (case native_call_at react n i ShowInactive s of
              (s', Inl e) \<Rightarrow> (s', Inl e)
            | (s', Inr _) \<Rightarrow> if effect_settled n s' then (s', Inr ()) else native_call_at react n i FocusCall s'))"

definition submit_window :: "reactions \<Rightarrow> nat \<Rightarrow> nat \<Rightarrow> transitions \<Rightarrow> transitions \<times> unit outcome" where
  "submit_window react n i s =
     (let w = pe_windows (effect_at n s) ! i in
      if pw_applied w \<noteq> None \<and> pw_mode w \<noteq> FocusMode then (s, Inr ())
      else (case pw_mode w of
              FocusMode \<Rightarrow> claim_focus react n i (mark_submitted n i s)
            | HideMode \<Rightarrow> native_call_at react n i HideCall (mark_submitted n i s)
            | RevealMode \<Rightarrow> native_call_at react n i ShowInactive (mark_submitted n i s)))"

fun submit_windows :: "reactions \<Rightarrow> nat \<Rightarrow> nat list \<Rightarrow> transitions \<Rightarrow> transitions \<times> unit outcome" where
  "submit_windows react n [] s = (s, Inr ())"
| "submit_windows react n (i # is) s =
     (if effect_settled n s then (s, Inr ())
      else (case submit_window react n i s of
              (s', Inl e) \<Rightarrow> (s', Inl e)
            | (s', Inr _) \<Rightarrow> submit_windows react n is s'))"

definition submit_effect :: "reactions \<Rightarrow> nat \<Rightarrow> transitions \<Rightarrow> transitions" where
  "submit_effect react n s =
     (case submit_windows react n [0..<length (pe_windows (effect_at n s))] s of
        (s', Inl e) \<Rightarrow> completeIfApplied n (failFromUnknownTerminal e n s')
      | (s', Inr _) \<Rightarrow> completeIfApplied n s')"

definition begin_checks :: "string \<Rightarrow> int \<Rightarrow> int \<Rightarrow> transition_window list \<Rightarrow> transitions \<Rightarrow> unit outcome" where
  "begin_checks effect_id epoch current windows s =
     (if wt_closed s then Inl transition_closed
      else if \<not> validFence epoch \<or> epoch \<noteq> current
      then Inl (BridgeError ''ELECTRON_CHROMIUM_WINDOW_TRANSITION_LIFECYCLE_STALE'')
      else if jm_has (wt_pending s) effect_id \<or> windows = [] then Inl transition_invalid
      else if length (filter (\<lambda>w. tw_mode w = FocusMode) windows) > 1
      then Inl (BridgeError ''ELECTRON_CHROMIUM_FOCUS_INTENT_INVALID'')
      else Inr ())"

record begin_input =
  bi_effectId :: string
  bi_operationId :: string
  bi_lifecycleEpoch :: int
  bi_currentEpoch :: int  \<comment> \<open>what \<open>lifecycleEpoch()\<close> returns\<close>
  bi_windows :: "transition_window list"
  bi_reads :: "string \<Rightarrow> window_observation outcome"
  bi_react :: reactions

text \<open>The result is the continuation of the effect: its number.\<close>

definition begin_transition :: "begin_input \<Rightarrow> transitions \<Rightarrow> transitions \<times> nat outcome" where
  "begin_transition i s =
     (case and_then (begin_checks (bi_effectId i) (bi_lifecycleEpoch i) (bi_currentEpoch i) (bi_windows i) s)
             (\<lambda>_. plan_windows (bi_reads i) (bi_lifecycleEpoch i) [] (bi_windows i) s) of
        Inl e \<Rightarrow> (s, Inl e)
      | Inr ps \<Rightarrow>
          if list_ex (\<lambda>w. \<not> validateSubmissionCapability w) ps
          then (s, Inl (BridgeError ''ELECTRON_CHROMIUM_REVEAL_INACTIVE_UNAVAILABLE''))
          else (let s1 = supersede_focus ps (fold supersedeConflicts ps s);
                    n = length (wt_effects s1);
                    e = \<lparr>pe_effectId = bi_effectId i, pe_operationId = bi_operationId i,
                         pe_lifecycleEpoch = bi_lifecycleEpoch i, pe_windows = ps, pe_outcome = None\<rparr>
                in (submit_effect (bi_react i) n (register_effect e s1), Inr n)))"

section \<open>Life cycle\<close>

definition stale_effect :: "int \<Rightarrow> nat \<Rightarrow> transitions \<Rightarrow> transitions" where
  "stale_effect epoch n s = (if pe_lifecycleEpoch (effect_at n s) \<noteq> epoch then supersede n s else s)"

definition advanceLifecycle :: "int \<Rightarrow> transitions \<Rightarrow> transitions" where
  "advanceLifecycle epoch s =
     (if \<not> validFence epoch then s
      else fold (stale_effect epoch) (map snd (wt_pending s))
             (s\<lparr>wt_retiredFocus := filter (\<lambda>e. fst (snd e) = epoch) (wt_retiredFocus s)\<rparr>))"

definition observeExternalForeground :: "int \<Rightarrow> transitions \<Rightarrow> transitions" where
  "observeExternalForeground epoch s =
     (case wt_focusEffect s of
        None \<Rightarrow> s
      | Some f \<Rightarrow> if pe_lifecycleEpoch (effect_at f s) = epoch then supersede f s else s)"

definition cancel_number :: "cancel_reason \<Rightarrow> nat \<Rightarrow> transitions \<Rightarrow> transitions" where
  "cancel_number reason n s =
     cancel_transition (pe_effectId (effect_at n s)) (pe_operationId (effect_at n s)) reason s"

text \<open>\<open>close\<close>, with \<open>actorStop\<close> or \<open>eventStreamFailure\<close>.\<close>

definition close_transitions :: "cancel_reason \<Rightarrow> transitions \<Rightarrow> transitions" where
  "close_transitions reason s =
     (if wt_closed s then s
      else (fold (cancel_number reason) (map snd (wt_pending s)) (s\<lparr>wt_closed := True\<rparr>))
             \<lparr>wt_bindings := [], wt_retiredFocus := []\<rparr>)"

datatype transition_step =
  Synchronize "runtime_host \<Rightarrow> bind_answers" "runtime_host list"
| BeginTransition begin_input
| Observed nat window_observation
| CancelTransition string string cancel_reason
| AdvanceLifecycle int
| ExternalForeground int
| CloseTransitions bool

fun transition_run :: "transition_step \<Rightarrow> transitions \<Rightarrow> transitions" where
  "transition_run (Synchronize ans hosts) s = fst (synchronize ans hosts s)"
| "transition_run (BeginTransition i) s = fst (begin_transition i s)"
| "transition_run (Observed b ob) s = deliver (b, ob) s"
| "transition_run (CancelTransition e op reason) s = cancel_transition e op reason s"
| "transition_run (AdvanceLifecycle epoch) s = advanceLifecycle epoch s"
| "transition_run (ExternalForeground epoch) s = observeExternalForeground epoch s"
| "transition_run (CloseTransitions actor) s =
     close_transitions (if actor then ActorStop else EventStreamFailure) s"

end
