(* ===== verification/Window_Safety.thy ===== *)
theory Window_Safety
  imports Window_Transition
begin

text \<open>
  What the coordinator of window transitions guarantees over every sequence of its calls and the
  observations the hosts publish: its tables agree with the effects in flight, at most one effect claims
  the focus of the process, effects that share a window do not contradict each other, and every effect
  is settled once, as applied only on exact observations.
\<close>

section \<open>Leases\<close>

text \<open>What an effect in flight claims: for each window its mode, its binding and its host.\<close>

type_synonym window_claim = "transition_mode \<times> nat \<times> runtime_host"

definition claims :: "window_effect \<Rightarrow> window_claim set" where
  "claims e = (\<lambda>w. (pw_mode w, pw_binding w, pw_host w)) ` set (pe_windows e)"

definition windows_in :: "window_claim set \<Rightarrow> string set" where
  "windows_in C = (\<lambda>(m, b, h). ho_logicalWindowId h) ` C"

definition focus_in :: "window_claim set \<Rightarrow> bool" where
  "focus_in C \<longleftrightarrow> FocusMode \<in> fst ` C"

definition live :: "nat \<Rightarrow> transitions \<Rightarrow> bool" where
  "live n s \<longleftrightarrow> n < length (wt_effects s) \<and> \<not> effect_settled n s"

definition leases :: "transitions \<Rightarrow> nat \<Rightarrow> (string \<times> window_claim set) option" where
  "leases s n = (if live n s then Some (pe_effectId (effect_at n s), claims (effect_at n s)) else None)"

section \<open>The invariant\<close>

definition bindings_inv :: "transitions \<Rightarrow> bool" where
  "bindings_inv s \<longleftrightarrow> jm_wf (wt_bindings s) \<and> jm_wf (wt_pending s) \<and>
     (\<forall>q b. jm_get (wt_bindings s) q = Some b \<longrightarrow> ho_logicalWindowId (bd_host b) = q \<and> bd_object b < wt_nextObject s) \<and>
     (\<forall>q q' b b'. jm_get (wt_bindings s) q = Some b \<longrightarrow> jm_get (wt_bindings s) q' = Some b' \<longrightarrow>
        bd_object b = bd_object b' \<longrightarrow> q = q')"

definition bound_claim :: "window_claim \<Rightarrow> transitions \<Rightarrow> bool" where
  "bound_claim c s \<longleftrightarrow> (case c of (m, b, h) \<Rightarrow>
     \<exists>bd. jm_get (wt_bindings s) (ho_logicalWindowId h) = Some bd \<and> bd_object bd = b \<and> bd_host bd = h)"

definition tables_inv :: "transitions \<Rightarrow> bool" where
  "tables_inv s \<longleftrightarrow>
     (\<forall>i n. jm_get (wt_pending s) i = Some n \<longleftrightarrow> (\<exists>C. leases s n = Some (i, C))) \<and>
     (\<forall>q n. n \<in> set (window_owners q s) \<longleftrightarrow> (\<exists>i C. leases s n = Some (i, C) \<and> q \<in> windows_in C)) \<and>
     (\<forall>n. wt_focusEffect s = Some n \<longleftrightarrow> (\<exists>i C. leases s n = Some (i, C) \<and> focus_in C)) \<and>
     (\<forall>n i C c. leases s n = Some (i, C) \<longrightarrow> c \<in> C \<longrightarrow> bound_claim c s)"

text \<open>Two effects in flight for one window: the older claims the focus, the newer only reveals.\<close>

definition compatible :: "window_claim set \<Rightarrow> window_claim set \<Rightarrow> bool" where
  "compatible C D \<longleftrightarrow> (\<forall>x b h y b' h'. (x, b, h) \<in> C \<longrightarrow> (y, b', h') \<in> D \<longrightarrow>
     ho_logicalWindowId h = ho_logicalWindowId h' \<longrightarrow> x = FocusMode \<and> y = RevealMode)"

definition conflicts_inv :: "transitions \<Rightarrow> bool" where
  "conflicts_inv s \<longleftrightarrow> (\<forall>n m i C j D. leases s n = Some (i, C) \<longrightarrow> leases s m = Some (j, D) \<longrightarrow> n < m \<longrightarrow> compatible C D)"

text \<open>An observation shows what a window of an effect was asked for.\<close>

definition evidences :: "int \<Rightarrow> pending_window \<Rightarrow> window_observation \<Rightarrow> bool" where
  "evidences epoch w ob \<longleftrightarrow> satisfies (pw_mode w) ob \<and> validateObservation (pw_host w) ob = Inr () \<and>
     ob_lifecycleEpoch ob = epoch \<and> ob_windowGeneration ob = pw_windowGeneration w \<and>
     ob_topologyRevision ob = pw_topologyRevision w \<and> pw_initialSequence w \<le> ob_sequence ob"

definition outcome_ok :: "window_effect \<Rightarrow> bool" where
  "outcome_ok e \<longleftrightarrow>
     (case pe_outcome e of
        None \<Rightarrow> True
      | Some (Inr r) \<Rightarrow> r = transition_receipt_of SupersededStatus e \<or>
          (r = transition_receipt_of AppliedStatus e \<and> (\<forall>w \<in> set (pe_windows e). pw_applied w \<noteq> None))
      | Some (Inl err) \<Rightarrow> err = indeterminate \<or> (\<forall>w \<in> set (pe_windows e). \<not> pw_submitted w))"

definition effect_ok :: "window_effect \<Rightarrow> bool" where
  "effect_ok e \<longleftrightarrow> distinct (map window_id (pe_windows e)) \<and>
     (\<forall>w \<in> set (pe_windows e). \<forall>ob. pw_applied w = Some ob \<longrightarrow> evidences (pe_lifecycleEpoch e) w ob) \<and> outcome_ok e"

definition calls_ok :: "transitions \<Rightarrow> bool" where
  "calls_ok s \<longleftrightarrow> (\<forall>n i c. (n, i, c) \<in> set (wt_calls s) \<longrightarrow>
     n < length (wt_effects s) \<and> i < length (pe_windows (effect_at n s)) \<and> pw_submitted (pe_windows (effect_at n s) ! i))"

definition transition_inv :: "transitions \<Rightarrow> bool" where
  "transition_inv s \<longleftrightarrow> bindings_inv s \<and> tables_inv s \<and> conflicts_inv s \<and>
     (\<forall>e \<in> set (wt_effects s). effect_ok e) \<and> calls_ok s"

lemma transition_invD:
  assumes "transition_inv s"
  shows "bindings_inv s" "tables_inv s" "conflicts_inv s" "e \<in> set (wt_effects s) \<Longrightarrow> effect_ok e" "calls_ok s"
  using assms by (auto simp: transition_inv_def)

lemma tables_invD:
  assumes "tables_inv s"
  shows "jm_get (wt_pending s) i = Some n \<longleftrightarrow> (\<exists>C. leases s n = Some (i, C))"
    and "n \<in> set (window_owners q s) \<longleftrightarrow> (\<exists>i C. leases s n = Some (i, C) \<and> q \<in> windows_in C)"
    and "wt_focusEffect s = Some n \<longleftrightarrow> (\<exists>i C. leases s n = Some (i, C) \<and> focus_in C)"
    and "leases s n = Some (i, C) \<Longrightarrow> c \<in> C \<Longrightarrow> bound_claim c s"
  using assms unfolding tables_inv_def by blast+

lemma leases_live: "leases s n = Some (i, C) \<longleftrightarrow> live n s \<and> i = pe_effectId (effect_at n s) \<and> C = claims (effect_at n s)"
  by (auto simp: leases_def)

lemma live_owner: "transition_inv s \<Longrightarrow> n \<in> set (window_owners q s) \<Longrightarrow> live n s"
  by (auto simp: transition_inv_def tables_invD leases_live)

lemma live_focus: "transition_inv s \<Longrightarrow> wt_focusEffect s = Some n \<Longrightarrow> live n s"
  by (auto simp: transition_inv_def tables_invD leases_live)

lemma live_pending: "transition_inv s \<Longrightarrow> jm_get (wt_pending s) i = Some n \<Longrightarrow> live n s"
  by (auto simp: transition_inv_def tables_invD leases_live)

section \<open>Settling\<close>

definition list_at :: "(string, nat list) js_map \<Rightarrow> string \<Rightarrow> nat list" where
  "list_at m q = (case jm_get m q of None \<Rightarrow> [] | Some ns \<Rightarrow> ns)"

lemma owners_list_at: "window_owners q s = list_at (wt_pendingByWindow s) q"
  by (simp add: window_owners_def list_at_def)

lemma list_at_drop: "set (list_at (drop_owner n p m) q) = (if q = p then set (list_at m q) - {n} else set (list_at m q))"
proof -
  have "removeAll n xs = [] \<longleftrightarrow> set xs \<subseteq> {n}" for xs by (induction xs) auto
  then show ?thesis by (auto simp: list_at_def drop_owner_def split: option.split)
qed

lemma list_at_drops:
  "set (list_at (fold (\<lambda>w. drop_owner n (window_id w)) ws m) q) =
     (if q \<in> window_id ` set ws then set (list_at m q) - {n} else set (list_at m q))"
  by (induction ws arbitrary: m) (auto simp: list_at_drop)

lemma windows_in_claims: "windows_in (claims e) = window_id ` set (pe_windows e)"
  by (auto simp: windows_in_def claims_def window_id_def image_def)

lemma effects_update [simp]: "wt_effects (update_effect n f s) = (wt_effects s)[n := f (effect_at n s)]"
  by (simp add: update_effect_def)

lemma update_fields [simp]:
  "wt_bindings (update_effect n f s) = wt_bindings s" "wt_pending (update_effect n f s) = wt_pending s"
  "wt_pendingByWindow (update_effect n f s) = wt_pendingByWindow s"
  "wt_focusEffect (update_effect n f s) = wt_focusEffect s" "wt_nextObject (update_effect n f s) = wt_nextObject s"
  "wt_calls (update_effect n f s) = wt_calls s" "wt_closed (update_effect n f s) = wt_closed s"
  "wt_retiredFocus (update_effect n f s) = wt_retiredFocus s"
  by (simp_all add: update_effect_def)

lemma settle_fields [simp]:
  "wt_bindings (settle_effect n out s) = wt_bindings s" "wt_nextObject (settle_effect n out s) = wt_nextObject s"
  "wt_calls (settle_effect n out s) = wt_calls s" "wt_closed (settle_effect n out s) = wt_closed s"
  "wt_retiredFocus (settle_effect n out s) = wt_retiredFocus s"
  "wt_pending (settle_effect n out s) = jm_delete (pe_effectId (effect_at n s)) (wt_pending s)"
  "wt_focusEffect (settle_effect n out s) = (if wt_focusEffect s = Some n then None else wt_focusEffect s)"
  "wt_pendingByWindow (settle_effect n out s) =
     fold (\<lambda>w. drop_owner n (window_id w)) (pe_windows (effect_at n s)) (wt_pendingByWindow s)"
  "wt_effects (settle_effect n out s) = (wt_effects s)[n := (effect_at n s)\<lparr>pe_outcome := Some out\<rparr>]"
  by (simp_all add: settle_effect_def Let_def)

lemma settle_windows [simp]: "pe_windows ((wt_effects s)[n := (effect_at n s)\<lparr>pe_outcome := x\<rparr>] ! m) = pe_windows (effect_at m s)"
  by (cases "m = n \<and> n < length (wt_effects s)") (auto simp: nth_list_update list_update_beyond)

lemma leases_settle:
  "n < length (wt_effects s) \<Longrightarrow> leases (settle_effect n out s) = (leases s)(n := None)"
  by (rule ext) (auto simp: leases_def live_def effect_settled_def nth_list_update)

lemma bound_claim_cong: "wt_bindings s' = wt_bindings s \<Longrightarrow> bound_claim c s' = bound_claim c s"
  by (simp add: bound_claim_def)

lemma tables_settle:
  assumes tab: "tables_inv s" and n: "live n s"
  shows "tables_inv (settle_effect n out s)"
proof -
  let ?s = "settle_effect n out s" and ?e = "effect_at n s"
  have n': "n < length (wt_effects s)" using n by (simp add: live_def)
  note L = leases_settle [OF n', of out] and D = tables_invD [OF tab]
  have Ln: "leases s n = Some (pe_effectId ?e, claims ?e)" using n by (simp add: leases_live)
  have pending: "jm_get (wt_pending ?s) i = Some m \<longleftrightarrow> (\<exists>C. leases ?s m = Some (i, C))" for i m
  proof -
    have "jm_get (wt_pending s) (pe_effectId ?e) = Some n" using D(1) Ln by auto
    then show ?thesis
      using D(1) [of i m] Ln by (auto simp: L)
  qed
  have owners: "m \<in> set (window_owners q ?s) \<longleftrightarrow> (\<exists>i C. leases ?s m = Some (i, C) \<and> q \<in> windows_in C)" for q m
  proof -
    have own: "set (window_owners q ?s) = (if q \<in> windows_in (claims ?e) then set (window_owners q s) - {n} else set (window_owners q s))"
      by (simp add: owners_list_at list_at_drops windows_in_claims)
    show ?thesis using D(2) [of m q] Ln by (auto simp: own L)
  qed
  have focus: "wt_focusEffect ?s = Some m \<longleftrightarrow> (\<exists>i C. leases ?s m = Some (i, C) \<and> focus_in C)" for m
  proof (cases "m = n")
    case False
    then have "wt_focusEffect ?s = Some m \<longleftrightarrow> wt_focusEffect s = Some m" by auto
    then show ?thesis using D(3) [of m] False by (simp only: L fun_upd_apply if_False)
  qed (simp add: L)
  have "bound_claim c ?s" if "leases ?s m = Some (i, C)" "c \<in> C" for m i C c
  proof -
    have "leases s m = Some (i, C)" using that(1) by (simp add: L split: if_splits)
    then have "bound_claim c s" using that(2) by (rule D(4))
    then show ?thesis using bound_claim_cong [of ?s s c] by simp
  qed
  then show ?thesis using pending owners focus unfolding tables_inv_def by blast
qed

lemma settle_inv:
  assumes inv: "transition_inv s" and n: "live n s"
    and out: "outcome_ok ((effect_at n s)\<lparr>pe_outcome := Some out\<rparr>)"
  shows "transition_inv (settle_effect n out s)"
proof -
  let ?s = "settle_effect n out s"
  have n': "n < length (wt_effects s)" using n by (simp add: live_def)
  have "effect_ok (effect_at n s)" using transition_invD(4) [OF inv] n' by simp
  then have "effect_ok ((effect_at n s)\<lparr>pe_outcome := Some out\<rparr>)" using out by (simp add: effect_ok_def)
  then have "\<forall>e \<in> set (wt_effects ?s). effect_ok e"
    using transition_invD(4) [OF inv] set_update_subset_insert by fastforce
  moreover have "calls_ok ?s" using transition_invD(5) [OF inv] by (auto simp: calls_ok_def nth_list_update)
  moreover have "conflicts_inv ?s"
    using transition_invD(3) [OF inv] by (simp add: conflicts_inv_def leases_settle [OF n'])
  moreover have "bindings_inv ?s" using transition_invD(1) [OF inv] by (simp add: bindings_inv_def)
  ultimately show ?thesis
    using tables_settle [OF transition_invD(2) [OF inv] n] by (simp add: transition_inv_def)
qed

text \<open>Writes that leave the effects and the tables alone.\<close>

lemma transition_inv_others [simp]:
  "transition_inv (s\<lparr>wt_retiredFocus := m\<rparr>) = transition_inv s"
  "transition_inv (s\<lparr>wt_errors := es\<rparr>) = transition_inv s"
  "transition_inv (s\<lparr>wt_closed := b\<rparr>) = transition_inv s"
  by (simp_all add: transition_inv_def bindings_inv_def tables_inv_def conflicts_inv_def calls_ok_def leases_def
      live_def effect_settled_def bound_claim_def window_owners_def cong: option.case_cong)

lemma remember_inv [simp]: "transition_inv (rememberRetiredFocusSubmission n s) = transition_inv s"
  by (simp add: rememberRetiredFocusSubmission_def)

lemma remember_effects [simp]:
  "wt_effects (rememberRetiredFocusSubmission n s) = wt_effects s"
  "live m (rememberRetiredFocusSubmission n s) = live m s"
  "effect_settled m (rememberRetiredFocusSubmission n s) = effect_settled m s"
  "wt_bindings (rememberRetiredFocusSubmission n s) = wt_bindings s"
  "wt_closed (rememberRetiredFocusSubmission n s) = wt_closed s"
  "wt_calls (rememberRetiredFocusSubmission n s) = wt_calls s"
  "wt_focusEffect (rememberRetiredFocusSubmission n s) = wt_focusEffect s"
  by (simp_all add: rememberRetiredFocusSubmission_def live_def effect_settled_def)

lemma receipt_settled [simp]: "transition_receipt_of st (e\<lparr>pe_outcome := x\<rparr>) = transition_receipt_of st e"
  by (simp add: transition_receipt_of_def)

lemma supersede_inv:
  assumes "transition_inv s" "n < length (wt_effects s)"
  shows "transition_inv (supersede n s)"
  using assms by (auto simp: supersede_def live_def outcome_ok_def intro!: settle_inv)

lemma complete_transition_inv:
  assumes "transition_inv s" "n < length (wt_effects s)"
  shows "transition_inv (completeIfApplied n s)"
  using assms
  by (auto simp: completeIfApplied_def live_def outcome_ok_def list_ex_iff intro!: settle_inv)

lemma failUnknown_inv:
  assumes "transition_inv s" "n < length (wt_effects s)"
  shows "transition_inv (failFromUnknownTerminal e n s)"
  using assms
  by (auto simp: failFromUnknownTerminal_def fail_effect_def live_def outcome_ok_def list_ex_iff intro!: settle_inv)

lemma settle_length [simp]:
  "length (wt_effects (settle_effect n out s)) = length (wt_effects s)"
  "length (wt_effects (supersede n s)) = length (wt_effects s)"
  "length (wt_effects (completeIfApplied n s)) = length (wt_effects s)"
  "length (wt_effects (failFromUnknownTerminal e n s)) = length (wt_effects s)"
  by (simp_all add: supersede_def completeIfApplied_def failFromUnknownTerminal_def fail_effect_def)

lemma settle_bindings [simp]:
  "wt_bindings (supersede n s) = wt_bindings s" "wt_bindings (completeIfApplied n s) = wt_bindings s"
  "wt_bindings (failFromUnknownTerminal e n s) = wt_bindings s"
  "wt_calls (supersede n s) = wt_calls s" "wt_calls (completeIfApplied n s) = wt_calls s"
  "wt_calls (failFromUnknownTerminal e n s) = wt_calls s"
  "wt_closed (supersede n s) = wt_closed s" "wt_closed (completeIfApplied n s) = wt_closed s"
  "wt_closed (failFromUnknownTerminal e n s) = wt_closed s"
  by (simp_all add: supersede_def completeIfApplied_def failFromUnknownTerminal_def fail_effect_def)

section \<open>What stays of an effect\<close>

text \<open>What stays of a window whatever is observed or submitted.\<close>

definition window_core :: "pending_window \<Rightarrow> pending_window" where
  "window_core w = w\<lparr>pw_applied := None, pw_submitted := False\<rparr>"

lemma core_fields:
  "window_core w = window_core w' \<Longrightarrow> pw_mode w = pw_mode w' \<and> pw_binding w = pw_binding w' \<and> pw_host w = pw_host w' \<and>
     pw_initialSequence w = pw_initialSequence w' \<and> pw_topologyRevision w = pw_topologyRevision w' \<and>
     pw_windowGeneration w = pw_windowGeneration w'"
  by (cases w, cases w') (simp add: window_core_def)

lemma core_claims:
  assumes "map window_core (pe_windows e) = map window_core (pe_windows e')"
  shows "claims e = claims e'" "map window_id (pe_windows e) = map window_id (pe_windows e')"
proof -
  have c: "claims e = (\<lambda>w. (pw_mode w, pw_binding w, pw_host w)) ` set (map window_core (pe_windows e))" for e
    by (simp add: claims_def image_image window_core_def)
  show "claims e = claims e'" by (simp only: c assms)
  have w: "map window_id (pe_windows e) = map window_id (map window_core (pe_windows e))" for e
    by (simp add: window_id_def window_core_def)
  show "map window_id (pe_windows e) = map window_id (pe_windows e')" by (subst (1 2) w) (simp only: assms)
qed

definition same_shape :: "window_effect \<Rightarrow> window_effect \<Rightarrow> bool" where
  "same_shape e e' \<longleftrightarrow> pe_effectId e = pe_effectId e' \<and> map window_core (pe_windows e) = map window_core (pe_windows e')"

lemma same_shape_refl [simp]: "same_shape e e" "same_shape e (e\<lparr>pe_outcome := x\<rparr>)"
  by (simp_all add: same_shape_def)

lemma same_shape_claims: "same_shape e e' \<Longrightarrow> claims e' = claims e"
  using core_claims(1) [of e e'] by (simp add: same_shape_def)

lemma same_shape_length: "same_shape e e' \<Longrightarrow> length (pe_windows e') = length (pe_windows e)"
  unfolding same_shape_def by (metis length_map)

section \<open>Progress\<close>

text \<open>Nothing in flight has all its evidence, but for the effects \<open>E\<close> that are being begun.\<close>

definition free :: "nat set \<Rightarrow> transitions \<Rightarrow> bool" where
  "free E s \<longleftrightarrow> (\<forall>n. live n s \<longrightarrow> n \<notin> E \<longrightarrow> (\<exists>w \<in> set (pe_windows (effect_at n s)). pw_applied w = None))"

text \<open>A settled effect stays as it is, and no effect changes what it claims.\<close>

definition kept :: "transitions \<Rightarrow> transitions \<Rightarrow> bool" where
  "kept s t \<longleftrightarrow> length (wt_effects s) \<le> length (wt_effects t) \<and>
     (\<forall>n < length (wt_effects s). same_shape (effect_at n s) (effect_at n t) \<and>
        (effect_settled n s \<longrightarrow> effect_at n t = effect_at n s))"

definition good :: "nat set \<Rightarrow> transitions \<Rightarrow> bool" where
  "good E s \<longleftrightarrow> transition_inv s \<and> free E s"

definition progresses :: "nat set \<Rightarrow> transitions \<Rightarrow> transitions \<Rightarrow> bool" where
  "progresses E s t \<longleftrightarrow> (good E s \<longrightarrow> good E t \<and> kept s t)"

lemma kept_refl [simp]: "kept s s"
  by (simp add: kept_def)

lemma kept_trans:
  assumes "kept s t" "kept t u"
  shows "kept s u"
  unfolding kept_def
proof (intro conjI allI impI)
  fix n assume n: "n < length (wt_effects s)"
  then have m: "n < length (wt_effects t)" using assms(1) by (simp add: kept_def)
  show "same_shape (effect_at n s) (effect_at n u)" using assms n m by (simp add: kept_def same_shape_def)
  show "effect_at n u = effect_at n s" if "effect_settled n s"
  proof -
    have eq: "effect_at n t = effect_at n s" using assms(1) n that by (simp add: kept_def)
    then have "effect_settled n t" using that by (simp add: effect_settled_def)
    then show ?thesis using assms(2) m eq by (simp add: kept_def)
  qed
qed (use assms in \<open>simp add: kept_def\<close>)

lemma keptD:
  assumes "kept s t" "n < length (wt_effects s)"
  shows "n < length (wt_effects t)" "claims (effect_at n t) = claims (effect_at n s)"
    "length (pe_windows (effect_at n t)) = length (pe_windows (effect_at n s))"
    "pe_effectId (effect_at n t) = pe_effectId (effect_at n s)"
    "live n t \<Longrightarrow> live n s"
proof -
  have shape: "same_shape (effect_at n s) (effect_at n t)" using assms by (simp add: kept_def)
  then show "claims (effect_at n t) = claims (effect_at n s)" by (rule same_shape_claims)
  show "length (pe_windows (effect_at n t)) = length (pe_windows (effect_at n s))" using shape by (rule same_shape_length)
  show "pe_effectId (effect_at n t) = pe_effectId (effect_at n s)" using shape by (simp add: same_shape_def)
  show "n < length (wt_effects t)" using assms by (simp add: kept_def)
  show "live n s" if "live n t"
  proof (rule ccontr)
    assume "\<not> live n s"
    then have "effect_settled n s" using assms(2) by (simp add: live_def)
    moreover from this have "effect_at n t = effect_at n s" using assms by (simp add: kept_def)
    ultimately show False using that by (simp add: live_def effect_settled_def)
  qed
qed

lemma advance_refl [simp]: "progresses E s s"
  by (simp add: progresses_def)

lemma advance_trans: "progresses E s t \<Longrightarrow> progresses E t u \<Longrightarrow> progresses E s u"
  using kept_trans by (auto simp: progresses_def)

lemma advance_fold:
  assumes "\<forall>n \<in> set ns. n < length (wt_effects s)"
    and "\<And>n t. n < length (wt_effects t) \<Longrightarrow> kept s t \<Longrightarrow> progresses E t (f n t)"
  shows "progresses E s (fold f ns s)"
proof -
  have "progresses E s (fold f ns t)" if "progresses E s t" for t
    using assms(1) that
  proof (induction ns arbitrary: t)
    case (Cons n ns)
    have "progresses E s (f n t)"
    proof (cases "good E s")
      case True
      then have "kept s t" using Cons.prems(2) by (simp add: progresses_def)
      then have "progresses E t (f n t)" using Cons.prems(1) assms(2) [of n t] by (simp add: kept_def)
      then show ?thesis by (rule advance_trans [OF Cons.prems(2)])
    qed (simp add: progresses_def)
    then show ?case using Cons by simp
  qed simp
  then show ?thesis by simp
qed

lemma live_settle: "live m (settle_effect n out s) \<Longrightarrow> live m s \<and> (n < length (wt_effects s) \<longrightarrow> m \<noteq> n)"
  by (cases "m = n") (auto simp: live_def effect_settled_def)

lemma settle_good:
  assumes "free E s" "live n s" "transition_inv (settle_effect n out s)"
  shows "good E (settle_effect n out s) \<and> kept s (settle_effect n out s)"
proof -
  have n: "n < length (wt_effects s)" "\<not> effect_settled n s" using assms(2) by (simp_all add: live_def)
  have "free E (settle_effect n out s)"
    unfolding free_def
  proof (intro allI impI)
    fix m assume "live m (settle_effect n out s)" "m \<notin> E"
    then show "\<exists>w \<in> set (pe_windows (effect_at m (settle_effect n out s))). pw_applied w = None"
      using live_settle [of m n out s] n(1) assms(1) by (simp add: free_def)
  qed
  moreover have "kept s (settle_effect n out s)" using n by (auto simp: kept_def nth_list_update)
  ultimately show ?thesis using assms(3) by (simp add: good_def)
qed

lemma advance_others [simp]:
  "progresses E s (t\<lparr>wt_retiredFocus := m\<rparr>) = progresses E s t" "progresses E s (t\<lparr>wt_errors := es\<rparr>) = progresses E s t"
  "progresses E s (t\<lparr>wt_closed := b\<rparr>) = progresses E s t"
  "progresses E (rememberRetiredFocusSubmission n s) t = progresses E s t"
  by (simp_all add: progresses_def good_def free_def kept_def live_def effect_settled_def)

lemma supersede_advance:
  assumes "n < length (wt_effects s)"
  shows "progresses E s (supersede n s)"
proof (cases "effect_settled n s")
  case False
  let ?r = "rememberRetiredFocusSubmission n s"
  have "good E (supersede n s) \<and> kept ?r (supersede n s)" if "good E s"
    using settle_good [of E ?r n "Inr (transition_receipt_of SupersededStatus (effect_at n s))"] that False assms supersede_inv [of s n]
    by (simp add: supersede_def good_def free_def live_def effect_settled_def)
  then show ?thesis by (simp add: progresses_def kept_def effect_settled_def)
qed (simp add: supersede_def)

lemma failUnknown_advance:
  assumes "n < length (wt_effects s)"
  shows "progresses E s (failFromUnknownTerminal e n s)"
proof (cases "effect_settled n s")
  case True
  then have "failFromUnknownTerminal e n s = s \<or> failFromUnknownTerminal e n s = rememberRetiredFocusSubmission n s"
    by (simp add: failFromUnknownTerminal_def fail_effect_def)
  then show ?thesis by (auto simp: rememberRetiredFocusSubmission_def)
next
  case False
  let ?r = "rememberRetiredFocusSubmission n s" and ?t = "failFromUnknownTerminal e n s"
  have t: "?t = settle_effect n (Inl indeterminate) ?r \<or> ?t = settle_effect n (Inl e) s"
    using False by (simp add: failFromUnknownTerminal_def fail_effect_def)
  have "good E ?t \<and> kept s ?t" if "good E s"
    using t
  proof
    assume eq: "?t = settle_effect n (Inl indeterminate) ?r"
    then show ?thesis
      using settle_good [of E ?r n "Inl indeterminate"] that False assms failUnknown_inv [of s n e]
      by (simp add: good_def free_def live_def effect_settled_def kept_def)
  next
    assume eq: "?t = settle_effect n (Inl e) s"
    then show ?thesis
      using settle_good [of E s n "Inl e"] that False assms failUnknown_inv [of s n e]
      by (simp add: good_def live_def)
  qed
  then show ?thesis by (simp add: progresses_def)
qed

lemma owners_known: "transition_inv s \<Longrightarrow> \<forall>n \<in> set (window_owners q s). n < length (wt_effects s)"
  using live_owner by (auto simp: live_def)

lemma cancel_inv: "transition_inv s \<Longrightarrow> transition_inv (cancel_transition i op reason s)"
  using live_pending [of s i]
  by (auto simp: cancel_transition_def live_def intro: supersede_inv failUnknown_inv split: option.split)

section \<open>Observations\<close>

lemma update_inv:
  assumes inv: "transition_inv s" and n: "live n s"
    and core: "map window_core ws = map window_core (pe_windows (effect_at n s))"
    and evid: "\<forall>w \<in> set ws. \<forall>ob. pw_applied w = Some ob \<longrightarrow> evidences (pe_lifecycleEpoch (effect_at n s)) w ob"
    and sub: "\<forall>i < length ws. pw_submitted (pe_windows (effect_at n s) ! i) \<longrightarrow> pw_submitted (ws ! i)"
  shows "transition_inv (update_effect n (\<lambda>e. e\<lparr>pe_windows := ws\<rparr>) s)"
proof -
  let ?e = "effect_at n s" and ?s = "update_effect n (\<lambda>e. e\<lparr>pe_windows := ws\<rparr>) s"
  let ?e' = "?e\<lparr>pe_windows := ws\<rparr>"
  have n': "n < length (wt_effects s)" and open_: "pe_outcome ?e = None" using n by (simp_all add: live_def effect_settled_def)
  note cl = core_claims [of ?e' ?e, simplified, OF core]
  have len: "length ws = length (pe_windows ?e)" using core by (metis length_map)
  have L: "leases ?s = leases s"
  proof (rule ext)
    fix m show "leases ?s m = leases s m"
      using cl(1) n' by (cases "m = n") (simp_all add: leases_def live_def effect_settled_def)
  qed
  have "effect_ok ?e" using transition_invD(4) [OF inv] n' by simp
  then have "effect_ok ?e'" using evid open_ cl(2) by (simp add: effect_ok_def outcome_ok_def)
  then have "\<forall>e \<in> set (wt_effects ?s). effect_ok e"
    using transition_invD(4) [OF inv] set_update_subset_insert by fastforce
  moreover have "calls_ok ?s"
    using transition_invD(5) [OF inv] sub len n' by (auto simp: calls_ok_def nth_list_update)
  moreover have "bindings_inv ?s" using transition_invD(1) [OF inv] by (simp add: bindings_inv_def)
  moreover have "conflicts_inv ?s" using transition_invD(3) [OF inv] by (simp add: conflicts_inv_def L)
  moreover have "tables_inv ?s"
    using transition_invD(2) [OF inv] by (simp add: tables_inv_def L owners_list_at bound_claim_def)
  ultimately show ?thesis by (simp add: transition_inv_def)
qed

lemma complete_frees:
  assumes "good (insert n E) s" "n < length (wt_effects s)"
  shows "good E (completeIfApplied n s) \<and> kept s (completeIfApplied n s)"
proof (cases "effect_settled n s \<or> list_ex (\<lambda>w. pw_applied w = None) (pe_windows (effect_at n s))")
  case True
  then have "good E s" using assms by (auto simp: good_def free_def live_def list_ex_iff)
  then show ?thesis using True by (simp add: completeIfApplied_def)
next
  case False
  let ?t = "settle_effect n (Inr (transition_receipt_of AppliedStatus (effect_at n s))) s"
  have t: "completeIfApplied n s = ?t" using False by (simp add: completeIfApplied_def)
  have "live n s" using False assms(2) by (simp add: live_def)
  moreover have "transition_inv ?t" using complete_transition_inv [of s n] assms by (simp add: good_def t)
  ultimately have step: "good (insert n E) ?t \<and> kept s ?t" using assms(1) by (intro settle_good) (simp_all add: good_def)
  have "\<not> live n ?t" using live_settle [of n n _ s] assms(2) by blast
  then have "good E ?t" using step by (auto simp: good_def free_def)
  then show ?thesis using step by (simp add: t)
qed

lemma complete_advance: "n < length (wt_effects s) \<Longrightarrow> progresses E s (completeIfApplied n s)"
  using complete_frees [of n E s] by (auto simp: progresses_def good_def free_def)

lemma update_good:
  assumes "good E s" "live n s"
    and "map window_core ws = map window_core (pe_windows (effect_at n s))"
    and "\<forall>w \<in> set ws. \<forall>ob. pw_applied w = Some ob \<longrightarrow> evidences (pe_lifecycleEpoch (effect_at n s)) w ob"
    and "\<forall>i < length ws. pw_submitted (pe_windows (effect_at n s) ! i) \<longrightarrow> pw_submitted (ws ! i)"
  shows "good (insert n E) (update_effect n (\<lambda>e. e\<lparr>pe_windows := ws\<rparr>) s) \<and>
    kept s (update_effect n (\<lambda>e. e\<lparr>pe_windows := ws\<rparr>) s)"
proof -
  let ?t = "update_effect n (\<lambda>e. e\<lparr>pe_windows := ws\<rparr>) s"
  have n: "n < length (wt_effects s)" "\<not> effect_settled n s" using assms(2) by (simp_all add: live_def)
  have "transition_inv ?t" using assms by (intro update_inv) (simp_all add: good_def)
  moreover have "free (insert n E) ?t"
    using assms(1) unfolding good_def free_def by (auto simp: live_def effect_settled_def nth_list_update)
  moreover have "same_shape (effect_at n s) ((effect_at n s)\<lparr>pe_windows := ws\<rparr>)"
    using assms(3) by (simp add: same_shape_def)
  then have "kept s ?t" using n by (auto simp: kept_def nth_list_update)
  ultimately show ?thesis by (simp add: good_def)
qed

section \<open>Taking in an observation\<close>

lemma bound_objectD:
  assumes "bindings_inv s" "bound_object i s = Some b"
  shows "bd_object b = i" "jm_get (wt_bindings s) (ho_logicalWindowId (bd_host b)) = Some b"
proof -
  obtain q where q: "(q, b) \<in> set (wt_bindings s)" "bd_object b = i"
    using assms(2) find_mem by (fastforce simp: bound_object_def)
  then have "jm_get (wt_bindings s) q = Some b"
    using assms(1) by (simp add: bindings_inv_def jm_wf_def jm_get_def map_of_is_SomeI)
  then show "bd_object b = i" "jm_get (wt_bindings s) (ho_logicalWindowId (bd_host b)) = Some b"
    using assms(1) q(2) by (simp_all add: bindings_inv_def)
qed

lemma binding_unique:
  assumes "bindings_inv s" "jm_get (wt_bindings s) q = Some b" "jm_get (wt_bindings s) q' = Some b'" "bd_object b = bd_object b'"
  shows "b = b'"
proof -
  have "q = q'" using assms unfolding bindings_inv_def by blast
  then show ?thesis using assms(2,3) by simp
qed

lemma apply_core: "map window_core (apply_window b ob ws) = map window_core ws"
  by (induction ws) (simp_all add: window_core_def)

lemma apply_member:
  "w \<in> set (apply_window b ob ws) \<Longrightarrow> w \<in> set ws \<or>
    (\<exists>w0. find (\<lambda>w. pw_binding w = b) ws = Some w0 \<and> w = w0\<lparr>pw_applied := Some ob\<rparr>)"
  by (induction ws) auto

lemma apply_submitted: "i < length ws \<Longrightarrow> pw_submitted (apply_window b ob ws ! i) = pw_submitted (ws ! i)"
  by (induction ws arbitrary: i) (auto simp: nth_Cons split: nat.split)

lemma apply_length [simp]: "length (apply_window b ob ws) = length ws"
  by (induction ws) simp_all

lemma observe_owner_bindings [simp]: "wt_bindings (observe_owner i ob n s) = wt_bindings s"
  by (auto simp: observe_owner_def split: option.split)

lemma observe_owner_advance:
  assumes n: "n < length (wt_effects s)"
    and b: "jm_get (wt_bindings s) (ho_logicalWindowId (bd_host b)) = Some b" "bd_object b = i"
    and ok: "validateObservation (bd_host b) ob = Inr ()"
  shows "progresses E s (observe_owner i ob n s)"
proof (cases "effect_settled n s")
  case False
  let ?e = "effect_at n s" and ?f = "find (\<lambda>w. pw_binding w = i) (pe_windows (effect_at n s))"
  have live: "live n s" using n False by (simp add: live_def)
  have app: "good E (completeIfApplied n t) \<and> kept s (completeIfApplied n t)"
    if good: "good E s" and w: "?f = Some w" "\<not> ob_sequence ob \<le> pw_initialSequence w"
      "ob_lifecycleEpoch ob = pe_lifecycleEpoch ?e" "ob_windowGeneration ob = pw_windowGeneration w"
      "ob_topologyRevision ob = pw_topologyRevision w" "satisfies (pw_mode w) ob"
      and t: "t = update_effect n (\<lambda>e. e\<lparr>pe_windows := apply_window i ob (pe_windows ?e)\<rparr>) s" for w t
  proof -
    have inv: "transition_inv s" using good by (simp add: good_def)
    have mem: "w \<in> set (pe_windows ?e)" "pw_binding w = i" using find_mem [OF w(1)] by simp_all
    have "bound_claim (pw_mode w, i, pw_host w) s"
      using tables_invD(4) [OF transition_invD(2) [OF inv], of n "pe_effectId ?e" "claims ?e"] live mem
      by (simp add: leases_live) (force simp: claims_def)
    then obtain bd where bd: "jm_get (wt_bindings s) (ho_logicalWindowId (pw_host w)) = Some bd" "bd_object bd = i" "bd_host bd = pw_host w"
      by (auto simp: bound_claim_def)
    then have "pw_host w = bd_host b" using binding_unique [OF transition_invD(1) [OF inv] bd(1) b(1)] b(2) by simp
    then have ev: "evidences (pe_lifecycleEpoch ?e) (w\<lparr>pw_applied := Some ob\<rparr>) ob"
      using w ok by (simp add: evidences_def)
    have old: "effect_ok ?e" using transition_invD(4) [OF inv] n by simp
    have "evidences (pe_lifecycleEpoch ?e) v ob'"
      if "v \<in> set (apply_window i ob (pe_windows ?e))" "pw_applied v = Some ob'" for v ob'
      using apply_member [OF that(1)] that(2) w(1) ev old by (auto simp: effect_ok_def)
    then have "good (insert n E) t \<and> kept s t"
      unfolding t by (intro update_good [OF good live]) (simp_all add: apply_core apply_submitted)
    then show ?thesis using complete_frees [of n E t] n kept_trans by (auto simp: t)
  qed
  show ?thesis
  proof (cases ?f)
    case None
    then show ?thesis using False by (simp add: observe_owner_def)
  next
    case (Some w)
    then show ?thesis
      using False app [OF _ Some _ _ _ _ _ refl] supersede_advance [OF n, of E]
      by (auto simp: observe_owner_def progresses_def update_effect_def)
  qed
qed (simp add: observe_owner_def)

lemma advance_fold_any:
  assumes "\<And>x t. progresses E t (f x t)"
  shows "progresses E s (fold f xs s)"
proof -
  have "progresses E s (fold f xs t)" if "progresses E s t" for t
    using that advance_trans [OF _ assms] by (induction xs arbitrary: t) simp_all
  then show ?thesis by simp
qed

lemma length_fold:
  assumes "\<And>x t. length (wt_effects (f x t)) = length (wt_effects t)"
  shows "length (wt_effects (fold f xs s)) = length (wt_effects s)"
  using assms by (induction xs arbitrary: s) simp_all

lemma bindings_fold:
  assumes "\<And>x t. wt_bindings (f x t) = wt_bindings t"
  shows "wt_bindings (fold f xs s) = wt_bindings s"
  using assms by (induction xs arbitrary: s) simp_all

text \<open>The owners of a window are numbers of effects, in a state that is good.\<close>

lemma owners_advance:
  assumes "\<And>n t. n < length (wt_effects t) \<Longrightarrow> wt_bindings t = wt_bindings s \<Longrightarrow> progresses E t (f n t)"
    and "\<And>n t. wt_bindings (f n t) = wt_bindings t"
  shows "progresses E s (fold f (window_owners q s) s)"
proof (cases "good E s")
  case True
  have "progresses E s (fold f ns t)" if "\<forall>n \<in> set ns. n < length (wt_effects s)" "progresses E s t" "wt_bindings t = wt_bindings s" for ns t
    using that
  proof (induction ns arbitrary: t)
    case (Cons n ns)
    have "kept s t" using Cons.prems(2) True by (simp add: progresses_def)
    then have "progresses E s (f n t)"
      using Cons.prems assms(1) [of n t] by (intro advance_trans [OF Cons.prems(2)]) (simp add: kept_def)
    then show ?case using Cons assms(2) by simp
  qed simp
  then show ?thesis using True owners_known by (simp add: good_def)
qed (simp add: progresses_def)

lemma failBinding_advance: "progresses E s (failBinding h e s)"
  using owners_advance [of s E "failFromUnknownTerminal e"] failUnknown_advance by (simp add: failBinding_def Let_def)

lemma focus_advance: "progresses E s (observe_focus h ob s)"
proof (cases "wt_focusEffect s")
  case (Some f)
  have "progresses E s (supersede f s)"
  proof (cases "good E s")
    case True
    then show ?thesis using live_focus [OF _ Some] supersede_advance by (simp add: good_def live_def)
  qed (simp add: progresses_def)
  then show ?thesis using Some by (simp add: observe_focus_def)
qed (simp add: observe_focus_def)

text \<open>New bindings under which every claim in flight stays bound.\<close>

lemma rebind_advance:
  assumes inv: "good E s \<Longrightarrow> bindings_inv (s\<lparr>wt_bindings := m, wt_nextObject := k\<rparr>)"
    and bound: "\<And>n c. good E s \<Longrightarrow> live n s \<Longrightarrow> c \<in> claims (effect_at n s) \<Longrightarrow> bound_claim c s \<Longrightarrow>
      bound_claim c (s\<lparr>wt_bindings := m, wt_nextObject := k\<rparr>)"
  shows "progresses E s (s\<lparr>wt_bindings := m, wt_nextObject := k\<rparr>)"
proof (cases "good E s")
  case True
  let ?t = "s\<lparr>wt_bindings := m, wt_nextObject := k\<rparr>"
  have L: "leases ?t = leases s" by (rule ext) (simp add: leases_def live_def effect_settled_def)
  have tab: "tables_inv s" using True by (simp add: good_def transition_inv_def)
  have "bound_claim c ?t" if "leases s n = Some (i, C)" "c \<in> C" for n i C c
  proof -
    have "live n s" "C = claims (effect_at n s)" using that(1) by (simp_all add: leases_live)
    then show ?thesis using bound [OF True _ _ tables_invD(4) [OF tab that]] that(2) by simp
  qed
  moreover have "window_owners q ?t = window_owners q s" for q by (simp add: window_owners_def)
  ultimately have "tables_inv ?t" using tab by (simp add: tables_inv_def L)
  then have "transition_inv ?t"
    using True inv [OF True] by (simp add: good_def transition_inv_def conflicts_inv_def L calls_ok_def)
  then have "good E ?t" using True by (simp add: good_def free_def live_def effect_settled_def)
  then show ?thesis by (simp add: progresses_def kept_def)
qed (simp add: progresses_def)

lemma take_in_advance:
  assumes "bound_object i s = Some b"
  shows "progresses E s (take_in b ob s)"
proof -
  let ?q = "ho_logicalWindowId (bd_host b)" and ?b = "b\<lparr>bd_last := ob\<rparr>"
  have "progresses E s (s\<lparr>wt_bindings := jm_set ?q ?b (wt_bindings s), wt_nextObject := wt_nextObject s\<rparr>)"
  proof (rule rebind_advance)
    assume "good E s"
    then have inv: "bindings_inv s" by (simp add: good_def transition_inv_def)
    note b = bound_objectD [OF inv assms]
    have obj: "bd_object b < wt_nextObject s" using inv b by (auto simp: bindings_inv_def)
    have uniq: "q = ?q" if "jm_get (wt_bindings s) q = Some b'" "bd_object b' = bd_object b" for q b'
      using inv that b(2) unfolding bindings_inv_def by blast
    show "bindings_inv (s\<lparr>wt_bindings := jm_set ?q ?b (wt_bindings s), wt_nextObject := wt_nextObject s\<rparr>)"
      using inv obj uniq uniq [symmetric] unfolding bindings_inv_def by (auto split: if_splits)
    fix c
    assume "bound_claim c s"
    then show "bound_claim c (s\<lparr>wt_bindings := jm_set ?q ?b (wt_bindings s), wt_nextObject := wt_nextObject s\<rparr>)"
      using b by (auto simp: bound_claim_def)
  qed
  then show ?thesis by (simp add: take_in_def)
qed

lemma observe_owner_length [simp]: "length (wt_effects (observe_owner i ob n s)) = length (wt_effects s)"
  by (auto simp: observe_owner_def split: option.split)

lemma focus_parts [simp]:
  "wt_bindings (observe_focus h ob s) = wt_bindings s" "length (wt_effects (observe_focus h ob s)) = length (wt_effects s)"
  by (simp_all add: observe_focus_def split: option.split)

lemma failBinding_parts [simp]:
  "wt_bindings (failBinding h e s) = wt_bindings s" "length (wt_effects (failBinding h e s)) = length (wt_effects s)"
  by (simp_all add: failBinding_def Let_def bindings_fold length_fold)

lemma react_advance:
  assumes b: "jm_get (wt_bindings s) (ho_logicalWindowId (bd_host b)) = Some b'" "bd_object b' = bd_object b" "bd_host b' = bd_host b"
    and ok: "validateObservation (bd_host b) ob = Inr ()"
  shows "progresses E s (react_to b ob s)"
proof -
  have 1: "progresses E s (fold supersede (window_owners q s) s)" for q
    using owners_advance [of s E supersede] supersede_advance by simp
  let ?s1 = "observe_focus (bd_host b) ob s"
  have "progresses E ?s1 (fold (observe_owner (bd_object b) ob) (window_owners q ?s1) ?s1)" for q
  proof (rule owners_advance)
    fix n and t :: transitions assume "n < length (wt_effects t)" "wt_bindings t = wt_bindings ?s1"
    then show "progresses E t (observe_owner (bd_object b) ob n t)"
      using b ok by (intro observe_owner_advance [of n t b']) simp_all
  qed simp
  then have 2: "progresses E s (fold (observe_owner (bd_object b) ob) (window_owners q ?s1) ?s1)" for q
    by (rule advance_trans [OF focus_advance])
  show ?thesis
    by (cases "ob_source ob") (simp_all add: react_to_def Let_def 1 2 failBinding_advance del: advance_others)
qed

lemma observe_state_advance: "progresses E s (fst (observe_state i ob s))"
proof (cases "wt_closed s")
  case False
  show ?thesis
  proof (cases "bound_object i s")
    case (Some b)
    show ?thesis
    proof (cases "validateObservation (bd_host b) ob")
      case (Inr u)
      let ?t = "take_in b ob s"
      have "progresses E ?t (react_to b ob ?t)"
        by (rule react_advance [of _ _ "b\<lparr>bd_last := ob\<rparr>"]) (use Inr in \<open>simp_all add: take_in_def\<close>)
      then have "progresses E s (react_to b ob ?t)" by (rule advance_trans [OF take_in_advance [OF Some]])
      then show ?thesis using False Some Inr by (simp add: observe_state_def)
    qed (use False Some in \<open>simp add: observe_state_def\<close>)
  qed (use False in \<open>simp add: observe_state_def\<close>)
qed (simp add: observe_state_def)

lemma deliver_advance: "progresses E s (deliver ev s)"
proof -
  obtain t r where o: "observe_state (fst ev) (snd ev) s = (t, r)" by (cases "observe_state (fst ev) (snd ev) s")
  have "progresses E s t" using observe_state_advance [of E s "fst ev" "snd ev"] by (simp add: o)
  then show ?thesis
    using advance_trans [OF _ failBinding_advance]
    by (auto simp: deliver_def o split: sum.split option.split)
qed

lemma react_length [simp]: "length (wt_effects (react_to b ob s)) = length (wt_effects s)"
  by (cases "ob_source ob") (simp_all add: react_to_def Let_def length_fold)

lemma observe_state_length [simp]: "length (wt_effects (fst (observe_state i ob s))) = length (wt_effects s)"
  by (simp add: observe_state_def take_in_def split: bool.split option.split sum.split)

lemma deliver_length [simp]: "length (wt_effects (deliver ev s)) = length (wt_effects s)"
  using observe_state_length [of "fst ev" "snd ev" s]
  by (auto simp: deliver_def split: prod.split sum.split option.split simp del: observe_state_length)

section \<open>Binding hosts\<close>

text \<open>No effect in flight claims a window.\<close>

definition unclaimed :: "string \<Rightarrow> transitions \<Rightarrow> bool" where
  "unclaimed q s \<longleftrightarrow> (\<forall>n. live n s \<longrightarrow> q \<notin> windows_in (claims (effect_at n s)))"

lemma unclaimed_kept:
  assumes "unclaimed q s" "kept s t" "length (wt_effects t) = length (wt_effects s)"
  shows "unclaimed q t"
  unfolding unclaimed_def
proof (intro allI impI)
  fix n assume n: "live n t"
  then have "n < length (wt_effects s)" using assms(3) by (simp add: live_def)
  then show "q \<notin> windows_in (claims (effect_at n t))"
    using keptD(2,5) [OF assms(2)] n assms(1) by (simp add: unclaimed_def)
qed

lemma supersede_settles: "n < length (wt_effects s) \<Longrightarrow> effect_settled n (supersede n s)"
  by (auto simp: supersede_def effect_settled_def)

lemma supersede_keeps_settled: "effect_settled m s \<Longrightarrow> effect_settled m (supersede n s)"
  by (cases "m = n \<and> n < length (wt_effects s)") (auto simp: supersede_def effect_settled_def nth_list_update list_update_beyond)

lemma supersede_all:
  "\<forall>n \<in> set ns. n < length (wt_effects s) \<Longrightarrow> n \<in> set ns \<Longrightarrow> effect_settled n (fold supersede ns s)"
proof (induction ns arbitrary: s)
  case (Cons m ns)
  have "effect_settled n (fold supersede xs t)" if "effect_settled n t" for t xs
    using that supersede_keeps_settled by (induction xs arbitrary: t) simp_all
  then show ?case using Cons supersede_settles by auto
qed simp

lemma supersede_owners:
  assumes "good E s"
  shows "unclaimed q (fold supersede (window_owners q s) s)"
  unfolding unclaimed_def
proof (intro allI impI notI)
  let ?t = "fold supersede (window_owners q s) s"
  fix n assume n: "live n ?t" and q: "q \<in> windows_in (claims (effect_at n ?t))"
  have "progresses E s ?t" using owners_advance [of s E supersede] supersede_advance by simp
  then have k: "kept s ?t" using assms by (simp add: progresses_def)
  have len: "length (wt_effects ?t) = length (wt_effects s)" by (simp add: length_fold)
  have inv: "transition_inv s" using assms by (simp add: good_def)
  have n': "n < length (wt_effects s)" using n len by (simp add: live_def)
  have "live n s" by (rule keptD(5) [OF k n' n])
  moreover have "q \<in> windows_in (claims (effect_at n s))" using q keptD(2) [OF k n'] by simp
  ultimately have "n \<in> set (window_owners q s)"
    using tables_invD(2) [OF transition_invD(2) [OF inv]] by (auto simp: leases_live)
  then have "effect_settled n ?t" using supersede_all owners_known [OF inv] by blast
  then show False using n by (simp add: live_def)
qed

lemma unbind_advance:
  assumes "good E s \<Longrightarrow> unclaimed q s"
  shows "progresses E s (s\<lparr>wt_bindings := jm_delete q (wt_bindings s)\<rparr>)"
proof -
  have "progresses E s (s\<lparr>wt_bindings := jm_delete q (wt_bindings s), wt_nextObject := wt_nextObject s\<rparr>)"
  proof (rule rebind_advance)
    assume "good E s"
    then show "bindings_inv (s\<lparr>wt_bindings := jm_delete q (wt_bindings s), wt_nextObject := wt_nextObject s\<rparr>)"
      unfolding good_def transition_inv_def bindings_inv_def by (auto split: if_splits)
  next
    fix n c assume c: "good E s" "live n s" "c \<in> claims (effect_at n s)" "bound_claim c s"
    have "q \<notin> windows_in (claims (effect_at n s))" using assms [OF c(1)] c(2) by (simp add: unclaimed_def)
    moreover have "ho_logicalWindowId (snd (snd c)) \<in> windows_in (claims (effect_at n s))"
      unfolding windows_in_def by (rule image_eqI [OF _ c(3)]) (simp add: case_prod_beta)
    ultimately have "ho_logicalWindowId (snd (snd c)) \<noteq> q" by blast
    then show "bound_claim c (s\<lparr>wt_bindings := jm_delete q (wt_bindings s), wt_nextObject := wt_nextObject s\<rparr>)"
      using c(4) by (auto simp: bound_claim_def)
  qed
  then show ?thesis by simp
qed

lemma retire_advance: "progresses E s (retireBinding q i s)"
proof -
  let ?t = "fold supersede (window_owners q s) s"
  have 1: "progresses E s ?t" using owners_advance [of s E supersede] supersede_advance by simp
  have "progresses E s (?t\<lparr>wt_bindings := jm_delete q (wt_bindings ?t)\<rparr>)"
  proof (cases "good E s")
    case True
    then show ?thesis using advance_trans [OF 1 unbind_advance] supersede_owners by blast
  qed (simp add: progresses_def)
  then show ?thesis using 1 by (simp add: retireBinding_def Let_def split: option.split)
qed

end
