(* ===== verification/Window_Begin.thy ===== *)
theory Window_Begin
  imports Window_Safety
begin

text \<open>
  The remaining operations of the coordinator of window transitions keep its invariant: binding hosts,
  beginning an effect, and the ends of a life cycle.
\<close>

section \<open>Binding a host\<close>

lemma unclaimed_step:
  assumes "progresses E s t" "good E s" "unclaimed q s" "length (wt_effects t) = length (wt_effects s)"
  shows "unclaimed q t"
  using assms unclaimed_kept by (simp add: progresses_def)

lemma new_binding_advance:
  assumes "good E s \<Longrightarrow> unclaimed (ho_logicalWindowId h) s"
  shows "progresses E s (new_binding h ob s)"
  unfolding new_binding_def
proof (rule rebind_advance)
  let ?q = "ho_logicalWindowId h" and ?b = "\<lparr>bd_object = wt_nextObject s, bd_host = h, bd_last = ob\<rparr>"
  let ?t = "s\<lparr>wt_bindings := jm_set ?q ?b (wt_bindings s), wt_nextObject := Suc (wt_nextObject s)\<rparr>"
  assume good: "good E s"
  then have inv: "bindings_inv s" by (simp add: good_def transition_inv_def)
  have old: "bd_object b < wt_nextObject s" if "jm_get (wt_bindings s) q = Some b" for q b
    using inv that by (simp add: bindings_inv_def)
  have get: "jm_get (wt_bindings ?t) q = (if q = ?q then Some ?b else jm_get (wt_bindings s) q)" for q by simp
  have own: "ho_logicalWindowId (bd_host b) = q" if "jm_get (wt_bindings s) q = Some b" for q b
    using inv that by (simp add: bindings_inv_def)
  have uniq: "q = q'" if "jm_get (wt_bindings s) q = Some b" "jm_get (wt_bindings s) q' = Some b'" "bd_object b = bd_object b'" for q q' b b'
    using inv that unfolding bindings_inv_def by blast
  show "bindings_inv ?t"
    unfolding bindings_inv_def
  proof (intro conjI allI impI)
    show "jm_wf (wt_bindings ?t)" "jm_wf (wt_pending ?t)" using inv by (simp_all add: bindings_inv_def)
    fix q b assume b: "jm_get (wt_bindings ?t) q = Some b"
    show "ho_logicalWindowId (bd_host b) = q" using b own [of q b] unfolding get by (auto split: if_splits)
    show "bd_object b < wt_nextObject ?t" using b old [of q b] unfolding get by (auto split: if_splits)
    fix q' b' assume b': "jm_get (wt_bindings ?t) q' = Some b'" and same: "bd_object b = bd_object b'"
    show "q = q'"
      using b b' same old [of q b] old [of q' b'] uniq [of q b q' b'] unfolding get by (auto split: if_splits)
  qed
  fix n c
  assume c: "live n s" "c \<in> claims (effect_at n s)" "bound_claim c s"
  have "?q \<notin> windows_in (claims (effect_at n s))" using assms [OF good] c(1) by (simp add: unclaimed_def)
  moreover have "ho_logicalWindowId (snd (snd c)) \<in> windows_in (claims (effect_at n s))"
    unfolding windows_in_def by (rule image_eqI [OF _ c(2)]) (simp add: case_prod_beta)
  ultimately have "ho_logicalWindowId (snd (snd c)) \<noteq> ?q" by metis
  then show "bound_claim c ?t" using c(3) by (auto simp: bound_claim_def)
qed

lemma subscribe_advance: "progresses E s (fst (subscribe_host a i s))"
proof -
  have "progresses E s (fold (\<lambda>ob. deliver (i, ob)) (ba_events a) s)" by (rule advance_fold_any) (rule deliver_advance)
  then show ?thesis
    using advance_trans [OF _ observe_state_advance] by (auto simp: subscribe_host_def Let_def split: sum.split)
qed

lemma subscribe_length [simp]: "length (wt_effects (fst (subscribe_host a i s))) = length (wt_effects s)"
  by (simp add: subscribe_host_def Let_def length_fold split: sum.split)

lemma new_binding_length [simp]: "length (wt_effects (new_binding h ob s)) = length (wt_effects s)"
  by (simp add: new_binding_def)

lemma unbind_object_advance:
  assumes "good E s \<Longrightarrow> unclaimed q s"
  shows "progresses E s (unbind_object q i s)"
  using unbind_advance [OF assms] by (simp add: unbind_object_def split: option.split)

lemma bind_new_advance:
  assumes free: "good E s \<Longrightarrow> unclaimed (ho_logicalWindowId h) s"
  shows "progresses E s (fst (bind_new a h s))"
proof -
  have step: "progresses E s (fst (case subscribe_host a (wt_nextObject s) (new_binding h ob s) of
      (s', Inl e) \<Rightarrow> (unbind_object (ho_logicalWindowId h) (wt_nextObject s) s', Inl e)
    | (s', Inr u) \<Rightarrow> (s', Inr ())))" for ob
  proof -
    obtain t r where t: "subscribe_host a (wt_nextObject s) (new_binding h ob s) = (t, r)" by fastforce
    have adv: "progresses E s t"
      using advance_trans [OF new_binding_advance [where ob = ob, OF free]] subscribe_advance [of E "new_binding h ob s" a "wt_nextObject s"]
      by (simp add: t)
    have len: "length (wt_effects t) = length (wt_effects s)"
      using subscribe_length [of a "wt_nextObject s" "new_binding h ob s"] by (simp add: t del: subscribe_length)
    have "progresses E s (unbind_object (ho_logicalWindowId h) (wt_nextObject s) t)"
    proof (cases "good E s")
      case True
      then have "unclaimed (ho_logicalWindowId h) t" using unclaimed_step [OF adv _ free len] by blast
      then show ?thesis by (intro advance_trans [OF adv] unbind_object_advance)
    qed (simp add: progresses_def)
    then show ?thesis using adv by (simp add: t split: sum.split)
  qed
  show ?thesis by (auto simp: bind_new_def step split: sum.split)
qed

lemma retire_unclaimed:
  assumes "good E s"
  shows "unclaimed q (retireBinding q i s)"
proof -
  have "unclaimed q (s'\<lparr>wt_bindings := m\<rparr>) = unclaimed q s'" for s' m
    by (simp add: unclaimed_def live_def effect_settled_def)
  then show ?thesis using supersede_owners [OF assms, of q] by (simp add: retireBinding_def Let_def split: option.split)
qed

lemma bind_host_advance: "progresses E s (fst (bind_host ans h s))"
proof (cases "jm_get (wt_bindings s) (ho_logicalWindowId h)")
  case None
  have "unclaimed (ho_logicalWindowId h) s" if "good E s"
    unfolding unclaimed_def
  proof (intro allI impI notI)
    fix n assume n: "live n s" and "ho_logicalWindowId h \<in> windows_in (claims (effect_at n s))"
    then obtain c where c: "c \<in> claims (effect_at n s)" "ho_logicalWindowId (snd (snd c)) = ho_logicalWindowId h"
      by (auto simp: windows_in_def case_prod_beta)
    have "tables_inv s" using that by (simp add: good_def transition_inv_def)
    from tables_invD(4) [OF this _ c(1)] n have "bound_claim c s" by (simp add: leases_live)
    then show False using None c(2) by (auto simp: bound_claim_def)
  qed
  then show ?thesis using None bind_new_advance by (simp add: bind_host_def)
next
  case (Some b)
  let ?t = "retireBinding (ho_logicalWindowId h) (bd_object b) s"
  have "progresses E s (fst (bind_new (ans h) h ?t))"
  proof (cases "good E s")
    case True
    then show ?thesis using advance_trans [OF retire_advance bind_new_advance] retire_unclaimed by blast
  qed (simp add: progresses_def)
  then show ?thesis using Some by (simp add: bind_host_def)
qed

lemma bind_hosts_advance: "progresses E s (fst (bind_hosts ans hs s))"
proof (induction hs arbitrary: s)
  case (Cons h hs)
  obtain t r where t: "bind_host ans h s = (t, r)" by fastforce
  have "progresses E s t" using bind_host_advance [of E s ans h] by (simp add: t)
  then show ?case using advance_trans [OF _ Cons.IH] by (simp add: t split: sum.split)
qed simp

lemma synchronize_advance: "progresses E s (fst (synchronize ans hosts s))"
proof -
  have "progresses E s (fold (retire_missing hosts) xs s)" for xs
    by (rule advance_fold_any) (simp add: retire_missing_def retire_advance)
  then show ?thesis using advance_trans [OF _ bind_hosts_advance] by (simp add: synchronize_def)
qed

section \<open>Planning the windows of an effect\<close>

lemma plan_window_ok:
  assumes "plan_window reads epoch visited w s = Inr p"
  shows "window_id p \<notin> set visited" "bound_claim (pw_mode p, pw_binding p, pw_host p) s" "\<not> pw_submitted p"
    "pw_applied p = Some ob \<Longrightarrow> evidences epoch p ob" "pw_mode p = tw_mode w"
proof -
  have valid: "(validateObservation h (ob\<lparr>ob_source := x\<rparr>) = Inr ()) = (validateObservation h ob = Inr ())" for h ob x
    by (simp add: validateObservation_def validObservation_def)
  have sat: "satisfies m (ob\<lparr>ob_source := x\<rparr>) = satisfies m ob" for m ob x by (cases m) simp_all
  obtain b ob1 where b: "jm_get (wt_bindings s) (ho_logicalWindowId (tw_host w)) = Some b" "bd_host b = tw_host w"
    and r: "read_initial reads b = Inr ob1" "validateFence ob1 epoch w = Inr ()"
    and q: "ho_logicalWindowId (tw_host w) \<notin> set visited"
    and p: "p = \<lparr>pw_binding = bd_object b, pw_host = tw_host w, pw_initialSequence = ob_sequence ob1,
         pw_mode = tw_mode w, pw_topologyRevision = tw_topologyRevision w, pw_windowGeneration = tw_windowGeneration w,
         pw_applied = (if satisfies (tw_mode w) ob1 then Some ob1 else None), pw_submitted = False\<rparr>"
    using assms by (auto simp: plan_window_def Let_def and_then_Inr split: if_splits option.splits)
  show "window_id p \<notin> set visited" "\<not> pw_submitted p" "pw_mode p = tw_mode w"
    "bound_claim (pw_mode p, pw_binding p, pw_host p) s"
    using p q b by (simp_all add: window_id_def bound_claim_def)
  have "validateObservation (tw_host w) ob1 = Inr ()"
    using r(1) b(2) by (auto simp: read_initial_def and_then_Inr valid split: if_splits)
  then show "evidences epoch p ob" if "pw_applied p = Some ob"
    using that p r(2) by (auto simp: evidences_def validateFence_def split: if_splits)
qed

lemma plan_windows_ok:
  assumes "plan_windows reads epoch visited ws s = Inr ps"
  shows "distinct (map window_id ps) \<and> window_id ` set ps \<inter> set visited = {} \<and> map pw_mode ps = map tw_mode ws \<and>
    (\<forall>p \<in> set ps. bound_claim (pw_mode p, pw_binding p, pw_host p) s \<and> \<not> pw_submitted p \<and>
      (\<forall>ob. pw_applied p = Some ob \<longrightarrow> evidences epoch p ob))"
  using assms
proof (induction ws arbitrary: visited ps)
  case (Cons w ws)
  obtain p ps' where p: "plan_window reads epoch visited w s = Inr p"
    and rest: "plan_windows reads epoch (visited @ [window_id p]) ws s = Inr ps'" and ps: "ps = p # ps'"
    using Cons.prems by (auto simp: and_then_Inr)
  show ?case using Cons.IH [OF rest] plan_window_ok [OF p] by (auto simp: ps)
qed simp

section \<open>Registering an effect\<close>

lemma list_at_add: "set (list_at (add_owner n w m) q) = (if q = window_id w then insert n (set (list_at m q)) else set (list_at m q))"
  by (cases "jm_get m (window_id w)") (auto simp: list_at_def add_owner_def)

lemma list_at_adds:
  "set (list_at (fold (add_owner n) ws m) q) =
     (if q \<in> window_id ` set ws then insert n (set (list_at m q)) else set (list_at m q))"
  by (induction ws arbitrary: m) (auto simp: list_at_add)

lemma register_fields [simp]:
  "wt_effects (register_effect e s) = wt_effects s @ [e]" "wt_bindings (register_effect e s) = wt_bindings s"
  "wt_pending (register_effect e s) = jm_set (pe_effectId e) (length (wt_effects s)) (wt_pending s)"
  "wt_calls (register_effect e s) = wt_calls s" "wt_nextObject (register_effect e s) = wt_nextObject s"
  by (simp_all add: register_effect_def Let_def)

lemma focus_claims: "focus_in (claims e) \<longleftrightarrow> list_ex (\<lambda>w. pw_mode w = FocusMode) (pe_windows e)"
  unfolding focus_in_def claims_def list_ex_iff image_image by force

lemma register_focus [simp]:
  "wt_focusEffect (register_effect e s) = (if focus_in (claims e) then Some (length (wt_effects s)) else wt_focusEffect s)"
  by (simp add: register_effect_def Let_def focus_claims)

lemma register_owners:
  "set (window_owners q (register_effect e s)) =
     (if q \<in> windows_in (claims e) then insert (length (wt_effects s)) (set (window_owners q s)) else set (window_owners q s))"
  by (simp add: register_effect_def Let_def owners_list_at list_at_adds windows_in_claims)

lemma leases_register:
  "pe_outcome e = None \<Longrightarrow>
     leases (register_effect e s) = (leases s)(length (wt_effects s) \<mapsto> (pe_effectId e, claims e))"
  by (rule ext) (auto simp: leases_def live_def effect_settled_def nth_append)

lemma tables_register:
  assumes tab: "tables_inv s" and e: "pe_outcome e = None" "\<And>c. c \<in> claims e \<Longrightarrow> bound_claim c s"
    and id: "jm_get (wt_pending s) (pe_effectId e) = None" and focus: "focus_in (claims e) \<Longrightarrow> wt_focusEffect s = None"
  shows "tables_inv (register_effect e s)"
proof -
  let ?s = "register_effect e s" and ?n = "length (wt_effects s)"
  note L = leases_register [OF e(1), of s] and D = tables_invD [OF tab]
  have new: "leases s ?n = None" by (simp add: leases_def live_def)
  have pending: "jm_get (wt_pending ?s) i = Some m \<longleftrightarrow> (\<exists>C. leases ?s m = Some (i, C))" for i m
    using D(1) [of i m] id new by (cases "m = ?n") (auto simp: L)
  have owners: "m \<in> set (window_owners q ?s) \<longleftrightarrow> (\<exists>i C. leases ?s m = Some (i, C) \<and> q \<in> windows_in C)" for q m
    using D(2) [of m q] new by (cases "m = ?n") (auto simp: L register_owners)
  have focused: "wt_focusEffect ?s = Some m \<longleftrightarrow> (\<exists>i C. leases ?s m = Some (i, C) \<and> focus_in C)" for m
  proof (cases "m = ?n")
    case True
    then show ?thesis using D(3) [of ?n] new by (auto simp: L)
  next
    case False
    have "wt_focusEffect ?s = Some m \<longleftrightarrow> wt_focusEffect s = Some m" using False focus by auto
    then show ?thesis using D(3) [of m] False by (simp only: L fun_upd_apply if_False)
  qed
  have "bound_claim c ?s" if "leases ?s m = Some (i, C)" "c \<in> C" for m i C c
  proof -
    have "bound_claim c s"
    proof (cases "m = ?n")
      case False
      then have "leases s m = Some (i, C)" using that(1) by (simp add: L)
      then show ?thesis using that(2) by (rule D(4))
    qed (use that e(2) in \<open>simp add: L\<close>)
    then show ?thesis by (simp add: bound_claim_def)
  qed
  then show ?thesis using pending owners focused unfolding tables_inv_def by blast
qed

lemma register_good:
  assumes good: "good E s" and e: "effect_ok e" "pe_outcome e = None" "\<And>c. c \<in> claims e \<Longrightarrow> bound_claim c s"
    and id: "jm_get (wt_pending s) (pe_effectId e) = None" and focus: "focus_in (claims e) \<Longrightarrow> wt_focusEffect s = None"
    and compat: "\<And>n i C. leases s n = Some (i, C) \<Longrightarrow> compatible C (claims e)"
  shows "good (insert (length (wt_effects s)) E) (register_effect e s) \<and> kept s (register_effect e s)"
proof -
  let ?s = "register_effect e s" and ?n = "length (wt_effects s)"
  have inv: "transition_inv s" using good by (simp add: good_def)
  note L = leases_register [OF e(2), of s]
  have known: "n < ?n" if "leases s n = Some x" for n x using that by (auto simp: leases_def live_def split: if_splits)
  have "conflicts_inv ?s"
    unfolding conflicts_inv_def
  proof (intro allI impI)
    fix n m i C j D assume nm: "leases ?s n = Some (i, C)" "leases ?s m = Some (j, D)" "n < m"
    show "compatible C D"
    proof (cases "m = ?n")
      case True
      then show ?thesis using nm compat [of n i C] by (simp add: L)
    next
      case False
      then have "leases s m = Some (j, D)" using nm(2) by (simp add: L)
      moreover from known [OF this] nm have "leases s n = Some (i, C)" by (simp add: L)
      ultimately show ?thesis using transition_invD(3) [OF inv] nm(3) unfolding conflicts_inv_def by blast
    qed
  qed
  moreover have "calls_ok ?s" using transition_invD(5) [OF inv] by (auto simp: calls_ok_def nth_append intro: less_SucI)
  moreover have "bindings_inv ?s" using transition_invD(1) [OF inv] by (simp add: bindings_inv_def)
  moreover have "\<forall>e \<in> set (wt_effects ?s). effect_ok e" using transition_invD(4) [OF inv] e(1) by auto
  ultimately have "transition_inv ?s"
    using tables_register [OF transition_invD(2) [OF inv] e(2,3) id focus] by (simp add: transition_inv_def)
  moreover have "free (insert ?n E) ?s"
    using good by (auto simp: good_def free_def live_def effect_settled_def nth_append split: if_splits)
  moreover have "kept s ?s" by (simp add: kept_def nth_append)
  ultimately show ?thesis by (simp add: good_def)
qed

section \<open>Native calls\<close>

lemma deliver_calls [simp]: "wt_calls (deliver ev s) = wt_calls s"
proof -
  have fold_calls: "wt_calls (fold f xs t) = wt_calls t" if "\<And>x t. wt_calls (f x t) = wt_calls t" for f :: "'a \<Rightarrow> transitions \<Rightarrow> transitions" and xs t
    using that by (induction xs arbitrary: t) simp_all
  have owner: "wt_calls (observe_owner i ob n t) = wt_calls t" for i ob n t
    by (auto simp: observe_owner_def split: option.split)
  have focus: "wt_calls (observe_focus h ob t) = wt_calls t" for h ob t
    by (simp add: observe_focus_def split: option.split)
  have fails: "wt_calls (failBinding h e t) = wt_calls t" for h e t
    by (simp add: failBinding_def Let_def fold_calls)
  have react: "wt_calls (react_to b ob t) = wt_calls t" for b ob t
    by (cases "ob_source ob") (simp_all add: react_to_def Let_def fold_calls owner focus fails)
  show ?thesis
    by (auto simp: deliver_def observe_state_def react fails take_in_def split: bool.split option.split sum.split)
qed

lemma deliver_all:
  "progresses E s (fold deliver evs s)" "length (wt_effects (fold deliver evs s)) = length (wt_effects s)"
  "wt_calls (fold deliver evs s) = wt_calls s"
proof -
  show "progresses E s (fold deliver evs s)" by (rule advance_fold_any) (rule deliver_advance)
  show "length (wt_effects (fold deliver evs s)) = length (wt_effects s)" by (rule length_fold) simp
  show "wt_calls (fold deliver evs s) = wt_calls s" by (induction evs arbitrary: s) simp_all
qed

definition submitted_at :: "nat \<Rightarrow> nat \<Rightarrow> transitions \<Rightarrow> bool" where
  "submitted_at n i s \<longleftrightarrow> n < length (wt_effects s) \<and> i < length (pe_windows (effect_at n s)) \<and>
     pw_submitted (pe_windows (effect_at n s) ! i)"

lemma native_call_advance:
  assumes "submitted_at n i s"
  shows "progresses E s (fst (native_call_at react n i c s))"
    and "good E s \<Longrightarrow> submitted_at n i (fst (native_call_at react n i c s))"
proof -
  let ?s = "s\<lparr>wt_calls := wt_calls s @ [(n, i, c)]\<rparr>"
  have fields: "leases ?s = leases s" "live m ?s = live m s" "effect_settled m ?s = effect_settled m s" for m
    by (simp_all add: leases_def live_def effect_settled_def fun_eq_iff)
  have inv: "transition_inv ?s" if "transition_inv s"
    using that assms
    by (auto simp: transition_inv_def bindings_inv_def tables_inv_def conflicts_inv_def calls_ok_def fields
        bound_claim_def window_owners_def submitted_at_def)
  have "progresses E s ?s"
    using inv by (simp add: progresses_def good_def free_def fields kept_def)
  then show "progresses E s (fst (native_call_at react n i c s))"
    using advance_trans [OF _ deliver_all(1)] by (simp add: native_call_at_def Let_def)
  let ?t = "fold deliver (fst (react (length (wt_calls s)))) ?s"
  show "submitted_at n i (fst (native_call_at react n i c s))" if "good E s"
  proof -
    have "good E ?s" using \<open>progresses E s ?s\<close> that by (simp add: progresses_def)
    then have "transition_inv ?t" using deliver_all(1) [of E ?s] by (simp add: progresses_def good_def)
    then have "calls_ok ?t" by (rule transition_invD(5))
    moreover have "(n, i, c) \<in> set (wt_calls ?t)" by (simp add: deliver_all(3))
    ultimately have "submitted_at n i ?t" unfolding calls_ok_def submitted_at_def by blast
    then show ?thesis by (simp add: native_call_at_def Let_def)
  qed
qed

lemma mark_core: "i < length ws \<Longrightarrow> map window_core (ws[i := (ws ! i)\<lparr>pw_submitted := True\<rparr>]) = map window_core ws"
  by (rule nth_equalityI) (auto simp: nth_list_update window_core_def)

lemma mark_submitted_good:
  assumes good: "good E s" and n: "live n s" "n \<in> E" "i < length (pe_windows (effect_at n s))"
  shows "good E (mark_submitted n i s) \<and> kept s (mark_submitted n i s)" "submitted_at n i (mark_submitted n i s)"
proof -
  let ?ws = "pe_windows (effect_at n s)"
  let ?ws' = "?ws[i := (?ws ! i)\<lparr>pw_submitted := True\<rparr>]"
  have m: "mark_submitted n i s = update_effect n (\<lambda>e. e\<lparr>pe_windows := ?ws'\<rparr>) s"
    by (simp add: mark_submitted_def update_effect_def)
  have len: "n < length (wt_effects s)" using n(1) by (simp add: live_def)
  have "effect_ok (effect_at n s)" using good len by (simp add: good_def transition_inv_def)
  then have ev: "evidences (pe_lifecycleEpoch (effect_at n s)) w ob" if "w \<in> set ?ws" "pw_applied w = Some ob" for w ob
    using that by (simp add: effect_ok_def)
  have "evidences (pe_lifecycleEpoch (effect_at n s)) w ob" if w: "w \<in> set ?ws'" "pw_applied w = Some ob" for w ob
  proof -
    have "w \<in> set ?ws \<or> w = (?ws ! i)\<lparr>pw_submitted := True\<rparr>" using w(1) set_update_subset_insert by fastforce
    then show ?thesis using ev w(2) ev [OF nth_mem [OF n(3)]] by (auto simp: evidences_def)
  qed
  then have "good (insert n E) (mark_submitted n i s) \<and> kept s (mark_submitted n i s)"
    unfolding m using n(3) by (intro update_good [OF good n(1)]) (simp_all add: mark_core nth_list_update)
  then show "good E (mark_submitted n i s) \<and> kept s (mark_submitted n i s)" using n(2) by (simp add: insert_absorb)
  show "submitted_at n i (mark_submitted n i s)" using len n(3) by (simp add: m submitted_at_def)
qed

lemma claim_focus_advance:
  assumes "submitted_at n i s"
  shows "progresses E s (fst (claim_focus react n i s))"
proof -
  obtain t r where t: "native_call_at react n i ShowInactive s = (t, r)" by fastforce
  have adv: "progresses E s t" using native_call_advance(1) [OF assms, of E react ShowInactive] by (simp add: t)
  have "progresses E s (fst (native_call_at react n i FocusCall t))"
  proof (cases "good E s")
    case True
    then have "submitted_at n i t" using native_call_advance(2) [OF assms, of E react ShowInactive] by (simp add: t)
    then show ?thesis by (intro advance_trans [OF adv] native_call_advance(1))
  qed (simp add: progresses_def)
  then show ?thesis
    using native_call_advance(1) [OF assms, of E react FocusCall] adv by (simp add: claim_focus_def t split: sum.split)
qed

lemma submit_window_advance:
  assumes "live n s" "n \<in> E" "i < length (pe_windows (effect_at n s))"
  shows "progresses E s (fst (submit_window react n i s))"
proof (cases "good E s")
  case True
  note mark = mark_submitted_good [OF True assms]
  have "progresses E s (mark_submitted n i s)" using mark(1) by (simp add: progresses_def)
  note after = advance_trans [OF this]
  show ?thesis
    using after [OF claim_focus_advance [OF mark(2)]] after [OF native_call_advance(1) [OF mark(2)]]
    by (simp add: submit_window_def Let_def split: transition_mode.split)
qed (simp add: progresses_def)

lemma submit_windows_advance:
  assumes "n < length (wt_effects s)" "n \<in> E" "\<forall>i \<in> set is. i < length (pe_windows (effect_at n s))"
  shows "progresses E s (fst (submit_windows react n is s))"
  using assms
proof (induction "is" arbitrary: s)
  case (Cons i "is")
  show ?case
  proof (cases "effect_settled n s")
    case False
    then have live: "live n s" using Cons.prems(1) by (simp add: live_def)
    obtain t r where t: "submit_window react n i s = (t, r)" by fastforce
    have adv: "progresses E s t" using submit_window_advance [OF live Cons.prems(2), of i react] Cons.prems(3) by (simp add: t)
    have "progresses E s (fst (submit_windows react n is t))"
    proof (cases "good E s")
      case True
      then have "kept s t" using adv by (simp add: progresses_def)
      note k = keptD [OF this Cons.prems(1)]
      show ?thesis by (rule advance_trans [OF adv Cons.IH]) (use Cons.prems k in auto)
    qed (simp add: progresses_def)
    then show ?thesis using False adv by (simp add: t split: sum.split)
  qed simp
qed simp

lemma submit_effect_good:
  assumes good: "good (insert n E) s" and n: "n < length (wt_effects s)"
  shows "good E (submit_effect react n s) \<and> kept s (submit_effect react n s)"
proof -
  obtain t r where t: "submit_windows react n [0..<length (pe_windows (effect_at n s))] s = (t, r)" by fastforce
  have adv: "progresses (insert n E) s t"
    using submit_windows_advance [OF n, of "insert n E" "[0..<length (pe_windows (effect_at n s))]" react] by (simp add: t)
  then have tt: "good (insert n E) t" "kept s t" using good by (simp_all add: progresses_def)
  then have nt: "n < length (wt_effects t)" using n by (simp add: kept_def)
  have fail: "good (insert n E) (failFromUnknownTerminal e n t)" "kept s (failFromUnknownTerminal e n t)" for e
    using failUnknown_advance [OF nt, of "insert n E" e] tt kept_trans by (auto simp: progresses_def)
  have done_: "good E (completeIfApplied n t) \<and> kept s (completeIfApplied n t)"
    using complete_frees [OF tt(1) nt] kept_trans [OF tt(2)] by blast
  have failed: "good E (completeIfApplied n (failFromUnknownTerminal e n t)) \<and>
      kept s (completeIfApplied n (failFromUnknownTerminal e n t))" for e
  proof -
    have "n < length (wt_effects (failFromUnknownTerminal e n t))" using nt by simp
    from complete_frees [OF fail(1) this] show ?thesis using kept_trans [OF fail(2)] by blast
  qed
  show ?thesis using done_ failed by (cases r) (simp_all add: submit_effect_def t)
qed

section \<open>Superseding what conflicts\<close>

lemma supersede_windows [simp]: "pe_windows (effect_at m (supersede n s)) = pe_windows (effect_at m s)"
  by (simp add: supersede_def)

lemma supersede_owner_advance: "n < length (wt_effects s) \<Longrightarrow> progresses E s (supersede_owner w n s)"
  by (simp add: supersede_owner_def supersede_advance split: option.split)

lemma supersede_owner_parts [simp]:
  "wt_bindings (supersede_owner w n s) = wt_bindings s" "length (wt_effects (supersede_owner w n s)) = length (wt_effects s)"
  "pe_windows (effect_at m (supersede_owner w n s)) = pe_windows (effect_at m s)"
  by (simp_all add: supersede_owner_def split: option.split)

definition conflicts_with :: "pending_window \<Rightarrow> window_effect \<Rightarrow> bool" where
  "conflicts_with w e \<longleftrightarrow>
     (\<exists>prior. find (\<lambda>c. pw_binding c = pw_binding w) (pe_windows e) = Some prior \<and> conflicting w prior)"

lemma supersede_owner_keeps: "effect_settled m s \<Longrightarrow> effect_settled m (supersede_owner w n s)"
  by (simp add: supersede_owner_def supersede_keeps_settled split: option.split)

lemma supersede_owner_settles:
  "n < length (wt_effects s) \<Longrightarrow> conflicts_with w (effect_at n s) \<Longrightarrow> effect_settled n (supersede_owner w n s)"
  by (auto simp: supersede_owner_def conflicts_with_def supersede_settles)

lemma supersede_owners_settled:
  assumes "\<forall>n \<in> set ns. n < length (wt_effects s)" "n \<in> set ns" "conflicts_with w (effect_at n s)"
  shows "effect_settled n (fold (supersede_owner w) ns s)"
  using assms
proof (induction ns arbitrary: s)
  case (Cons m ns)
  have keeps: "effect_settled n (fold (supersede_owner w) xs t)" if "effect_settled n t" for t xs
    using that supersede_owner_keeps by (induction xs arbitrary: t) simp_all
  have same: "conflicts_with w (effect_at n (supersede_owner w m s))" using Cons.prems(3) by (simp add: conflicts_with_def)
  show ?case
  proof (cases "n = m")
    case True
    then show ?thesis using Cons.prems keeps supersede_owner_settles by simp
  next
    case False
    then show ?thesis using Cons.prems Cons.IH [of "supersede_owner w m s"] same by simp
  qed
qed simp

lemma conflicts_parts [simp]:
  "wt_bindings (supersedeConflicts w s) = wt_bindings s" "length (wt_effects (supersedeConflicts w s)) = length (wt_effects s)"
  by (simp_all add: supersedeConflicts_def bindings_fold length_fold)

lemma conflicts_advance: "progresses E s (supersedeConflicts w s)"
  unfolding supersedeConflicts_def
  by (rule owners_advance) (simp_all add: supersede_owner_advance)

text \<open>Every effect that still claims the window of \<open>w\<close> is compatible with it.\<close>

definition tolerates :: "pending_window \<Rightarrow> transitions \<Rightarrow> bool" where
  "tolerates w s \<longleftrightarrow> (\<forall>n x b h. live n s \<longrightarrow> (x, b, h) \<in> claims (effect_at n s) \<longrightarrow> ho_logicalWindowId h = window_id w \<longrightarrow>
     x = FocusMode \<and> pw_mode w = RevealMode)"

lemma tolerates_kept:
  assumes "tolerates w s" "kept s t" "length (wt_effects t) = length (wt_effects s)"
  shows "tolerates w t"
  unfolding tolerates_def
proof (intro allI impI)
  fix n x b h assume n: "live n t" and c: "(x, b, h) \<in> claims (effect_at n t)" "ho_logicalWindowId h = window_id w"
  have "n < length (wt_effects s)" using n assms(3) by (simp add: live_def)
  then have "live n s" "claims (effect_at n t) = claims (effect_at n s)" using keptD [OF assms(2)] n by blast+
  then show "x = FocusMode \<and> pw_mode w = RevealMode" using assms(1) c unfolding tolerates_def by metis
qed

lemma conflicts_tolerated:
  assumes good: "good E s" and w: "bound_claim (pw_mode w, pw_binding w, pw_host w) s"
  shows "tolerates w (supersedeConflicts w s)"
  unfolding tolerates_def
proof (intro allI impI)
  let ?t = "supersedeConflicts w s"
  fix n x b h assume n: "live n ?t" and c: "(x, b, h) \<in> claims (effect_at n ?t)" "ho_logicalWindowId h = window_id w"
  have inv: "transition_inv s" using good by (simp add: good_def)
  have k: "kept s ?t" using conflicts_advance [of E s w] good by (simp add: progresses_def)
  have len: "n < length (wt_effects s)" using n by (simp add: live_def)
  have live: "live n s" by (rule keptD(5) [OF k len n])
  have cs: "(x, b, h) \<in> claims (effect_at n s)" using c(1) keptD(2) [OF k len] by simp
  have bound: "bound_claim d s" if "d \<in> claims (effect_at n s)" for d
    using tables_invD(4) [OF transition_invD(2) [OF inv], of n "pe_effectId (effect_at n s)" "claims (effect_at n s)" d] live that
    by (simp add: leases_live)
  obtain bw where bw: "jm_get (wt_bindings s) (window_id w) = Some bw" "bd_object bw = pw_binding w"
    using w by (auto simp: bound_claim_def window_id_def)
  have b: "b = pw_binding w" using bound [OF cs] bw c(2) by (auto simp: bound_claim_def)
  obtain v where v: "v \<in> set (pe_windows (effect_at n s))" "pw_mode v = x" "pw_binding v = b" "pw_host v = h"
    using cs by (auto simp: claims_def)
  obtain prior where prior: "find (\<lambda>c. pw_binding c = pw_binding w) (pe_windows (effect_at n s)) = Some prior"
    using v(1,3) b find_None_iff [of "\<lambda>c. pw_binding c = pw_binding w" "pe_windows (effect_at n s)"]
    by (cases "find (\<lambda>c. pw_binding c = pw_binding w) (pe_windows (effect_at n s))") auto
  have p: "prior \<in> set (pe_windows (effect_at n s))" "pw_binding prior = pw_binding w" using find_mem [OF prior] by simp_all
  have "bound_claim (pw_mode prior, pw_binding prior, pw_host prior) s" using p(1) by (intro bound) (auto simp: claims_def)
  then obtain bp where bp: "jm_get (wt_bindings s) (window_id prior) = Some bp" "bd_object bp = pw_binding prior" "bd_host bp = pw_host prior"
    by (auto simp: bound_claim_def window_id_def)
  have "bp = bw" using binding_unique [OF transition_invD(1) [OF inv] bp(1) bw(1)] bp(2) bw(2) p(2) by simp
  then have "window_id prior = window_id w"
    using transition_invD(1) [OF inv] bp(1) bw(1) unfolding bindings_inv_def by metis
  then have "window_id prior = window_id v" using v(4) c(2) by (simp add: window_id_def)
  moreover have "distinct (map window_id (pe_windows (effect_at n s)))"
    using transition_invD(4) [OF inv, of "effect_at n s"] len by (simp add: effect_ok_def)
  ultimately have "prior = v" using p(1) v(1) by (auto simp: distinct_map inj_on_def)
  moreover have "\<not> conflicts_with w (effect_at n s)"
  proof
    assume conf: "conflicts_with w (effect_at n s)"
    have "window_id w \<in> windows_in (claims (effect_at n s))"
      using cs c(2) unfolding windows_in_def by force
    then have "n \<in> set (window_owners (window_id w) s)"
      using tables_invD(2) [OF transition_invD(2) [OF inv]] live by (auto simp: leases_live)
    then have "effect_settled n ?t"
      unfolding supersedeConflicts_def using supersede_owners_settled [OF owners_known [OF inv] _ conf] by blast
    then show False using n by (simp add: live_def)
  qed
  ultimately have "\<not> conflicting w v" using prior by (auto simp: conflicts_with_def)
  then show "x = FocusMode \<and> pw_mode w = RevealMode"
    using v(2) by (cases "pw_mode w") (auto simp: conflicting_def)
qed

section \<open>Beginning an effect\<close>

lemma conflicts_fold:
  assumes "good E s" "\<forall>w \<in> set ps. bound_claim (pw_mode w, pw_binding w, pw_host w) s"
  shows "good E (fold supersedeConflicts ps s) \<and> kept s (fold supersedeConflicts ps s) \<and>
    (\<forall>w \<in> set ps. tolerates w (fold supersedeConflicts ps s))"
  using assms
proof (induction ps arbitrary: s)
  case (Cons w ps)
  let ?t = "supersedeConflicts w s"
  have t: "good E ?t" "kept s ?t" using conflicts_advance [of E s w] Cons.prems(1) by (simp_all add: progresses_def)
  have "\<forall>v \<in> set ps. bound_claim (pw_mode v, pw_binding v, pw_host v) ?t" using Cons.prems(2) by (simp add: bound_claim_def)
  note IH = Cons.IH [OF t(1) this]
  have tol: "tolerates w ?t" by (rule conflicts_tolerated [OF Cons.prems(1)]) (use Cons.prems(2) in simp)
  have len: "length (wt_effects (fold supersedeConflicts ps ?t)) = length (wt_effects ?t)" by (rule length_fold) simp
  have k: "kept ?t (fold supersedeConflicts ps ?t)" using IH by blast
  have "tolerates w (fold supersedeConflicts ps ?t)" by (rule tolerates_kept [OF tol k len])
  then show ?case using IH kept_trans [OF t(2) k] by simp
qed simp

lemma supersede_focus_advance: "progresses E s (supersede_focus ps s)"
proof (cases "wt_focusEffect s")
  case (Some f)
  have "progresses E s (supersede f s)"
  proof (cases "good E s")
    case True
    then show ?thesis using live_focus [OF _ Some] supersede_advance by (simp add: good_def live_def)
  qed (simp add: progresses_def)
  then show ?thesis using Some by (simp add: supersede_focus_def)
qed (simp add: supersede_focus_def)

lemma supersede_focus_parts [simp]:
  "wt_bindings (supersede_focus ps s) = wt_bindings s" "length (wt_effects (supersede_focus ps s)) = length (wt_effects s)"
  by (simp_all add: supersede_focus_def split: option.split)

lemma supersede_focus_none:
  assumes "good E s" "list_ex (\<lambda>w. pw_mode w = FocusMode) ps"
  shows "wt_focusEffect (supersede_focus ps s) = None"
proof (cases "wt_focusEffect s")
  case (Some f)
  then have "\<not> effect_settled f s" using live_focus [OF _ Some] assms(1) by (simp add: good_def live_def)
  then show ?thesis using Some assms(2) by (simp add: supersede_focus_def supersede_def)
qed (simp add: supersede_focus_def)

lemma pending_kept:
  assumes "good E s" "good E t" "kept s t" "length (wt_effects t) = length (wt_effects s)" "jm_get (wt_pending s) i = None"
  shows "jm_get (wt_pending t) i = None"
proof (rule ccontr)
  assume "jm_get (wt_pending t) i \<noteq> None"
  then obtain n where "jm_get (wt_pending t) i = Some n" by auto
  then obtain C where "leases t n = Some (i, C)"
    using assms(2) tables_invD(1) by (auto simp: good_def transition_inv_def)
  then have n: "live n t" "pe_effectId (effect_at n t) = i" by (simp_all add: leases_live)
  then have len: "n < length (wt_effects s)" using assms(4) by (simp add: live_def)
  have "leases s n = Some (i, claims (effect_at n s))"
    using keptD(4,5) [OF assms(3) len] n by (simp add: leases_live)
  then have "jm_get (wt_pending s) i = Some n"
    using assms(1) tables_invD(1) by (auto simp: good_def transition_inv_def)
  then show False using assms(5) by simp
qed

lemma begin_advance: "progresses E s (fst (begin_transition i s))"
proof (cases "good E s")
  case good: True
  let ?plan = "and_then (begin_checks (bi_effectId i) (bi_lifecycleEpoch i) (bi_currentEpoch i) (bi_windows i) s)
             (\<lambda>_. plan_windows (bi_reads i) (bi_lifecycleEpoch i) [] (bi_windows i) s)"
  show ?thesis
  proof (cases ?plan)
    case (Inr ps)
    then have checks: "begin_checks (bi_effectId i) (bi_lifecycleEpoch i) (bi_currentEpoch i) (bi_windows i) s = Inr ()"
      and plan: "plan_windows (bi_reads i) (bi_lifecycleEpoch i) [] (bi_windows i) s = Inr ps" by auto
    note ok = plan_windows_ok [OF plan]
    let ?t = "fold supersedeConflicts ps s"
    let ?u = "supersede_focus ps ?t"
    let ?e = "\<lparr>pe_effectId = bi_effectId i, pe_operationId = bi_operationId i,
                pe_lifecycleEpoch = bi_lifecycleEpoch i, pe_windows = ps, pe_outcome = None\<rparr>"
    have t: "good E ?t" "kept s ?t" "\<forall>w \<in> set ps. tolerates w ?t" using conflicts_fold [OF good, of ps] ok by blast+
    have u: "good E ?u" "kept ?t ?u" using supersede_focus_advance [of E ?t ps] t(1) by (simp_all add: progresses_def)
    have lens: "length (wt_effects ?t) = length (wt_effects s)" "length (wt_effects ?u) = length (wt_effects ?t)"
      by (simp_all add: length_fold)
    have eff: "effect_ok ?e" using ok by (auto simp: effect_ok_def outcome_ok_def)
    have bound: "bound_claim c ?u" if "c \<in> claims ?e" for c
      using that ok by (auto simp: claims_def bound_claim_def bindings_fold)
    have "jm_get (wt_pending s) (bi_effectId i) = None"
      using checks by (simp add: begin_checks_def jm_has_def split: if_splits)
    then have id: "jm_get (wt_pending ?u) (pe_effectId ?e) = None"
      using pending_kept [OF t(1) u(1,2) lens(2)] pending_kept [OF good t(1,2) lens(1)] by simp
    have focus: "wt_focusEffect ?u = None" if "focus_in (claims ?e)"
      using that supersede_focus_none [OF t(1)] by (simp add: focus_claims)
    have compat: "compatible C (claims ?e)" if "leases ?u n = Some (j, C)" for n j C
      unfolding compatible_def
    proof (intro allI impI)
      fix x b h y b' h' assume c: "(x, b, h) \<in> C" "(y, b', h') \<in> claims ?e" "ho_logicalWindowId h = ho_logicalWindowId h'"
      obtain w where w: "w \<in> set ps" "pw_mode w = y" "window_id w = ho_logicalWindowId h'"
        using c(2) by (auto simp: claims_def window_id_def)
      have "tolerates w ?u" using t(3) w(1) tolerates_kept [OF _ u(2) lens(2)] by blast
      then show "x = FocusMode \<and> y = RevealMode"
        using that c w unfolding tolerates_def by (auto simp: leases_live)
    qed
    have reg: "good (insert (length (wt_effects ?u)) E) (register_effect ?e ?u) \<and> kept ?u (register_effect ?e ?u)"
      by (rule register_good [OF u(1) eff _ bound id focus compat]) simp
    have "good E (submit_effect (bi_react i) (length (wt_effects ?u)) (register_effect ?e ?u)) \<and>
        kept (register_effect ?e ?u) (submit_effect (bi_react i) (length (wt_effects ?u)) (register_effect ?e ?u))"
      using reg by (intro submit_effect_good) simp_all
    moreover from this have "kept s (submit_effect (bi_react i) (length (wt_effects ?u)) (register_effect ?e ?u))"
      using reg kept_trans t(2) u(2) by blast
    ultimately have "progresses E s (submit_effect (bi_react i) (length (wt_effects ?u)) (register_effect ?e ?u))"
      by (simp only: progresses_def simp_thms)
    then show ?thesis using Inr by (simp add: begin_transition_def Let_def)
  qed (simp add: begin_transition_def)
qed (simp add: progresses_def)

section \<open>Life cycle\<close>

lemma jm_entries: "jm_wf m \<Longrightarrow> v \<in> set (map snd m) \<longleftrightarrow> (\<exists>k. jm_get m k = Some v)"
  by (auto simp: jm_wf_def jm_get_def dest: map_of_SomeD intro: map_of_is_SomeI) force

lemma pending_entries:
  assumes "good E s"
  shows "n \<in> set (map snd (wt_pending s)) \<longleftrightarrow> live n s"
proof -
  have "bindings_inv s" "tables_inv s" using assms by (simp_all add: good_def transition_inv_def)
  then show ?thesis
    using jm_entries [of "wt_pending s" n] tables_invD(1) [of s _ n] by (auto simp: bindings_inv_def leases_live)
qed

lemma cancel_advance: "progresses E s (cancel_transition i op reason s)"
proof (cases "jm_get (wt_pending s) i")
  case (Some n)
  show ?thesis
  proof (cases "good E s")
    case True
    then have "n < length (wt_effects s)" using live_pending [OF _ Some] by (simp add: good_def live_def)
    then show ?thesis using Some by (simp add: cancel_transition_def supersede_advance failUnknown_advance)
  qed (simp add: progresses_def)
qed (simp add: cancel_transition_def)

lemma foreground_advance: "progresses E s (observeExternalForeground epoch s)"
proof (cases "wt_focusEffect s")
  case (Some f)
  show ?thesis
  proof (cases "good E s")
    case True
    then have "f < length (wt_effects s)" using live_focus [OF _ Some] by (simp add: good_def live_def)
    then show ?thesis using Some by (simp add: observeExternalForeground_def supersede_advance)
  qed (simp add: progresses_def)
qed (simp add: observeExternalForeground_def)

lemma lifecycle_advance: "progresses E s (advanceLifecycle epoch s)"
proof (cases "validFence epoch \<and> good E s")
  case True
  let ?s = "s\<lparr>wt_retiredFocus := filter (\<lambda>e. fst (snd e) = epoch) (wt_retiredFocus s)\<rparr>"
  have "\<forall>n \<in> set (map snd (wt_pending s)). n < length (wt_effects ?s)"
    using True pending_entries [of E s] by (auto simp: live_def)
  then have "progresses E ?s (fold (stale_effect epoch) (map snd (wt_pending s)) ?s)"
    by (rule advance_fold) (simp add: stale_effect_def supersede_advance)
  then have "progresses E s (fold (stale_effect epoch) (map snd (wt_pending s)) ?s)"
    by (rule advance_trans [rotated]) simp
  then show ?thesis using True by (simp add: advanceLifecycle_def)
qed (auto simp: advanceLifecycle_def progresses_def)

lemma cancel_settles:
  assumes "good E s" "live n s" "reason \<noteq> FocusSuperseded" "reason \<noteq> LifecycleSuperseded"
  shows "effect_settled n (cancel_number reason n s)"
proof -
  have "jm_get (wt_pending s) (pe_effectId (effect_at n s)) = Some n"
    using assms(1,2) tables_invD(1) by (auto simp: good_def transition_inv_def leases_live)
  then show ?thesis
    using assms by (auto simp: cancel_number_def cancel_transition_def failFromUnknownTerminal_def fail_effect_def live_def effect_settled_def)
qed

lemma cancel_all:
  assumes "good E s" "\<forall>n \<in> set ns. n < length (wt_effects s)" "reason \<noteq> FocusSuperseded" "reason \<noteq> LifecycleSuperseded"
  shows "good E (fold (cancel_number reason) ns s) \<and> kept s (fold (cancel_number reason) ns s) \<and>
    (\<forall>n \<in> set ns. effect_settled n (fold (cancel_number reason) ns s))"
  using assms(1,2)
proof (induction ns arbitrary: s)
  case (Cons n ns)
  let ?t = "cancel_number reason n s"
  have t: "good E ?t" "kept s ?t"
    using cancel_advance [of E s "pe_effectId (effect_at n s)" "pe_operationId (effect_at n s)" reason] Cons.prems(1)
    by (simp_all add: progresses_def cancel_number_def)
  have known: "\<forall>m \<in> set ns. m < length (wt_effects ?t)" using Cons.prems(2) t(2) by (auto simp: kept_def)
  note IH = Cons.IH [OF t(1) known]
  have nt: "n < length (wt_effects ?t)" using Cons.prems(2) t(2) by (auto simp: kept_def)
  have "effect_settled n ?t"
  proof (cases "effect_settled n s")
    case True
    then show ?thesis using t(2) Cons.prems(2) by (simp add: kept_def effect_settled_def)
  qed (use cancel_settles [OF Cons.prems(1) _ assms(3,4)] Cons.prems(2) in \<open>simp add: live_def\<close>)
  then have "effect_settled n (fold (cancel_number reason) ns ?t)"
    using IH nt by (simp add: kept_def effect_settled_def)
  then show ?case using IH kept_trans [OF t(2)] by simp
qed simp

lemma closed_settles:
  assumes "good E s"
  shows "good E (close_transitions (if actor then ActorStop else EventStreamFailure) s) \<and>
    kept s (close_transitions (if actor then ActorStop else EventStreamFailure) s) \<and>
    (\<not> wt_closed s \<longrightarrow> (\<forall>n. \<not> live n (close_transitions (if actor then ActorStop else EventStreamFailure) s)))"
proof (cases "wt_closed s")
  case False
  let ?reason = "if actor then ActorStop else EventStreamFailure" and ?s = "s\<lparr>wt_closed := True\<rparr>"
  let ?t = "fold (cancel_number ?reason) (map snd (wt_pending s)) ?s"
  have s: "good E ?s" "kept s ?s"
  proof -
    have "progresses E s ?s" by simp
    then show "good E ?s" "kept s ?s" using assms by (simp_all only: progresses_def)
  qed
  have "\<forall>n \<in> set (map snd (wt_pending s)). n < length (wt_effects ?s)"
    using assms pending_entries [of E s] by (auto simp: live_def)
  then have t: "good E ?t" "kept ?s ?t" "\<forall>n \<in> set (map snd (wt_pending s)). effect_settled n ?t"
    using cancel_all [OF s(1), of "map snd (wt_pending s)" ?reason] by auto
  have len: "length (wt_effects ?t) = length (wt_effects ?s)"
    by (rule length_fold) (simp add: cancel_number_def cancel_transition_def split: option.split)
  have none: "\<not> live n ?t" for n
  proof
    assume n: "live n ?t"
    then have "live n ?s" using keptD(5) [OF t(2) _ n] len by (simp add: live_def)
    then have "live n s" by (simp add: live_def effect_settled_def)
    then have "effect_settled n ?t" using t(3) pending_entries [OF assms] by blast
    then show False using n by (simp add: live_def)
  qed
  have "progresses E ?t (?t\<lparr>wt_bindings := [], wt_nextObject := wt_nextObject ?t\<rparr>)"
  proof (rule rebind_advance)
    assume "good E ?t"
    then show "bindings_inv (?t\<lparr>wt_bindings := [], wt_nextObject := wt_nextObject ?t\<rparr>)"
      by (simp add: good_def transition_inv_def bindings_inv_def)
  qed (use none in blast)
  then have "progresses E ?t (?t\<lparr>wt_bindings := [], wt_retiredFocus := []\<rparr>)" by simp
  then have u: "good E (?t\<lparr>wt_bindings := [], wt_retiredFocus := []\<rparr>) \<and> kept ?t (?t\<lparr>wt_bindings := [], wt_retiredFocus := []\<rparr>)"
    using t(1) by (simp add: progresses_def)
  moreover have "\<not> live n (?t\<lparr>wt_bindings := [], wt_retiredFocus := []\<rparr>)" for n
    using none by (simp add: live_def effect_settled_def)
  ultimately show ?thesis
    using False kept_trans [OF kept_trans [OF s(2) t(2)]] by (simp add: close_transitions_def)
qed (use assms in \<open>simp add: close_transitions_def\<close>)

section \<open>Every step\<close>

lemma run_advance: "progresses {} s (transition_run x s)"
proof (cases x)
  case (CloseTransitions actor)
  then show ?thesis using closed_settles [of "{}" s actor] by (auto simp: progresses_def)
qed (simp_all add: synchronize_advance begin_advance deliver_advance cancel_advance lifecycle_advance foreground_advance)

lemma good_start: "good {} no_transitions"
  by (simp add: good_def transition_inv_def bindings_inv_def tables_inv_def conflicts_inv_def calls_ok_def
      no_transitions_def leases_def live_def free_def window_owners_def)

interpretation transitions: guarded_machine transition_run "good {}"
proof unfold_locales
  fix s x assume "good {} s"
  then show "good {} (transition_run x s)" using run_advance [of s x] by (simp add: progresses_def)
qed

lemma run_kept: "good {} s \<Longrightarrow> kept s (fold transition_run xs s)"
proof (induction xs arbitrary: s)
  case (Cons x xs)
  have "good {} (transition_run x s)" "kept s (transition_run x s)"
    using run_advance [of s x] Cons.prems by (simp_all add: progresses_def)
  then show ?case using Cons.IH kept_trans by fastforce
qed simp

end
