(* ===== verification/Window_Properties.thy ===== *)
theory Window_Properties
  imports Window_Begin
begin

text \<open>
  The properties of window transitions: one claim of the focus, applied only on exact observations,
  settled once and honest about what was touched, and never left waiting without reason.
\<close>

section \<open>A window that is asked for twice\<close>

definition host_w :: runtime_host where
  "host_w = \<lparr>ho_object = 0, ho_id = 7, ho_logicalWindowId = ''w'', ho_appKitIdentity = None,
     ho_windowState = True, ho_showInactive = True\<rparr>"

definition seen_w :: "observation_source \<Rightarrow> int \<Rightarrow> bool \<Rightarrow> bool \<Rightarrow> window_observation" where
  "seen_w src n vis foc = \<lparr>ob_platform = Windows, ob_source = src, ob_sequence = n, ob_lifecycleEpoch = 1,
     ob_logicalWindowId = ''w'', ob_nativeHostId = 7, ob_nativeGeneration = 1, ob_windowGeneration = 2,
     ob_topologyRevision = 3, ob_visible = vis, ob_minimized = False, ob_focused = foc, ob_foreground = foc,
     ob_appKitIdentity = None, ob_failureCode = None\<rparr>"

definition answers_w :: "runtime_host \<Rightarrow> bind_answers" where
  "answers_w h = \<lparr>ba_initial = Inr (seen_w OnInitial 1 False False), ba_events = [], ba_subscribed = Inr (),
     ba_current = Inr (seen_w OnInitial 1 False False)\<rparr>"

definition begin_w :: "string \<Rightarrow> transition_mode \<Rightarrow> (nat \<times> window_observation) list \<Rightarrow> begin_input" where
  "begin_w i md evs = \<lparr>bi_effectId = i, bi_operationId = ''o'', bi_lifecycleEpoch = 1, bi_currentEpoch = 1,
     bi_windows = [\<lparr>tw_host = host_w, tw_mode = md, tw_topologyRevision = 3, tw_windowGeneration = 2\<rparr>],
     bi_reads = (\<lambda>_. Inr (seen_w OnInitial 1 False False)), bi_react = (\<lambda>_. (evs, Inr ()))\<rparr>"

definition twice_run :: "transition_step list" where
  "twice_run = [Synchronize answers_w [host_w], BeginTransition (begin_w ''f'' FocusMode []),
     BeginTransition (begin_w ''r'' RevealMode [])]"

section \<open>One window_claim of the focus\<close>

text \<open>
  C17. In every run, at most one effect in flight claims the process-wide focus, and it is the one the
  coordinator remembers; and two effects in flight may share a window only when the older one claims the
  focus of it and the newer one merely reveals it.
\<close>

theorem focus_claimed_once:
  assumes run: "s = fold transition_run xs no_transitions" and live: "live n s" "live m s" "n < m"
    and w: "w \<in> set (pe_windows (effect_at n s))" and v: "v \<in> set (pe_windows (effect_at m s))"
  shows "\<not> (pw_mode w = FocusMode \<and> pw_mode v = FocusMode) \<and>
    (pw_mode w = FocusMode \<longrightarrow> wt_focusEffect s = Some n) \<and>
    (window_id w = window_id v \<longrightarrow> pw_mode w = FocusMode \<and> pw_mode v = RevealMode)"
proof -
  have inv: "transition_inv s" using transitions.run_inv [OF good_start, of xs] by (simp add: run good_def)
  have focus: "wt_focusEffect s = Some k" if "live k s" "u \<in> set (pe_windows (effect_at k s))" "pw_mode u = FocusMode" for k u
    using that tables_invD(3) [OF transition_invD(2) [OF inv], of k] by (auto simp: leases_live focus_claims list_ex_iff)
  have "compatible (claims (effect_at n s)) (claims (effect_at m s))"
    using transition_invD(3) [OF inv] live unfolding conflicts_inv_def by (simp add: leases_live)
  then have "window_id w = window_id v \<longrightarrow> pw_mode w = FocusMode \<and> pw_mode v = RevealMode"
    using w v unfolding compatible_def claims_def window_id_def by blast
  then show ?thesis using focus [OF live(1) w] focus [OF live(2) v] live(3) by auto
qed

theorem focus_claimed_once_witness:
  "let s = fold transition_run twice_run no_transitions
   in live 0 s \<and> live 1 s \<and> wt_focusEffect s = Some 0"
proof -
  let ?s = "fold transition_run twice_run no_transitions"
  have l: "live 0 ?s" "live 1 ?s" by code_simp+
  have w: "hd (pe_windows (effect_at 0 ?s)) \<in> set (pe_windows (effect_at 0 ?s))"
    and v: "hd (pe_windows (effect_at 1 ?s)) \<in> set (pe_windows (effect_at 1 ?s))" by code_simp+
  have f: "pw_mode (hd (pe_windows (effect_at 0 ?s))) = FocusMode" by code_simp
  from focus_claimed_once [OF refl l _ w v] f have "wt_focusEffect ?s = Some 0" by simp
  then show ?thesis using l by (simp add: Let_def)
qed

section \<open>Applied on exact observations\<close>

text \<open>
  C18. An effect is reported as applied only with one observation for each of its windows, in order; each
  came from the exact native host the window was bound to, fits the effect's life cycle and the window's
  generation and topology, is not older than the state read when the effect began, and shows the state
  asked for.
\<close>

theorem applied_on_exact_observations:
  assumes run: "s = fold transition_run xs no_transitions" and n: "n < length (wt_effects s)"
    and out: "pe_outcome (effect_at n s) = Some (Inr r)" "tr_status r = AppliedStatus"
  shows "tr_effectId r = pe_effectId (effect_at n s) \<and> length (tr_windows r) = length (pe_windows (effect_at n s)) \<and>
    (\<forall>i < length (tr_windows r). evidences (pe_lifecycleEpoch (effect_at n s)) (pe_windows (effect_at n s) ! i) (tr_windows r ! i))"
proof -
  let ?e = "effect_at n s"
  have "transition_inv s" using transitions.run_inv [OF good_start, of xs] by (simp add: run good_def)
  then have ok: "effect_ok ?e" using n by (simp add: transition_inv_def)
  then have r: "r = transition_receipt_of AppliedStatus ?e" and all: "\<forall>w \<in> set (pe_windows ?e). pw_applied w \<noteq> None"
    using out by (auto simp: effect_ok_def outcome_ok_def transition_receipt_of_def)
  have "List.map_filter pw_applied ws = map (the \<circ> pw_applied) ws" if "\<forall>w \<in> set ws. pw_applied w \<noteq> None" for ws
    using that by (induction ws) (auto simp: List.map_filter_def)
  then have "tr_windows r = map (the \<circ> pw_applied) (pe_windows ?e)" using all by (simp add: r transition_receipt_of_def)
  moreover have "evidences (pe_lifecycleEpoch ?e) (pe_windows ?e ! i) (the (pw_applied (pe_windows ?e ! i)))"
    if "i < length (pe_windows ?e)" for i
    using ok all nth_mem [OF that] by (auto simp: effect_ok_def)
  ultimately show ?thesis by (simp add: r transition_receipt_of_def)
qed

definition reveal_run :: "transition_step list" where
  "reveal_run = [Synchronize answers_w [host_w], BeginTransition (begin_w ''r'' RevealMode [(0, seen_w OnShow 2 True False)])]"

theorem applied_on_exact_observations_witness:
  "let s = fold transition_run reveal_run no_transitions
   in pe_outcome (effect_at 0 s) \<noteq> None \<and> evidences 1 (hd (pe_windows (effect_at 0 s))) (seen_w OnShow 2 True False)"
proof -
  let ?s = "fold transition_run reveal_run no_transitions"
  let ?r = "transition_receipt_of AppliedStatus (effect_at 0 ?s)"
  have n: "0 < length (wt_effects ?s)" by code_simp
  have out: "pe_outcome (effect_at 0 ?s) = Some (Inr ?r)" by code_simp
  have w: "tr_windows ?r = [seen_w OnShow 2 True False]" "pe_lifecycleEpoch (effect_at 0 ?s) = 1"
    "pe_windows (effect_at 0 ?s) ! 0 = hd (pe_windows (effect_at 0 ?s))" by code_simp+
  have st: "tr_status ?r = AppliedStatus" by (simp add: transition_receipt_of_def)
  from applied_on_exact_observations [OF refl n out st]
  have "evidences 1 (hd (pe_windows (effect_at 0 ?s))) (seen_w OnShow 2 True False)" by (simp add: w)
  then show ?thesis using out by (simp add: Let_def)
qed

section \<open>Settled once\<close>

text \<open>
  C19. The promise of an effect settles at most once, with an outcome no later step changes; and when it
  rejects with anything but the indeterminate error, no native call was ever made for the effect, so
  nothing was touched.
\<close>

theorem rejected_effects_untouched:
  assumes run: "s = fold transition_run xs no_transitions" and n: "n < length (wt_effects s)"
    and out: "pe_outcome (effect_at n s) = Some out" and later: "t = fold transition_run ys s"
  shows "pe_outcome (effect_at n t) = Some out \<and>
    (\<forall>e. out = Inl e \<longrightarrow> e \<noteq> indeterminate \<longrightarrow> (\<forall>i c. (n, i, c) \<notin> set (wt_calls t)))"
proof -
  have good: "good {} s" using transitions.run_inv [OF good_start, of xs] by (simp add: run)
  have kept: "kept s t" unfolding later by (rule run_kept [OF good])
  then have same: "effect_at n t = effect_at n s" and n': "n < length (wt_effects t)"
    using n out by (simp_all add: kept_def effect_settled_def)
  have inv: "transition_inv t" using transitions.run_inv [OF good, of ys] by (simp add: later good_def)
  have "(n, i, c) \<notin> set (wt_calls t)" if "out = Inl e" "e \<noteq> indeterminate" for e i c
  proof
    assume "(n, i, c) \<in> set (wt_calls t)"
    then have "i < length (pe_windows (effect_at n t))" "pw_submitted (pe_windows (effect_at n t) ! i)"
      using transition_invD(5) [OF inv] unfolding calls_ok_def by blast+
    moreover have "outcome_ok (effect_at n t)" using inv n' by (simp add: transition_inv_def effect_ok_def)
    ultimately show False using out that by (simp add: same outcome_ok_def)
  qed
  then show ?thesis using out same by simp
qed

definition failing_run :: "transition_step list" where
  "failing_run = [Synchronize answers_w [host_w],
     BeginTransition ((begin_w ''r'' RevealMode [])\<lparr>bi_react := (\<lambda>_. ([], Inl PlainError))\<rparr>),
     CancelTransition ''r'' ''o'' CoreCancelled]"

theorem rejected_effects_untouched_witness:
  "let s = fold transition_run failing_run no_transitions
   in pe_outcome (effect_at 0 s) = Some (Inl indeterminate) \<and>
      pe_outcome (effect_at 0 (fold transition_run [CloseTransitions True] s)) = Some (Inl indeterminate)"
proof -
  let ?s = "fold transition_run failing_run no_transitions"
  have n: "0 < length (wt_effects ?s)" by code_simp
  have out: "pe_outcome (effect_at 0 ?s) = Some (Inl indeterminate)" by code_simp
  from rejected_effects_untouched [OF refl n out refl, of "[CloseTransitions True]"] out
  show ?thesis by (simp add: Let_def)
qed

section \<open>Nothing waits without reason\<close>

text \<open>
  C20. Between two steps, an effect in flight still lacks an observation for one of its windows - one that
  has them all is settled in the step that brought the last - and closing the coordinator settles every
  effect in flight.
\<close>

theorem transitions_never_stuck:
  assumes run: "s = fold transition_run xs no_transitions"
  shows "(\<forall>n. live n s \<longrightarrow> (\<exists>w \<in> set (pe_windows (effect_at n s)). pw_applied w = None)) \<and>
    (\<not> wt_closed s \<longrightarrow> (\<forall>n. \<not> live n (transition_run (CloseTransitions actor) s)))"
  using transitions.run_inv [OF good_start, of xs] closed_settles [of "{}" s actor]
  by (simp add: run good_def free_def)

theorem transitions_never_stuck_witness:
  "\<not> live 0 (transition_run (CloseTransitions True) (fold transition_run twice_run no_transitions))"
proof -
  have "\<not> wt_closed (fold transition_run twice_run no_transitions)" by code_simp
  then show ?thesis using transitions_never_stuck [OF refl, of twice_run True] by blast
qed

end
