(* ===== verification/Managed_Shortcut.thy ===== *)
theory Managed_Shortcut
  imports Input_Recovery
begin

text \<open>
  Physical macro shortcuts (\<open>src/src/electron/main/chromiumManagedShortcutCoordinator.ts\<close>): a key the
  player holds down starts a macro through Core, and its release ends it.  The coordinator remembers which
  shortcut cycles Core may still hold, admits one press per key at a time, fences a role whose document is
  being replaced, and forgets a cycle only with Core's answer.

  An asynchronous method is cut where it awaits, and a role runs one job at a time, as in
  \<open>Input_Recovery\<close>.  The diagnostic observer is left out: it cannot affect the coordinator.
  \<open>sc_log\<close> is a ghost: the presses and releases Core was asked for, how they ended, and when a fence was
  prepared and its retirement recorded, newest first.
\<close>

section \<open>Data\<close>

datatype shortcut_phase = KeyDownPhase | KeyUpPhase

record shortcut_request =
  sr_code :: string
  sr_macroId :: string
  sr_modifierCodes :: "string list"
  sr_phase :: shortcut_phase
  sr_shortcutCycleId :: string

record shortcut_surface =
  ss_roleId :: string
  ss_tabId :: string
  ss_surfaceGeneration :: int
  ss_documentInstanceId :: string
  ss_ownerGeneration :: int

datatype control_outcome = NoControl | Stopped

datatype input_outcome = AppliedInput | FailedInput | IndeterminateInput | SupersededInput

datatype phase_status = AcceptedPhase | DuplicatePhase | SupersededPhase

record phase_receipt =
  pr_operationId :: string
  pr_roleId :: string
  pr_tabId :: string
  pr_surfaceGeneration :: int
  pr_documentInstanceId :: string
  pr_expectedOwnerGeneration :: int
  pr_shortcutCycleId :: string
  pr_macroId :: string
  pr_code :: string
  pr_phase :: shortcut_phase
  pr_controlOutcome :: control_outcome
  pr_inputOutcome :: input_outcome
  pr_inputErrorCode :: "string option"
  pr_requestIds :: "string list"
  pr_status :: phase_status

record retirement_receipt =
  rr_roleId :: string
  rr_surfaceGeneration :: int
  rr_documentInstanceId :: string
  rr_terminal :: bool
  rr_cleanupRequestIds :: "string list"
  rr_retiredShortcutCycleIds :: "string list"

datatype shortcut_hold = Provisional | Held | Uncertain

record active_shortcut =
  as_code :: string
  as_documentInstanceId :: string
  as_macroId :: string
  as_shortcutCycleId :: string
  as_roleId :: string
  as_surfaceGeneration :: int
  as_state :: shortcut_hold

text \<open>A fence object is compared by reference, so it carries its number.\<close>

record replacement_fence =
  rf_object :: nat
  rf_documentInstanceId :: string
  rf_operationId :: string
  rf_surfaceGeneration :: int

record replacement_input =
  ri_document :: string
  ri_operation :: string
  ri_role :: string
  ri_generation :: int

section \<open>Requests and receipts\<close>

text \<open>The payload is untrusted; an array holds strings (\<open>Some\<close>) and other values (\<open>None\<close>).\<close>

datatype shortcut_value = SvString string | SvArray "string option list" | SvOther

datatype shortcut_payload = SvRecord "(string, shortcut_value) js_map" | SvNoRecord

definition valid_identifier :: "string \<Rightarrow> nat \<Rightarrow> bool" where
  "valid_identifier v maximum \<longleftrightarrow> v \<noteq> [] \<and> length v \<le> maximum \<and> js_trim v = v \<and>
     \<not> list_ex (\<lambda>c. (of_char c :: nat) \<le> 31) v"

definition shortcut_invalid :: js_error where
  "shortcut_invalid = BridgeError ''ELECTRON_MANAGED_SHORTCUT_INVALID''"

definition allowed_modifiers :: "string list" where
  "allowed_modifiers = [''AltLeft'', ''AltRight'', ''ControlLeft'', ''ControlRight'',
     ''MetaLeft'', ''MetaRight'', ''ShiftLeft'', ''ShiftRight'']"

definition allowed_codes :: "string option list \<Rightarrow> bool" where
  "allowed_codes vs \<longleftrightarrow> length vs \<le> 4 \<and> distinct vs \<and>
     list_all (\<lambda>v. case v of None \<Rightarrow> False | Some c \<Rightarrow> c \<in> set allowed_modifiers) vs"

definition phase_of :: "string \<Rightarrow> shortcut_phase option" where
  "phase_of v = (if v = ''keyDown'' then Some KeyDownPhase else if v = ''keyUp'' then Some KeyUpPhase else None)"

definition parseRequest :: "shortcut_payload \<Rightarrow> shortcut_request outcome" where
  "parseRequest raw =
     (case raw of
        SvNoRecord \<Rightarrow> Inl shortcut_invalid
      | SvRecord r \<Rightarrow>
          if sort (map fst r) \<noteq> [''code'', ''macroId'', ''modifierCodes'', ''phase'', ''shortcutCycleId'']
          then Inl shortcut_invalid
          else (case (jm_get r ''code'', jm_get r ''macroId'', jm_get r ''modifierCodes'', jm_get r ''phase'',
                      jm_get r ''shortcutCycleId'') of
                  (Some (SvString c), Some (SvString m), Some (SvArray vs), Some (SvString p), Some (SvString y)) \<Rightarrow>
                    (case phase_of p of
                       Some ph \<Rightarrow>
                         if valid_identifier c 64 \<and> valid_identifier m 256 \<and> valid_identifier y 160 \<and> allowed_codes vs
                         then Inr \<lparr>sr_code = c, sr_macroId = m, sr_modifierCodes = List.map_filter id vs,
                                sr_phase = ph, sr_shortcutCycleId = y\<rparr>
                         else Inl shortcut_invalid
                     | None \<Rightarrow> Inl shortcut_invalid)
                | _ \<Rightarrow> Inl shortcut_invalid))"

definition exactReceipt :: "phase_receipt \<Rightarrow> string \<Rightarrow> shortcut_surface \<Rightarrow> shortcut_request \<Rightarrow> bool" where
  "exactReceipt r op u rq \<longleftrightarrow>
     pr_operationId r = op \<and> pr_roleId r = ss_roleId u \<and> pr_tabId r = ss_tabId u \<and>
     pr_surfaceGeneration r = ss_surfaceGeneration u \<and> pr_documentInstanceId r = ss_documentInstanceId u \<and>
     pr_expectedOwnerGeneration r = ss_ownerGeneration u \<and> pr_shortcutCycleId r = sr_shortcutCycleId rq \<and>
     pr_macroId r = sr_macroId rq \<and> pr_code r = sr_code rq \<and> pr_phase r = sr_phase rq \<and>
     (case pr_inputErrorCode r of None \<Rightarrow> True | Some c \<Rightarrow> valid_identifier c 96) \<and>
     (if pr_status r = SupersededPhase then pr_requestIds r = []
      else if pr_inputOutcome r = AppliedInput
      then length (pr_requestIds r) = 1 \<and> valid_identifier (pr_requestIds r ! 0) 256
      else pr_controlOutcome r = Stopped \<and> pr_requestIds r = [])"

section \<open>State\<close>

type_synonym shortcut_key = "string \<times> string \<times> string"

definition shortcutKey :: "string \<Rightarrow> string \<Rightarrow> string \<Rightarrow> shortcut_key" where
  "shortcutKey role macro cd = (role, macro, cd)"

definition request_key :: "shortcut_surface \<Rightarrow> shortcut_request \<Rightarrow> shortcut_key" where
  "request_key u rq = shortcutKey (ss_roleId u) (sr_macroId rq) (sr_code rq)"

datatype shortcut_job =
  DispatchShortcut shortcut_surface shortcut_request
| PrepareShortcut replacement_input nat
| RetireShortcuts string int

datatype shortcut_stage =
  AwaitingCore string shortcut_surface shortcut_request
| AwaitingRetirement string int "active_shortcut list" "string list"  \<comment> \<open>the documents left, the first one asked\<close>

datatype shortcut_event =
  CoreAsked string shortcut_surface shortcut_request
| FencePrepared nat
| RetirementRecorded nat
| ShortcutAnswered string "phase_receipt outcome"
| JobFailed string js_error
| RetirementAsked string int string

record shortcut_state =
  sc_active :: "(shortcut_key, active_shortcut) js_map"
  sc_pendingKeyDowns :: "(shortcut_key, string) js_map"
  sc_fences :: "(string, (string, replacement_fence) js_map) js_map"
  sc_retirements :: "(string, (string, retirement_receipt) js_map) js_map"
  sc_queue :: "(string \<times> shortcut_job) list"
  sc_running :: "(string, shortcut_stage) js_map"
  sc_disposed :: bool
  sc_nextFence :: nat
  sc_log :: "shortcut_event list"

definition no_shortcuts :: shortcut_state where
  "no_shortcuts = \<lparr>sc_active = [], sc_pendingKeyDowns = [], sc_fences = [], sc_retirements = [], sc_queue = [],
     sc_running = [], sc_disposed = False, sc_nextFence = 0, sc_log = []\<rparr>"

definition shortcut_event :: "shortcut_event \<Rightarrow> shortcut_state \<Rightarrow> shortcut_state" where
  "shortcut_event e s = s\<lparr>sc_log := e # sc_log s\<rparr>"

definition enqueue_shortcut :: "string \<Rightarrow> shortcut_job \<Rightarrow> shortcut_state \<Rightarrow> shortcut_state" where
  "enqueue_shortcut q j s = s\<lparr>sc_queue := sc_queue s @ [(q, j)]\<rparr>"

definition fence_at :: "string \<Rightarrow> string \<Rightarrow> shortcut_state \<Rightarrow> replacement_fence option" where
  "fence_at q op s = (case jm_get (sc_fences s) q of None \<Rightarrow> None | Some fs \<Rightarrow> jm_get fs op)"

definition matching_fence :: "replacement_input \<Rightarrow> shortcut_state \<Rightarrow> replacement_fence option" where
  "matching_fence i s =
     (case fence_at (ri_role i) (ri_operation i) s of
        None \<Rightarrow> None
      | Some f \<Rightarrow> if rf_surfaceGeneration f = ri_generation i \<and> rf_documentInstanceId f = ri_document i
                  then Some f else None)"

section \<open>Forgetting a cycle\<close>

definition retireExactCycle :: "shortcut_key \<Rightarrow> string \<Rightarrow> shortcut_state \<Rightarrow> shortcut_state" where
  "retireExactCycle k y s =
     (case jm_get (sc_active s) k of
        None \<Rightarrow> s
      | Some a \<Rightarrow> if as_shortcutCycleId a = y then s\<lparr>sc_active := jm_delete k (sc_active s)\<rparr> else s)"

definition mark_uncertain :: "shortcut_key \<Rightarrow> string \<Rightarrow> shortcut_state \<Rightarrow> shortcut_state" where
  "mark_uncertain k y s =
     (case jm_get (sc_active s) k of
        None \<Rightarrow> s
      | Some a \<Rightarrow> if as_shortcutCycleId a = y
                  then s\<lparr>sc_active := jm_set k (a\<lparr>as_state := Uncertain\<rparr>) (sc_active s)\<rparr> else s)"

definition active_entry :: "shortcut_surface \<Rightarrow> shortcut_request \<Rightarrow> shortcut_hold \<Rightarrow> active_shortcut" where
  "active_entry u rq h = \<lparr>as_code = sr_code rq, as_documentInstanceId = ss_documentInstanceId u,
     as_macroId = sr_macroId rq, as_shortcutCycleId = sr_shortcutCycleId rq, as_roleId = ss_roleId u,
     as_surfaceGeneration = ss_surfaceGeneration u, as_state = h\<rparr>"

section \<open>Dispatching a phase\<close>

definition shortcut_disposed :: js_error where
  "shortcut_disposed = BridgeError ''ELECTRON_MANAGED_SHORTCUT_DISPOSED''"

definition shortcut_superseded :: js_error where
  "shortcut_superseded = BridgeError ''ELECTRON_MANAGED_SHORTCUT_SUPERSEDED''"

text \<open>The call, up to its job; \<open>resolved\<close> is what \<open>resolveSurface\<close> returned or threw.\<close>

definition dispatch_shortcut ::
  "overlay_frame \<Rightarrow> shortcut_payload \<Rightarrow> shortcut_surface outcome \<Rightarrow> shortcut_state \<Rightarrow> shortcut_state \<times> unit outcome" where
  "dispatch_shortcut i raw surface s =
     (if sc_disposed s then (s, Inl shortcut_disposed)
      else (case and_then (parseRequest raw) (\<lambda>rq. and_then surface (\<lambda>u. Inr (rq, u))) of
              Inl e \<Rightarrow> (s, Inl e)
            | Inr (rq, u) \<Rightarrow>
                if ss_roleId u \<noteq> fi_roleId i \<or> ss_surfaceGeneration u \<noteq> fi_generation i \<or>
                   ss_documentInstanceId u \<noteq> fi_documentInstanceId i
                then (s, Inl (BridgeError ''ELECTRON_MANAGED_SHORTCUT_SURFACE_STALE''))
                else if sr_phase rq = KeyDownPhase \<and>
                        (jm_has (sc_active s) (request_key u rq) \<or> jm_has (sc_pendingKeyDowns s) (request_key u rq))
                then (s, Inl shortcut_superseded)
                else (enqueue_shortcut (ss_roleId u) (DispatchShortcut u rq)
                        (if sr_phase rq = KeyDownPhase
                         then s\<lparr>sc_pendingKeyDowns :=
                                  jm_set (request_key u rq) (sr_shortcutCycleId rq) (sc_pendingKeyDowns s)\<rparr>
                         else s),
                      Inr ())))"

definition end_shortcut_job :: "string \<Rightarrow> shortcut_state \<Rightarrow> shortcut_state" where
  "end_shortcut_job q s = s\<lparr>sc_running := jm_delete q (sc_running s)\<rparr>"

text \<open>The end of a dispatch: its promise settles, then the \<open>finally\<close> drops the pending press.\<close>

definition end_dispatch :: "shortcut_surface \<Rightarrow> shortcut_request \<Rightarrow> phase_receipt outcome \<Rightarrow> shortcut_state \<Rightarrow> shortcut_state" where
  "end_dispatch u rq out s0 =
     (let s = end_shortcut_job (ss_roleId u) (shortcut_event (ShortcutAnswered (ss_roleId u) out) s0)
      in if sr_phase rq = KeyDownPhase \<and>
            jm_get (sc_pendingKeyDowns s) (request_key u rq) = Some (sr_shortcutCycleId rq)
         then s\<lparr>sc_pendingKeyDowns := jm_delete (request_key u rq) (sc_pendingKeyDowns s)\<rparr> else s)"

definition role_fenced :: "string \<Rightarrow> shortcut_state \<Rightarrow> bool" where
  "role_fenced q s \<longleftrightarrow> (case jm_get (sc_fences s) q of None \<Rightarrow> False | Some fs \<Rightarrow> fs \<noteq> [])"

definition start_dispatch :: "string \<Rightarrow> shortcut_surface \<Rightarrow> shortcut_request \<Rightarrow> shortcut_state \<Rightarrow> shortcut_state" where
  "start_dispatch op u rq s =
     (if role_fenced (ss_roleId u) s
      then end_dispatch u rq (Inl (BridgeError ''ELECTRON_MANAGED_SHORTCUT_DOCUMENT_REPLACING'')) s
      else (let k = request_key u rq;
                s1 = (if sr_phase rq = KeyDownPhase \<and> \<not> jm_has (sc_active s) k
                      then s\<lparr>sc_active := jm_set k (active_entry u rq Provisional) (sc_active s)\<rparr> else s)
            in shortcut_event (CoreAsked op u rq)
                 (s1\<lparr>sc_running := jm_set (ss_roleId u) (AwaitingCore op u rq) (sc_running s1)\<rparr>)))"

definition default_error_code :: string where
  "default_error_code = ''ELECTRON_BRIDGE_FAILED''"

text \<open>What Core's answer does to the active cycles, and what the caller gets.\<close>

definition dispatch_failed :: "shortcut_key \<Rightarrow> shortcut_request \<Rightarrow> js_error \<Rightarrow> shortcut_state \<Rightarrow> shortcut_state" where
  "dispatch_failed k rq e s =
     (if sr_phase rq = KeyDownPhase \<and> normalizeRionBridgeError default_error_code e = ''SYSTEM_TRUSTED_INPUT_INDETERMINATE''
      then mark_uncertain k (sr_shortcutCycleId rq) s
      else retireExactCycle k (sr_shortcutCycleId rq) s)"

definition receipt_mismatch :: "shortcut_key \<Rightarrow> shortcut_request \<Rightarrow> shortcut_state \<Rightarrow> shortcut_state" where
  "receipt_mismatch k rq s =
     (if sr_phase rq = KeyDownPhase then mark_uncertain k (sr_shortcutCycleId rq) s
      else retireExactCycle k (sr_shortcutCycleId rq) s)"

definition settle_dispatch ::
  "string \<Rightarrow> shortcut_surface \<Rightarrow> shortcut_request \<Rightarrow> phase_receipt outcome \<Rightarrow> shortcut_state \<Rightarrow> shortcut_state" where
  "settle_dispatch op u rq out s =
     (let k = request_key u rq in
      case out of
        Inl e \<Rightarrow> end_dispatch u rq (Inl e) (dispatch_failed k rq e s)
      | Inr r \<Rightarrow>
          if \<not> exactReceipt r op u rq
          then end_dispatch u rq (Inl (BridgeError ''ELECTRON_MANAGED_SHORTCUT_RECEIPT_INVALID'')) (receipt_mismatch k rq s)
          else if pr_status r \<noteq> AcceptedPhase
          then end_dispatch u rq
                 (Inl (if pr_status r = DuplicatePhase then BridgeError ''ELECTRON_MANAGED_SHORTCUT_DUPLICATE''
                       else shortcut_superseded))
                 (retireExactCycle k (sr_shortcutCycleId rq) s)
          else if sr_phase rq = KeyDownPhase \<and> pr_inputOutcome r = AppliedInput
          then end_dispatch u rq (Inr r) (s\<lparr>sc_active := jm_set k (active_entry u rq Held) (sc_active s)\<rparr>)
          else end_dispatch u rq (Inr r) (retireExactCycle k (sr_shortcutCycleId rq) s))"

section \<open>Replacing a document\<close>

definition can_commit :: "replacement_input \<Rightarrow> shortcut_state \<Rightarrow> bool" where
  "can_commit i s \<longleftrightarrow> matching_fence i s \<noteq> None \<and>
     (case jm_get (sc_retirements s) (ri_role i) of None \<Rightarrow> False | Some rs \<Rightarrow> jm_has rs (ri_operation i))"

definition commitDocumentReplacement :: "replacement_input \<Rightarrow> shortcut_state \<Rightarrow> bool" where
  "commitDocumentReplacement i s = can_commit i s"

text \<open>Deleting an operation of a role; an empty map of the role is dropped.\<close>

definition drop_operation :: "string \<Rightarrow> string \<Rightarrow> (string, (string, 'v) js_map) js_map \<Rightarrow> (string, (string, 'v) js_map) js_map" where
  "drop_operation q op m =
     (case jm_get m q of
        None \<Rightarrow> m
      | Some vs \<Rightarrow> if jm_delete op vs = [] then jm_delete q m else jm_set q (jm_delete op vs) m)"

definition put_operation :: "string \<Rightarrow> string \<Rightarrow> 'v \<Rightarrow> (string, (string, 'v) js_map) js_map \<Rightarrow> (string, (string, 'v) js_map) js_map" where
  "put_operation q op v m = jm_set q (jm_set op v (case jm_get m q of None \<Rightarrow> [] | Some vs \<Rightarrow> vs)) m"

definition releaseDocumentReplacementFence :: "replacement_input \<Rightarrow> shortcut_state \<Rightarrow> shortcut_state \<times> bool" where
  "releaseDocumentReplacementFence i s =
     (case matching_fence i s of
        None \<Rightarrow> (s, False)
      | Some f \<Rightarrow> (s\<lparr>sc_fences := drop_operation (ri_role i) (ri_operation i) (sc_fences s),
                      sc_retirements := drop_operation (ri_role i) (ri_operation i) (sc_retirements s)\<rparr>, True))"

definition prepareDocumentReplacement :: "replacement_input \<Rightarrow> shortcut_state \<Rightarrow> shortcut_state \<times> unit outcome" where
  "prepareDocumentReplacement i s =
     (if sc_disposed s then (s, Inl shortcut_disposed)
      else if \<not> valid_identifier (ri_role i) 256 \<or> \<not> valid_identifier (ri_document i) 128 \<or> \<not> valid_identifier (ri_operation i) 256 \<or>
              \<not> isSafeInteger (ri_generation i) \<or> ri_generation i < 1
      then (s, Inl (BridgeError ''ELECTRON_MANAGED_SHORTCUT_REPLACEMENT_INVALID''))
      else (case fence_at (ri_role i) (ri_operation i) s of
              Some f \<Rightarrow>
                if rf_surfaceGeneration f \<noteq> ri_generation i \<or> rf_documentInstanceId f \<noteq> ri_document i
                then (s, Inl (BridgeError ''ELECTRON_MANAGED_SHORTCUT_REPLACEMENT_CONFLICT''))
                else (enqueue_shortcut (ri_role i) (PrepareShortcut i (rf_object f)) s, Inr ())
            | None \<Rightarrow>
                (let f = \<lparr>rf_object = sc_nextFence s, rf_documentInstanceId = ri_document i,
                          rf_operationId = ri_operation i, rf_surfaceGeneration = ri_generation i\<rparr>
                 in (enqueue_shortcut (ri_role i) (PrepareShortcut i (sc_nextFence s))
                       (s\<lparr>sc_fences := put_operation (ri_role i) (ri_operation i) f (sc_fences s),
                          sc_nextFence := Suc (sc_nextFence s)\<rparr>),
                     Inr ()))))"

definition fence_checks :: "replacement_input \<Rightarrow> nat \<Rightarrow> shortcut_state \<Rightarrow> unit outcome" where
  "fence_checks i f s =
     (if sc_disposed s then Inl shortcut_disposed
      else if map_option rf_object (fence_at (ri_role i) (ri_operation i) s) \<noteq> Some f
      then Inl (BridgeError ''ELECTRON_MANAGED_SHORTCUT_REPLACEMENT_SUPERSEDED'')
      else if list_ex (\<lambda>(k, a). as_roleId a = ri_role i \<and>
             (as_surfaceGeneration a \<noteq> ri_generation i \<or> as_documentInstanceId a \<noteq> ri_document i)) (sc_active s)
      then Inl (BridgeError ''ELECTRON_MANAGED_SHORTCUT_REPLACEMENT_STALE'')
      else Inr ())"

text \<open>The job does not await; when it throws, the \<open>catch\<close> releases the fence.\<close>

definition run_prepare :: "replacement_input \<Rightarrow> nat \<Rightarrow> shortcut_state \<Rightarrow> shortcut_state" where
  "run_prepare i f s =
     (case fence_checks i f s of
        Inl e \<Rightarrow> fst (releaseDocumentReplacementFence i (shortcut_event (JobFailed (ri_role i) e) s))
      | Inr _ \<Rightarrow> shortcut_event (FencePrepared f) s)"

definition of_document :: "string \<Rightarrow> int \<Rightarrow> string \<Rightarrow> active_shortcut \<Rightarrow> bool" where
  "of_document q g d a \<longleftrightarrow> as_roleId a = q \<and> as_surfaceGeneration a = g \<and> as_documentInstanceId a = d"

definition forget_document :: "string \<Rightarrow> int \<Rightarrow> string \<Rightarrow> shortcut_state \<Rightarrow> shortcut_state" where
  "forget_document q g d s = s\<lparr>sc_active := filter (\<lambda>e. \<not> of_document q g d (snd e)) (sc_active s)\<rparr>"

definition cycles_of :: "string \<Rightarrow> int \<Rightarrow> string \<Rightarrow> active_shortcut list \<Rightarrow> string list" where
  "cycles_of q g d as = sort (map as_shortcutCycleId (filter (of_document q g d) as))"

text \<open>What both retirements require of Core's receipt.\<close>

definition exact_retirement :: "retirement_receipt \<Rightarrow> string \<Rightarrow> int \<Rightarrow> string \<Rightarrow> string list \<Rightarrow> bool" where
  "exact_retirement r q g d expected \<longleftrightarrow>
     rr_roleId r = q \<and> rr_surfaceGeneration r = g \<and> rr_documentInstanceId r = d \<and> rr_terminal r \<and>
     length (rr_cleanupRequestIds r) = length expected \<and>
     list_all (\<lambda>i. valid_identifier i 256) (rr_cleanupRequestIds r) \<and>
     sort (rr_retiredShortcutCycleIds r) = expected"

definition reconcileDocumentReplacementRetirement ::
  "replacement_input \<Rightarrow> retirement_receipt \<Rightarrow> shortcut_state \<Rightarrow> shortcut_state \<times> bool" where
  "reconcileDocumentReplacementRetirement i r s =
     (case matching_fence i s of
        None \<Rightarrow> (s, False)
      | Some f \<Rightarrow>
          (case (case jm_get (sc_retirements s) (ri_role i) of None \<Rightarrow> None | Some rs \<Rightarrow> jm_get rs (ri_operation i)) of
             Some old \<Rightarrow> (s, old = r)
           | None \<Rightarrow>
               if \<not> exact_retirement r (ri_role i) (ri_generation i) (ri_document i)
                    (cycles_of (ri_role i) (ri_generation i) (ri_document i) (map snd (sc_active s))) \<or>
                  \<not> distinct (rr_cleanupRequestIds r)
               then (s, False)
               else (forget_document (ri_role i) (ri_generation i) (ri_document i)
                       (shortcut_event (RetirementRecorded (rf_object f))
                         (s\<lparr>sc_retirements := put_operation (ri_role i) (ri_operation i) r (sc_retirements s)\<rparr>)), True)))"

section \<open>Retiring a surface\<close>

text \<open>Called by the recovery of automatic input, and for every life cycle event of a surface.\<close>

definition retire_surface :: "string \<Rightarrow> int \<Rightarrow> retirement_reason \<Rightarrow> shortcut_state \<Rightarrow> shortcut_state \<times> unit outcome" where
  "retire_surface q g reason s =
     (if sc_disposed s then (s, Inl shortcut_disposed)
      else if \<not> valid_identifier q 256 \<or> \<not> isSafeInteger g \<or> g < 1
      then (s, Inl (BridgeError ''ELECTRON_MANAGED_SHORTCUT_SURFACE_INVALID''))
      else (enqueue_shortcut q (RetireShortcuts q g)
              (if reason = SurfaceRetired
               then s\<lparr>sc_fences := jm_delete q (sc_fences s), sc_retirements := jm_delete q (sc_retirements s)\<rparr>
               else s),
            Inr ()))"

definition ask_retirement :: "string \<Rightarrow> int \<Rightarrow> active_shortcut list \<Rightarrow> string list \<Rightarrow> shortcut_state \<Rightarrow> shortcut_state" where
  "ask_retirement q g as ds s =
     (case ds of
        [] \<Rightarrow> end_shortcut_job q s
      | d # _ \<Rightarrow> shortcut_event (RetirementAsked q g d)
                  (s\<lparr>sc_running := jm_set q (AwaitingRetirement q g as ds) (sc_running s)\<rparr>))"

definition start_retirement :: "string \<Rightarrow> int \<Rightarrow> shortcut_state \<Rightarrow> shortcut_state" where
  "start_retirement q g s =
     (let as = filter (\<lambda>a. as_roleId a = q \<and> as_surfaceGeneration a = g) (map snd (sc_active s))
      in ask_retirement q g as (sort (js_set_of (map as_documentInstanceId as))) s)"

definition settle_retirement ::
  "string \<Rightarrow> int \<Rightarrow> active_shortcut list \<Rightarrow> string list \<Rightarrow> retirement_receipt outcome \<Rightarrow> shortcut_state \<Rightarrow> shortcut_state" where
  "settle_retirement q g as ds out s =
     (case ds of
        [] \<Rightarrow> end_shortcut_job q s
      | d # rest \<Rightarrow>
          (case out of
             Inl e \<Rightarrow> end_shortcut_job q (shortcut_event (JobFailed q e) s)
           | Inr r \<Rightarrow>
               if exact_retirement r q g d (cycles_of q g d as)
               then ask_retirement q g as rest (forget_document q g d s)
               else end_shortcut_job q (shortcut_event
                      (JobFailed q (BridgeError ''ELECTRON_MANAGED_SHORTCUT_RETIREMENT_INVALID'')) s)))"

section \<open>Jobs and runs\<close>

definition start_shortcut_job :: "string \<Rightarrow> string \<Rightarrow> shortcut_state \<Rightarrow> shortcut_state" where
  "start_shortcut_job q op s0 =
     (if jm_has (sc_running s0) q then s0
      else (case next_of_role q (sc_queue s0) of
              None \<Rightarrow> s0
            | Some j \<Rightarrow>
                (let s = s0\<lparr>sc_queue := drop_of_role q (sc_queue s0)\<rparr> in
                 case j of
                   DispatchShortcut u rq \<Rightarrow> start_dispatch op u rq s
                 | PrepareShortcut i f \<Rightarrow> run_prepare i f s
                 | RetireShortcuts r g \<Rightarrow> start_retirement r g s)))"

datatype shortcut_answer = PhaseAnswer "phase_receipt outcome" | RetirementAnswer "retirement_receipt outcome"

definition settle_shortcut :: "string \<Rightarrow> shortcut_answer \<Rightarrow> shortcut_state \<Rightarrow> shortcut_state" where
  "settle_shortcut q a s =
     (case (jm_get (sc_running s) q, a) of
        (Some (AwaitingCore op u rq), PhaseAnswer out) \<Rightarrow> settle_dispatch op u rq out s
      | (Some (AwaitingRetirement r g as ds), RetirementAnswer out) \<Rightarrow> settle_retirement r g as ds out s
      | _ \<Rightarrow> s)"

text \<open>\<open>dispose\<close>: no more calls, then, once no job is left, everything is cleared.\<close>

definition dispose_shortcuts :: "shortcut_state \<Rightarrow> shortcut_state" where
  "dispose_shortcuts s = s\<lparr>sc_disposed := True\<rparr>"

definition clear_shortcuts :: "shortcut_state \<Rightarrow> shortcut_state" where
  "clear_shortcuts s =
     (if \<not> sc_disposed s \<or> sc_queue s \<noteq> [] \<or> sc_running s \<noteq> [] then s
      else s\<lparr>sc_active := [], sc_pendingKeyDowns := [], sc_fences := [], sc_retirements := []\<rparr>)"

datatype shortcut_step =
  PhaseCall overlay_frame shortcut_payload "shortcut_surface outcome"
| PrepareReplacement replacement_input
| ReconcileReplacement replacement_input retirement_receipt
| ReleaseReplacement replacement_input
| RetireSurfaceCall string int retirement_reason
| StartShortcut string string
| SettleShortcut string shortcut_answer
| DisposeShortcuts
| ClearShortcuts

fun shortcut_run :: "shortcut_step \<Rightarrow> shortcut_state \<Rightarrow> shortcut_state" where
  "shortcut_run (PhaseCall i raw surface) s = fst (dispatch_shortcut i raw surface s)"
| "shortcut_run (PrepareReplacement i) s = fst (prepareDocumentReplacement i s)"
| "shortcut_run (ReconcileReplacement i r) s = fst (reconcileDocumentReplacementRetirement i r s)"
| "shortcut_run (ReleaseReplacement i) s = fst (releaseDocumentReplacementFence i s)"
| "shortcut_run (RetireSurfaceCall q g reason) s = fst (retire_surface q g reason s)"
| "shortcut_run (StartShortcut q op) s = start_shortcut_job q op s"
| "shortcut_run (SettleShortcut q a) s = settle_shortcut q a s"
| "shortcut_run DisposeShortcuts s = dispose_shortcuts s"
| "shortcut_run ClearShortcuts s = clear_shortcuts s"

end
