(* ===== verification/Shortcut_Safety.thy ===== *)
theory Shortcut_Safety
  imports Managed_Shortcut
begin

text \<open>
  What the coordinator of physical shortcuts guarantees over every sequence of its steps: one press per
  key, and a document replaced only when its role holds no shortcut.
\<close>

section \<open>Presses admitted\<close>

text \<open>The presses that wait for their job or for Core, with their cycles.\<close>

fun job_presses :: "shortcut_job \<Rightarrow> (shortcut_key \<times> string) list" where
  "job_presses (DispatchShortcut u rq) =
     (if sr_phase rq = KeyDownPhase then [(request_key u rq, sr_shortcutCycleId rq)] else [])"
| "job_presses _ = []"

fun stage_presses :: "shortcut_stage \<Rightarrow> (shortcut_key \<times> string) list" where
  "stage_presses (AwaitingCore op u rq) = job_presses (DispatchShortcut u rq)"
| "stage_presses _ = []"

definition queued_presses :: "shortcut_state \<Rightarrow> (shortcut_key \<times> string) multiset" where
  "queued_presses s = (\<Sum>e\<leftarrow>sc_queue s. mset (job_presses (snd e)))"

definition awaiting_presses :: "shortcut_state \<Rightarrow> (shortcut_key \<times> string) multiset" where
  "awaiting_presses s = (\<Sum>e\<leftarrow>sc_running s. mset (stage_presses (snd e)))"

text \<open>The role a job or a stage belongs to.\<close>

fun job_role_ok :: "string \<Rightarrow> shortcut_job \<Rightarrow> bool" where
  "job_role_ok q (DispatchShortcut u rq) \<longleftrightarrow> ss_roleId u = q"
| "job_role_ok q (PrepareShortcut i f) \<longleftrightarrow> ri_role i = q"
| "job_role_ok q (RetireShortcuts r g) \<longleftrightarrow> r = q"

fun stage_role_ok :: "string \<Rightarrow> shortcut_stage \<Rightarrow> bool" where
  "stage_role_ok q (AwaitingCore op u rq) \<longleftrightarrow> ss_roleId u = q"
| "stage_role_ok q (AwaitingRetirement r g as ds) \<longleftrightarrow> r = q"

text \<open>
  The view of the presses: what is queued, what Core was asked for, the pending key-downs and the active
  cycles.  A pending press is queued or awaiting, once; its key holds no cycle while it is queued, and no
  cycle but its own while it awaits Core.
\<close>

definition presses_ok ::
  "('k \<times> string) multiset \<Rightarrow> ('k \<times> string) multiset \<Rightarrow> ('k, string) js_map \<Rightarrow> ('k \<Rightarrow> active_shortcut option) \<Rightarrow> bool" where
  "presses_ok Q W P A \<longleftrightarrow> jm_wf P \<and> Q + W = mset P \<and> (\<forall>k y. (k, y) \<in># Q \<longrightarrow> A k = None) \<and>
     (\<forall>k y a. (k, y) \<in># W \<longrightarrow> A k = Some a \<longrightarrow> as_shortcutCycleId a = y)"

definition presses_inv :: "shortcut_state \<Rightarrow> bool" where
  "presses_inv s \<longleftrightarrow> jm_wf (sc_running s) \<and> jm_wf (sc_active s) \<and>
     presses_ok (queued_presses s) (awaiting_presses s) (sc_pendingKeyDowns s) (jm_get (sc_active s)) \<and>
     (\<forall>e \<in> set (sc_queue s). job_role_ok (fst e) (snd e)) \<and>
     (\<forall>q st. jm_get (sc_running s) q = Some st \<longrightarrow> stage_role_ok q st)"

lemma jm_get_mem: "jm_wf m \<Longrightarrow> jm_get m k = Some v \<longleftrightarrow> (k, v) \<in> set m"
  by (simp add: jm_get_def jm_wf_def)

lemma mset_jm_set_new: "jm_get m k = None \<Longrightarrow> mset (jm_set k v m) = add_mset (k, v) (mset m)"
  by (induction m) (auto simp: jm_get_def split: if_splits)

lemma mset_jm_delete: "jm_wf m \<Longrightarrow> jm_get m k = Some v \<Longrightarrow> mset m = add_mset (k, v) (mset (jm_delete k m))"
proof (induction m)
  case (Cons e m)
  then show ?case
    using jm_delete_absent [of k m] by (cases e) (auto simp: jm_wf_def jm_get_def jm_delete_Cons split: if_splits)
qed simp

lemma mset_of_key: "jm_wf m \<Longrightarrow> \<exists>y. filter_mset (\<lambda>p. fst p = k) (mset m) \<subseteq># {#(k, y)#}"
proof (induction m)
  case (Cons e m)
  show ?case
  proof (cases "fst e = k")
    case True
    then have "filter_mset (\<lambda>p. fst p = k) (mset m) = {#}"
      using Cons.prems by (simp add: jm_wf_def filter_empty_conv flip: mset_filter) (metis image_eqI)
    then show ?thesis using True by (cases e) auto
  qed (use Cons in \<open>simp add: jm_wf_def\<close>)
qed simp

lemma presses_pending:
  assumes "presses_ok Q W P A" and "(k, y) \<in># Q + W"
  shows "jm_get P k = Some y"
  using assms jm_get_mem [of P k y] unfolding presses_ok_def by (metis in_multiset_in_set)

lemma presses_settle:
  assumes "presses_ok Q (add_mset (k, y) W) P A" and "\<And>h. h \<noteq> k \<Longrightarrow> A' h = A h"
  shows "presses_ok Q W (jm_delete k P) A'"
proof -
  have P: "jm_get P k = Some y" using presses_pending [OF assms(1)] by simp
  have wf: "jm_wf P" and sum: "Q + add_mset (k, y) W = mset P" using assms(1) by (simp_all add: presses_ok_def)
  then have QW: "Q + W = mset (jm_delete k P)" using mset_jm_delete [OF wf P] by simp
  have "(k, z) \<notin># Q + W" for z
    using jm_get_mem [OF jm_wf_delete [OF wf, of k], of k z] by (simp add: QW)
  then have other: "h \<noteq> k" if "(h, z) \<in># Q + W" for h z using that by blast
  show ?thesis unfolding presses_ok_def
  proof (intro conjI allI impI)
    show "A' h = None" if "(h, z) \<in># Q" for h z
      using assms(2) [OF other [of h z]] assms(1) that by (auto simp: presses_ok_def)
    show "as_shortcutCycleId a = z" if "(h, z) \<in># W" "A' h = Some a" for h z a
      using assms(2) [OF other [of h z]] assms(1) that by (auto simp: presses_ok_def)
  qed (simp_all add: wf QW)
qed

lemma presses_start:
  assumes "presses_ok (add_mset (k, y) Q) W P A" and "as_shortcutCycleId a = y"
  shows "presses_ok Q (add_mset (k, y) W) P (A(k \<mapsto> a))"
proof -
  have "presses_ok W (add_mset (k, y) Q) P (\<lambda>_. None)"
    using assms(1) by (auto simp: presses_ok_def ac_simps)
  then have "presses_ok W Q (jm_delete k P) (\<lambda>_. None)" by (rule presses_settle) simp
  then have "(k, z) \<notin># W + Q" for z using presses_pending [of W Q "jm_delete k P" _ k z] by auto
  then show ?thesis using assms unfolding presses_ok_def by auto
qed

lemma presses_refuse:
  assumes "presses_ok (add_mset (k, y) Q) W P A"
  shows "presses_ok Q W (jm_delete k P) A"
proof -
  have "presses_ok W Q (jm_delete k P) (\<lambda>_. None)"
    by (rule presses_settle [of _ k y]) (use assms in \<open>auto simp: presses_ok_def ac_simps\<close>)
  then show ?thesis using assms by (auto simp: presses_ok_def ac_simps)
qed

lemma presses_admit:
  assumes "presses_ok Q W P A" and "jm_get P k = None" and "A k = None"
  shows "presses_ok (add_mset (k, y) Q) W (jm_set k y P) A"
  using assms by (auto simp: presses_ok_def mset_jm_set_new)

text \<open>Cycles forgotten or marked uncertain, of any key.\<close>

lemma presses_forget:
  assumes "presses_ok Q W P A"
    and "\<And>k a'. A' k = Some a' \<Longrightarrow> \<exists>a. A k = Some a \<and> as_shortcutCycleId a' = as_shortcutCycleId a"
  shows "presses_ok Q W P A'"
proof -
  have "A' k = None" if "A k = None" for k using assms(2) [of k] that by (cases "A' k") auto
  moreover have "as_shortcutCycleId a' = y" if "(k, y) \<in># W" "A' k = Some a'" for k y a'
    using assms(1) assms(2) [OF that(2)] that(1) unfolding presses_ok_def by fastforce
  ultimately show ?thesis using assms(1) by (simp add: presses_ok_def)
qed


text \<open>What the queue and the running stages contribute.\<close>

lemma queued_enqueue [simp]: "queued_presses (enqueue_shortcut q j s) = queued_presses s + mset (job_presses j)"
  by (simp add: queued_presses_def enqueue_shortcut_def)

lemma queued_same: "sc_queue t = sc_queue s \<Longrightarrow> queued_presses t = queued_presses s"
  by (simp add: queued_presses_def)

lemma awaiting_same: "sc_running t = sc_running s \<Longrightarrow> awaiting_presses t = awaiting_presses s"
  by (simp add: awaiting_presses_def)

lemma queued_drop:
  assumes "next_of_role q (sc_queue s) = Some j"
  shows "queued_presses s = mset (job_presses j) + queued_presses (s\<lparr>sc_queue := drop_of_role q (sc_queue s)\<rparr>)"
proof -
  have sum: "(\<Sum>e\<leftarrow>js. mset (job_presses (snd e))) = (\<Sum>e\<in>#mset js. mset (job_presses (snd e)))"
    for js :: "(string \<times> shortcut_job) list"
    by (induction js) simp_all
  show ?thesis using drop_of_role_mset [OF assms] by (simp add: queued_presses_def sum)
qed

lemma awaiting_set:
  "jm_wf (sc_running s) \<Longrightarrow> jm_get (sc_running s) q = None \<Longrightarrow>
     awaiting_presses (s\<lparr>sc_running := jm_set q st (sc_running s)\<rparr>) = awaiting_presses s + mset (stage_presses st)"
  using jm_sum_set [of "sc_running s" "\<lambda>e. mset (stage_presses (snd e))" q st]
    jm_sum_delete [of "sc_running s" "\<lambda>e. mset (stage_presses (snd e))" q]
  by (simp add: awaiting_presses_def)

lemma awaiting_replace:
  "jm_wf (sc_running s) \<Longrightarrow> jm_get (sc_running s) q = Some st \<Longrightarrow>
     awaiting_presses (s\<lparr>sc_running := jm_set q st' (sc_running s)\<rparr>) + mset (stage_presses st) =
     awaiting_presses s + mset (stage_presses st')"
  using jm_sum_set [of "sc_running s" "\<lambda>e. mset (stage_presses (snd e))" q st']
    jm_sum_delete [of "sc_running s" "\<lambda>e. mset (stage_presses (snd e))" q]
  by (simp add: awaiting_presses_def)

lemma awaiting_end:
  "jm_wf (sc_running s) \<Longrightarrow>
     awaiting_presses s = awaiting_presses (end_shortcut_job q s) +
       (case jm_get (sc_running s) q of None \<Rightarrow> {#} | Some st \<Rightarrow> mset (stage_presses st))"
  using jm_sum_delete [of "sc_running s" "\<lambda>e. mset (stage_presses (snd e))" q]
  by (simp add: awaiting_presses_def end_shortcut_job_def split: option.splits)

section \<open>Every step keeps the presses\<close>

text \<open>The part of the invariant beside the presses.\<close>

definition shortcuts_wf :: "shortcut_state \<Rightarrow> bool" where
  "shortcuts_wf s \<longleftrightarrow> jm_wf (sc_running s) \<and> jm_wf (sc_active s) \<and>
     (\<forall>e \<in> set (sc_queue s). job_role_ok (fst e) (snd e)) \<and>
     (\<forall>q st. jm_get (sc_running s) q = Some st \<longrightarrow> stage_role_ok q st)"

lemma presses_inv_wf:
  "presses_inv s \<longleftrightarrow> shortcuts_wf s \<and>
     presses_ok (queued_presses s) (awaiting_presses s) (sc_pendingKeyDowns s) (jm_get (sc_active s))"
  by (auto simp: presses_inv_def shortcuts_wf_def)

lemma shortcuts_wf_active [simp]: "shortcuts_wf s \<Longrightarrow> jm_wf m \<Longrightarrow> shortcuts_wf (s\<lparr>sc_active := m\<rparr>)"
  by (simp add: shortcuts_wf_def)

lemma shortcuts_wf_end [simp]: "shortcuts_wf s \<Longrightarrow> shortcuts_wf (end_shortcut_job q s)"
  by (auto simp: shortcuts_wf_def end_shortcut_job_def split: if_splits)

lemma shortcuts_wf_event [simp]: "shortcuts_wf (shortcut_event e s) = shortcuts_wf s"
  by (simp add: shortcuts_wf_def shortcut_event_def)

lemma shortcuts_wf_drop:
  "shortcuts_wf s \<Longrightarrow> shortcuts_wf (s\<lparr>sc_queue := drop_of_role q (sc_queue s)\<rparr>)"
  using drop_of_role_subset [of q "sc_queue s"] by (auto simp: shortcuts_wf_def)

lemma shortcuts_wf_run:
  "shortcuts_wf s \<Longrightarrow> stage_role_ok q st \<Longrightarrow> shortcuts_wf (s\<lparr>sc_running := jm_set q st (sc_running s)\<rparr>)"
  by (simp add: shortcuts_wf_def)

lemma shortcuts_wf_enqueue: "shortcuts_wf s \<Longrightarrow> job_role_ok q j \<Longrightarrow> shortcuts_wf (enqueue_shortcut q j s)"
  by (auto simp: shortcuts_wf_def enqueue_shortcut_def)

lemma active_changes [simp]:
  "sc_running (retireExactCycle k y s) = sc_running s" "sc_queue (retireExactCycle k y s) = sc_queue s"
  "sc_pendingKeyDowns (retireExactCycle k y s) = sc_pendingKeyDowns s"
  "sc_running (mark_uncertain k y s) = sc_running s" "sc_queue (mark_uncertain k y s) = sc_queue s"
  "sc_pendingKeyDowns (mark_uncertain k y s) = sc_pendingKeyDowns s"
  by (simp_all add: retireExactCycle_def mark_uncertain_def split: option.split)

lemma shortcuts_wf_cycle [simp]:
  "shortcuts_wf s \<Longrightarrow> shortcuts_wf (retireExactCycle k y s)" "shortcuts_wf s \<Longrightarrow> shortcuts_wf (mark_uncertain k y s)"
  by (auto simp: retireExactCycle_def mark_uncertain_def shortcuts_wf_def split: option.split)

text \<open>A change that only forgets or marks cycles, as relation between the two tables.\<close>

definition active_shrinks :: "shortcut_state \<Rightarrow> shortcut_state \<Rightarrow> bool" where
  "active_shrinks s t \<longleftrightarrow> (\<forall>k a'. jm_get (sc_active t) k = Some a' \<longrightarrow>
     (\<exists>a. jm_get (sc_active s) k = Some a \<and> as_shortcutCycleId a' = as_shortcutCycleId a))"

lemma shrinks_refl [simp]: "active_shrinks s s"
  by (simp add: active_shrinks_def)

lemma shrinks_cycle [simp]:
  "active_shrinks s (retireExactCycle k y s)" "active_shrinks s (mark_uncertain k y s)"
  by (auto simp: active_shrinks_def retireExactCycle_def mark_uncertain_def split: option.split)

lemma filter_get: "jm_wf m \<Longrightarrow> jm_get (filter P m) k = Some v \<Longrightarrow> jm_get m k = Some v"
proof -
  assume "jm_wf m" and get: "jm_get (filter P m) k = Some v"
  moreover have "(k, v) \<in> set (filter P m)" using get by (metis jm_get_map_of map_of_SomeD)
  ultimately show "jm_get m k = Some v" by (simp add: jm_get_mem)
qed

lemma shrinks_forget: "jm_wf (sc_active s) \<Longrightarrow> active_shrinks s (forget_document q g d s)"
  using filter_get [of "sc_active s"] by (auto simp: active_shrinks_def forget_document_def)

lemma presses_inv_shrinks:
  assumes "presses_inv s" and "shortcuts_wf t" and "active_shrinks s t" and "sc_pendingKeyDowns t = sc_pendingKeyDowns s"
    and "queued_presses t = queued_presses s" and "awaiting_presses t = awaiting_presses s"
  shows "presses_inv t"
proof -
  have "presses_ok (queued_presses s) (awaiting_presses s) (sc_pendingKeyDowns s) (jm_get (sc_active t))"
    by (rule presses_forget [of _ _ _ "jm_get (sc_active s)"])
      (use assms(1,3) in \<open>simp_all add: presses_inv_wf active_shrinks_def del: split_paired_All\<close>)
  then show ?thesis using assms by (simp add: presses_inv_wf)
qed


text \<open>The end of a dispatch, from what the presses are without it.\<close>

lemma end_dispatch_inv:
  assumes "shortcuts_wf s"
    and "presses_ok (queued_presses s) (awaiting_presses (end_shortcut_job (ss_roleId u) s))
      (if sr_phase rq = KeyDownPhase then jm_delete (request_key u rq) (sc_pendingKeyDowns s) else sc_pendingKeyDowns s)
      (jm_get (sc_active s))"
    and "sr_phase rq = KeyDownPhase \<Longrightarrow> jm_get (sc_pendingKeyDowns s) (request_key u rq) = Some (sr_shortcutCycleId rq)"
  shows "presses_inv (end_dispatch u rq out s)"
proof -
  let ?s = "shortcut_event (ShortcutAnswered (ss_roleId u) out) s"
  have same: "queued_presses (end_shortcut_job q ?s) = queued_presses s"
    "awaiting_presses (end_shortcut_job q ?s) = awaiting_presses (end_shortcut_job q s)"
    "sc_pendingKeyDowns (end_shortcut_job q ?s) = sc_pendingKeyDowns s"
    "sc_active (end_shortcut_job q ?s) = sc_active s" for q
    by (simp_all add: queued_presses_def awaiting_presses_def end_shortcut_job_def shortcut_event_def)
  have pend: "queued_presses (r\<lparr>sc_pendingKeyDowns := m\<rparr>) = queued_presses r"
    "awaiting_presses (r\<lparr>sc_pendingKeyDowns := m\<rparr>) = awaiting_presses r"
    "shortcuts_wf (r\<lparr>sc_pendingKeyDowns := m\<rparr>) = shortcuts_wf r" for r :: shortcut_state and m
    by (simp_all add: queued_presses_def awaiting_presses_def shortcuts_wf_def)
  show ?thesis using assms by (auto simp: end_dispatch_def Let_def presses_inv_wf same pend)
qed

lemma start_dispatch_inv:
  fixes s :: shortcut_state
  assumes wf: "shortcuts_wf s" and free: "jm_get (sc_running s) (ss_roleId u) = None"
    and ok: "presses_ok (mset (job_presses (DispatchShortcut u rq)) + queued_presses s) (awaiting_presses s)
      (sc_pendingKeyDowns s) (jm_get (sc_active s))"
  shows "presses_inv (start_dispatch op u rq s)"
proof -
  let ?k = "request_key u rq" and ?y = "sr_shortcutCycleId rq"
  have pend: "jm_get (sc_pendingKeyDowns s) ?k = Some ?y" if "sr_phase rq = KeyDownPhase"
    using presses_pending [OF ok, of ?k ?y] that by simp
  have rwf: "jm_wf (sc_running s)" using wf by (simp add: shortcuts_wf_def)
  show ?thesis
  proof (cases "role_fenced (ss_roleId u) s")
    case True
    have "presses_ok (queued_presses s) (awaiting_presses (end_shortcut_job (ss_roleId u) s))
      (if sr_phase rq = KeyDownPhase then jm_delete ?k (sc_pendingKeyDowns s) else sc_pendingKeyDowns s)
      (jm_get (sc_active s))"
      using presses_refuse [of ?k ?y] ok awaiting_end [OF rwf, of "ss_roleId u"] free by auto
    then show ?thesis using True wf pend by (simp add: start_dispatch_def end_dispatch_inv)
  next
    case False
    define t where "t = (if sr_phase rq = KeyDownPhase \<and> \<not> jm_has (sc_active s) ?k
      then s\<lparr>sc_active := jm_set ?k (active_entry u rq Provisional) (sc_active s)\<rparr> else s)"
    have t: "sc_running t = sc_running s" "sc_queue t = sc_queue s" "sc_pendingKeyDowns t = sc_pendingKeyDowns s"
      by (simp_all add: t_def)
    have twf: "shortcuts_wf t" using wf by (simp add: t_def shortcuts_wf_def)
    let ?r = "t\<lparr>sc_running := jm_set (ss_roleId u) (AwaitingCore op u rq) (sc_running t)\<rparr>"
    have none: "sr_phase rq = KeyDownPhase \<Longrightarrow> jm_get (sc_active s) ?k = None"
      using ok by (simp add: presses_ok_def del: split_paired_All)
    have "presses_ok (queued_presses s) (awaiting_presses s + mset (job_presses (DispatchShortcut u rq)))
      (sc_pendingKeyDowns s) (jm_get (sc_active t))"
      using ok presses_start [of ?k ?y "queued_presses s" "awaiting_presses s" "sc_pendingKeyDowns s"
          "jm_get (sc_active s)" "active_entry u rq Provisional"] none
      by (auto simp: t_def jm_has_def active_entry_def)
    moreover have "awaiting_presses ?r = awaiting_presses s + mset (job_presses (DispatchShortcut u rq))"
      using awaiting_set [of t "ss_roleId u" "AwaitingCore op u rq"] rwf free awaiting_same [of t s] by (simp add: t)
    moreover have "queued_presses ?r = queued_presses s" by (simp add: queued_presses_def t)
    moreover have "shortcuts_wf ?r" using twf by (simp add: shortcuts_wf_run)
    ultimately have "presses_inv ?r" by (simp add: presses_inv_wf t)
    then have "presses_inv (shortcut_event (CoreAsked op u rq) ?r)"
      by (rule presses_inv_shrinks)
        (simp_all add: shortcuts_wf_run twf, simp_all add: shortcut_event_def queued_presses_def awaiting_presses_def active_shrinks_def)
    then show ?thesis using False by (simp add: start_dispatch_def Let_def t_def)
  qed
qed


text \<open>Core's answer: the stage that ends, then the active cycles changed for its key only.\<close>

lemma settled_presses:
  fixes s t :: shortcut_state
  assumes inv: "presses_inv s" and run: "jm_get (sc_running s) q = Some (AwaitingCore op u rq)"
    and q: "ss_roleId u = q" and twf: "shortcuts_wf t"
    and same: "sc_running t = sc_running s" "sc_queue t = sc_queue s" "sc_pendingKeyDowns t = sc_pendingKeyDowns s"
    and active: "active_shrinks s t \<or>
      (sr_phase rq = KeyDownPhase \<and> (\<forall>h. h \<noteq> request_key u rq \<longrightarrow> jm_get (sc_active t) h = jm_get (sc_active s) h))"
  shows "presses_inv (end_dispatch u rq out t)"
proof -
  let ?k = "request_key u rq" and ?y = "sr_shortcutCycleId rq" and ?W = "awaiting_presses (end_shortcut_job q t)"
  have rwf: "jm_wf (sc_running s)" using inv by (simp add: presses_inv_def)
  have W: "awaiting_presses s = ?W + mset (job_presses (DispatchShortcut u rq))"
    using awaiting_end [of t q] rwf run same awaiting_same [of t s] by simp
  have ok: "presses_ok (queued_presses s) (?W + mset (job_presses (DispatchShortcut u rq)))
      (sc_pendingKeyDowns s) (jm_get (sc_active s))"
    using inv by (simp only: presses_inv_wf W)
  have shrunk: "presses_ok Q W P (jm_get (sc_active t))" if "active_shrinks s t" "presses_ok Q W P (jm_get (sc_active s))" for Q W P
    by (rule presses_forget [OF that(2)]) (use that(1) in \<open>simp add: active_shrinks_def del: split_paired_All\<close>)
  show ?thesis
  proof (cases "sr_phase rq = KeyDownPhase")
    case True
    then have add: "presses_ok (queued_presses s) (add_mset (?k, ?y) ?W) (sc_pendingKeyDowns s) (jm_get (sc_active s))"
      using ok by simp
    have pend: "jm_get (sc_pendingKeyDowns s) ?k = Some ?y" using presses_pending [OF add, of ?k ?y] by simp
    have "presses_ok (queued_presses s) ?W (jm_delete ?k (sc_pendingKeyDowns s)) (jm_get (sc_active t))"
      using active
    proof
      assume "active_shrinks s t"
      then show ?thesis by (rule shrunk) (rule presses_settle [OF add refl])
    next
      assume "sr_phase rq = KeyDownPhase \<and> (\<forall>h. h \<noteq> ?k \<longrightarrow> jm_get (sc_active t) h = jm_get (sc_active s) h)"
      then show ?thesis using presses_settle [OF add, of "jm_get (sc_active t)"] by blast
    qed
    then show ?thesis using True pend
      by (intro end_dispatch_inv [OF twf]) (simp_all add: same q queued_same [OF same(2)])
  next
    case False
    then have "active_shrinks s t" using active by blast
    then have "presses_ok (queued_presses s) ?W (sc_pendingKeyDowns s) (jm_get (sc_active t))"
      by (rule shrunk) (use ok False in simp)
    then show ?thesis using False
      by (intro end_dispatch_inv [OF twf]) (simp_all add: same q queued_same [OF same(2)])
  qed
qed

lemma settle_dispatch_inv:
  fixes s :: shortcut_state
  assumes inv: "presses_inv s" and run: "jm_get (sc_running s) q = Some (AwaitingCore op u rq)"
  shows "presses_inv (settle_dispatch op u rq out s)"
proof -
  have wf: "shortcuts_wf s" and q: "ss_roleId u = q"
    using inv run unfolding presses_inv_wf shortcuts_wf_def by (blast, metis stage_role_ok.simps(1))
  note ends = settled_presses [OF inv run q]
  have cycle: "presses_inv (end_dispatch u rq out' (retireExactCycle k y s))"
    "presses_inv (end_dispatch u rq out' (mark_uncertain k y s))" for out' k y
    by (rule ends; simp add: wf)+
  have held: "presses_inv (end_dispatch u rq out' (s\<lparr>sc_active := jm_set (request_key u rq) a (sc_active s)\<rparr>))"
    if "sr_phase rq = KeyDownPhase" for out' a
    by (rule ends) (use wf that in \<open>simp_all add: shortcuts_wf_def\<close>)
  show ?thesis
    by (cases out) (simp_all add: settle_dispatch_def Let_def dispatch_failed_def receipt_mismatch_def cycle held)
qed


text \<open>Steps that touch neither presses nor active cycles.\<close>

lemma presses_inv_same:
  assumes "presses_inv s" and "sc_running t = sc_running s" "sc_queue t = sc_queue s" "sc_pendingKeyDowns t = sc_pendingKeyDowns s"
    "sc_active t = sc_active s"
  shows "presses_inv t"
  using assms by (simp add: presses_inv_wf shortcuts_wf_def queued_presses_def awaiting_presses_def)

lemma presses_inv_enqueue:
  fixes s :: shortcut_state
  assumes "presses_inv s" and "job_presses j = []" and "job_role_ok q j"
  shows "presses_inv (enqueue_shortcut q j s)"
  using assms by (auto simp: presses_inv_wf shortcuts_wf_enqueue)
    (simp add: enqueue_shortcut_def awaiting_presses_def)

lemma dispatch_shortcut_inv:
  fixes s :: shortcut_state
  assumes inv: "presses_inv s"
  shows "presses_inv (fst (dispatch_shortcut i raw surface s))"
proof -
  have up: "presses_inv (enqueue_shortcut q (DispatchShortcut u rq) s)" if "sr_phase rq \<noteq> KeyDownPhase" "ss_roleId u = q" for q u rq
    using that by (intro presses_inv_enqueue [OF inv]) simp_all
  have down: "presses_inv (enqueue_shortcut q (DispatchShortcut u rq)
      (s\<lparr>sc_pendingKeyDowns := jm_set (request_key u rq) (sr_shortcutCycleId rq) (sc_pendingKeyDowns s)\<rparr>))"
    (is "presses_inv (enqueue_shortcut _ _ ?s)")
    if "sr_phase rq = KeyDownPhase" "\<not> jm_has (sc_active s) (request_key u rq)"
      "\<not> jm_has (sc_pendingKeyDowns s) (request_key u rq)" "ss_roleId u = q" for q u rq
  proof -
    have "shortcuts_wf ?s" using inv by (simp add: presses_inv_wf shortcuts_wf_def)
    then have "shortcuts_wf (enqueue_shortcut q (DispatchShortcut u rq) ?s)" using that by (simp add: shortcuts_wf_enqueue)
    moreover have "queued_presses ?s = queued_presses s" "awaiting_presses (enqueue_shortcut q j ?s) = awaiting_presses s" for q j
      by (simp_all add: queued_presses_def awaiting_presses_def enqueue_shortcut_def)
    moreover have "presses_ok (add_mset (request_key u rq, sr_shortcutCycleId rq) (queued_presses s)) (awaiting_presses s)
        (sc_pendingKeyDowns ?s) (jm_get (sc_active s))"
      using inv that by (simp add: presses_inv_wf presses_admit jm_has_def)
    ultimately show ?thesis using that(1) by (simp add: presses_inv_wf) (simp add: enqueue_shortcut_def)
  qed
  show ?thesis unfolding dispatch_shortcut_def
    using inv up down by (auto split: sum.split)
qed

lemma presses_inv_forget:
  fixes s :: shortcut_state
  assumes "presses_inv s"
  shows "presses_inv (forget_document q g d s)"
proof -
  have wf: "jm_wf (sc_active s)" using assms by (simp add: presses_inv_def)
  then have "shortcuts_wf (forget_document q g d s)"
    using assms by (simp add: presses_inv_wf forget_document_def shortcuts_wf_def jm_wf_def distinct_map_filter)
  then show ?thesis
    by (rule presses_inv_shrinks [OF assms _ shrinks_forget [OF wf]])
      (simp_all add: forget_document_def queued_presses_def awaiting_presses_def)
qed

lemma presses_inv_event [simp]: "presses_inv (shortcut_event e s) = presses_inv s"
  by (simp add: shortcut_event_def presses_inv_def queued_presses_def awaiting_presses_def)

lemma presses_inv_end:
  fixes s :: shortcut_state
  assumes "presses_inv s" and "\<And>st. jm_get (sc_running s) q = Some st \<Longrightarrow> stage_presses st = []"
  shows "presses_inv (end_shortcut_job q s)"
proof -
  have "awaiting_presses (end_shortcut_job q s) = awaiting_presses s"
    using awaiting_end [of s q] assms by (cases "jm_get (sc_running s) q") (simp_all add: presses_inv_def)
  then show ?thesis using assms(1) by (simp add: presses_inv_wf) (simp add: end_shortcut_job_def queued_presses_def)
qed

lemma ask_retirement_inv:
  fixes s :: shortcut_state
  assumes inv: "presses_inv s" and idle: "\<And>st. jm_get (sc_running s) q = Some st \<Longrightarrow> stage_presses st = []"
  shows "presses_inv (ask_retirement q g as ds s)"
proof (cases ds)
  case Nil
  then show ?thesis using presses_inv_end [OF assms] by (simp add: ask_retirement_def)
next
  case (Cons d rest)
  let ?t = "s\<lparr>sc_running := jm_set q (AwaitingRetirement q g as ds) (sc_running s)\<rparr>"
  have "awaiting_presses ?t = awaiting_presses s"
    using awaiting_set [of s q "AwaitingRetirement q g as ds"] awaiting_replace [of s q _ "AwaitingRetirement q g as ds"]
      inv idle by (cases "jm_get (sc_running s) q") (simp_all add: presses_inv_def)
  moreover have "shortcuts_wf ?t" using inv by (simp add: presses_inv_wf shortcuts_wf_run)
  ultimately have "presses_inv ?t" using inv by (simp add: presses_inv_wf) (simp add: queued_presses_def)
  then show ?thesis using Cons by (simp add: ask_retirement_def)
qed

lemma settle_retirement_inv:
  fixes s :: shortcut_state
  assumes inv: "presses_inv s" and run: "jm_get (sc_running s) q = Some (AwaitingRetirement q g as ds)"
  shows "presses_inv (settle_retirement q g as ds out s)"
proof -
  have "presses_inv (end_shortcut_job q (shortcut_event e s))" for e
    by (rule presses_inv_end) (use inv run in simp_all, simp add: shortcut_event_def)
  moreover have "presses_inv (end_shortcut_job q s)" by (rule presses_inv_end) (use inv run in simp_all)
  moreover have "presses_inv (ask_retirement q g as rest (forget_document q g d s))" for rest d
    by (rule ask_retirement_inv) (use inv run in \<open>simp_all add: presses_inv_forget\<close>, simp add: forget_document_def)
  ultimately show ?thesis by (simp add: settle_retirement_def split: list.split sum.split)
qed

lemma start_shortcut_job_inv:
  fixes s :: shortcut_state
  assumes inv: "presses_inv s"
  shows "presses_inv (start_shortcut_job q op s)"
proof (cases "jm_has (sc_running s) q \<or> next_of_role q (sc_queue s) = None")
  case True
  then show ?thesis using inv by (auto simp: start_shortcut_job_def)
next
  case False
  then obtain j where j: "next_of_role q (sc_queue s) = Some j" and free: "jm_get (sc_running s) q = None"
    by (auto simp: jm_has_def)
  let ?s = "s\<lparr>sc_queue := drop_of_role q (sc_queue s)\<rparr>"
  have role: "job_role_ok q j"
    using inv next_of_role_mem [OF j] by (auto simp: presses_inv_def)
  have wf: "shortcuts_wf ?s" using inv by (simp add: presses_inv_wf shortcuts_wf_drop)
  have ok: "presses_ok (mset (job_presses j) + queued_presses ?s) (awaiting_presses ?s) (sc_pendingKeyDowns ?s) (jm_get (sc_active ?s))"
    using inv queued_drop [OF j] by (simp add: presses_inv_wf awaiting_same [of ?s s])
  have kept: "presses_inv ?s" if "job_presses j = []" using ok wf that by (simp add: presses_inv_wf)
  show ?thesis
  proof (cases j)
    case (DispatchShortcut u rq)
    then have "ss_roleId u = q" using role by simp
    then have "presses_inv (start_dispatch op u rq ?s)"
      by (intro start_dispatch_inv [OF wf]) (use free ok DispatchShortcut in simp_all)
    then show ?thesis using DispatchShortcut j free by (simp add: start_shortcut_job_def jm_has_def)
  next
    case (PrepareShortcut i f)
    have "presses_inv (run_prepare i f ?s)"
      unfolding run_prepare_def
      by (rule presses_inv_same [OF kept])
        (simp_all add: PrepareShortcut releaseDocumentReplacementFence_def shortcut_event_def split: sum.split option.split)
    then show ?thesis using PrepareShortcut j free by (simp add: start_shortcut_job_def jm_has_def)
  next
    case (RetireShortcuts r g)
    then have "presses_inv (start_retirement r g ?s)"
      using role free kept by (auto simp: start_retirement_def Let_def intro!: ask_retirement_inv)
    then show ?thesis using RetireShortcuts j free by (simp add: start_shortcut_job_def jm_has_def)
  qed
qed

lemma clear_shortcuts_inv: "presses_inv s \<Longrightarrow> presses_inv (clear_shortcuts s)"
  by (simp add: clear_shortcuts_def presses_inv_def queued_presses_def awaiting_presses_def presses_ok_def)

lemma shortcut_run_inv:
  fixes s :: shortcut_state
  assumes inv: "presses_inv s"
  shows "presses_inv (shortcut_run x s)"
proof (cases x)
  case (SettleShortcut q a)
  have role: "r = q" if "jm_get (sc_running s) q = Some (AwaitingRetirement r g as ds)" for r g as ds
    using inv that unfolding presses_inv_def by (metis stage_role_ok.simps(2))
  show ?thesis
    using inv settle_dispatch_inv [OF inv] settle_retirement_inv [OF inv] role
    by (auto simp: SettleShortcut settle_shortcut_def split: option.split shortcut_stage.split shortcut_answer.split)
next
  case (ReconcileReplacement i r)
  have "presses_inv (forget_document q g d (shortcut_event e (s\<lparr>sc_retirements := m\<rparr>)))" for q g d e m
    by (rule presses_inv_forget, simp, rule presses_inv_same [OF inv]) simp_all
  then show ?thesis using inv by (simp add: ReconcileReplacement reconcileDocumentReplacementRetirement_def split: option.split)
next
  case (RetireSurfaceCall q g reason)
  have "presses_inv (enqueue_shortcut q (RetireShortcuts q g) (s\<lparr>sc_fences := m, sc_retirements := n\<rparr>))" for m n
    by (rule presses_inv_enqueue, rule presses_inv_same [OF inv]) simp_all
  then show ?thesis using inv by (simp add: RetireSurfaceCall retire_surface_def presses_inv_enqueue)
next
  case (PrepareReplacement i)
  have "presses_inv (enqueue_shortcut (ri_role i) (PrepareShortcut i f) (s\<lparr>sc_fences := m, sc_nextFence := n\<rparr>))" for f m n
    by (rule presses_inv_enqueue, rule presses_inv_same [OF inv]) simp_all
  then show ?thesis using inv
    by (simp add: PrepareReplacement prepareDocumentReplacement_def Let_def presses_inv_enqueue split: option.split)
next
  case (ReleaseReplacement i)
  show ?thesis
    by (rule presses_inv_same [OF inv])
      (simp_all add: ReleaseReplacement releaseDocumentReplacementFence_def split: option.split)
next
  case DisposeShortcuts
  show ?thesis by (rule presses_inv_same [OF inv]) (simp_all add: DisposeShortcuts dispose_shortcuts_def)
qed (simp_all add: inv dispatch_shortcut_inv start_shortcut_job_inv clear_shortcuts_inv)

lemma no_shortcuts_inv: "presses_inv no_shortcuts"
  by (simp add: no_shortcuts_def presses_inv_def presses_ok_def queued_presses_def awaiting_presses_def)

interpretation shortcuts: guarded_machine shortcut_run presses_inv
  by unfold_locales (rule shortcut_run_inv)

end
