(* ===== verification/Shortcut_Fences.thy ===== *)
theory Shortcut_Fences
  imports Shortcut_Safety
begin

text \<open>
  The fences of document replacements: what holds of a role while a fence is up, prepared, and its
  retirement recorded, kept by every step.
\<close>

section \<open>Fences of document replacements\<close>

text \<open>A key is handled as a whole.\<close>

declare split_paired_All [simp del] split_paired_Ex [simp del]

text \<open>The retirement of a fence was recorded after the fence was prepared.\<close>

fun reconciled_ok :: "nat \<Rightarrow> shortcut_event list \<Rightarrow> bool" where
  "reconciled_ok n [] \<longleftrightarrow> False"
| "reconciled_ok n (e # es) \<longleftrightarrow> (e = RetirementRecorded n \<and> FencePrepared n \<in> set es) \<or> reconciled_ok n es"

lemma reconciled_prepared: "reconciled_ok n es \<Longrightarrow> FencePrepared n \<in> set es"
  by (induction es) auto

definition no_active_of :: "string \<Rightarrow> shortcut_state \<Rightarrow> bool" where
  "no_active_of q s \<longleftrightarrow> (\<forall>k a. jm_get (sc_active s) k = Some a \<longrightarrow> as_roleId a \<noteq> q)"

definition core_idle :: "string \<Rightarrow> shortcut_state \<Rightarrow> bool" where
  "core_idle q s \<longleftrightarrow> (\<forall>op u rq. jm_get (sc_running s) q \<noteq> Some (AwaitingCore op u rq))"

definition only_document :: "string \<Rightarrow> int \<Rightarrow> string \<Rightarrow> shortcut_state \<Rightarrow> bool" where
  "only_document q g d s \<longleftrightarrow> (\<forall>k a. jm_get (sc_active s) k = Some a \<longrightarrow> as_roleId a = q \<longrightarrow> of_document q g d a)"

text \<open>What holds of a fence \<open>f\<close> of an operation of the role \<open>q\<close>.\<close>

definition fence_ok :: "string \<Rightarrow> replacement_fence \<Rightarrow> shortcut_state \<Rightarrow> bool" where
  "fence_ok q f s \<longleftrightarrow> rf_object f < sc_nextFence s \<and>
     (FencePrepared (rf_object f) \<in> set (sc_log s) \<longrightarrow>
        core_idle q s \<and> only_document q (rf_surfaceGeneration f) (rf_documentInstanceId f) s) \<and>
     (reconciled_ok (rf_object f) (sc_log s) \<longrightarrow> no_active_of q s)"

text \<open>A preparation that waits carries the identity of the fence it was made for.\<close>

fun fence_job_ok :: "shortcut_state \<Rightarrow> shortcut_job \<Rightarrow> bool" where
  "fence_job_ok s (PrepareShortcut i n) \<longleftrightarrow> n < sc_nextFence s \<and>
     (\<forall>q op f. fence_at q op s = Some f \<longrightarrow> rf_object f = n \<longrightarrow>
        q = ri_role i \<and> op = ri_operation i \<and> rf_surfaceGeneration f = ri_generation i \<and> rf_documentInstanceId f = ri_document i)"
| "fence_job_ok s _ \<longleftrightarrow> True"

definition fences_inv :: "shortcut_state \<Rightarrow> bool" where
  "fences_inv s \<longleftrightarrow> (\<forall>q op f. fence_at q op s = Some f \<longrightarrow> fence_ok q f s) \<and>
     (\<forall>q op f r po g. fence_at q op s = Some f \<longrightarrow> fence_at r po s = Some g \<longrightarrow> rf_object f = rf_object g \<longrightarrow> q = r \<and> op = po) \<and>
     (\<forall>n. FencePrepared n \<in> set (sc_log s) \<longrightarrow> n < sc_nextFence s) \<and>
     (\<forall>e \<in> set (sc_queue s). fence_job_ok s (snd e)) \<and>
     (\<forall>k a. jm_get (sc_active s) k = Some a \<longrightarrow> as_roleId a = fst k)"

lemma fences_invD:
  assumes "fences_inv s"
  shows "fence_at q op s = Some f \<Longrightarrow> fence_ok q f s"
    and "fence_at q op s = Some f \<Longrightarrow> fence_at r po s = Some g \<Longrightarrow> rf_object f = rf_object g \<Longrightarrow> q = r \<and> op = po"
    and "FencePrepared n \<in> set (sc_log s) \<Longrightarrow> n < sc_nextFence s"
    and "e \<in> set (sc_queue s) \<Longrightarrow> fence_job_ok s (snd e)"
    and "jm_get (sc_active s) k = Some a \<Longrightarrow> as_roleId a = fst k"
  using assms unfolding fences_inv_def by metis+

text \<open>A step that makes nothing harder for the fences.\<close>

definition same_document :: "active_shortcut \<Rightarrow> active_shortcut \<Rightarrow> bool" where
  "same_document a b \<longleftrightarrow> as_roleId a = as_roleId b \<and> as_surfaceGeneration a = as_surfaceGeneration b \<and>
     as_documentInstanceId a = as_documentInstanceId b"

definition from_active :: "(shortcut_key \<Rightarrow> active_shortcut option) \<Rightarrow> (shortcut_key \<Rightarrow> active_shortcut option) \<Rightarrow> bool" where
  "from_active A B \<longleftrightarrow> (\<forall>k a. B k = Some a \<longrightarrow> (\<exists>b. A k = Some b \<and> same_document a b))"

definition calmer :: "shortcut_state \<Rightarrow> shortcut_state \<Rightarrow> bool" where
  "calmer s t \<longleftrightarrow> (\<forall>q op f. fence_at q op t = Some f \<longrightarrow> fence_at q op s = Some f) \<and>
     sc_nextFence t = sc_nextFence s \<and>
     (\<forall>n. FencePrepared n \<in> set (sc_log t) \<longleftrightarrow> FencePrepared n \<in> set (sc_log s)) \<and>
     (\<forall>n. reconciled_ok n (sc_log t) \<longleftrightarrow> reconciled_ok n (sc_log s)) \<and>
     (\<forall>q i n. (q, PrepareShortcut i n) \<in> set (sc_queue t) \<longrightarrow> (q, PrepareShortcut i n) \<in> set (sc_queue s)) \<and>
     (\<forall>q. core_idle q s \<longrightarrow> core_idle q t) \<and> from_active (jm_get (sc_active s)) (jm_get (sc_active t))"

lemma calmerD:
  assumes "calmer s t"
  shows "fence_at q op t = Some f \<Longrightarrow> fence_at q op s = Some f"
    and "sc_nextFence t = sc_nextFence s"
    and "FencePrepared n \<in> set (sc_log t) \<longleftrightarrow> FencePrepared n \<in> set (sc_log s)"
    and "reconciled_ok n (sc_log t) \<longleftrightarrow> reconciled_ok n (sc_log s)"
    and "(q, PrepareShortcut i n) \<in> set (sc_queue t) \<Longrightarrow> (q, PrepareShortcut i n) \<in> set (sc_queue s)"
    and "core_idle q s \<Longrightarrow> core_idle q t"
    and "jm_get (sc_active t) k = Some a \<Longrightarrow> \<exists>b. jm_get (sc_active s) k = Some b \<and> same_document a b"
  using assms unfolding calmer_def from_active_def by blast+

lemma from_active_refl [simp]: "from_active A A"
  by (auto simp: from_active_def same_document_def)

lemma from_active_trans: "from_active A B \<Longrightarrow> from_active B C \<Longrightarrow> from_active A C"
  unfolding from_active_def same_document_def by metis

lemma calmer_refl [simp]: "calmer s s"
  by (simp add: calmer_def)

lemma calmer_trans:
  assumes "calmer s t" and "calmer t u"
  shows "calmer s u"
proof -
  note D = calmerD [OF assms(1)] and E = calmerD [OF assms(2)]
  have "from_active (jm_get (sc_active s)) (jm_get (sc_active u))"
    by (rule from_active_trans [of _ "jm_get (sc_active t)"]) (use assms in \<open>simp_all add: calmer_def\<close>)
  moreover have "fence_at q op u = Some f \<Longrightarrow> fence_at q op s = Some f" for q op f using D(1) E(1) by blast
  ultimately show ?thesis unfolding calmer_def using D(2-6) E(2-6) by simp
qed

lemma calmer_inv:
  assumes inv: "fences_inv s" and calm: "calmer s t"
  shows "fences_inv t"
proof -
  note D = fences_invD [OF inv] and C = calmerD [OF calm]
  have only: "only_document q g d t" if "only_document q g d s" for q g d
    unfolding only_document_def
  proof (intro allI impI)
    fix k a
    assume at: "jm_get (sc_active t) k = Some a" and q: "as_roleId a = q"
    obtain b where "jm_get (sc_active s) k = Some b" "same_document a b" using C(7) [OF at] by blast
    then show "of_document q g d a" using that q by (auto simp: only_document_def of_document_def same_document_def)
  qed
  have none: "no_active_of q t" if "no_active_of q s" for q
    unfolding no_active_of_def
  proof (intro allI impI)
    fix k a
    assume at: "jm_get (sc_active t) k = Some a"
    obtain b where "jm_get (sc_active s) k = Some b" "same_document a b" using C(7) [OF at] by blast
    then show "as_roleId a \<noteq> q" using that by (auto simp: no_active_of_def same_document_def)
  qed
  have fence: "fence_ok q f t" if at: "fence_at q op t = Some f" for q op f
    using D(1) [OF C(1) [OF at]] only none C(2-4,6) unfolding fence_ok_def by simp
  have job: "fence_job_ok t j" if "(q, j) \<in> set (sc_queue t)" for q j
  proof (cases j)
    case (PrepareShortcut i n)
    then have "fence_job_ok s j" using that C(5) D(4) by fastforce
    then show ?thesis using PrepareShortcut C(1,2) by (simp, blast)
  qed simp_all
  have key: "as_roleId a = fst k" if at: "jm_get (sc_active t) k = Some a" for k a
    using C(7) [OF at] D(5) [of k] by (auto simp: same_document_def)
  show ?thesis unfolding fences_inv_def
  proof (intro conjI allI impI ballI)
    fix q op f r po g
    assume "fence_at q op t = Some f" "fence_at r po t = Some g" "rf_object f = rf_object g"
    then show "q = r" "op = po" using D(2) C(1) by blast+
  next
    show "n < sc_nextFence t" if "FencePrepared n \<in> set (sc_log t)" for n using that C(2,3) D(3) by simp
    show "fence_job_ok t (snd e)" if "e \<in> set (sc_queue t)" for e using job [of "fst e" "snd e"] that by simp
  qed (use fence key in blast)+
qed


section \<open>The calm steps\<close>

lemma fence_at_drop:
  "fence_at q op (s\<lparr>sc_fences := drop_operation r po (sc_fences s), sc_retirements := m\<rparr>) =
     (if q = r \<and> op = po then None else fence_at q op s)"
proof (cases "jm_get (sc_fences s) r")
  case (Some vs)
  have "jm_get vs op = None" if "jm_delete po vs = []" "op \<noteq> po"
    using that(2) arg_cong [OF that(1), of "\<lambda>m. jm_get m op"] by simp
  then show ?thesis using Some by (auto simp: fence_at_def drop_operation_def split: option.split)
qed (auto simp: fence_at_def drop_operation_def)

lemma fence_at_put:
  "fence_at q op (s\<lparr>sc_fences := put_operation r po f (sc_fences s), sc_nextFence := n\<rparr>) =
     (if q = r \<and> op = po then Some f else fence_at q op s)"
  by (auto simp: fence_at_def put_operation_def split: option.split)

lemma fence_at_same: "sc_fences t = sc_fences s \<Longrightarrow> fence_at q op t = fence_at q op s"
  by (simp add: fence_at_def)

lemma calm_event: "(\<forall>n. e \<noteq> FencePrepared n \<and> e \<noteq> RetirementRecorded n) \<Longrightarrow> calmer s (shortcut_event e s)"
  by (auto simp: calmer_def shortcut_event_def fence_at_def core_idle_def)

lemma calm_end: "calmer s (end_shortcut_job q s)"
  by (auto simp: calmer_def end_shortcut_job_def fence_at_def core_idle_def)

lemma calm_cycle: "calmer s (retireExactCycle k y s)" "calmer s (mark_uncertain k y s)"
  by (auto simp: calmer_def retireExactCycle_def mark_uncertain_def fence_at_def core_idle_def from_active_def
      same_document_def split: option.split)

lemma calm_forget: "jm_wf (sc_active s) \<Longrightarrow> calmer s (forget_document q g d s)"
  using filter_get [of "sc_active s"]
  by (auto simp: calmer_def forget_document_def fence_at_def core_idle_def from_active_def same_document_def)

lemma calm_drop: "calmer s (s\<lparr>sc_queue := drop_of_role q (sc_queue s)\<rparr>)"
  using drop_of_role_subset [of q "sc_queue s"] by (auto simp: calmer_def fence_at_def core_idle_def)

lemma calm_enqueue: "\<forall>i n. j \<noteq> PrepareShortcut i n \<Longrightarrow> calmer s (enqueue_shortcut q j s)"
  by (auto simp: calmer_def enqueue_shortcut_def fence_at_def core_idle_def)

lemma calm_pending: "calmer s (s\<lparr>sc_pendingKeyDowns := m\<rparr>)"
  by (simp add: calmer_def fence_at_def core_idle_def)

lemma calm_retirement: "calmer s (s\<lparr>sc_running := jm_set q (AwaitingRetirement q g as ds) (sc_running s)\<rparr>)"
  by (simp add: calmer_def fence_at_def core_idle_def)

lemma calm_end_dispatch: "calmer s (end_dispatch u rq out s)"
proof -
  let ?s = "end_shortcut_job (ss_roleId u) (shortcut_event (ShortcutAnswered (ss_roleId u) out) s)"
  have "calmer s ?s" by (rule calmer_trans [OF calm_event calm_end]) simp
  then show ?thesis using calmer_trans [OF _ calm_pending] by (auto simp: end_dispatch_def Let_def)
qed

lemma calm_ask_retirement: "calmer s (ask_retirement q g as ds s)"
proof (cases ds)
  case (Cons d rest)
  have "calmer s (shortcut_event (RetirementAsked q g d) (s\<lparr>sc_running := jm_set q (AwaitingRetirement q g as ds) (sc_running s)\<rparr>))"
    by (rule calmer_trans [OF calm_retirement calm_event]) simp
  then show ?thesis by (simp add: ask_retirement_def Cons)
qed (simp add: ask_retirement_def calm_end)

lemma calm_settle_retirement:
  assumes "jm_wf (sc_active s)"
  shows "calmer s (settle_retirement q g as ds out s)"
proof -
  have "calmer s (end_shortcut_job q (shortcut_event (JobFailed q e) s))" for e
    by (rule calmer_trans [OF calm_event calm_end]) simp
  moreover have "calmer s (ask_retirement q g as rest (forget_document q g d s))" for rest d
    by (rule calmer_trans [OF calm_forget [OF assms] calm_ask_retirement])
  ultimately show ?thesis by (simp add: settle_retirement_def calm_end split: list.split sum.split)
qed

lemma calm_release: "calmer s (fst (releaseDocumentReplacementFence i s))"
proof -
  have "calmer s (s\<lparr>sc_fences := drop_operation r po (sc_fences s), sc_retirements := m\<rparr>)" for r po m
    by (simp add: calmer_def fence_at_drop core_idle_def)
  then show ?thesis by (simp add: releaseDocumentReplacementFence_def split: option.split)
qed

lemma calm_dispatch: "calmer s (fst (dispatch_shortcut i raw surface s))"
proof -
  have "calmer s (enqueue_shortcut q (DispatchShortcut u rq) (s\<lparr>sc_pendingKeyDowns := m\<rparr>))" for q u rq m
    by (rule calmer_trans [OF calm_pending calm_enqueue]) simp
  then show ?thesis by (auto simp: dispatch_shortcut_def calm_enqueue split: sum.split)
qed

lemma calm_retire_surface: "calmer s (fst (retire_surface q g reason s))"
proof -
  have "calmer s (s\<lparr>sc_fences := jm_delete q (sc_fences s), sc_retirements := m\<rparr>)" for m
    by (auto simp: calmer_def fence_at_def core_idle_def)
  from calmer_trans [OF this calm_enqueue] show ?thesis by (auto simp: retire_surface_def calm_enqueue)
qed

lemma calm_clear: "calmer s (clear_shortcuts s)"
  by (auto simp: calmer_def clear_shortcuts_def fence_at_def core_idle_def from_active_def same_document_def)

section \<open>The steps that use a fence\<close>

lemma settle_dispatch_fences:
  assumes inv: "fences_inv s" and run: "jm_get (sc_running s) (ss_roleId u) = Some (AwaitingCore op u rq)"
  shows "fences_inv (settle_dispatch op u rq out s)"
proof -
  note D = fences_invD [OF inv]
  let ?k = "request_key u rq" and ?t = "s\<lparr>sc_active := jm_set (request_key u rq) (active_entry u rq Held) (sc_active s)\<rparr>"
  have busy: "\<not> core_idle (ss_roleId u) s" using run by (auto simp: core_idle_def)
  have key: "fst ?k = ss_roleId u" by (simp add: request_key_def shortcutKey_def)
  have ok: "fence_ok q f ?t" if at: "fence_at q po s = Some f" for q po f
  proof -
    have old: "fence_ok q f s" by (rule D(1) [OF at])
    show ?thesis
    proof (cases "q = ss_roleId u")
      case True
      then show ?thesis using old busy reconciled_prepared by (auto simp: fence_ok_def)
    next
      case False
      then show ?thesis using old
        by (auto simp: fence_ok_def core_idle_def only_document_def no_active_of_def active_entry_def)
    qed
  qed
  have "fences_inv ?t"
    unfolding fences_inv_def
  proof (intro conjI allI impI ballI)
    fix q po f r op g
    assume "fence_at q po ?t = Some f" "fence_at r op ?t = Some g" "rf_object f = rf_object g"
    then show "q = r" "po = op" using D(2) by (auto simp: fence_at_same [of ?t s])
  next
    show "fence_job_ok ?t (snd e)" if "e \<in> set (sc_queue ?t)" for e
      using D(4) [of e] that by (cases "snd e") (simp_all add: fence_at_same [of ?t s])
    show "as_roleId a = fst k" if "jm_get (sc_active ?t) k = Some a" for k a
      using that D(5) key by (auto simp: active_entry_def split: if_splits)
  qed (use ok D(3) in \<open>auto simp: fence_at_same [of ?t s]\<close>)
  then have held: "fences_inv (end_dispatch u rq out' ?t)" for out' by (rule calmer_inv [OF _ calm_end_dispatch])
  have cycle: "fences_inv (end_dispatch u rq out' (retireExactCycle k y s))"
    "fences_inv (end_dispatch u rq out' (mark_uncertain k y s))" for out' k y
    by (rule calmer_inv [OF inv], rule calmer_trans [OF _ calm_end_dispatch], rule calm_cycle)+
  show ?thesis
    by (cases out) (simp_all add: settle_dispatch_def Let_def dispatch_failed_def receipt_mismatch_def cycle held)
qed


text \<open>A role without a fence may hold new cycles and ask Core.\<close>

lemma fences_inv_role:
  assumes inv: "fences_inv s" and free: "\<And>po. fence_at q po s = None"
    and same: "sc_fences t = sc_fences s" "sc_nextFence t = sc_nextFence s" "sc_log t = sc_log s" "sc_queue t = sc_queue s"
    and other: "\<And>r. r \<noteq> q \<Longrightarrow> core_idle r s \<Longrightarrow> core_idle r t"
    and active: "\<And>k a. jm_get (sc_active t) k = Some a \<Longrightarrow> jm_get (sc_active s) k = Some a \<or> (as_roleId a = q \<and> fst k = q)"
  shows "fences_inv t"
proof -
  note D = fences_invD [OF inv]
  have at: "fence_at r po t = fence_at r po s" for r po by (rule fence_at_same [OF same(1)])
  have ok: "fence_ok r f t" if "fence_at r po s = Some f" for r po f
  proof -
    have r: "r \<noteq> q" using free that by auto
    have "only_document r g d t" if "only_document r g d s" for g d
      using that active r unfolding only_document_def by metis
    moreover have "no_active_of r t" if "no_active_of r s"
      using that active r unfolding no_active_of_def by metis
    ultimately show ?thesis using D(1) [OF that] other [OF r] by (simp add: fence_ok_def same)
  qed
  show ?thesis unfolding fences_inv_def
  proof (intro conjI allI impI ballI)
    show "fence_job_ok t (snd e)" if "e \<in> set (sc_queue t)" for e
      using D(4) [of e] that by (cases "snd e") (simp_all add: at same)
    show "as_roleId a = fst k" if "jm_get (sc_active t) k = Some a" for k a using active [OF that] D(5) [of k a] by auto
    fix r po f q op g
    assume "fence_at r po t = Some f" "fence_at q op t = Some g" "rf_object f = rf_object g"
    then show "r = q" "po = op" using D(2) by (auto simp: at)
  qed (use ok D(3) in \<open>auto simp: at same\<close>)
qed

lemma start_dispatch_fences:
  assumes inv: "fences_inv s"
  shows "fences_inv (start_dispatch op u rq s)"
proof (cases "role_fenced (ss_roleId u) s")
  case True
  then show ?thesis by (simp add: start_dispatch_def calmer_inv [OF inv calm_end_dispatch])
next
  case False
  define t where "t = (if sr_phase rq = KeyDownPhase \<and> \<not> jm_has (sc_active s) (request_key u rq)
      then s\<lparr>sc_active := jm_set (request_key u rq) (active_entry u rq Provisional) (sc_active s)\<rparr> else s)"
  let ?r = "t\<lparr>sc_running := jm_set (ss_roleId u) (AwaitingCore op u rq) (sc_running t)\<rparr>"
  have t: "sc_fences t = sc_fences s" "sc_nextFence t = sc_nextFence s" "sc_log t = sc_log s" "sc_queue t = sc_queue s"
    "sc_running t = sc_running s" by (simp_all add: t_def)
  have free: "fence_at (ss_roleId u) po s = None" for po
    using False by (auto simp: role_fenced_def fence_at_def split: option.splits)
  have "fences_inv ?r"
    by (rule fences_inv_role [OF inv free])
      (auto simp: t core_idle_def t_def request_key_def shortcutKey_def active_entry_def split: if_splits)
  then have "fences_inv (shortcut_event (CoreAsked op u rq) ?r)" by (rule calmer_inv) (simp add: calm_event)
  then show ?thesis using False by (simp add: start_dispatch_def Let_def t_def)
qed

lemma reconciled_event: "reconciled_ok n (e # es) \<longleftrightarrow> (e = RetirementRecorded n \<and> FencePrepared n \<in> set es) \<or> reconciled_ok n es"
  by simp

text \<open>A preparation that succeeds found its role idle, with cycles of the fenced document only.\<close>

lemma run_prepare_fences:
  assumes inv: "fences_inv s" and job: "fence_job_ok s (PrepareShortcut i n)" and free: "jm_get (sc_running s) (ri_role i) = None"
  shows "fences_inv (run_prepare i n s)"
proof (cases "fence_checks i n s")
  case (Inl e)
  have "calmer s (fst (releaseDocumentReplacementFence i (shortcut_event (JobFailed (ri_role i) e) s)))"
    by (rule calmer_trans [OF calm_event calm_release]) simp
  then show ?thesis using Inl by (simp add: run_prepare_def calmer_inv [OF inv])
next
  case (Inr x)
  note D = fences_invD [OF inv]
  let ?t = "shortcut_event (FencePrepared n) s"
  have at: "fence_at q op ?t = fence_at q op s" for q op by (rule fence_at_same) (simp add: shortcut_event_def)
  have all: "as_surfaceGeneration a = ri_generation i \<and> as_documentInstanceId a = ri_document i"
    if "jm_get (sc_active s) k = Some a" "as_roleId a = ri_role i" for k a
    using Inr that by (auto simp: fence_checks_def list_ex_iff jm_get_def dest!: map_of_SomeD split: if_splits)
  have ok: "fence_ok q f ?t" if f: "fence_at q op s = Some f" for q op f
  proof -
    have old: "fence_ok q f s" by (rule D(1) [OF f])
    have "core_idle q s \<and> only_document q (rf_surfaceGeneration f) (rf_documentInstanceId f) s" if "rf_object f = n"
    proof -
      have id: "q = ri_role i" "rf_surfaceGeneration f = ri_generation i" "rf_documentInstanceId f = ri_document i"
        using job f that by auto
      have "only_document q (rf_surfaceGeneration f) (rf_documentInstanceId f) s"
        using all by (simp add: only_document_def of_document_def id)
      then show ?thesis using free by (simp add: core_idle_def id)
    qed
    then show ?thesis using old by (auto simp: fence_ok_def shortcut_event_def core_idle_def only_document_def no_active_of_def)
  qed
  have "fences_inv ?t" unfolding fences_inv_def
  proof (intro conjI allI impI ballI)
    show "fence_job_ok ?t (snd e)" if "e \<in> set (sc_queue ?t)" for e
      using D(4) [of e] that by (cases "snd e") (simp_all add: at, simp_all add: shortcut_event_def)
    show "m < sc_nextFence ?t" if "FencePrepared m \<in> set (sc_log ?t)" for m
      using that D(3) [of m] job by (auto simp: shortcut_event_def)
    show "as_roleId a = fst k" if "jm_get (sc_active ?t) k = Some a" for k a
      using that D(5) by (simp add: shortcut_event_def)
    fix r po f q op g
    assume "fence_at r po ?t = Some f" "fence_at q op ?t = Some g" "rf_object f = rf_object g"
    then show "r = q" "po = op" using D(2) by (auto simp: at)
  qed (use ok in \<open>auto simp: at\<close>)
  then show ?thesis using Inr by (simp add: run_prepare_def)
qed

text \<open>A new fence is unprepared; a second preparation of a fence carries the identity the fence has.\<close>

lemma prepare_fences:
  assumes inv: "fences_inv s"
  shows "fences_inv (fst (prepareDocumentReplacement i s))"
proof -
  note D = fences_invD [OF inv]
  have again: "fences_inv (enqueue_shortcut (ri_role i) (PrepareShortcut i (rf_object f)) s)" (is "fences_inv ?t")
    if f: "fence_at (ri_role i) (ri_operation i) s = Some f" "rf_surfaceGeneration f = ri_generation i" "rf_documentInstanceId f = ri_document i" for f
  proof -
    have "q = ri_role i \<and> op = ri_operation i \<and> rf_surfaceGeneration g = ri_generation i \<and> rf_documentInstanceId g = ri_document i"
      if g: "fence_at q op s = Some g" "rf_object g = rf_object f" for q op g
      using D(2) [OF g(1) f(1) g(2)] g(1) f by auto
    moreover have "rf_object f < sc_nextFence s" using D(1) [OF f(1)] by (simp add: fence_ok_def)
    ultimately have "fence_job_ok s (PrepareShortcut i (rf_object f))" by simp
    moreover have at: "fence_at q op ?t = fence_at q op s" for q op by (rule fence_at_same) (simp add: enqueue_shortcut_def)
    moreover have "fence_job_ok ?t j = fence_job_ok s j" for j
      by (cases j) (simp_all add: at, simp_all add: enqueue_shortcut_def)
    moreover have "fence_ok q g ?t = fence_ok q g s" for q g
      by (simp add: fence_ok_def core_idle_def only_document_def no_active_of_def enqueue_shortcut_def)
    moreover have "sc_queue ?t = sc_queue s @ [(ri_role i, PrepareShortcut i (rf_object f))]"
      "sc_log ?t = sc_log s" "sc_active ?t = sc_active s" "sc_nextFence ?t = sc_nextFence s" by (simp_all add: enqueue_shortcut_def)
    ultimately show ?thesis using inv unfolding fences_inv_def at by simp
  qed
  have new: "fences_inv (enqueue_shortcut (ri_role i) (PrepareShortcut i (sc_nextFence s))
      (s\<lparr>sc_fences := put_operation (ri_role i) (ri_operation i) f (sc_fences s), sc_nextFence := Suc (sc_nextFence s)\<rparr>))"
    (is "fences_inv ?t")
    if none: "fence_at (ri_role i) (ri_operation i) s = None" and f: "rf_object f = sc_nextFence s"
      "rf_surfaceGeneration f = ri_generation i" "rf_documentInstanceId f = ri_document i" for f
  proof -
    have at: "fence_at q op ?t = (if q = ri_role i \<and> op = ri_operation i then Some f else fence_at q op s)" for q op
      using fence_at_put [where s = s and n = "Suc (sc_nextFence s)"] by (simp add: fence_at_def enqueue_shortcut_def)
    have fields: "sc_nextFence ?t = Suc (sc_nextFence s)" "sc_log ?t = sc_log s" "sc_active ?t = sc_active s" "sc_running ?t = sc_running s"
      "sc_queue ?t = sc_queue s @ [(ri_role i, PrepareShortcut i (sc_nextFence s))]" by (simp_all add: enqueue_shortcut_def)
    have young: "rf_object g < sc_nextFence s" if "fence_at q op s = Some g" for q op g
      using D(1) [OF that] by (simp add: fence_ok_def)
    have fresh: "FencePrepared (sc_nextFence s) \<notin> set (sc_log s)" "\<not> reconciled_ok (sc_nextFence s) (sc_log s)"
      using D(3) [of "sc_nextFence s"] reconciled_prepared by auto
    have ok: "fence_ok q g ?t" if "fence_at q op ?t = Some g" for q op g
      using that D(1) [of q op g] fresh f(1)
      by (auto simp: at fields fence_ok_def core_idle_def only_document_def no_active_of_def split: if_splits)
    have job: "fence_job_ok ?t j" if "fence_job_ok s j" for j
      using that f(1) by (cases j) (auto simp: at fields)
    have own: "fence_job_ok ?t (PrepareShortcut i (sc_nextFence s))"
      using f none by (auto simp: at fields dest!: young split: if_splits)
    have jobs: "fence_job_ok ?t (snd e)" if "e \<in> set (sc_queue ?t)" for e
    proof -
      have "e \<in> set (sc_queue s) \<or> e = (ri_role i, PrepareShortcut i (sc_nextFence s))" using that unfolding fields by auto
      then show ?thesis
      proof
        assume "e \<in> set (sc_queue s)"
        then show ?thesis by (rule job [OF D(4)])
      next
        assume "e = (ri_role i, PrepareShortcut i (sc_nextFence s))"
        then show ?thesis using own by (simp only: snd_conv)
      qed
    qed
    show ?thesis unfolding fences_inv_def
    proof (intro conjI allI impI ballI)
      show "m < sc_nextFence ?t" if "FencePrepared m \<in> set (sc_log ?t)" for m
        using that D(3) [of m] by (simp add: fields)
      show "as_roleId a = fst k" if "jm_get (sc_active ?t) k = Some a" for k a using that D(5) by (simp add: fields)
      fix r po g q op h
      assume "fence_at r po ?t = Some g" "fence_at q op ?t = Some h" "rf_object g = rf_object h"
      then show "r = q" "po = op" using D(2) [of r po g q op h] f(1) by (auto simp: at dest: young split: if_splits)
    qed (use ok jobs in blast)+
  qed
  show ?thesis using inv again new
    by (auto simp: prepareDocumentReplacement_def Let_def split: option.split)
qed


lemma reconcile_fences:
  assumes inv: "fences_inv s" and wf: "jm_wf (sc_active s)"
  shows "fences_inv (fst (reconcileDocumentReplacementRetirement i r s))"
proof -
  have "fences_inv (forget_document (ri_role i) (ri_generation i) (ri_document i)
      (shortcut_event (RetirementRecorded (rf_object f)) (s\<lparr>sc_retirements := m\<rparr>)))" (is "fences_inv ?t")
    if f: "matching_fence i s = Some f" for f m
  proof -
    note D = fences_invD [OF inv]
    have here: "fence_at (ri_role i) (ri_operation i) s = Some f" "rf_surfaceGeneration f = ri_generation i"
        "rf_documentInstanceId f = ri_document i"
      using f by (auto simp: matching_fence_def split: option.splits if_splits)
    let ?u = "forget_document (ri_role i) (ri_generation i) (ri_document i) s"
    have calm: "fences_inv ?u" by (rule calmer_inv [OF inv calm_forget [OF wf]])
    note E = fences_invD [OF calm]
    have same: "sc_fences ?t = sc_fences ?u" "sc_nextFence ?t = sc_nextFence ?u" "sc_queue ?t = sc_queue ?u" "sc_running ?t = sc_running ?u"
        "sc_active ?t = sc_active ?u" "sc_log ?t = RetirementRecorded (rf_object f) # sc_log ?u" "sc_log ?u = sc_log s"
        "sc_fences ?u = sc_fences s"
      by (simp_all add: forget_document_def shortcut_event_def)
    have at: "fence_at q op ?t = fence_at q op s" "fence_at q op ?u = fence_at q op s" for q op
      by (simp_all add: fence_at_same [of ?t s] fence_at_same [of ?u s] same)
    have gone: "no_active_of (ri_role i) ?u" if "FencePrepared (rf_object f) \<in> set (sc_log s)"
    proof -
      have only: "only_document (ri_role i) (ri_generation i) (ri_document i) s"
        using D(1) [OF here(1)] that by (simp add: fence_ok_def here)
      have "as_roleId a \<noteq> ri_role i" if "jm_get (sc_active ?u) k = Some a" for k a
      proof -
        have mem: "(k, a) \<in> set (sc_active ?u)" using that by (simp add: jm_get_def map_of_SomeD)
        then have "\<not> of_document (ri_role i) (ri_generation i) (ri_document i) a" by (simp add: forget_document_def)
        moreover have "jm_get (sc_active s) k = Some a"
          using filter_get [OF wf, of _ k a] that by (simp add: forget_document_def)
        ultimately show ?thesis using only unfolding only_document_def by blast
      qed
      then show ?thesis by (simp add: no_active_of_def)
    qed
    have ok: "fence_ok q g ?t" if g: "fence_at q op s = Some g" for q op g
    proof -
      have old: "fence_ok q g ?u" using E(1) at(2) g by simp
      have "no_active_of q ?u" if "rf_object g = rf_object f" "FencePrepared (rf_object f) \<in> set (sc_log s)"
        using D(2) [OF g here(1) that(1)] gone that(2) by simp
      then show ?thesis using old
        by (auto simp: fence_ok_def core_idle_def only_document_def no_active_of_def same)
    qed
    show ?thesis unfolding fences_inv_def
    proof (intro conjI allI impI ballI)
      show "fence_job_ok ?t (snd e)" if "e \<in> set (sc_queue ?t)" for e
        using E(4) [of e] that unfolding same by (cases "snd e") (simp_all add: at same)
      show "n < sc_nextFence ?t" if "FencePrepared n \<in> set (sc_log ?t)" for n using that E(3) [of n] unfolding same by simp
      show "as_roleId a = fst k" if "jm_get (sc_active ?t) k = Some a" for k a using that E(5) [of k a] unfolding same by simp
      fix r po g q op h
      assume "fence_at r po ?t = Some g" "fence_at q op ?t = Some h" "rf_object g = rf_object h"
      then show "r = q" "po = op" using D(2) [of r po g q op h] by (simp_all add: at)
    qed (use ok at(1) in \<open>simp\<close>)
  qed
  then show ?thesis using inv by (auto simp: reconcileDocumentReplacementRetirement_def split: option.split)
qed

section \<open>Every step keeps the fences\<close>

definition shortcuts_good :: "shortcut_state \<Rightarrow> bool" where
  "shortcuts_good s \<longleftrightarrow> presses_inv s \<and> fences_inv s"

lemma start_job_fences:
  assumes inv: "fences_inv s" and presses: "presses_inv s"
  shows "fences_inv (start_shortcut_job q op s)"
proof (cases "jm_has (sc_running s) q \<or> next_of_role q (sc_queue s) = None")
  case True
  then show ?thesis using inv by (auto simp: start_shortcut_job_def)
next
  case False
  then obtain j where j: "next_of_role q (sc_queue s) = Some j" and free: "jm_get (sc_running s) q = None"
    by (auto simp: jm_has_def)
  let ?s = "s\<lparr>sc_queue := drop_of_role q (sc_queue s)\<rparr>"
  have mem: "(q, j) \<in> set (sc_queue s)" by (rule next_of_role_mem [OF j])
  have role: "job_role_ok q j" using presses mem by (auto simp: presses_inv_def)
  have kept: "fences_inv ?s" by (rule calmer_inv [OF inv calm_drop])
  have "fence_job_ok ?s j" using fences_invD(4) [OF inv mem] by (cases j) (simp_all add: fence_at_same [of ?s s])
  then show ?thesis
    using False j free kept role
    by (cases j) (simp_all add: start_shortcut_job_def jm_has_def start_dispatch_fences run_prepare_fences start_retirement_def Let_def
        calmer_inv [OF kept calm_ask_retirement])
qed

lemma shortcut_run_good:
  assumes good: "shortcuts_good s"
  shows "shortcuts_good (shortcut_run x s)"
proof -
  have inv: "fences_inv s" and presses: "presses_inv s" and wf: "jm_wf (sc_active s)"
    using good by (simp_all add: shortcuts_good_def presses_inv_def)
  have "fences_inv (shortcut_run x s)"
  proof (cases x)
    case (SettleShortcut q a)
    have role: "ss_roleId u = q" if "jm_get (sc_running s) q = Some (AwaitingCore op u rq)" for op u rq
      using presses that unfolding presses_inv_def by (metis stage_role_ok.simps(1))
    have "fences_inv (settle_retirement r g as ds out s)" for r g as ds out
      by (rule calmer_inv [OF inv calm_settle_retirement [OF wf]])
    then show ?thesis using inv settle_dispatch_fences [OF inv] role
      by (auto simp: SettleShortcut settle_shortcut_def split: option.split shortcut_stage.split shortcut_answer.split)
  next
    case DisposeShortcuts
    have "calmer s (dispose_shortcuts s)" by (simp add: calmer_def dispose_shortcuts_def fence_at_def core_idle_def)
    then show ?thesis using DisposeShortcuts by (simp add: calmer_inv [OF inv])
  qed (simp_all add: prepare_fences [OF inv] reconcile_fences [OF inv wf] start_job_fences [OF inv presses]
      calmer_inv [OF inv calm_release] calmer_inv [OF inv calm_dispatch] calmer_inv [OF inv calm_retire_surface]
      calmer_inv [OF inv calm_clear])
  then show ?thesis using shortcut_run_inv [OF presses] by (simp add: shortcuts_good_def)
qed

interpretation fenced: guarded_machine shortcut_run shortcuts_good
  by unfold_locales (rule shortcut_run_good)

lemma no_shortcuts_good: "shortcuts_good no_shortcuts"
  using no_shortcuts_inv by (simp add: shortcuts_good_def fences_inv_def no_shortcuts_def fence_at_def)

end
