(* ===== verification/Shortcut_Properties.thy ===== *)
theory Shortcut_Properties
  imports Shortcut_Fences
begin

text \<open>
  The properties of physical shortcuts: one press per key, and a document is replaced only when its role
  holds no shortcut.
\<close>

section \<open>Recorded retirements\<close>

definition retired_at :: "string \<Rightarrow> string \<Rightarrow> shortcut_state \<Rightarrow> bool" where
  "retired_at q op s \<longleftrightarrow> (case jm_get (sc_retirements s) q of None \<Rightarrow> False | Some rs \<Rightarrow> jm_has rs op)"

text \<open>A retirement is recorded with its fence.\<close>

definition recorded_inv :: "shortcut_state \<Rightarrow> bool" where
  "recorded_inv s \<longleftrightarrow> (\<forall>q op. retired_at q op s \<longrightarrow>
     (\<exists>f. fence_at q op s = Some f \<and> RetirementRecorded (rf_object f) \<in> set (sc_log s)))"

definition retires_with :: "shortcut_state \<Rightarrow> shortcut_state \<Rightarrow> bool" where
  "retires_with s t \<longleftrightarrow> (\<forall>q op. retired_at q op t \<longrightarrow> retired_at q op s \<and> fence_at q op t = fence_at q op s) \<and>
     set (sc_log s) \<subseteq> set (sc_log t)"

lemma retires_with_trans: "retires_with s t \<Longrightarrow> retires_with t u \<Longrightarrow> retires_with s u"
  unfolding retires_with_def by (metis subset_trans)

lemma retires_with_inv: "recorded_inv s \<Longrightarrow> retires_with s t \<Longrightarrow> recorded_inv t"
  unfolding recorded_inv_def retires_with_def by (metis subsetD)

lemma retires_same: "sc_fences t = sc_fences s \<Longrightarrow> sc_retirements t = sc_retirements s \<Longrightarrow> set (sc_log s) \<subseteq> set (sc_log t) \<Longrightarrow> retires_with s t"
  by (simp add: retires_with_def retired_at_def fence_at_def)

text \<open>The operations that leave the fences alone.\<close>

definition leaves_fences :: "shortcut_state \<Rightarrow> shortcut_state \<Rightarrow> bool" where
  "leaves_fences s t \<longleftrightarrow> sc_fences t = sc_fences s \<and> sc_retirements t = sc_retirements s \<and> set (sc_log s) \<subseteq> set (sc_log t)"

lemma leaves_simps [simp]:
  "leaves_fences s s" "leaves_fences s t \<Longrightarrow> leaves_fences s (shortcut_event e t)"
  "leaves_fences s (end_shortcut_job q t) \<longleftrightarrow> leaves_fences s t"
  "leaves_fences s (retireExactCycle k y t) \<longleftrightarrow> leaves_fences s t"
  "leaves_fences s (mark_uncertain k y t) \<longleftrightarrow> leaves_fences s t"
  "leaves_fences s (forget_document r g d t) \<longleftrightarrow> leaves_fences s t"
  "leaves_fences s (enqueue_shortcut r j t) \<longleftrightarrow> leaves_fences s t"
  by (auto simp: leaves_fences_def shortcut_event_def end_shortcut_job_def retireExactCycle_def mark_uncertain_def
      forget_document_def enqueue_shortcut_def split: option.split)

lemma leaves_settle [simp]: "leaves_fences s (settle_shortcut q a s)"
proof -
  have ended: "leaves_fences s (end_dispatch u rq out t)" if "leaves_fences s t" for u rq out t
    using that by (auto simp: end_dispatch_def Let_def leaves_fences_def shortcut_event_def end_shortcut_job_def)
  have "leaves_fences s (s\<lparr>sc_active := m\<rparr>)" for m by (simp add: leaves_fences_def)
  then have "leaves_fences s (settle_dispatch op u rq out s)" for op u rq out
    by (cases out) (simp_all add: settle_dispatch_def Let_def ended dispatch_failed_def receipt_mismatch_def)
  moreover have "leaves_fences s (settle_retirement r g as ds out s)" for r g as ds out
    by (auto simp: settle_retirement_def ask_retirement_def leaves_fences_def shortcut_event_def end_shortcut_job_def
        forget_document_def split: list.split sum.split)
  ultimately show ?thesis by (auto simp: settle_shortcut_def split: option.split shortcut_stage.split shortcut_answer.split)
qed

lemma leaves_dispatch: "leaves_fences s (fst (dispatch_shortcut i raw surface s))"
  by (auto simp: dispatch_shortcut_def leaves_fences_def enqueue_shortcut_def split: sum.split)

lemma leaves_start: "leaves_fences s (start_dispatch op u rq s)" "leaves_fences s (start_retirement q g s)"
  by (auto simp: start_dispatch_def end_dispatch_def start_retirement_def ask_retirement_def Let_def leaves_fences_def
      shortcut_event_def end_shortcut_job_def split: list.split)

lemma retires_leaves: "leaves_fences s t \<Longrightarrow> retires_with s t"
  by (simp add: leaves_fences_def retires_same)

lemma retired_at_drop:
  "retired_at q op (s\<lparr>sc_fences := m, sc_retirements := drop_operation r po (sc_retirements s)\<rparr>) \<longleftrightarrow>
     (q, op) \<noteq> (r, po) \<and> retired_at q op s"
proof (cases "jm_get (sc_retirements s) r")
  case (Some vs)
  have "jm_get vs op = None" if "jm_delete po vs = []" "op \<noteq> po"
    using that(2) arg_cong [OF that(1), of "\<lambda>m. jm_get m op"] by simp
  then show ?thesis using Some by (auto simp: retired_at_def drop_operation_def jm_has_def split: option.split)
qed (auto simp: retired_at_def drop_operation_def)

lemma retires_release: "retires_with s (fst (releaseDocumentReplacementFence i s))"
  by (auto simp: releaseDocumentReplacementFence_def retires_with_def retired_at_drop fence_at_drop split: option.split)

lemma retires_run:
  assumes inv: "recorded_inv s"
  shows "recorded_inv (shortcut_run x s)"
proof (cases x)
  case (PrepareReplacement i)
  have new: "retires_with s (enqueue_shortcut q j
      (s\<lparr>sc_fences := put_operation (ri_role i) (ri_operation i) f (sc_fences s), sc_nextFence := n\<rparr>))" (is "retires_with s ?t")
    if none: "fence_at (ri_role i) (ri_operation i) s = None" for q j f n
  proof -
    have at: "fence_at r po ?t = (if r = ri_role i \<and> po = ri_operation i then Some f else fence_at r po s)" for r po
      using fence_at_put [where s = s and n = n] by (simp add: fence_at_def enqueue_shortcut_def)
    have "retired_at r po ?t = retired_at r po s" for r po by (simp add: retired_at_def enqueue_shortcut_def)
    moreover have "sc_log ?t = sc_log s" by (simp add: enqueue_shortcut_def)
    moreover have "\<not> retired_at (ri_role i) (ri_operation i) s" using none inv unfolding recorded_inv_def by (metis option.distinct(1))
    ultimately show ?thesis by (auto simp: retires_with_def at)
  qed
  then have "retires_with s (shortcut_run x s)"
    by (auto simp: PrepareReplacement prepareDocumentReplacement_def Let_def retires_leaves split: option.split)
  then show ?thesis by (rule retires_with_inv [OF inv])
next
  case (ReconcileReplacement i r)
  have "recorded_inv (forget_document q g d (shortcut_event (RetirementRecorded (rf_object f))
      (s\<lparr>sc_retirements := put_operation (ri_role i) (ri_operation i) r (sc_retirements s)\<rparr>)))" (is "recorded_inv ?t")
    if f: "matching_fence i s = Some f" for q g d f
  proof -
    have here: "fence_at (ri_role i) (ri_operation i) s = Some f"
      using f by (auto simp: matching_fence_def split: option.splits if_splits)
    have at: "fence_at p po ?t = fence_at p po s" for p po
      by (rule fence_at_same) (simp add: forget_document_def shortcut_event_def)
    have ret: "retired_at p po ?t \<longleftrightarrow> (p = ri_role i \<and> po = ri_operation i) \<or> retired_at p po s" for p po
      by (auto simp: retired_at_def forget_document_def shortcut_event_def put_operation_def jm_has_def split: option.split)
    have log: "set (sc_log ?t) = insert (RetirementRecorded (rf_object f)) (set (sc_log s))"
      by (simp add: forget_document_def shortcut_event_def)
    show ?thesis unfolding recorded_inv_def at log
    proof (intro allI impI)
      fix p po
      assume "retired_at p po ?t"
      then consider "p = ri_role i" "po = ri_operation i" | "retired_at p po s" unfolding ret by blast
      then show "\<exists>g. fence_at p po s = Some g \<and> RetirementRecorded (rf_object g) \<in> insert (RetirementRecorded (rf_object f)) (set (sc_log s))"
      proof cases
        case 1
        then show ?thesis using here by auto
      next
        case 2
        then show ?thesis using inv unfolding recorded_inv_def by blast
      qed
    qed
  qed
  then show ?thesis using inv by (auto simp: ReconcileReplacement reconcileDocumentReplacementRetirement_def split: option.split)
next
  case (RetireSurfaceCall q g reason)
  have "retires_with s (enqueue_shortcut q j (s\<lparr>sc_fences := jm_delete q (sc_fences s), sc_retirements := jm_delete q (sc_retirements s)\<rparr>))" for j
    by (auto simp: retires_with_def retired_at_def fence_at_def enqueue_shortcut_def)
  then have "retires_with s (shortcut_run x s)" by (simp add: RetireSurfaceCall retire_surface_def retires_leaves)
  then show ?thesis by (rule retires_with_inv [OF inv])
next
  case (StartShortcut q op)
  let ?s = "s\<lparr>sc_queue := drop_of_role q (sc_queue s)\<rparr>"
  have drop: "retires_with s ?s" by (rule retires_leaves) (simp add: leaves_fences_def)
  have event: "retires_with ?s (shortcut_event e ?s)" for e
    by (rule retires_leaves) (auto simp: leaves_fences_def shortcut_event_def)
  have prep: "retires_with ?s (run_prepare i n ?s)" for i n
    using event retires_with_trans [OF event retires_release] by (simp add: run_prepare_def split: sum.split)
  have "retires_with s (start_shortcut_job q op s)"
    using retires_with_trans [OF drop prep] retires_with_trans [OF drop retires_leaves [OF leaves_start(1)]]
      retires_with_trans [OF drop retires_leaves [OF leaves_start(2)]]
    by (simp add: start_shortcut_job_def Let_def retires_leaves split: option.split shortcut_job.split)
  then show ?thesis using retires_with_inv [OF inv] by (simp add: StartShortcut)
next
  case ClearShortcuts
  have "retires_with s (clear_shortcuts s)" by (auto simp: clear_shortcuts_def retires_with_def retired_at_def)
  then show ?thesis using retires_with_inv [OF inv] by (simp add: ClearShortcuts)
next
  case DisposeShortcuts
  have "leaves_fences s (dispose_shortcuts s)" by (simp add: leaves_fences_def dispose_shortcuts_def)
  then show ?thesis using retires_with_inv [OF inv] retires_leaves by (simp add: DisposeShortcuts)
qed (use retires_with_inv [OF inv] retires_leaves [OF leaves_dispatch] retires_leaves [OF leaves_settle] retires_release in simp_all)

interpretation recorded: guarded_machine shortcut_run recorded_inv
  by unfold_locales (rule retires_run)

section \<open>A press, a second press, and a reload\<close>

definition frame_a :: overlay_frame where
  "frame_a = \<lparr>fi_roleId = ''a'', fi_generation = 1, fi_frameToken = ''f'', fi_documentInstanceId = ''d''\<rparr>"

definition surface_a :: shortcut_surface where
  "surface_a = \<lparr>ss_roleId = ''a'', ss_tabId = ''t'', ss_surfaceGeneration = 1, ss_documentInstanceId = ''d'', ss_ownerGeneration = 1\<rparr>"

definition press_of :: "string \<Rightarrow> shortcut_request" where
  "press_of y = \<lparr>sr_code = ''KeyQ'', sr_macroId = ''m'', sr_modifierCodes = [], sr_phase = KeyDownPhase, sr_shortcutCycleId = y\<rparr>"

text \<open>The payload a request is sent as.\<close>

definition request_payload :: "shortcut_request \<Rightarrow> shortcut_payload" where
  "request_payload rq = SvRecord [(''code'', SvString (sr_code rq)), (''macroId'', SvString (sr_macroId rq)),
     (''modifierCodes'', SvArray (map Some (sr_modifierCodes rq))),
     (''phase'', SvString (case sr_phase rq of KeyDownPhase \<Rightarrow> ''keyDown'' | KeyUpPhase \<Rightarrow> ''keyUp'')),
     (''shortcutCycleId'', SvString (sr_shortcutCycleId rq))]"

definition accepted_a :: "string \<Rightarrow> phase_receipt" where
  "accepted_a y = \<lparr>pr_operationId = ''p'', pr_roleId = ''a'', pr_tabId = ''t'', pr_surfaceGeneration = 1, pr_documentInstanceId = ''d'',
     pr_expectedOwnerGeneration = 1, pr_shortcutCycleId = y, pr_macroId = ''m'', pr_code = ''KeyQ'', pr_phase = KeyDownPhase,
     pr_controlOutcome = NoControl, pr_inputOutcome = AppliedInput, pr_inputErrorCode = None, pr_requestIds = [''r''], pr_status = AcceptedPhase\<rparr>"

definition replacement_a :: replacement_input where
  "replacement_a = \<lparr>ri_document = ''d'', ri_operation = ''o'', ri_role = ''a'', ri_generation = 1\<rparr>"

definition retired_a :: retirement_receipt where
  "retired_a = \<lparr>rr_roleId = ''a'', rr_surfaceGeneration = 1, rr_documentInstanceId = ''d'', rr_terminal = True,
     rr_cleanupRequestIds = [''c''], rr_retiredShortcutCycleIds = [''y'']\<rparr>"

definition press_run :: "shortcut_step list" where
  "press_run = [PhaseCall frame_a (request_payload (press_of ''y'')) (Inr surface_a), StartShortcut ''a'' ''p'']"

definition held_run :: "shortcut_step list" where
  "held_run = press_run @ [SettleShortcut ''a'' (PhaseAnswer (Inr (accepted_a ''y'')))]"

definition reload_run :: "shortcut_step list" where
  "reload_run = held_run @ [PrepareReplacement replacement_a, StartShortcut ''a'' ''p'', ReconcileReplacement replacement_a retired_a]"

section \<open>One press per key\<close>

text \<open>
  C21. In every run, a key of a role has at most one key-down between its admission and Core's answer; while
  that press waits its turn the key holds no cycle, and while Core answers the key holds no cycle but the
  press's own.
\<close>

theorem one_press_per_key:
  assumes run: "s = fold shortcut_run xs no_shortcuts"
  shows "(\<exists>y. filter_mset (\<lambda>p. fst p = k) (queued_presses s + awaiting_presses s) \<subseteq># {#(k, y)#}) \<and>
    ((k, y) \<in># queued_presses s \<longrightarrow> jm_get (sc_active s) k = None) \<and>
    ((k, y) \<in># awaiting_presses s \<longrightarrow> jm_get (sc_active s) k = Some a \<longrightarrow> as_shortcutCycleId a = y)"
proof -
  have inv: "presses_inv s" using shortcuts.run_inv [OF no_shortcuts_inv, of xs] by (simp add: run)
  have ok: "presses_ok (queued_presses s) (awaiting_presses s) (sc_pendingKeyDowns s) (jm_get (sc_active s))"
    using inv by (simp add: presses_inv_def)
  moreover have "jm_wf (sc_pendingKeyDowns s)" using ok by (simp add: presses_ok_def)
  ultimately show ?thesis using mset_of_key [of "sc_pendingKeyDowns s" k] unfolding presses_ok_def by (metis (no_types))
qed

theorem one_press_per_key_witness:
  "let s = fold shortcut_run press_run no_shortcuts; k = (''a'', ''m'', ''KeyQ'')
   in jm_get (sc_active s) k \<noteq> None \<and> map_option as_shortcutCycleId (jm_get (sc_active s) k) = Some ''y''"
proof -
  let ?s = "fold shortcut_run press_run no_shortcuts" and ?k = "(''a'', ''m'', ''KeyQ'')"
  let ?a = "active_entry surface_a (press_of ''y'') Provisional"
  have "jm_get (sc_active ?s) ?k = Some ?a" by code_simp
  moreover have "(?k, ''y'') \<in># awaiting_presses ?s" by code_simp
  ultimately show ?thesis using one_press_per_key [OF refl, of ?k press_run "''y''" ?a] by (simp add: Let_def)
qed

section \<open>A document replaced\<close>

text \<open>
  C22. The replacement of a document is committed only under its fence, with Core's retirement of the old
  document recorded; and when that happened after the fence had been prepared, the role holds no shortcut
  cycle and Core is asked for none, so the new document starts with no key of the old one held.
\<close>

theorem replacement_clears_role:
  assumes run: "s = fold shortcut_run xs no_shortcuts" and commit: "commitDocumentReplacement i s"
  shows "\<exists>f. matching_fence i s = Some f \<and> RetirementRecorded (rf_object f) \<in> set (sc_log s) \<and>
    (reconciled_ok (rf_object f) (sc_log s) \<longrightarrow> no_active_of (ri_role i) s \<and> core_idle (ri_role i) s)"
proof -
  obtain f where fence: "matching_fence i s = Some f" and ret: "retired_at (ri_role i) (ri_operation i) s"
    using commit by (auto simp: commitDocumentReplacement_def can_commit_def retired_at_def)
  have "recorded_inv no_shortcuts" by (simp add: recorded_inv_def retired_at_def no_shortcuts_def)
  then have rec: "recorded_inv s" using recorded.run_inv [of no_shortcuts xs] by (simp add: run)
  have "shortcuts_good s" using fenced.run_inv [OF no_shortcuts_good, of xs] by (simp add: run)
  then have inv: "fences_inv s" by (simp add: shortcuts_good_def)
  have "fence_at (ri_role i) (ri_operation i) s = Some f"
    using fence by (auto simp: matching_fence_def split: option.splits if_splits)
  then have "RetirementRecorded (rf_object f) \<in> set (sc_log s)" and "fence_ok (ri_role i) f s"
    using rec ret fences_invD(1) [OF inv] unfolding recorded_inv_def by fastforce+
  then show ?thesis using fence reconciled_prepared [of "rf_object f" "sc_log s"] by (auto simp: fence_ok_def)
qed

theorem replacement_clears_role_witness:
  "let s = fold shortcut_run reload_run no_shortcuts; h = fold shortcut_run held_run no_shortcuts
   in commitDocumentReplacement replacement_a s \<and> \<not> no_active_of ''a'' h \<and> no_active_of ''a'' s"
proof -
  let ?s = "fold shortcut_run reload_run no_shortcuts" and ?h = "fold shortcut_run held_run no_shortcuts"
  let ?f = "\<lparr>rf_object = 0, rf_documentInstanceId = ''d'', rf_operationId = ''o'', rf_surfaceGeneration = 1\<rparr>"
  have f: "matching_fence replacement_a ?s = Some ?f" by code_simp
  have r: "reconciled_ok (rf_object ?f) (sc_log ?s)" by code_simp
  have c: "commitDocumentReplacement replacement_a ?s" by code_simp
  from replacement_clears_role [OF refl c] f r have "no_active_of (ri_role replacement_a) ?s" by auto
  then have s: "no_active_of ''a'' ?s" by (simp add: replacement_a_def)
  have "jm_get (sc_active ?h) (''a'', ''m'', ''KeyQ'') = Some (active_entry surface_a (press_of ''y'') Held)" by code_simp
  moreover have "as_roleId (active_entry surface_a (press_of ''y'') Held) = ''a''" by (simp add: active_entry_def surface_a_def)
  ultimately have "\<not> no_active_of ''a'' ?h" unfolding no_active_of_def by metis
  then show ?thesis using s c by (simp add: Let_def)
qed


section \<open>Requests that pass the trust boundary\<close>

text \<open>What a request is once parsed.\<close>

definition typed_request :: "shortcut_request \<Rightarrow> bool" where
  "typed_request rq \<longleftrightarrow> valid_identifier (sr_code rq) 64 \<and> valid_identifier (sr_macroId rq) 256 \<and>
     valid_identifier (sr_shortcutCycleId rq) 160 \<and> length (sr_modifierCodes rq) \<le> 4 \<and>
     distinct (sr_modifierCodes rq) \<and> set (sr_modifierCodes rq) \<subseteq> set allowed_modifiers"

lemma allowed_codes_Some: "allowed_codes vs \<Longrightarrow> \<exists>cs. vs = map Some cs"
proof (induction vs)
  case (Cons v vs)
  then have "allowed_codes vs" "v \<noteq> None" by (auto simp: allowed_codes_def split: option.splits)
  then obtain cs c where "vs = map Some cs" "v = Some c" using Cons.IH by blast
  then have "v # vs = map Some (c # cs)" by simp
  then show ?case by (rule exI)
qed simp

lemma allowed_codes_map:
  "allowed_codes (map Some cs) \<longleftrightarrow> length cs \<le> 4 \<and> distinct cs \<and> set cs \<subseteq> set allowed_modifiers"
  by (auto simp: allowed_codes_def distinct_map list_all_iff)

lemma map_filter_Some [simp]: "List.map_filter id (map Some cs) = cs"
  by (induction cs) (auto simp: List.map_filter_def)



section \<open>Held on Core's word\<close>

text \<open>An active cycle that is held was asked of Core and accepted by an exact receipt.\<close>

definition held_by_receipt :: "shortcut_event list \<Rightarrow> shortcut_key \<Rightarrow> active_shortcut \<Rightarrow> bool" where
  "held_by_receipt es k a \<longleftrightarrow> (\<exists>op u rq r. CoreAsked op u rq \<in> set es \<and> ShortcutAnswered (ss_roleId u) (Inr r) \<in> set es \<and>
     exactReceipt r op u rq \<and> pr_status r = AcceptedPhase \<and> pr_inputOutcome r = AppliedInput \<and> sr_phase rq = KeyDownPhase \<and>
     k = request_key u rq \<and> a = active_entry u rq Held)"

definition held_inv :: "shortcut_state \<Rightarrow> bool" where
  "held_inv s \<longleftrightarrow> (\<forall>k a. jm_get (sc_active s) k = Some a \<longrightarrow> as_state a = Held \<longrightarrow> held_by_receipt (sc_log s) k a) \<and>
     (\<forall>q op u rq. jm_get (sc_running s) q = Some (AwaitingCore op u rq) \<longrightarrow> CoreAsked op u rq \<in> set (sc_log s))"

text \<open>A step that holds no cycle anew and asks Core nothing.\<close>

definition unheld :: "shortcut_state \<Rightarrow> shortcut_state \<Rightarrow> bool" where
  "unheld s t \<longleftrightarrow> set (sc_log s) \<subseteq> set (sc_log t) \<and>
     (\<forall>k a. jm_get (sc_active t) k = Some a \<longrightarrow> as_state a = Held \<longrightarrow> jm_get (sc_active s) k = Some a) \<and>
     (\<forall>q op u rq. jm_get (sc_running t) q = Some (AwaitingCore op u rq) \<longrightarrow> jm_get (sc_running s) q = Some (AwaitingCore op u rq))"

lemma unheld_refl [simp]: "unheld s s"
  by (simp add: unheld_def)

lemma unheld_trans: "unheld s t \<Longrightarrow> unheld t u \<Longrightarrow> unheld s u"
  unfolding unheld_def by (metis subset_trans)

lemma held_mono: "held_by_receipt es k a \<Longrightarrow> set es \<subseteq> set fs \<Longrightarrow> held_by_receipt fs k a"
  unfolding held_by_receipt_def by blast

lemma unheld_inv: "held_inv s \<Longrightarrow> unheld s t \<Longrightarrow> held_inv t"
  unfolding held_inv_def unheld_def using held_mono [of "sc_log s" _ _ "sc_log t"] by (metis subsetD)

lemma unheld_end_dispatch: "unheld s (end_dispatch u rq out s)"
  by (auto simp: unheld_def end_dispatch_def Let_def shortcut_event_def end_shortcut_job_def)

lemma unheld_cycle: "unheld s (retireExactCycle k y s)" "unheld s (mark_uncertain k y s)"
  by (auto simp: unheld_def retireExactCycle_def mark_uncertain_def split: option.split)

lemma unheld_event: "unheld s (shortcut_event e s)"
  by (auto simp: unheld_def shortcut_event_def)

lemma unheld_forget: "jm_wf (sc_active s) \<Longrightarrow> unheld s (forget_document q g d s)"
  using filter_get [of "sc_active s"] by (auto simp: unheld_def forget_document_def)

lemma unheld_same: "sc_active t = sc_active s \<Longrightarrow> sc_running t = sc_running s \<Longrightarrow> set (sc_log s) \<subseteq> set (sc_log t) \<Longrightarrow> unheld s t"
  by (simp add: unheld_def)

lemma unheld_ask: "unheld s (ask_retirement q g as ds s)"
  by (auto simp: unheld_def ask_retirement_def shortcut_event_def end_shortcut_job_def split: list.split)

lemma unheld_settle_retirement: "jm_wf (sc_active s) \<Longrightarrow> unheld s (settle_retirement q g as ds out s)"
  using unheld_trans [OF unheld_forget unheld_ask]
  by (auto simp: settle_retirement_def split: list.split sum.split) (auto simp: unheld_def shortcut_event_def end_shortcut_job_def)


lemma settle_dispatch_held:
  assumes inv: "held_inv s" and run: "jm_get (sc_running s) (ss_roleId u) = Some (AwaitingCore op u rq)"
  shows "held_inv (settle_dispatch op u rq out s)"
proof -
  have asked: "CoreAsked op u rq \<in> set (sc_log s)" using inv run by (auto simp: held_inv_def)
  have held: "held_inv (end_dispatch u rq (Inr r) (s\<lparr>sc_active := jm_set (request_key u rq) (active_entry u rq Held) (sc_active s)\<rparr>))"
    (is "held_inv ?t")
    if r: "exactReceipt r op u rq" "pr_status r = AcceptedPhase" "pr_inputOutcome r = AppliedInput" "sr_phase rq = KeyDownPhase" for r
  proof -
    have log: "sc_log ?t = ShortcutAnswered (ss_roleId u) (Inr r) # sc_log s"
      and act: "jm_get (sc_active ?t) = (jm_get (sc_active s))(request_key u rq \<mapsto> active_entry u rq Held)"
      and running: "jm_get (sc_running ?t) = (jm_get (sc_running s))(ss_roleId u := None)"
      by (simp_all add: end_dispatch_def Let_def shortcut_event_def end_shortcut_job_def)
    have "held_by_receipt (sc_log ?t) (request_key u rq) (active_entry u rq Held)"
      unfolding held_by_receipt_def log using r asked by (metis list.set_intros(1,2))
    moreover have "held_by_receipt (sc_log ?t) k a" if "jm_get (sc_active s) k = Some a" "as_state a = Held" for k a
      using inv that held_mono [of "sc_log s" k a "sc_log ?t"] unfolding held_inv_def log by auto
    moreover have "CoreAsked op' u' rq' \<in> set (sc_log ?t)" if "jm_get (sc_running ?t) q = Some (AwaitingCore op' u' rq')" for q op' u' rq'
      using inv that unfolding held_inv_def log running by (auto split: if_splits)
    ultimately show ?thesis unfolding held_inv_def act by (metis fun_upd_apply option.inject)
  qed
  have cycle: "held_inv (end_dispatch u rq out' (retireExactCycle k y s))" "held_inv (end_dispatch u rq out' (mark_uncertain k y s))" for out' k y
    using unheld_inv [OF inv unheld_trans [OF unheld_cycle(1) unheld_end_dispatch]]
      unheld_inv [OF inv unheld_trans [OF unheld_cycle(2) unheld_end_dispatch]] by auto
  show ?thesis
    by (cases out) (simp_all add: settle_dispatch_def Let_def dispatch_failed_def receipt_mismatch_def cycle held)
qed

lemma start_dispatch_held:
  assumes inv: "held_inv s"
  shows "held_inv (start_dispatch op u rq s)"
proof (cases "role_fenced (ss_roleId u) s")
  case True
  then show ?thesis by (simp add: start_dispatch_def unheld_inv [OF inv unheld_end_dispatch])
next
  case False
  have grow: "held_by_receipt (sc_log s) k a \<Longrightarrow> held_by_receipt (CoreAsked op u rq # sc_log s) k a" for k a
    by (erule held_mono) auto
  then show ?thesis
    using inv False
    by (auto simp: start_dispatch_def Let_def held_inv_def shortcut_event_def active_entry_def intro!: grow split: if_splits)
qed

lemma shortcut_run_held:
  assumes inv: "held_inv s" and presses: "presses_inv s"
  shows "held_inv (shortcut_run x s)"
proof -
  have wf: "jm_wf (sc_active s)" using presses by (simp add: presses_inv_def)
  note keeps = unheld_inv [OF inv]
  have release: "unheld t (fst (releaseDocumentReplacementFence i t))" for i t
    by (auto simp: releaseDocumentReplacementFence_def unheld_def split: option.split)
  show ?thesis
  proof (cases x)
    case (PhaseCall i raw surface)
    have "unheld s (fst (dispatch_shortcut i raw surface s))"
      by (rule unheld_same) (auto simp: dispatch_shortcut_def enqueue_shortcut_def split: sum.split)
    then show ?thesis by (simp add: PhaseCall keeps)
  next
    case (PrepareReplacement i)
    have "unheld s (fst (prepareDocumentReplacement i s))"
      by (rule unheld_same) (auto simp: prepareDocumentReplacement_def enqueue_shortcut_def Let_def split: option.split)
    then show ?thesis by (simp add: PrepareReplacement keeps)
  next
    case (ReconcileReplacement i r)
    have "unheld s (forget_document q g d (shortcut_event e (s\<lparr>sc_retirements := m\<rparr>)))" for q g d e m
      by (rule unheld_trans [OF unheld_same unheld_forget]) (auto simp: shortcut_event_def wf)
    then have "unheld s (fst (reconcileDocumentReplacementRetirement i r s))"
      by (simp add: reconcileDocumentReplacementRetirement_def split: option.split)
    then show ?thesis by (simp add: ReconcileReplacement keeps)
  next
    case (RetireSurfaceCall q g reason)
    have "unheld s (fst (retire_surface q g reason s))"
      by (rule unheld_same) (auto simp: retire_surface_def enqueue_shortcut_def)
    then show ?thesis by (simp add: RetireSurfaceCall keeps)
  next
    case (StartShortcut q op)
    let ?s = "s\<lparr>sc_queue := drop_of_role q (sc_queue s)\<rparr>"
    have drop: "held_inv ?s" by (rule keeps) (simp add: unheld_def)
    have "unheld ?s (run_prepare i n ?s)" for i n
      using unheld_event unheld_trans [OF unheld_event release] by (auto simp: run_prepare_def split: sum.split)
    then have prep: "held_inv (run_prepare i n ?s)" for i n by (rule unheld_inv [OF drop])
    have "held_inv (ask_retirement r g as ds ?s)" for r g as ds by (rule unheld_inv [OF drop unheld_ask])
    then have "held_inv (start_shortcut_job q op s)"
      using inv prep start_dispatch_held [OF drop]
      by (simp add: start_shortcut_job_def Let_def start_retirement_def split: option.split shortcut_job.split)
    then show ?thesis by (simp add: StartShortcut)
  next
    case (SettleShortcut q a)
    have role: "ss_roleId u = q" if "jm_get (sc_running s) q = Some (AwaitingCore op u rq)" for op u rq
      using presses that unfolding presses_inv_def by (metis stage_role_ok.simps(1))
    have "held_inv (settle_retirement r g as ds out s)" for r g as ds out
      by (rule keeps [OF unheld_settle_retirement [OF wf]])
    then show ?thesis using inv settle_dispatch_held [OF inv] role
      by (auto simp: SettleShortcut settle_shortcut_def split: option.split shortcut_stage.split shortcut_answer.split)
  next
    case ClearShortcuts
    have "unheld s (clear_shortcuts s)" by (auto simp: unheld_def clear_shortcuts_def)
    then show ?thesis by (simp add: ClearShortcuts keeps)
  next
    case DisposeShortcuts
    have "unheld s (dispose_shortcuts s)" by (auto simp: unheld_def dispose_shortcuts_def)
    then show ?thesis by (simp add: DisposeShortcuts keeps)
  qed (use keeps [OF release] in simp)
qed

definition held_good :: "shortcut_state \<Rightarrow> bool" where
  "held_good s \<longleftrightarrow> presses_inv s \<and> held_inv s"

interpretation held: guarded_machine shortcut_run held_good
  by unfold_locales (simp add: held_good_def shortcut_run_inv shortcut_run_held)

text \<open>
  C23. In every run, a shortcut is taken as held only on Core's word: its key-down was asked of Core and
  answered by a receipt that names exactly this operation, surface, document, cycle, macro and code, was
  accepted and applied.
\<close>

theorem held_on_exact_receipt:
  assumes run: "s = fold shortcut_run xs no_shortcuts" and held: "jm_get (sc_active s) k = Some a" "as_state a = Held"
  shows "held_by_receipt (sc_log s) k a"
proof -
  have "held_good no_shortcuts" using no_shortcuts_inv by (simp add: held_good_def held_inv_def no_shortcuts_def)
  then have "held_good s" using held.run_inv [of no_shortcuts xs] by (simp add: run)
  then show ?thesis using held by (simp add: held_good_def held_inv_def)
qed

theorem held_on_exact_receipt_witness:
  "held_by_receipt (sc_log (fold shortcut_run held_run no_shortcuts)) (''a'', ''m'', ''KeyQ'') (active_entry surface_a (press_of ''y'') Held)"
proof -
  have "jm_get (sc_active (fold shortcut_run held_run no_shortcuts)) (''a'', ''m'', ''KeyQ'') =
      Some (active_entry surface_a (press_of ''y'') Held)" by code_simp
  from held_on_exact_receipt [OF refl this] show ?thesis by (simp add: active_entry_def)
qed

end
