(* ===== verification/Spec2Isabelle.thy ===== *)
theory Spec2Isabelle
  imports
    Session_Ownership
    Sequence_Executor
    Operation_Journal
    Pending_Lane
    Receipt_Reconciliation
    Effect_Receipts
    Workspace_Slots
    Workspace_Resize
    Clean_Exit
    Macro_Graph
    Trusted_Properties
    Recovery_Properties
    Window_Properties
    Shortcut_Properties
begin

text \<open>
  Rion Studio runs browser games for several roles at once and plays macros into them.  Its Electron main
  process (\<open>src/src/electron/main\<close>) owns the windows and the input; the Rust process Core
  (\<open>src/crates/rion-core\<close>) owns the data and asks for effects; the renderer
  (\<open>src/src/renderer\<close>, \<open>src/src/shared\<close>) edits macros and workspaces.  This library models the decisions of
  the main process and of the shared code, and proves what they promise.

  \<^bold>\<open>The parts and their theories.\<close>
  \<^item> \<open>Prelude\<close>: errors as values (\<open>js_error\<close>, \<open>outcome\<close>), JavaScript maps and sets with their insertion order
    (\<open>js_map\<close>, \<open>js_add\<close>), and the interfaces \<open>keyed_store\<close>, \<open>guarded_machine\<close> and \<open>bounded_log\<close>.
  \<^item> \<open>Session_Ownership\<close> (\<open>chromiumSessionOwnershipLedger.ts\<close>, \<open>chromiumSessionPath.ts\<close>): which role owns which
    browser profile.
  \<^item> \<open>Key_Sequence\<close>, \<open>Sequence_Executor\<close>, \<open>Sequence_Bounds\<close> (\<open>chromiumTrustedInputSequenceExecutor.ts\<close> and
    \<open>...Recovery.ts\<close>, \<open>...KeySequence.ts\<close>): one key action of a macro, from Core's plan to the native key events,
    with the compensation and rollback of every failure.
  \<^item> \<open>Embedded_Input\<close> (\<open>embedded_input.rs\<close> of Core): the owners of every held key and the plans made from them.
  \<^item> \<open>Trusted_Coordinator\<close>, \<open>Trusted_Safety\<close>, \<open>Trusted_Lane\<close>, \<open>Trusted_World\<close>, \<open>Trusted_Properties\<close>
    (\<open>chromiumTrustedInputCoordinator.ts\<close>): the lanes that run those actions for every role, remember what may
    still be held, quarantine a role and neutralize it.
  \<^item> \<open>Input_Recovery\<close>, \<open>Recovery_Safety\<close>, \<open>Recovery_Properties\<close>
    (\<open>chromiumAutomaticInputContextCoordinator.ts\<close>): the recovery of a role after its input was blocked or its
    outcome got lost, in step with Core's recovery tickets.
  \<^item> \<open>Managed_Shortcut\<close>, \<open>Shortcut_Safety\<close>, \<open>Shortcut_Fences\<close>, \<open>Shortcut_Properties\<close>
    (\<open>chromiumManagedShortcutCoordinator.ts\<close>): the macros a player holds down with a physical key, their fences
    while a document is replaced, and their retirement; its \<open>retire_surface\<close> is the port
    \<open>retireManagedShortcuts\<close> of the recovery.
  \<^item> \<open>Terminal_Journal\<close>, \<open>Pending_Lane\<close>, \<open>Physical_Evidence\<close>, \<open>Receipt_Reconciliation\<close>
    (\<open>chromiumTrustedInputTerminalJournal.ts\<close>, \<open>...PendingLane.ts\<close>, \<open>chromiumPhysical*Evidence.ts\<close>,
    \<open>...ReceiptReconciliation.ts\<close>): below the coordinator, how one native input is awaited, told apart from the
    player's own keys, matched with the DOM events and recorded.
  \<^item> \<open>Operation_Journal\<close>, \<open>Effect_Lanes\<close>, \<open>Effect_Contract\<close>, \<open>Effect_Coordinator\<close>, \<open>Effect_Receipts\<close>
    (\<open>runtimeOperationJournal.ts\<close>, \<open>coreEffectCoordinator.ts\<close>): the effects Core requests, executed at most once
    and in the order of the lanes they touch, and the results reported back.
  \<^item> \<open>Window_Transition\<close>, \<open>Window_Safety\<close>, \<open>Window_Begin\<close>, \<open>Window_Properties\<close>
    (\<open>chromiumRuntimeOwnershipTransitionCoordinator.ts\<close>): showing, hiding and focusing runtime windows on the
    evidence of their native hosts, with one claim of the process-wide focus.
  \<^item> \<open>Quit_Lifecycle\<close>, \<open>Clean_Exit\<close> (\<open>lifecycle.ts\<close>, \<open>cleanExitCoordinator.ts\<close>): quitting, and the journal entry that
    says the exit was clean.
  \<^item> \<open>Macro_Graph\<close> (\<open>macroDependencies.ts\<close>, \<open>macroExecution.ts\<close> and parts of \<open>macroShortcuts.ts\<close>, \<open>macroUtils.ts\<close>):
    macros that call macros.
  \<^item> \<open>Workspace_Layout\<close>, \<open>Workspace_Slots\<close>, \<open>Workspace_Resize\<close> (\<open>workspaceLayout.ts\<close>, \<open>workspaceLayoutUtils.ts\<close>,
    \<open>workspaceResize.ts\<close>): the geometry and the contents of a workspace.

  \<^bold>\<open>How they interact.\<close>  Core's effect reaches the effect coordinator, which runs a browser action through the
  trusted input coordinator; that lane asks Core's embedded keyboard for a plan and sends each planned key as a
  native request, which waits in the pending lane until reconciliation or a deadline gives it a terminal.  The
  result goes back through the effect coordinator; when Core's answer shows a blocked or lost input, the recovery
  of automatic input takes over, and a neutrality proof of the trusted input coordinator is one way to end it.
  The composition is proved where the code has one: \<open>Trusted_World\<close> runs the coordinator on the model of Core's
  keyboard as \<open>chromiumRuntimeBootstrap.ts\<close> wires them, so that only the native adapter stays a parameter.

  \<^bold>\<open>How the code is modelled.\<close>  A class is a record of its private fields, a method a function from state to
  state and result, with the branches and early returns of the source.  A thrown error is its stable code.
  \<open>Map\<close> and \<open>Set\<close> are lists in insertion order, object identity is a number where the code compares references.
  Integers are \<open>int\<close> with the source's \<open>isSafeInteger\<close> guards; layout numbers are exact rationals, so the
  rounding of doubles is not modelled.  Asynchronous code is cut at its awaits: a component is a state machine
  whose steps are calls, events, answers of ports and the start of queued jobs, and a property holds for every
  sequence of steps.  Two components are coarser: the executor of a key sequence and a job of the trusted input
  coordinator run to their end, and a port there is a function that includes everything that happens until its
  promise settles.  Ghost fields (\<open>ir_log\<close>, \<open>qs_log\<close>, \<open>co_executed\<close>, \<open>resolved\<close>) record what happened for the
  statements and are never read by the modelled code.

  \<^bold>\<open>What is proved.\<close>  Input: a key that a page may still see as held is held in Core's plan or in the lane's own
  bookkeeping, in every reachable state and whatever the adapter loses; neutrality is declared only when no key
  is down; a quarantined role gets no normal input; a recovery is completed only on evidence of neutrality after
  Core drained it, those who wait for a game context are answered exactly once, and the drain of a closed
  coordinator ends.  Core's keyboard refines a counter of owners.  Effects: each is executed at most once, the
  reported result is the one its execution produced, a cancelled effect never starts, conflicting effects never
  overlap and every admitted one can start eventually.  Windows: one effect at a time claims the focus, an effect
  is applied only on exact observations, and a rejection says whether anything was touched.  Below: one terminal per pending input, physical and
  automatic events are accounted for exactly, reconciliation matches the expected events in order.  Life cycle:
  the journal says clean only after everything was fenced and drained, and the process quits only after that or
  after a fatal exit.  Sessions: no profile has two owners.  Macros: the searches compute reachability and what
  the editor offers keeps the call graph acyclic.  Workspaces: the rectangles of every template tile the window,
  splits and rectangles round-trip, roles are never shown twice.

  \<^bold>\<open>Interfaces.\<close>  \<open>guarded_machine\<close> (operations that keep an invariant) is interpreted by every component with a
  state; \<open>bounded_log\<close> by the two journals; \<open>keyed_store\<close> by JavaScript maps; \<open>worklist\<close> by the macro call graph.
  \<open>trusted_ports\<close> is what the trusted input coordinator asks of Core and the adapter; \<open>page_contract\<close> is the
  part of it that stays an assumption once Core's keyboard is the model, and gives the other by \<open>sublocale\<close>;
  \<open>page\<close> is a page whose adapter may lose replies, on which it is interpreted.

  \<^bold>\<open>Bounds.\<close>  Loops over maps and queues are structural; the searches of \<open>Macro_Graph\<close> terminate by a measure on
  the macros not yet visited; nothing runs on fuel.

  \<^bold>\<open>Not modelled.\<close>  Windows, tabs, menus, native hosts and the registries of web contents, which mostly call
  Electron or AppKit; the renderer's components; the rest of Core, written in Rust and tested there; preload
  scripts inside pages; the import of foreign profiles; packaging and test code.  Of the modelled files: the
  window projection fence of the effect coordinator, presentation of the main window, cover images, form names
  and labels of the editors.
\<close>

end
